(* ===== verification/Prelude.thy ===== *)
theory Prelude
  imports Main "HOL-Library.Word"
begin

text \<open>
  What every component of the model shares: the error numbers of
  \<^verbatim>\<open>sys/errno.h\<close> that the modelled code sets, the part of the user area they are
  stored in, 32-bit signed arithmetic, and the collections and small lemmas the
  component theories use.
\<close>

unbundle bit_operations_syntax

section \<open>Collections of facts\<close>

text \<open>
  \<open>kdefs\<close> collects the defining equations of the straight-line operations, so that a
  proof about one of them unfolds it and what it calls with \<open>simp add: kdefs\<close>.
\<close>

named_theorems kdefs "defining equations of the straight-line kernel operations"

section \<open>Error numbers\<close>

datatype errno =
    E_NONE | EPERM | ENOENT | EINTR | ENXIO | E2BIG | EBADF | EAGAIN | ENOMEM | EACCES | EFAULT
  | EEXIST | ENODEV | ENOTDIR | EISDIR | EINVAL | ENFILE | EMFILE | ETXTBSY | EFBIG | ENOSPC
  | EIO | EROFS | EPIPE | ERANGE | ENOMSG | EIDRM | EDEADLK | ENOLCK | EXDEV | ESPIPE | ENOTBLK | EBUSY

text \<open>
  The error cell \<open>u.u_error\<close> of the user area; \<open>E_NONE\<close> is the value 0. Every component's
  state extends this record, so \<open>set_user_error\<close> applies to all of them.
\<close>

record ustate =
  u_error :: errno

definition set_user_error :: "errno \<Rightarrow> 'a ustate_scheme \<Rightarrow> 'a ustate_scheme" where
  "set_user_error e s = s\<lparr>u_error := e\<rparr>"

lemma u_error_set_user_error [simp]: "u_error (set_user_error e s) = e"
  by (simp add: set_user_error_def)

lemma set_user_error_more [simp]: "ustate.more (set_user_error e s) = ustate.more s"
  by (simp add: set_user_error_def)

section \<open>32-bit signed arithmetic\<close>

text \<open>
  A C \<open>long\<close> or \<open>int\<close> on the 386 has 32 bits. \<open>wrap32\<close> is the value that is stored when
  an expression's mathematical value is \<open>x\<close>.
\<close>

definition wrap32 :: "int \<Rightarrow> int" where
  "wrap32 x = (x + 2147483648) mod 4294967296 - 2147483648"

lemma wrap32_id [simp]: "- 2147483648 \<le> x \<Longrightarrow> x \<le> 2147483647 \<Longrightarrow> wrap32 x = x"
  by (simp add: wrap32_def)

lemma wrap32_range: "- 2147483648 \<le> wrap32 x \<and> wrap32 x \<le> 2147483647"
proof -
  have "0 \<le> (x + 2147483648) mod 4294967296" "(x + 2147483648) mod 4294967296 < 4294967296"
    by simp_all
  then show ?thesis unfolding wrap32_def by linarith
qed

text \<open>A 16-bit \<open>short\<close> and an \<open>unsigned short\<close>.\<close>

definition wrap16 :: "int \<Rightarrow> int" where
  "wrap16 x = (x + 32768) mod 65536 - 32768"

definition uwrap16 :: "int \<Rightarrow> int" where
  "uwrap16 x = x mod 65536"

lemma wrap16_id [simp]: "- 32768 \<le> x \<Longrightarrow> x \<le> 32767 \<Longrightarrow> wrap16 x = x"
  by (simp add: wrap16_def)

lemma uwrap16_id [simp]: "0 \<le> x \<Longrightarrow> x \<le> 65535 \<Longrightarrow> uwrap16 x = x"
  by (simp add: uwrap16_def)

lemma uwrap16_range: "0 \<le> uwrap16 x \<and> uwrap16 x \<le> 65535"
  unfolding uwrap16_def by (smt (verit) pos_mod_bound pos_mod_sign)

section \<open>Lists\<close>

lemma map_update_same: "n < length xs \<Longrightarrow> (map f xs)[n := f (xs ! n)] = map f xs"
  by (metis list_update_id nth_map)

section \<open>Access-mode bits of sys/file.h\<close>

abbreviation (input) IPR :: int where "IPR \<equiv> 4"
abbreviation (input) IPW :: int where "IPW \<equiv> 2"
abbreviation (input) IPE :: int where "IPE \<equiv> 1"

section \<open>Sleeping\<close>

text \<open>
  A process that sleeps lets others run. The sleeping operations take a list with one entry for
  each sleep: what the others do to the shared state meanwhile, and whether a signal ends the
  sleep. \<open>rely P env\<close>: the others keep \<open>P\<close>.
\<close>

definition rely :: "('a \<Rightarrow> bool) \<Rightarrow> (('a \<Rightarrow> 'a) \<times> bool) list \<Rightarrow> bool" where
  "rely P env \<longleftrightarrow> (\<forall>e\<in>set env. \<forall>s. P s \<longrightarrow> P (fst e s))"

lemma rely_simps [simp]:
  "rely P []" "rely P (e # env) \<longleftrightarrow> (\<forall>s. P s \<longrightarrow> P (fst e s)) \<and> rely P env"
  by (auto simp: rely_def)

end
