(* ===== verification/Credentials.thy ===== *)
theory Credentials
  imports Prelude
begin

text \<open>
  Process credentials, \<^verbatim>\<open>kernel/coh.386/lib/cred_*.c\<close>, the privilege test \<open>super\<close> of
  \<^verbatim>\<open>misc.c\<close>, and the permission checks of System V IPC, \<^verbatim>\<open>lib/ipc_*.c\<close>. Credentials and
  supplementary group lists are reference-counted objects in kernel memory; a credential that
  has other holders is copied before it is changed. Addresses are natural numbers, 0 is NULL;
  the results of \<open>kmem_zalloc\<close> are arguments.
\<close>

section \<open>Data\<close>

record cred =
  cr_ref :: int        \<comment> \<open>unsigned short\<close>
  cr_ngroups :: int    \<comment> \<open>unsigned short\<close>
  cr_uid :: int
  cr_gid :: int
  cr_ruid :: int
  cr_rgid :: int
  cr_suid :: int
  cr_sgid :: int
  cr_groups :: nat

text \<open>A group list has its reference count in the element before the first member.\<close>

record cred_state = ustate +
  u_asu :: bool                                 \<comment> \<open>\<open>ASU\<close> in \<open>u.u_flag\<close>\<close>
  p_credp :: nat                                \<comment> \<open>\<open>SELF->p_credp\<close>\<close>
  cred_mem :: "nat \<Rightarrow> cred option"
  groups_mem :: "nat \<Rightarrow> (int \<times> int list) option"

definition cred_at :: "'a cred_state_scheme \<Rightarrow> nat \<Rightarrow> cred" where
  "cred_at s p = the (cred_mem s p)"

definition upd_cred :: "(cred \<Rightarrow> cred) \<Rightarrow> nat \<Rightarrow> 'a cred_state_scheme \<Rightarrow> 'a cred_state_scheme" where
  "upd_cred f p s = s\<lparr>cred_mem := (cred_mem s)(p := map_option f (cred_mem s p))\<rparr>"

section \<open>Group lists\<close>

definition groups_alloc :: "nat \<Rightarrow> int \<Rightarrow> 'a cred_state_scheme \<Rightarrow> nat \<times> 'a cred_state_scheme" where
  "groups_alloc mem ngroups s =
     (if mem = 0 then (0, s)
      else (mem, s\<lparr>groups_mem := (groups_mem s)(mem \<mapsto> (1, replicate (nat ngroups) 0))\<rparr>))"

definition groups_ref :: "nat \<Rightarrow> 'a cred_state_scheme \<Rightarrow> 'a cred_state_scheme" where
  "groups_ref g s =
     s\<lparr>groups_mem := (groups_mem s)(g := map_option (\<lambda>(n, gs). (wrap32 (n + 1), gs)) (groups_mem s g))\<rparr>"

definition groups_unref :: "nat \<Rightarrow> 'a cred_state_scheme \<Rightarrow> 'a cred_state_scheme" where
  "groups_unref g s =
     (case groups_mem s g of
        None \<Rightarrow> s
      | Some (n, gs) \<Rightarrow>
          s\<lparr>groups_mem := (groups_mem s)
             (g := if wrap32 (n - 1) = 0 then None else Some (wrap32 (n - 1), gs))\<rparr>)"

section \<open>Credentials\<close>

definition cred_alloc :: "nat \<Rightarrow> 'a cred_state_scheme \<Rightarrow> nat \<times> 'a cred_state_scheme" where
  "cred_alloc mem s =
     (if mem = 0 then (0, s)
      else (mem, s\<lparr>cred_mem := (cred_mem s)
         (mem \<mapsto> \<lparr>cr_ref = 1, cr_ngroups = 0, cr_uid = 0, cr_gid = 0, cr_ruid = 0, cr_rgid = 0,
                 cr_suid = 0, cr_sgid = 0, cr_groups = 0\<rparr>)\<rparr>))"

definition cred_ref :: "nat \<Rightarrow> 'a cred_state_scheme \<Rightarrow> 'a cred_state_scheme" where
  "cred_ref p s = upd_cred (\<lambda>c. c\<lparr>cr_ref := uwrap16 (cr_ref c + 1)\<rparr>) p s"

definition cred_unref :: "nat \<Rightarrow> 'a cred_state_scheme \<Rightarrow> 'a cred_state_scheme" where
  "cred_unref p s =
     (let s1 = upd_cred (\<lambda>c. c\<lparr>cr_ref := uwrap16 (cr_ref c - 1)\<rparr>) p s in
      if cr_ref (cred_at s1 p) \<noteq> 0 then s1
      else
        let s2 = (if cr_ngroups (cred_at s1 p) > 0 then groups_unref (cr_groups (cred_at s1 p)) s1 else s1)
        in s2\<lparr>cred_mem := (cred_mem s2)(p := None)\<rparr>)"

definition cred_copy :: "nat \<Rightarrow> nat \<Rightarrow> 'a cred_state_scheme \<Rightarrow> nat \<times> 'a cred_state_scheme" where
  "cred_copy mem p s =
     (case cred_alloc mem s of
        (newp, s1) \<Rightarrow>
          if newp = 0 then (0, s1)
          else
            let s2 = s1\<lparr>cred_mem := (cred_mem s1)(newp \<mapsto> (cred_at s1 p)\<lparr>cr_ref := 1\<rparr>)\<rparr>;
                s3 = (if cr_ngroups (cred_at s2 newp) > 0 then groups_ref (cr_groups (cred_at s2 newp)) s2
                      else s2)
            in (newp, cred_unref p s3))"

text \<open>The common start of the routines that change a credential.\<close>

definition own_copy :: "nat \<Rightarrow> nat \<Rightarrow> 'a cred_state_scheme \<Rightarrow> nat \<times> 'a cred_state_scheme" where
  "own_copy mem p s = (if cr_ref (cred_at s p) > 1 then cred_copy mem p s else (p, s))"

definition change_cred ::
  "(cred \<Rightarrow> cred) \<Rightarrow> nat \<Rightarrow> nat \<Rightarrow> 'a cred_state_scheme \<Rightarrow> nat \<times> 'a cred_state_scheme" where
  "change_cred f mem p s =
     (case own_copy mem p s of (q, s1) \<Rightarrow> if q = 0 then (0, s1) else (q, upd_cred f q s1))"

definition cred_execid :: "nat \<Rightarrow> nat \<Rightarrow> int \<Rightarrow> int \<Rightarrow> 'a cred_state_scheme \<Rightarrow> nat \<times> 'a cred_state_scheme" where
  "cred_execid mem p uid gid s =
     change_cred (\<lambda>c. c\<lparr>cr_uid := uid, cr_suid := uid, cr_gid := gid, cr_sgid := gid\<rparr>) mem p s"

definition cred_newgid :: "nat \<Rightarrow> nat \<Rightarrow> int \<Rightarrow> 'a cred_state_scheme \<Rightarrow> nat \<times> 'a cred_state_scheme" where
  "cred_newgid mem p gid s =
     change_cred (\<lambda>c. c\<lparr>cr_gid := gid, cr_rgid := gid, cr_sgid := gid\<rparr>) mem p s"

definition cred_newegid :: "nat \<Rightarrow> nat \<Rightarrow> int \<Rightarrow> 'a cred_state_scheme \<Rightarrow> nat \<times> 'a cred_state_scheme" where
  "cred_newegid mem p gid s = change_cred (\<lambda>c. c\<lparr>cr_gid := gid\<rparr>) mem p s"

definition cred_newuid :: "nat \<Rightarrow> nat \<Rightarrow> int \<Rightarrow> 'a cred_state_scheme \<Rightarrow> nat \<times> 'a cred_state_scheme" where
  "cred_newuid mem p uid s =
     change_cred (\<lambda>c. c\<lparr>cr_uid := uid, cr_ruid := uid, cr_suid := uid\<rparr>) mem p s"

definition cred_neweuid :: "nat \<Rightarrow> nat \<Rightarrow> int \<Rightarrow> 'a cred_state_scheme \<Rightarrow> nat \<times> 'a cred_state_scheme" where
  "cred_neweuid mem p uid s = change_cred (\<lambda>c. c\<lparr>cr_uid := uid\<rparr>) mem p s"

definition cred_setgrp ::
  "nat \<Rightarrow> nat \<Rightarrow> nat \<Rightarrow> int \<Rightarrow> 'a cred_state_scheme \<Rightarrow> nat \<times> 'a cred_state_scheme" where
  "cred_setgrp gmem mem p ngroups s =
     (case (if ngroups > 0 then groups_alloc gmem ngroups s else (0, s)) of
        (newgroups, s1) \<Rightarrow>
          if ngroups > 0 \<and> newgroups = 0 then (0, s1)
          else
            case own_copy mem p s1 of
              (q, s2) \<Rightarrow>
                if q = 0 then (0, if newgroups \<noteq> 0 then groups_unref newgroups s2 else s2)
                else
                  let s3 = (if cr_ngroups (cred_at s2 q) \<noteq> 0
                            then groups_unref (cr_groups (cred_at s2 q)) s2 else s2)
                  in (q, upd_cred (\<lambda>c. c\<lparr>cr_ngroups := ngroups, cr_groups := newgroups\<rparr>) q s3))"

text \<open>\<open>cred_fake\<close> fills a structure of the caller's from the real ids of \<open>src\<close>.\<close>

definition cred_fake :: "cred \<Rightarrow> cred \<Rightarrow> cred" where
  "cred_fake dest src =
     dest\<lparr>cr_ref := 0, cr_uid := cr_ruid src, cr_gid := cr_rgid src,
          cr_ngroups := cr_ngroups src, cr_groups := cr_groups src\<rparr>"

section \<open>Matching\<close>

abbreviation (input) CRED_OTHER :: nat where "CRED_OTHER \<equiv> 0"
abbreviation (input) CRED_GROUP :: nat where "CRED_GROUP \<equiv> 1"
abbreviation (input) CRED_OWNER :: nat where "CRED_OWNER \<equiv> 2"

definition PERM_EXTRACT :: "int \<Rightarrow> nat \<Rightarrow> int" where
  "PERM_EXTRACT mode lvl = drop_bit (lvl * 3) mode"

definition cred_match :: "cred \<Rightarrow> int list \<Rightarrow> int \<Rightarrow> int \<Rightarrow> nat" where
  "cred_match c groups uid gid =
     (if cr_uid c = uid then CRED_OWNER
      else if cr_gid c = gid then CRED_GROUP
      else if gid \<in> set (take (nat (cr_ngroups c)) groups) then CRED_GROUP
      else CRED_OTHER)"

definition super :: "'a cred_state_scheme \<Rightarrow> bool \<times> 'a cred_state_scheme" where
  "super s =
     (if cr_uid (cred_at s (p_credp s)) \<noteq> 0 then (False, s\<lparr>u_error := EPERM\<rparr>)
      else (True, s\<lparr>u_asu := True\<rparr>))"

definition owner :: "int \<Rightarrow> 'a cred_state_scheme \<Rightarrow> bool \<times> 'a cred_state_scheme" where
  "owner uid s = (if cr_uid (cred_at s (p_credp s)) = uid then (True, s) else super s)"

definition drv_priv :: "cred \<Rightarrow> bool" where
  "drv_priv c = (cr_uid c = 0)"

section \<open>IPC permissions\<close>

record ipc_perm =
  ip_uid :: int
  ip_gid :: int
  ip_cuid :: int
  ip_cgid :: int
  ip_mode :: int
  ip_seq :: int
  ip_key :: int

abbreviation (input) IPC_ALLOC :: int where "IPC_ALLOC \<equiv> 32768"
abbreviation (input) IPC_CREAT :: int where "IPC_CREAT \<equiv> 512"
abbreviation (input) IPC_EXCL :: int where "IPC_EXCL \<equiv> 1024"
abbreviation (input) IPC_NOWAIT :: int where "IPC_NOWAIT \<equiv> 2048"
abbreviation (input) IPC_PRIVATE :: int where "IPC_PRIVATE \<equiv> 0"
abbreviation (input) IRWXUGO :: int where "IRWXUGO \<equiv> 511"
abbreviation (input) IRUGO :: int where "IRUGO \<equiv> 292"
abbreviation (input) IWUGO :: int where "IWUGO \<equiv> 146"
abbreviation (input) IREAD :: int where "IREAD \<equiv> 256"
abbreviation (input) IWRITE :: int where "IWRITE \<equiv> 128"

definition ipc_cred_match :: "ipc_perm \<Rightarrow> 'a cred_state_scheme \<Rightarrow> nat \<times> 'a cred_state_scheme" where
  "ipc_cred_match ipcp s =
     (let c = cred_at s (p_credp s) in
      if cr_uid c = ip_uid ipcp \<or> cr_uid c = ip_cuid ipcp then (CRED_OWNER, s)
      else if cr_gid c = ip_gid ipcp \<or> cr_gid c = ip_cgid ipcp then (CRED_GROUP, s)
      else case super s of
             (True, s1) \<Rightarrow> (CRED_OWNER, s1)
           | (False, s1) \<Rightarrow> (CRED_OTHER, s1\<lparr>u_error := u_error s\<rparr>))"

definition ipc_lack_perm :: "ipc_perm \<Rightarrow> int \<Rightarrow> 'a cred_state_scheme \<Rightarrow> bool \<times> 'a cred_state_scheme" where
  "ipc_lack_perm ipcp mode s =
     (if mode AND IRWXUGO = 0 then (False, s)
      else
        case ipc_cred_match ipcp s of
          (lvl, s1) \<Rightarrow>
            let m = PERM_EXTRACT mode lvl AND 7 in
            if m \<noteq> 0 \<and> PERM_EXTRACT (ip_mode ipcp) lvl AND m = m then (False, s1)
            else case super s1 of
                   (True, s2) \<Rightarrow> (False, s2)
                 | (False, s2) \<Rightarrow> (True, s2\<lparr>u_error := EACCES\<rparr>))"

definition ipc_perm_init :: "ipc_perm \<Rightarrow> int \<Rightarrow> 'a cred_state_scheme \<Rightarrow> ipc_perm" where
  "ipc_perm_init ipcp mode s =
     (let c = cred_at s (p_credp s) in
      ipcp\<lparr>ip_uid := cr_uid c, ip_cuid := cr_uid c, ip_gid := cr_gid c, ip_cgid := cr_gid c,
           ip_mode := (mode AND IRWXUGO) OR IPC_ALLOC\<rparr>)"

lemmas ipc_perm_defs = ipc_lack_perm_def ipc_cred_match_def super_def

text \<open>What the checks leave alone: only the error cell and the accounting flag change.\<close>

definition same_kernel :: "'a cred_state_scheme \<Rightarrow> 'a cred_state_scheme \<Rightarrow> bool" where
  "same_kernel s s' \<longleftrightarrow>
     s'\<lparr>u_error := E_NONE, u_asu := False\<rparr> = s\<lparr>u_error := E_NONE, u_asu := False\<rparr>"

lemma same_kernel_refl [simp]: "same_kernel s s"
  by (simp add: same_kernel_def)

lemma same_kernel_trans: "same_kernel s t \<Longrightarrow> same_kernel t u \<Longrightarrow> same_kernel s u"
  by (simp add: same_kernel_def)

lemma same_kernel_error: "same_kernel s t \<Longrightarrow> same_kernel s (t\<lparr>u_error := e\<rparr>)"
  by (simp add: same_kernel_def)

lemma super_result: "super s = (cr_uid (cred_at s (p_credp s)) = 0, snd (super s)) \<and> same_kernel s (snd (super s))"
  by (simp add: super_def same_kernel_def)

lemma same_kernel_creds:
  "same_kernel s t \<Longrightarrow> p_credp t = p_credp s \<and> cred_mem t = cred_mem s \<and> groups_mem t = groups_mem s"
  unfolding same_kernel_def
  by (drule arg_cong [of _ _ "\<lambda>s. (p_credp s, cred_mem s, groups_mem s)"]) simp

definition priv :: "'a cred_state_scheme \<Rightarrow> bool" where
  "priv s = (cr_uid (cred_at s (p_credp s)) = 0)"

definition ipc_level :: "ipc_perm \<Rightarrow> cred \<Rightarrow> nat" where
  "ipc_level ipcp c =
     (if cr_uid c = ip_uid ipcp \<or> cr_uid c = ip_cuid ipcp then CRED_OWNER
      else if cr_gid c = ip_gid ipcp \<or> cr_gid c = ip_cgid ipcp then CRED_GROUP
      else if cr_uid c = 0 then CRED_OWNER else CRED_OTHER)"

lemma ipc_cred_match_result:
  "fst (ipc_cred_match ipcp s) = ipc_level ipcp (cred_at s (p_credp s)) \<and>
   same_kernel s (snd (ipc_cred_match ipcp s)) \<and> u_error (snd (ipc_cred_match ipcp s)) = u_error s"
proof (cases "super s")
  case (Pair b s1)
  then have "b = (cr_uid (cred_at s (p_credp s)) = 0)" "same_kernel s s1"
    "b \<Longrightarrow> u_error s1 = u_error s"
    using super_result [of s] by (auto simp: super_def split: if_splits)
  then show ?thesis
    by (simp add: ipc_cred_match_def ipc_level_def Let_def Pair same_kernel_error split: bool.split)
qed

lemma ipc_lack_perm_same: "same_kernel s (snd (ipc_lack_perm ipcp mode s))"
proof (cases "ipc_cred_match ipcp s")
  case (Pair lvl s1)
  then have k: "same_kernel s s1" using ipc_cred_match_result [of ipcp s] by simp
  then have "same_kernel s (snd (super s1))" using super_result same_kernel_trans by blast
  with k show ?thesis
    by (cases "super s1") (simp add: ipc_lack_perm_def Let_def Pair same_kernel_error split: bool.split)
qed

text \<open>
  The decision of \<open>ipc_lack_perm\<close>: access is given when nothing is asked for, to the
  super-user, and to whoever's class has every bit asked for, of which there is at least one.
\<close>

lemma ipc_lack_perm_decision:
  "fst (ipc_lack_perm ipcp mode s) \<longleftrightarrow>
     mode AND IRWXUGO \<noteq> 0 \<and> \<not> priv s \<and>
     (let lvl = ipc_level ipcp (cred_at s (p_credp s)); m = PERM_EXTRACT mode lvl AND 7 in
      m = 0 \<or> PERM_EXTRACT (ip_mode ipcp) lvl AND m \<noteq> m)"
proof (cases "ipc_cred_match ipcp s")
  case (Pair lvl s1)
  then have "lvl = ipc_level ipcp (cred_at s (p_credp s))" "same_kernel s s1"
    using ipc_cred_match_result [of ipcp s] by simp_all
  moreover have "priv s1 = priv s"
    using same_kernel_creds [OF \<open>same_kernel s s1\<close>] by (simp add: priv_def cred_at_def)
  ultimately show ?thesis
    using super_result [of s1]
    by (cases "super s1") (simp add: ipc_lack_perm_def Let_def Pair priv_def split: bool.split)
qed

lemma ipc_lack_perm_error:
  "u_error (snd (ipc_lack_perm ipcp mode s)) = (if fst (ipc_lack_perm ipcp mode s) then EACCES else u_error s)"
proof (cases "ipc_cred_match ipcp s")
  case (Pair lvl s1)
  then have "u_error s1 = u_error s" using ipc_cred_match_result [of ipcp s] by simp
  moreover have "fst (super s1) \<Longrightarrow> u_error (snd (super s1)) = u_error s1"
    by (simp add: super_def split: if_splits)
  ultimately show ?thesis
    by (cases "super s1") (auto simp: ipc_lack_perm_def Let_def Pair split: bool.split)
qed

end
