(* ===== verification/Kernel_Memory.thy ===== *)
theory Kernel_Memory
  imports Credentials
begin

text \<open>
  \<open>kalloc\<close>, \<^verbatim>\<open>kernel/coh.386/alloc.c\<close>, as its callers see it. The results of the coming
  allocations are the list \<open>kallocs\<close>: \<open>None\<close> when there is no memory, otherwise what the block's
  first word held before, since the memory is not cleared. A request for 0 bytes panics.
\<close>

record heap_state = cred_state +
  kallocs :: "int option list"

definition kalloc_panics :: "int \<Rightarrow> bool" where
  "kalloc_panics n = (n = 0)"

definition kalloc :: "'a heap_state_scheme \<Rightarrow> int option \<times> 'a heap_state_scheme" where
  "kalloc s =
     (case kallocs s of
        Some x # rest \<Rightarrow> (Some x, s\<lparr>kallocs := rest\<rparr>)
      | _ \<Rightarrow> (None, s\<lparr>kallocs := tl (kallocs s), u_error := ENOSPC\<rparr>))"

end
