(* ===== verification/Record_Locks.thy ===== *)
theory Record_Locks
  imports Kernel_Memory
begin

text \<open>
  Record locking, \<^verbatim>\<open>kernel/coh.386/rlock.c\<close>. Each inode carries a list of active locks;
  unused nodes are on the free list \<open>freerl\<close>; a process that waits has its request in
  \<open>p_prl\<close>. A linked list is a HOL list of its nodes from the list header on; a C pointer into
  it, as \<open>nextmeet\<close> and \<open>nextblock\<close> take and advance, is the list of the nodes after the one
  pointed to. Holding \<open>rlgate\<close> is implicit: every function below runs with it held, and
  \<open>waitlock\<close> shows where it is given up.
\<close>

section \<open>Data\<close>

record rlock =
  rl_type :: int    \<comment> \<open>0 = read, 1 = write\<close>
  rl_start :: int
  rl_end :: int     \<comment> \<open>-1 is EOF\<close>
  rl_proc :: nat    \<comment> \<open>owner\<close>

record rl_state = heap_state +
  freerl :: "rlock list"
  i_rl :: "nat \<Rightarrow> rlock list"              \<comment> \<open>active locks of an inode\<close>
  p_prl :: "nat \<Rightarrow> (nat \<times> rlock) option"  \<comment> \<open>pending request: inode and lock\<close>
  rl_wakeups :: "nat list"                \<comment> \<open>the inodes \<open>wakeup\<close> was called for, latest first\<close>

definition nil_rlock :: rlock where
  "nil_rlock = \<lparr>rl_type = 0, rl_start = 0, rl_end = 0, rl_proc = 0\<rparr>"

text \<open>\<open>RLOCKS\<close> nodes are chained on the free list; their contents are immaterial.\<close>

definition rlinit :: "nat \<Rightarrow> 'a rl_state_scheme \<Rightarrow> int \<times> 'a rl_state_scheme" where
  "rlinit RLOCKS s =
     (if RLOCKS = 0 then (0, s\<lparr>freerl := []\<rparr>)
      else (1, s\<lparr>freerl := replicate RLOCKS nil_rlock\<rparr>))"

section \<open>Searching a lock list\<close>

text \<open>The test in the loop of \<open>nextmeet\<close>: \<open>block\<close> refers to a location \<open>lock\<close> refers to.\<close>

definition meets :: "rlock \<Rightarrow> rlock \<Rightarrow> bool" where
  "meets lock block =
     (let tp = rl_start lock; bt = rl_end lock in
      if bt = -1 then rl_end block = -1 \<or> rl_end block \<ge> tp
      else bt \<ge> rl_start block \<and> (rl_end block = -1 \<or> rl_end block \<ge> tp))"

text \<open>The result is the list from the node found on; \<open>[]\<close> is NULL.\<close>

fun nextmeet :: "rlock list \<Rightarrow> rlock \<Rightarrow> rlock list" where
  "nextmeet [] lock = []"
| "nextmeet (block # rest) lock = (if meets lock block then block # rest else nextmeet rest lock)"

lemma length_nextmeet: "length (nextmeet xs lock) \<le> length xs"
  by (induction xs) auto

lemma nextmeet_ConsD: "nextmeet xs lock = b # bs \<Longrightarrow> length bs < length xs \<and> meets lock b"
  by (induction xs) (auto split: if_splits)

definition blocks :: "rlock \<Rightarrow> rlock \<Rightarrow> bool" where
  "blocks lock b = (rl_proc lock \<noteq> rl_proc b \<and> (rl_type lock \<noteq> 0 \<or> rl_type b \<noteq> 0))"

function nextblock :: "rlock list \<Rightarrow> rlock \<Rightarrow> rlock list" where
  "nextblock xs lock =
     (case nextmeet xs lock of
        [] \<Rightarrow> []
      | b # bs \<Rightarrow> if blocks lock b then b # bs else nextblock bs lock)"
  by pat_completeness auto
termination
  by (relation "measure (\<lambda>(xs, lock). length xs)") (auto dest: nextmeet_ConsD)

declare nextblock.simps [simp del]

section \<open>The free list\<close>

definition getlock :: "'a rl_state_scheme \<Rightarrow> rlock option \<times> 'a rl_state_scheme" where
  "getlock s =
     (case freerl s of
        [] \<Rightarrow> (None, s\<lparr>u_error := ENOLCK\<rparr>)
      | rl # rest \<Rightarrow> (Some rl, s\<lparr>freerl := rest\<rparr>))"

text \<open>
  \<open>freelock\<close> unlinks \<open>elt\<close> from the active list (the caller below drops it from the list it
  rebuilds) and pushes it on the free list.
\<close>

definition freelock :: "rlock \<Rightarrow> 'a rl_state_scheme \<Rightarrow> 'a rl_state_scheme" where
  "freelock elt s = s\<lparr>freerl := elt # freerl s\<rparr>"

lemma freelock_simps [simp]:
  "freerl (freelock b s) = b # freerl s" "i_rl (freelock b s) = i_rl s"
  "p_prl (freelock b s) = p_prl s" "u_error (freelock b s) = u_error s"
  "rl_wakeups (freelock b s) = rl_wakeups s"
  by (simp_all add: freelock_def)

section \<open>Removing and adding\<close>

text \<open>
  \<open>rl_extract old new\<close> returns the code's result (1, 0 or -1), the new contents of \<open>old\<close>, and
  the node it inserted after \<open>old\<close>, if any.
\<close>

definition rl_extract ::
  "rlock \<Rightarrow> rlock \<Rightarrow> 'a rl_state_scheme \<Rightarrow> int \<times> rlock \<times> rlock option \<times> 'a rl_state_scheme" where
  "rl_extract old new s =
     (if rl_start new \<le> rl_start old then
        if rl_end new = -1 \<or> (rl_end old \<noteq> -1 \<and> rl_end new \<ge> rl_end old)
        then (1, old, None, s)
        else (0, old\<lparr>rl_start := wrap32 (rl_end new + 1)\<rparr>, None, s)
      else
        let tend = rl_end old;
            old' = old\<lparr>rl_end := wrap32 (rl_start new - 1)\<rparr>
        in if rl_end new = -1 \<or> (tend \<noteq> -1 \<and> rl_end new \<ge> tend) then (0, old', None, s)
           else (case getlock s of
                   (None, s') \<Rightarrow> (-1, old'\<lparr>rl_end := tend\<rparr>, None, s')
                 | (Some lock, s') \<Rightarrow>
                     (0, old',
                      Some (lock\<lparr>rl_type := rl_type old, rl_proc := rl_proc old,
                                 rl_start := wrap32 (rl_end new + 1), rl_end := tend\<rparr>),
                      s')))"

lemma rl_extract_inserts:
  "rl_extract old new s = (r, old', Some n, s') \<Longrightarrow> length (freerl s) = Suc (length (freerl s'))"
  by (auto simp: rl_extract_def getlock_def Let_def split: if_splits list.splits option.splits prod.splits)

lemma rl_extract_keeps:
  "rl_extract old new s = (r, old', None, s') \<Longrightarrow> freerl s' = freerl s"
  by (auto simp: rl_extract_def getlock_def Let_def split: if_splits list.splits option.splits prod.splits)

lemma rl_extract_frees:
  "rl_extract old new s = (1, old', ins, s') \<Longrightarrow> freerl s' = freerl s \<and> ins = None"
  by (auto simp: rl_extract_def Let_def split: if_splits option.splits prod.splits)

text \<open>
  The loop of \<open>remlock\<close> over the nodes after the cursor: the result, the rebuilt rest of the
  list, and the state. After \<open>rl_extract\<close> has inserted a node the cursor is still at \<open>old\<close>, so
  the inserted node is looked at next.
\<close>

function remlock_loop ::
  "rlock list \<Rightarrow> rlock \<Rightarrow> 'a rl_state_scheme \<Rightarrow> int \<times> rlock list \<times> 'a rl_state_scheme" where
  "remlock_loop [] lock s = (0, [], s)"
| "remlock_loop (b # bs) lock s =
     (if \<not> meets lock b \<or> rl_proc b \<noteq> rl_proc lock then
        (case remlock_loop bs lock s of (r, bs', s') \<Rightarrow> (r, b # bs', s'))
      else
        (case rl_extract b lock s of
           (r, b', ins, s1) \<Rightarrow>
             if r = 1 then remlock_loop bs lock (freelock b' s1)
             else if r = 0 then
               (case ins of
                  None \<Rightarrow> (case remlock_loop bs lock s1 of (r', bs', s') \<Rightarrow> (r', b' # bs', s'))
                | Some n \<Rightarrow>
                    (case remlock_loop (n # bs) lock s1 of (r', bs', s') \<Rightarrow> (r', b' # bs', s')))
             else (-1, b' # bs, s1)))"
  by pat_completeness auto
termination
  by (relation "measure (\<lambda>(xs, lock, s). 2 * length xs + length (freerl s))")
    (auto dest!: rl_extract_inserts [OF sym] rl_extract_keeps [OF sym] rl_extract_frees [OF sym])

definition remlock :: "nat \<Rightarrow> rlock \<Rightarrow> 'a rl_state_scheme \<Rightarrow> int \<times> 'a rl_state_scheme" where
  "remlock org lock s =
     (case remlock_loop (i_rl s org) lock s of
        (r, ls, s') \<Rightarrow> (r, s'\<lparr>i_rl := (i_rl s')(org := ls)\<rparr>))"

text \<open>
  The first loop of \<open>addlock\<close>: own locks of the same type that meet the extended request are
  freed and widen \<open>top .. bot\<close> (\<open>tp\<close> and \<open>bt\<close> here).
\<close>

fun merge_loop ::
  "rlock list \<Rightarrow> rlock \<Rightarrow> int \<Rightarrow> int \<Rightarrow> 'a rl_state_scheme
     \<Rightarrow> rlock list \<times> int \<times> int \<times> 'a rl_state_scheme" where
  "merge_loop [] lock tp bt s = ([], tp, bt, s)"
| "merge_loop (b # bs) lock tp bt s =
     (if \<not> meets lock b \<or> rl_proc b \<noteq> rl_proc lock \<or> rl_type b \<noteq> rl_type lock then
        (case merge_loop bs lock tp bt s of (bs', t, e, s') \<Rightarrow> (b # bs', t, e, s'))
      else
        merge_loop bs lock
          (if rl_start b < tp then rl_start b else tp)
          (if bt \<noteq> -1 \<and> (rl_end b = -1 \<or> rl_end b \<ge> bt) then rl_end b else bt)
          (freelock b s))"

definition addlock :: "nat \<Rightarrow> rlock \<Rightarrow> 'a rl_state_scheme \<Rightarrow> int \<times> 'a rl_state_scheme" where
  "addlock org lock s =
     (let tp = rl_start lock; bt = rl_end lock;
          lock1 = (if tp \<noteq> 0 then lock\<lparr>rl_start := wrap32 (rl_start lock - 1)\<rparr> else lock);
          lock2 = (if bt \<noteq> -1 then lock1\<lparr>rl_end := wrap32 (rl_end lock1 + 1)\<rparr> else lock1)
      in case merge_loop (i_rl s org) lock2 tp bt s of
           (ls, tp', bt', s1) \<Rightarrow>
             let s2 = s1\<lparr>i_rl := (i_rl s1)(org := ls)\<rparr>
             in case getlock s2 of
                  (None, s3) \<Rightarrow> (-1, s3)
                | (Some new, s3) \<Rightarrow>
                    let lock3 = new\<lparr>rl_proc := rl_proc lock, rl_type := rl_type lock,
                                    rl_start := tp', rl_end := bt'\<rparr>;
                        s4 = snd (remlock org lock3 s3)
                    in (0, s4\<lparr>i_rl := (i_rl s4)(org := lock3 # i_rl s4 org)\<rparr>))"

section \<open>Waiting\<close>

lemma length_nextblock: "length (nextblock xs lock) \<le> length xs"
proof (induction xs lock rule: nextblock.induct)
  case (1 xs lock)
  show ?case
  proof (cases "nextmeet xs lock")
    case Nil
    then show ?thesis by (simp add: nextblock.simps [of xs])
  next
    case (Cons b bs)
    moreover have "Suc (length bs) \<le> length xs"
      using length_nextmeet [of xs lock] Cons by simp
    ultimately show ?thesis
      using "1" by (auto simp: nextblock.simps [of xs])
  qed
qed

text \<open>
  The loops over the locks that block a request (\<open>while (nextblock (& list, lock))\<close> in
  \<open>waiting\<close>, \<open>do ... while (nextblock (& list, rl))\<close> in \<open>waitlock\<close>): the argument starts at a
  blocking lock or is \<open>[]\<close>; \<open>f\<close> is the test of the body on the lock's owner.
\<close>

function blocker_scan :: "(nat \<Rightarrow> bool option) \<Rightarrow> rlock \<Rightarrow> rlock list \<Rightarrow> bool option" where
  "blocker_scan f lock [] = Some False"
| "blocker_scan f lock (b # bs) =
     (case f (rl_proc b) of
        None \<Rightarrow> None
      | Some True \<Rightarrow> Some True
      | Some False \<Rightarrow> blocker_scan f lock (nextblock bs lock))"
  by pat_completeness auto
termination
  by (relation "measure (\<lambda>(f, lock, xs). length xs)") (auto intro: le_imp_less_Suc length_nextblock)

text \<open>
  \<open>waiting\<close> recurses over the pending requests with no bound of its own; \<open>None\<close> is running out
  of the fuel that bounds its depth here.
\<close>

fun waiting :: "nat \<Rightarrow> 'a rl_state_scheme \<Rightarrow> nat \<Rightarrow> nat \<Rightarrow> bool option" where
  "waiting 0 s self pp = None"
| "waiting (Suc fuel) s self pp =
     (case p_prl s pp of
        None \<Rightarrow> Some False
      | Some (org, lock) \<Rightarrow>
          blocker_scan (\<lambda>p. if p = self then Some True else waiting fuel s self p)
            lock (nextblock (i_rl s org) lock))"

datatype 'a lock_outcome =
    Returned int 'a    \<comment> \<open>the C result and the final state\<close>
  | Asleep 'a          \<comment> \<open>still in \<open>x_sleep\<close> when the list of wake-ups ends\<close>
  | Diverged           \<comment> \<open>\<open>waiting\<close> did not return within the fuel\<close>

definition rl_cleanup :: "nat \<Rightarrow> rlock \<Rightarrow> 'a rl_state_scheme \<Rightarrow> 'a rl_state_scheme" where
  "rl_cleanup self rl s = s\<lparr>freerl := rl # freerl s, p_prl := (p_prl s)(self := None)\<rparr>"

text \<open>
  The loop of \<open>waitlock\<close>. Each \<open>x_sleep\<close> consumes one entry of \<open>env\<close>: what the other processes
  did to the shared state while this one slept, and whether a signal ended the sleep.
\<close>

fun waitlock_loop ::
  "nat \<Rightarrow> nat \<Rightarrow> nat \<Rightarrow> rlock \<Rightarrow> (('a rl_state_scheme \<Rightarrow> 'a rl_state_scheme) \<times> bool) list
     \<Rightarrow> 'a rl_state_scheme \<Rightarrow> 'a rl_state_scheme lock_outcome" where
  "waitlock_loop fuel self org rl env s =
     (case blocker_scan (waiting fuel s self) rl (nextblock (i_rl s org) rl) of
        None \<Rightarrow> Diverged
      | Some True \<Rightarrow> Returned (-1) (rl_cleanup self rl (s\<lparr>u_error := EDEADLK\<rparr>))
      | Some False \<Rightarrow>
          (case env of
             [] \<Rightarrow> Asleep s
           | (others, signalled) # env' \<Rightarrow>
               let s1 = others s in
               if signalled then Returned (-1) (rl_cleanup self rl (s1\<lparr>u_error := EINTR\<rparr>))
               else if nextblock (i_rl s1 org) rl \<noteq> []
               then waitlock_loop fuel self org rl env' s1
               else (case addlock org rl (rl_cleanup self rl s1) of (r, s2) \<Rightarrow> Returned r s2)))"

declare waitlock_loop.simps [simp del]

definition waitlock ::
  "nat \<Rightarrow> nat \<Rightarrow> nat \<Rightarrow> rlock \<Rightarrow> (('a rl_state_scheme \<Rightarrow> 'a rl_state_scheme) \<times> bool) list
     \<Rightarrow> 'a rl_state_scheme \<Rightarrow> 'a rl_state_scheme lock_outcome" where
  "waitlock fuel self org srl env s =
     (if nextblock (i_rl s org) srl \<noteq> [] then
        (case getlock s of
           (None, s1) \<Rightarrow> Returned (-1) s1
         | (Some _, s1) \<Rightarrow>
             waitlock_loop fuel self org srl env
               (s1\<lparr>p_prl := (p_prl s1)(self := Some (org, srl))\<rparr>))
      else (case addlock org srl s of (r, s1) \<Rightarrow> Returned r s1))"

section \<open>The entry point\<close>

datatype lock_cmd = F_GETLK | F_SETLK | F_SETLKW

abbreviation (input) F_RDLCK :: int where "F_RDLCK \<equiv> 1"
abbreviation (input) F_WRLCK :: int where "F_WRLCK \<equiv> 2"
abbreviation (input) F_UNLCK :: int where "F_UNLCK \<equiv> 3"
abbreviation (input) SEEK_SET :: int where "SEEK_SET \<equiv> 0"
abbreviation (input) SEEK_CUR :: int where "SEEK_CUR \<equiv> 1"
abbreviation (input) SEEK_END :: int where "SEEK_END \<equiv> 2"

record flock =
  l_type :: int
  l_whence :: int
  l_start :: int
  l_len :: int
  l_pid :: int

text \<open>What \<open>rlock\<close> reads of the open file and its inode.\<close>

record lock_fd =
  f_ip :: nat
  f_flag :: int
  f_seek :: int
  ip_size :: int

definition rlock_request :: "nat \<Rightarrow> lock_fd \<Rightarrow> flock \<Rightarrow> rlock" where
  "rlock_request self fdp flp =
     (let start =
            (if l_whence flp = SEEK_CUR then wrap32 (l_start flp + f_seek fdp)
             else if l_whence flp = SEEK_END then wrap32 (l_start flp + ip_size fdp)
             else l_start flp);
          range =
            (if l_len flp > 0 then (start, wrap32 (start + (l_len flp - 1)))
             else if l_len flp = 0 then (start, -1)
             else (wrap32 (start + l_len flp), wrap32 (start - 1)))
      in \<lparr>rl_type = (if l_type flp = F_RDLCK then 0 else 1),
          rl_start = fst range, rl_end = snd range, rl_proc = self\<rparr>)"

definition report_lock :: "rlock list \<Rightarrow> flock \<Rightarrow> flock" where
  "report_lock found flp =
     (case found of
        [] \<Rightarrow> flp\<lparr>l_type := F_UNLCK\<rparr>
      | rlp # _ \<Rightarrow>
          flp\<lparr>l_type := (if rl_type rlp \<noteq> 0 then F_WRLCK else F_RDLCK),
              l_whence := SEEK_SET, l_start := rl_start rlp,
              l_len := (if rl_end rlp = -1 then 0
                        else wrap32 (rl_end rlp - rl_start rlp + 1)),
              l_pid := int (rl_proc rlp)\<rparr>)"

definition rl_wakeup :: "nat \<Rightarrow> 'a rl_state_scheme lock_outcome \<Rightarrow> 'a rl_state_scheme lock_outcome" where
  "rl_wakeup org out =
     (case out of
        Returned r s \<Rightarrow> Returned r (s\<lparr>rl_wakeups := org # rl_wakeups s\<rparr>)
      | _ \<Rightarrow> out)"

definition rlock ::
  "nat \<Rightarrow> (('a rl_state_scheme \<Rightarrow> 'a rl_state_scheme) \<times> bool) list \<Rightarrow> nat
     \<Rightarrow> lock_fd \<Rightarrow> lock_cmd \<Rightarrow> flock \<Rightarrow> 'a rl_state_scheme
     \<Rightarrow> flock \<times> 'a rl_state_scheme lock_outcome" where
  "rlock fuel env self fdp cmd flp s =
     (let org = f_ip fdp;
          srl = rlock_request self fdp flp
      in if rl_start srl < 0 \<or> rl_end srl < -1 \<or>
            (rl_end srl \<noteq> -1 \<and> rl_start srl > rl_end srl)
         then (flp, Returned (-1) (s\<lparr>u_error := EINVAL\<rparr>))
         else if cmd = F_GETLK
         then (report_lock (nextblock (i_rl s org) srl) flp, Returned 0 s)
         else (flp, rl_wakeup org
           (if l_type flp = F_UNLCK
            then (case remlock org srl s of (r, s1) \<Rightarrow> Returned r s1)
            else if (rl_type srl \<noteq> 0 \<and> f_flag fdp AND IPW = 0) \<or>
                    (rl_type srl = 0 \<and> f_flag fdp AND IPR = 0)
            then Returned (-1) (s\<lparr>u_error := EINVAL\<rparr>)
            else if cmd = F_SETLKW then waitlock fuel self org srl env s
            else if nextblock (i_rl s org) srl = []
            then (case addlock org srl s of (r, s1) \<Rightarrow> Returned r s1)
            else Returned (-1) (s\<lparr>u_error := EACCES\<rparr>))))"

end
