(* ===== verification/Record_Lock_Laws.thy ===== *)
theory Record_Lock_Laws
  imports Record_Locks
begin

text \<open>
  What the operations of \<^verbatim>\<open>rlock.c\<close> promise, stated on the bytes a lock list covers:
  \<open>holds ls p t x\<close> says that process \<open>p\<close> holds a lock of type \<open>t\<close> on byte \<open>x\<close>. Node counts,
  exclusion between processes and freedom from deadlock are derived here.
\<close>

section \<open>The bytes a lock list covers\<close>

definition covers :: "rlock \<Rightarrow> int \<Rightarrow> bool" where
  "covers l x = (rl_start l \<le> x \<and> (rl_end l = -1 \<or> x \<le> rl_end l))"

definition wf_rlock :: "rlock \<Rightarrow> bool" where
  "wf_rlock l =
     (0 \<le> rl_start l \<and> rl_start l \<le> 2147483647 \<and>
      (rl_end l = -1 \<or> (rl_start l \<le> rl_end l \<and> rl_end l \<le> 2147483646)) \<and>
      (rl_type l = 0 \<or> rl_type l = 1))"

definition holds :: "rlock list \<Rightarrow> nat \<Rightarrow> int \<Rightarrow> int \<Rightarrow> bool" where
  "holds ls p t x = (\<exists>l\<in>set ls. rl_proc l = p \<and> rl_type l = t \<and> covers l x)"

lemma holds_Nil [simp]: "\<not> holds [] p t x"
  by (simp add: holds_def)

lemma holds_Cons [simp]:
  "holds (b # bs) p t x \<longleftrightarrow> (rl_proc b = p \<and> rl_type b = t \<and> covers b x) \<or> holds bs p t x"
  by (auto simp: holds_def)

lemma meets_iff:
  "wf_rlock l \<Longrightarrow> wf_rlock b \<Longrightarrow> meets l b \<longleftrightarrow> (\<exists>x. covers l x \<and> covers b x)"
proof
  assume wf: "wf_rlock l" "wf_rlock b" and m: "meets l b"
  have "covers l (max (rl_start l) (rl_start b)) \<and> covers b (max (rl_start l) (rl_start b))"
    using wf m by (auto simp: wf_rlock_def meets_def covers_def Let_def max_def split: if_splits)
  then show "\<exists>x. covers l x \<and> covers b x" by blast
next
  assume "wf_rlock l" "wf_rlock b" "\<exists>x. covers l x \<and> covers b x"
  then show "meets l b"
    by (auto simp: wf_rlock_def meets_def covers_def Let_def split: if_splits)
qed

section \<open>Searching\<close>

lemma nextblock_Nil_iff: "nextblock xs lock = [] \<longleftrightarrow> (\<forall>b\<in>set xs. \<not> (meets lock b \<and> blocks lock b))"
proof (induction xs lock rule: nextblock.induct)
  case (1 xs lock)
  have split: "nextmeet xs lock = dropWhile (\<lambda>b. \<not> meets lock b) xs" for xs
    by (induction xs) auto
  show ?case
  proof (cases "nextmeet xs lock")
    case Nil
    then have "\<forall>b\<in>set xs. \<not> meets lock b" by (simp add: split)
    with Nil show ?thesis by (simp add: nextblock.simps [of xs])
  next
    case (Cons b bs)
    have "set xs = set (takeWhile (\<lambda>b. \<not> meets lock b) xs) \<union> set (b # bs)"
      using Cons by (metis split set_append takeWhile_dropWhile_id)
    moreover have "meets lock b" using Cons by (metis nextmeet_ConsD)
    moreover have "\<forall>c\<in>set (takeWhile (\<lambda>b. \<not> meets lock b) xs). \<not> meets lock c"
      by (metis set_takeWhileD)
    ultimately show ?thesis
      using "1" Cons by (auto simp: nextblock.simps [of xs])
  qed
qed

lemma nextblock_Cons:
  "nextblock xs lock = b # bs \<Longrightarrow>
     meets lock b \<and> blocks lock b \<and>
     (\<exists>pre. xs = pre @ b # bs \<and> (\<forall>c\<in>set pre. \<not> (meets lock c \<and> blocks lock c)))"
proof (induction xs lock rule: nextblock.induct)
  case (1 xs lock)
  obtain c cs where c: "nextmeet xs lock = c # cs"
    using "1.prems" by (auto simp: nextblock.simps [of xs] split: list.splits)
  have pre: "\<exists>pre. xs = pre @ c # cs \<and> (\<forall>d\<in>set pre. \<not> meets lock d)"
    using c
  proof (induction xs)
    case (Cons a xs)
    then show ?case
      by (cases "meets lock a") (auto intro: exI [of _ "[]"] exI [of _ "a # _"])
  qed simp
  show ?case
  proof (cases "blocks lock c")
    case True
    with "1.prems" c have "c = b" "cs = bs" by (auto simp: nextblock.simps [of xs])
    with True c pre show ?thesis by (blast dest: nextmeet_ConsD)
  next
    case False
    with "1.prems" c have "nextblock cs lock = b # bs" by (auto simp: nextblock.simps [of xs])
    with "1.IH" c False obtain pre' where
      "meets lock b" "blocks lock b" "cs = pre' @ b # bs" "\<forall>c\<in>set pre'. \<not> (meets lock c \<and> blocks lock c)"
      by blast
    moreover obtain pre0 where "xs = pre0 @ c # cs" "\<forall>d\<in>set pre0. \<not> meets lock d"
      using pre by blast
    ultimately have "xs = (pre0 @ c # pre') @ b # bs"
      "\<forall>d\<in>set (pre0 @ c # pre'). \<not> (meets lock d \<and> blocks lock d)"
      using False by auto
    with \<open>meets lock b\<close> \<open>blocks lock b\<close> show ?thesis by blast
  qed
qed

section \<open>Removing\<close>

declare remlock_loop.simps(2) [simp del]

lemma rl_extract_covered:
  assumes "rl_start lock \<le> rl_start b"
    and "rl_end lock = -1 \<or> (rl_end b \<noteq> -1 \<and> rl_end lock \<ge> rl_end b)"
  shows "rl_extract b lock s = (1, b, None, s) \<and> (covers b x \<longrightarrow> covers lock x)"
proof
  show "rl_extract b lock s = (1, b, None, s)"
    by (simp only: rl_extract_def assms if_True)
  show "covers b x \<longrightarrow> covers lock x"
    using assms unfolding covers_def by linarith
qed

lemma rl_extract_front:
  assumes "wf_rlock b" "wf_rlock lock" "meets lock b" "rl_start lock \<le> rl_start b"
    and "\<not> (rl_end lock = -1 \<or> (rl_end b \<noteq> -1 \<and> rl_end lock \<ge> rl_end b))"
  shows "rl_extract b lock s = (0, b\<lparr>rl_start := rl_end lock + 1\<rparr>, None, s) \<and>
         wf_rlock (b\<lparr>rl_start := rl_end lock + 1\<rparr>) \<and>
         (covers (b\<lparr>rl_start := rl_end lock + 1\<rparr>) x \<longleftrightarrow> covers b x \<and> \<not> covers lock x)"
proof -
  have "rl_end lock \<noteq> -1" "rl_start lock \<le> rl_end lock" "rl_end lock \<le> 2147483646"
    "rl_start b \<le> rl_end lock" "rl_end b = -1 \<or> rl_end lock < rl_end b"
    using assms by (auto simp: wf_rlock_def meets_def)
  note * = this assms(4)
  have "wrap32 (rl_end lock + 1) = rl_end lock + 1"
    using * assms(2) by (simp add: wf_rlock_def)
  then have "rl_extract b lock s = (0, b\<lparr>rl_start := rl_end lock + 1\<rparr>, None, s)"
    by (simp only: rl_extract_def assms(4,5) if_True if_False)
  moreover have "wf_rlock (b\<lparr>rl_start := rl_end lock + 1\<rparr>)"
    using * assms(1,2) by (simp add: wf_rlock_def; linarith)
  moreover have "covers (b\<lparr>rl_start := rl_end lock + 1\<rparr>) x \<longleftrightarrow> covers b x \<and> \<not> covers lock x"
    using * by (simp add: covers_def; linarith)
  ultimately show ?thesis by blast
qed

lemma rl_extract_back:
  assumes "wf_rlock b" "wf_rlock lock" "meets lock b" "\<not> rl_start lock \<le> rl_start b"
    and "rl_end lock = -1 \<or> (rl_end b \<noteq> -1 \<and> rl_end lock \<ge> rl_end b)"
  shows "rl_extract b lock s = (0, b\<lparr>rl_end := rl_start lock - 1\<rparr>, None, s) \<and>
         wf_rlock (b\<lparr>rl_end := rl_start lock - 1\<rparr>) \<and>
         (covers (b\<lparr>rl_end := rl_start lock - 1\<rparr>) x \<longleftrightarrow> covers b x \<and> \<not> covers lock x)"
proof -
  have "rl_end b = -1 \<or> rl_start lock \<le> rl_end b"
    using assms(3) by (auto simp: meets_def Let_def split: if_splits)
  note * = this assms(4,5)
  have "wrap32 (rl_start lock - 1) = rl_start lock - 1"
    using assms(2) by (simp add: wf_rlock_def)
  then have "rl_extract b lock s = (0, b\<lparr>rl_end := rl_start lock - 1\<rparr>, None, s)"
    by (simp only: rl_extract_def assms(4,5) if_True if_False Let_def)
  moreover have "wf_rlock (b\<lparr>rl_end := rl_start lock - 1\<rparr>)"
    using * assms(1,2) by (simp add: wf_rlock_def; linarith)
  moreover have "covers (b\<lparr>rl_end := rl_start lock - 1\<rparr>) x \<longleftrightarrow> covers b x \<and> \<not> covers lock x"
    using * assms(1,2) by (simp add: covers_def wf_rlock_def; linarith)
  ultimately show ?thesis by blast
qed

lemma rl_extract_middle:
  assumes "wf_rlock b" "wf_rlock lock" "meets lock b" "\<not> rl_start lock \<le> rl_start b"
    and "\<not> (rl_end lock = -1 \<or> (rl_end b \<noteq> -1 \<and> rl_end lock \<ge> rl_end b))"
    and "n = (hd (freerl s))\<lparr>rl_type := rl_type b, rl_proc := rl_proc b,
                rl_start := rl_end lock + 1, rl_end := rl_end b\<rparr>"
  shows "rl_extract b lock s =
           (if freerl s = [] then (-1, b, None, s\<lparr>u_error := ENOLCK\<rparr>)
            else (0, b\<lparr>rl_end := rl_start lock - 1\<rparr>, Some n, s\<lparr>freerl := tl (freerl s)\<rparr>))"
    and "wf_rlock (b\<lparr>rl_end := rl_start lock - 1\<rparr>) \<and> wf_rlock n"
    and "covers (b\<lparr>rl_end := rl_start lock - 1\<rparr>) x \<or> covers n x
           \<longleftrightarrow> covers b x \<and> \<not> covers lock x"
proof -
  have *: "rl_end lock \<noteq> -1" "rl_start lock \<le> rl_end lock" "rl_end lock \<le> 2147483646"
    "0 \<le> rl_start b" "rl_start b < rl_start lock" "rl_end b = -1 \<or> rl_end lock < rl_end b"
    using assms by (auto simp: wf_rlock_def)
  then show "rl_extract b lock s =
           (if freerl s = [] then (-1, b, None, s\<lparr>u_error := ENOLCK\<rparr>)
            else (0, b\<lparr>rl_end := rl_start lock - 1\<rparr>, Some n, s\<lparr>freerl := tl (freerl s)\<rparr>))"
    using assms(6) by (auto simp: rl_extract_def getlock_def Let_def split: list.split)
  show "wf_rlock (b\<lparr>rl_end := rl_start lock - 1\<rparr>) \<and> wf_rlock n"
    using * assms(1,2,6) by (auto simp: wf_rlock_def)
  show "covers (b\<lparr>rl_end := rl_start lock - 1\<rparr>) x \<or> covers n x
           \<longleftrightarrow> covers b x \<and> \<not> covers lock x"
    using * assms(6) by (auto simp: covers_def)
qed

lemma rl_extract_cases:
  assumes wf: "wf_rlock b" "wf_rlock lock" and m: "meets lock b"
    and e: "rl_extract b lock s = (r, b', ins, s')"
  obtains
    (covered) "r = 1" "b' = b" "ins = None" "s' = s" "\<And>x. covers b x \<Longrightarrow> covers lock x"
  | (trimmed) "r = 0" "ins = None" "s' = s" "wf_rlock b'" "rl_proc b' = rl_proc b"
      "rl_type b' = rl_type b" "\<And>x. covers b' x \<longleftrightarrow> covers b x \<and> \<not> covers lock x"
  | (split) n where "r = 0" "ins = Some n" "wf_rlock b'" "wf_rlock n" "rl_proc b' = rl_proc b"
      "rl_type b' = rl_type b" "rl_proc n = rl_proc b" "rl_type n = rl_type b"
      "\<And>x. covers b' x \<or> covers n x \<longleftrightarrow> covers b x \<and> \<not> covers lock x"
      "freerl s \<noteq> []" "s' = s\<lparr>freerl := tl (freerl s)\<rparr>"
  | (full) "r = -1" "b' = b" "ins = None" "freerl s = []" "s' = s\<lparr>u_error := ENOLCK\<rparr>"
proof -
  consider
    (a) "rl_start lock \<le> rl_start b" "rl_end lock = -1 \<or> (rl_end b \<noteq> -1 \<and> rl_end lock \<ge> rl_end b)"
  | (b) "rl_start lock \<le> rl_start b" "\<not> (rl_end lock = -1 \<or> (rl_end b \<noteq> -1 \<and> rl_end lock \<ge> rl_end b))"
  | (c) "\<not> rl_start lock \<le> rl_start b" "rl_end lock = -1 \<or> (rl_end b \<noteq> -1 \<and> rl_end lock \<ge> rl_end b)"
  | (d) "\<not> rl_start lock \<le> rl_start b" "\<not> (rl_end lock = -1 \<or> (rl_end b \<noteq> -1 \<and> rl_end lock \<ge> rl_end b))"
    by blast
  then show thesis
  proof cases
    case a
    show thesis
      by (rule covered) (use e rl_extract_covered [OF a, where s = s] in auto)
  next
    case b
    show thesis
      by (rule trimmed) (use e rl_extract_front [OF wf m b, where s = s] in auto)
  next
    case c
    show thesis
      by (rule trimmed) (use e rl_extract_back [OF wf m c, where s = s] in auto)
  next
    case d
    note mid = rl_extract_middle [OF wf m d refl]
    show thesis
    proof (cases "freerl s = []")
      case True
      show thesis by (rule full) (use e mid(1) [where s = s] True in auto)
    next
      case False
      then have eqs: "r = 0" "s' = s\<lparr>freerl := tl (freerl s)\<rparr>"
        "b' = b\<lparr>rl_end := rl_start lock - 1\<rparr>"
        "ins = Some ((hd (freerl s))\<lparr>rl_type := rl_type b, rl_proc := rl_proc b,
                        rl_start := rl_end lock + 1, rl_end := rl_end b\<rparr>)"
        using e mid(1) [where s = s] by simp_all
      show thesis
        unfolding eqs(2,3)
        by (rule split [OF eqs(1,4)]) (simp_all add: mid(2,3) False eqs(2,3))
    qed
  qed
qed

text \<open>
  The contract of the loop of \<open>remlock\<close>, for a cursor whose remaining nodes are \<open>bs\<close>: outside
  the bytes of \<open>lock\<close>, and for every other process, nothing changes; inside, nothing is added;
  on success nothing is left; nodes are neither lost nor made.
\<close>

definition remlock_post ::
  "rlock \<Rightarrow> rlock list \<Rightarrow> 'a rl_state_scheme \<Rightarrow> int \<Rightarrow> rlock list \<Rightarrow> 'a rl_state_scheme \<Rightarrow> bool" where
  "remlock_post lock bs s r bs' s' \<longleftrightarrow>
     (\<forall>b\<in>set bs'. wf_rlock b) \<and>
     length bs' + length (freerl s') = length bs + length (freerl s) \<and>
     i_rl s' = i_rl s \<and> p_prl s' = p_prl s \<and> rl_wakeups s' = rl_wakeups s \<and>
     (\<forall>p t x. \<not> (p = rl_proc lock \<and> covers lock x) \<longrightarrow> holds bs' p t x = holds bs p t x) \<and>
     (\<forall>p t x. holds bs' p t x \<longrightarrow> holds bs p t x) \<and>
     (r = 0 \<and> u_error s' = u_error s \<and>
        (\<forall>t x. covers lock x \<longrightarrow> \<not> holds bs' (rl_proc lock) t x)
      \<or> r = -1 \<and> u_error s' = ENOLCK \<and> freerl s' = [])"

lemma remlock_post_skip:
  assumes "remlock_post lock bs s r bs' s'" "wf_rlock b"
    and "rl_proc b \<noteq> rl_proc lock \<or> (\<forall>x. covers lock x \<longrightarrow> \<not> covers b x)"
  shows "remlock_post lock (b # bs) s r (b # bs') s'"
  using assms unfolding remlock_post_def holds_Cons by auto

lemma remlock_post_covered:
  assumes "remlock_post lock bs (freelock b s) r bs' s'" "rl_proc b = rl_proc lock"
    and "\<And>x. covers b x \<Longrightarrow> covers lock x"
  shows "remlock_post lock (b # bs) s r bs' s'"
  using assms unfolding remlock_post_def holds_Cons freelock_simps by auto

lemma remlock_post_trimmed:
  assumes "remlock_post lock bs s r bs' s'" "wf_rlock b'" "rl_proc b' = rl_proc b"
    "rl_type b' = rl_type b" "rl_proc b = rl_proc lock"
    "\<And>x. covers b' x \<longleftrightarrow> covers b x \<and> \<not> covers lock x"
  shows "remlock_post lock (b # bs) s r (b' # bs') s'"
  using assms unfolding remlock_post_def holds_Cons by auto

lemma remlock_post_split:
  assumes "remlock_post lock (n # bs) (s\<lparr>freerl := tl (freerl s)\<rparr>) r bs' s'" "freerl s \<noteq> []"
    "wf_rlock b'" "rl_proc b' = rl_proc b" "rl_type b' = rl_type b" "rl_proc n = rl_proc b"
    "rl_type n = rl_type b" "rl_proc b = rl_proc lock"
    "\<And>x. covers b' x \<or> covers n x \<longleftrightarrow> covers b x \<and> \<not> covers lock x"
  shows "remlock_post lock (b # bs) s r (b' # bs') s'"
proof -
  have h: "(rl_proc b' = p \<and> rl_type b' = t \<and> covers b' x) \<or> (rl_proc n = p \<and> rl_type n = t \<and> covers n x)
      \<longleftrightarrow> rl_proc b = p \<and> rl_type b = t \<and> covers b x \<and> \<not> covers lock x" for p t x
    using assms(4-9) by metis
  have l: "length (tl (freerl s)) + 1 = length (freerl s)" using assms(2) by (cases "freerl s") auto
  have post: "\<forall>b\<in>set bs'. wf_rlock b"
    "length bs' + length (freerl s') = length bs + length (freerl s)"
    "i_rl s' = i_rl s" "p_prl s' = p_prl s" "rl_wakeups s' = rl_wakeups s"
    and out: "\<And>p t x. \<not> (p = rl_proc lock \<and> covers lock x) \<Longrightarrow> holds bs' p t x = holds (n # bs) p t x"
    and sub: "\<And>p t x. holds bs' p t x \<Longrightarrow> holds (n # bs) p t x"
    and res: "r = 0 \<and> u_error s' = u_error s \<and> (\<forall>t x. covers lock x \<longrightarrow> \<not> holds bs' (rl_proc lock) t x)
      \<or> r = -1 \<and> u_error s' = ENOLCK \<and> freerl s' = []"
    using assms(1) l unfolding remlock_post_def by auto
  have "holds (b' # bs') p t x = holds (b # bs) p t x" if "\<not> (p = rl_proc lock \<and> covers lock x)" for p t x
    using out [OF that] h [of p t x] that assms(8) by auto
  moreover have "holds (b # bs) p t x" if "holds (b' # bs') p t x" for p t x
    using that sub [of p t x] h [of p t x] by auto
  moreover have "\<not> holds (b' # bs') (rl_proc lock) t x"
    if "covers lock x" "\<not> holds bs' (rl_proc lock) t x" for t x
    using that h [of "rl_proc lock" t x] by auto
  ultimately show ?thesis
    using post res assms(3) unfolding remlock_post_def by auto
qed

lemma remlock_loop_post:
  assumes "remlock_loop bs lock s = (r, bs', s')" "\<forall>b\<in>set bs. wf_rlock b" "wf_rlock lock"
  shows "remlock_post lock bs s r bs' s'"
  using assms
proof (induction bs lock s arbitrary: r bs' s' rule: remlock_loop.induct)
  case (1 lock s)
  then show ?case by (auto simp: remlock_post_def)
next
  case (2 b bs lock s)
  have wf: "wf_rlock b" "\<forall>b\<in>set bs. wf_rlock b" "wf_rlock lock" using "2.prems" by auto
  show ?case
  proof (cases "\<not> meets lock b \<or> rl_proc b \<noteq> rl_proc lock")
    case True
    then obtain bs1 where l: "remlock_loop bs lock s = (r, bs1, s')" and bs': "bs' = b # bs1"
      using "2.prems"(1) by (auto simp: remlock_loop.simps(2) split: prod.splits)
    have "remlock_post lock bs s r bs1 s'" using "2.IH"(1) True l wf by blast
    then show ?thesis
      unfolding bs' by (rule remlock_post_skip) (use True wf meets_iff in blast)+
  next
    case False
    obtain r0 b0 ins s0 where e: "rl_extract b lock s = (r0, b0, ins, s0)"
      by (metis prod_cases4)
    from False have p: "rl_proc b = rl_proc lock" and m: "meets lock b" by auto
    have step: "(r, bs', s') =
        (if r0 = 1 then remlock_loop bs lock (freelock b0 s0)
         else if r0 = 0 then
           (case ins of
              None \<Rightarrow> (case remlock_loop bs lock s0 of (r', bs', s') \<Rightarrow> (r', b0 # bs', s'))
            | Some n \<Rightarrow> (case remlock_loop (n # bs) lock s0 of (r', bs', s') \<Rightarrow> (r', b0 # bs', s')))
         else (-1, b0 # bs, s0))"
      using "2.prems"(1) False e by (simp add: remlock_loop.simps(2))
    show ?thesis
      using wf(1,3) m e
    proof (cases rule: rl_extract_cases)
      case covered
      have "remlock_post lock bs (freelock b s) r bs' s'"
        using "2.IH"(2) [OF False e [symmetric] refl refl] step covered(1-4) wf by simp
      then show ?thesis using p covered(5) by (rule remlock_post_covered)
    next
      case trimmed
      obtain bs1 where l: "remlock_loop bs lock s = (r, bs1, s')" and bs': "bs' = b0 # bs1"
        using step trimmed(1-3) by (auto split: prod.splits)
      have "remlock_post lock bs s r bs1 s'"
        using "2.IH"(3) [OF False e [symmetric] refl refl] trimmed(1-3) l wf by simp
      then show ?thesis
        unfolding bs' using trimmed(4-6) p trimmed(7) by (rule remlock_post_trimmed)
    next
      case (split n)
      obtain bs1 where l: "remlock_loop (n # bs) lock s0 = (r, bs1, s')" and bs': "bs' = b0 # bs1"
        using step split(1,2) by (auto split: prod.splits)
      have "remlock_post lock (n # bs) (s\<lparr>freerl := tl (freerl s)\<rparr>) r bs1 s'"
        using "2.IH"(4) [OF False e [symmetric] refl refl _ split(1,2) l] split(1,4,11) wf by simp
      then show ?thesis
        unfolding bs' using split(10,3,5-8) p split(9) by (rule remlock_post_split)
    next
      case full
      then show ?thesis using step wf by (auto simp: remlock_post_def)
    qed
  qed
qed

lemma remlock_post_i_rl:
  "remlock_post lock bs s r bs' s' \<Longrightarrow> i_rl s' = i_rl s"
  by (simp add: remlock_post_def)

section \<open>Adding\<close>

text \<open>
  Merging: \<open>hull\<close> is the interval \<open>merge_loop\<close> computes from the one it has and a node that
  meets the request extended by one byte on either side.
\<close>

definition extended :: "rlock \<Rightarrow> rlock" where
  "extended lock =
     (let lock1 = (if rl_start lock \<noteq> 0 then lock\<lparr>rl_start := wrap32 (rl_start lock - 1)\<rparr> else lock)
      in if rl_end lock \<noteq> -1 then lock1\<lparr>rl_end := wrap32 (rl_end lock1 + 1)\<rparr> else lock1)"

lemma extended_fields:
  assumes "wf_rlock lock"
  shows "rl_proc (extended lock) = rl_proc lock" "rl_type (extended lock) = rl_type lock"
    "rl_start (extended lock) = (if rl_start lock = 0 then 0 else rl_start lock - 1)"
    "rl_end (extended lock) = (if rl_end lock = -1 then -1 else rl_end lock + 1)"
  using assms by (auto simp: extended_def wf_rlock_def Let_def)

definition spans :: "int \<Rightarrow> int \<Rightarrow> int \<Rightarrow> bool" where
  "spans tp bt x = (tp \<le> x \<and> (bt = -1 \<or> x \<le> bt))"

lemma covers_spans: "covers l x = spans (rl_start l) (rl_end l) x"
  by (simp add: covers_def spans_def)

definition wf_span :: "int \<Rightarrow> int \<Rightarrow> bool" where
  "wf_span tp bt = (0 \<le> tp \<and> tp \<le> 2147483647 \<and> (bt = -1 \<or> (tp \<le> bt \<and> bt \<le> 2147483646)))"

definition span_within :: "rlock \<Rightarrow> int \<Rightarrow> int \<Rightarrow> bool" where
  "span_within lock tp bt = (tp \<le> rl_start lock \<and> (bt = -1 \<or> (rl_end lock \<noteq> -1 \<and> rl_end lock \<le> bt)))"

lemma hull:
  assumes lock: "wf_rlock lock" and b: "wf_rlock b" and m: "meets (extended lock) b"
    and w: "wf_span tp bt" "span_within lock tp bt"
    and tp': "tp' = (if rl_start b < tp then rl_start b else tp)"
    and bt': "bt' = (if bt \<noteq> -1 \<and> (rl_end b = -1 \<or> rl_end b \<ge> bt) then rl_end b else bt)"
  shows "spans tp' bt' x \<longleftrightarrow> spans tp bt x \<or> covers b x"
    and "wf_span tp' bt' \<and> span_within lock tp' bt'"
proof -
  have b1: "rl_end b = -1 \<or> (rl_start b \<le> rl_end b \<and> rl_end b \<le> 2147483646)" "0 \<le> rl_start b"
    "rl_start b \<le> 2147483647"
    using b by (auto simp: wf_rlock_def)
  have l1: "0 \<le> rl_start lock" "rl_end lock = -1 \<or> rl_start lock \<le> rl_end lock"
    using lock by (auto simp: wf_rlock_def)
  have m1: "rl_end b = -1 \<or> rl_start lock - 1 \<le> rl_end b"
    "rl_end lock = -1 \<or> rl_start b \<le> rl_end lock + 1"
    using m b1 l1 unfolding meets_def Let_def extended_fields [OF lock] by (auto split: if_splits)
  have w1: "tp \<le> rl_start lock" "bt = -1 \<or> (rl_end lock \<noteq> -1 \<and> rl_end lock \<le> bt)"
    using w(2) by (auto simp: span_within_def)
  have w2: "0 \<le> tp" "tp \<le> 2147483647" "bt = -1 \<or> (tp \<le> bt \<and> bt \<le> 2147483646)"
    using w(1) by (auto simp: wf_span_def)
  show "spans tp' bt' x \<longleftrightarrow> spans tp bt x \<or> covers b x"
    using b1 m1 w1 w2 l1 unfolding tp' bt' spans_def covers_def
    by (cases "rl_end b = -1"; cases "bt = -1"; simp; linarith)
  show "wf_span tp' bt' \<and> span_within lock tp' bt'"
    using b1 w1 w2 unfolding tp' bt' wf_span_def span_within_def
    by (cases "rl_end b = -1"; cases "bt = -1"; simp)
qed

text \<open>
  The contract of \<open>merge_loop\<close>: the span returned is the span given and the bytes of the nodes
  freed, which are own locks of the request's type; everything else stays.
\<close>

lemma merge_loop_post:
  assumes "merge_loop bs (extended lock) tp bt s = (bs', tp', bt', s')"
    and "\<forall>b\<in>set bs. wf_rlock b" and "wf_rlock lock" and "wf_span tp bt" "span_within lock tp bt"
  shows "(\<forall>b\<in>set bs'. wf_rlock b) \<and> set bs' \<subseteq> set bs \<and>
     length bs' + length (freerl s') = length bs + length (freerl s) \<and>
     i_rl s' = i_rl s \<and> p_prl s' = p_prl s \<and> u_error s' = u_error s \<and> rl_wakeups s' = rl_wakeups s \<and>
     (freerl s' = [] \<longrightarrow> bs' = bs \<and> tp' = tp \<and> bt' = bt \<and> s' = s) \<and>
     wf_span tp' bt' \<and> span_within lock tp' bt' \<and>
     (\<forall>p t x. (p = rl_proc lock \<and> t = rl_type lock \<and> spans tp' bt' x) \<or> holds bs' p t x \<longleftrightarrow>
              (p = rl_proc lock \<and> t = rl_type lock \<and> spans tp bt x) \<or> holds bs p t x) \<and>
     (\<forall>x. spans tp' bt' x \<longrightarrow> spans tp bt x \<or> holds bs (rl_proc lock) (rl_type lock) x)"
  using assms
proof (induction bs "extended lock" tp bt s arbitrary: bs' tp' bt' s' rule: merge_loop.induct)
  case (1 tp bt s)
  then show ?case by simp
next
  case (2 b bs tp bt s)
  let ?skip = "\<not> meets (extended lock) b \<or> rl_proc b \<noteq> rl_proc (extended lock) \<or>
               rl_type b \<noteq> rl_type (extended lock)"
  have wf: "wf_rlock b" "\<forall>b\<in>set bs. wf_rlock b" using "2.prems"(2) by auto
  show ?case
  proof (cases ?skip)
    case True
    then obtain bs1 where "merge_loop bs (extended lock) tp bt s = (bs1, tp', bt', s')"
      and bs': "bs' = b # bs1"
      using "2.prems"(1) by (auto split: prod.splits)
    note IH = "2.hyps"(1) [OF True this(1) wf(2) "2.prems"(3,4,5)]
    show ?thesis
      unfolding bs' holds_Cons using IH wf(1) by (simp; blast)
  next
    case False
    let ?tp = "if rl_start b < tp then rl_start b else tp"
    let ?bt = "if bt \<noteq> -1 \<and> (rl_end b = -1 \<or> rl_end b \<ge> bt) then rl_end b else bt"
    have m: "merge_loop bs (extended lock) ?tp ?bt (freelock b s) = (bs', tp', bt', s')"
      using "2.prems"(1) False by simp
    have p: "rl_proc b = rl_proc lock" "rl_type b = rl_type lock" "meets (extended lock) b"
      using False extended_fields [OF "2.prems"(3)] by auto
    note h = hull [OF "2.prems"(3) wf(1) p(3) "2.prems"(4,5) refl refl]
    note IH = "2.hyps"(2) [OF False m wf(2) "2.prems"(3) h(2) [THEN conjunct1] h(2) [THEN conjunct2]]
    have "freerl s' \<noteq> []"
      using IH by (cases "freerl s' = []") auto
    then show ?thesis
      unfolding holds_Cons using IH h(1) p(1,2) by (simp; blast)
  qed
qed

lemma remlock_spec:
  assumes "remlock org lock s = (r, s')" "\<forall>b\<in>set (i_rl s org). wf_rlock b" "wf_rlock lock"
  shows "\<exists>s0. remlock_post lock (i_rl s org) s r (i_rl s' org) s0 \<and>
              s' = s0\<lparr>i_rl := (i_rl s)(org := i_rl s' org)\<rparr>"
proof -
  obtain ls s0 where l: "remlock_loop (i_rl s org) lock s = (r, ls, s0)"
    and s': "s' = s0\<lparr>i_rl := (i_rl s0)(org := ls)\<rparr>"
    using assms(1) by (auto simp: remlock_def split: prod.splits)
  from remlock_loop_post [OF l assms(2,3)] have "remlock_post lock (i_rl s org) s r ls s0" .
  with s' show ?thesis by (auto simp: remlock_post_i_rl)
qed

text \<open>
  The contract of \<open>addlock\<close>. The third group is the effect on the caller's own bytes: it holds
  its requested type exactly on the requested bytes and where it held it before, and a lock of
  the other type survives on the requested bytes only if nodes ran out (\<open>ENOLCK\<close>).
\<close>

definition addlock_post :: "nat \<Rightarrow> rlock \<Rightarrow> 'a rl_state_scheme \<Rightarrow> 'a rl_state_scheme \<Rightarrow> bool" where
  "addlock_post org lock s s' \<longleftrightarrow>
     (\<forall>b\<in>set (i_rl s' org). wf_rlock b) \<and> (\<forall>o'. o' \<noteq> org \<longrightarrow> i_rl s' o' = i_rl s o') \<and>
     p_prl s' = p_prl s \<and> rl_wakeups s' = rl_wakeups s \<and>
     length (i_rl s' org) + length (freerl s') = length (i_rl s org) + length (freerl s) \<and>
     (\<forall>p t x. p \<noteq> rl_proc lock \<longrightarrow> holds (i_rl s' org) p t x = holds (i_rl s org) p t x) \<and>
     (\<forall>x. holds (i_rl s' org) (rl_proc lock) (rl_type lock) x \<longleftrightarrow>
          covers lock x \<or> holds (i_rl s org) (rl_proc lock) (rl_type lock) x) \<and>
     (\<forall>t x. t \<noteq> rl_type lock \<longrightarrow> holds (i_rl s' org) (rl_proc lock) t x \<longrightarrow>
          holds (i_rl s org) (rl_proc lock) t x) \<and>
     (\<forall>t x. holds (i_rl s org) (rl_proc lock) t x \<longrightarrow> \<not> covers lock x \<longrightarrow>
          holds (i_rl s' org) (rl_proc lock) t x \<or> holds (i_rl s org) (rl_proc lock) (rl_type lock) x) \<and>
     (u_error s' = u_error s \<and>
        (\<forall>t x. t \<noteq> rl_type lock \<longrightarrow> covers lock x \<longrightarrow> \<not> holds (i_rl s' org) (rl_proc lock) t x)
      \<or> u_error s' = ENOLCK)"

lemma addlock_postD:
  assumes "addlock_post org lock s s'"
  shows "\<forall>p t x. p \<noteq> rl_proc lock \<longrightarrow> holds (i_rl s' org) p t x = holds (i_rl s org) p t x"
    and "\<forall>x. holds (i_rl s' org) (rl_proc lock) (rl_type lock) x \<longleftrightarrow>
          covers lock x \<or> holds (i_rl s org) (rl_proc lock) (rl_type lock) x"
    and "u_error s' = u_error s \<and>
        (\<forall>t x. t \<noteq> rl_type lock \<longrightarrow> covers lock x \<longrightarrow> \<not> holds (i_rl s' org) (rl_proc lock) t x)
      \<or> u_error s' = ENOLCK"
  using assms unfolding addlock_post_def by - ((elim conjE, assumption)+)

lemma addlock_unfold:
  "addlock org lock s =
     (case merge_loop (i_rl s org) (extended lock) (rl_start lock) (rl_end lock) s of
        (ls, tp', bt', s1) \<Rightarrow>
          case getlock (s1\<lparr>i_rl := (i_rl s1)(org := ls)\<rparr>) of
            (None, s3) \<Rightarrow> (-1, s3)
          | (Some new, s3) \<Rightarrow>
              let lock3 = new\<lparr>rl_proc := rl_proc lock, rl_type := rl_type lock,
                              rl_start := tp', rl_end := bt'\<rparr>;
                  s4 = snd (remlock org lock3 s3)
              in (0, s4\<lparr>i_rl := (i_rl s4)(org := lock3 # i_rl s4 org)\<rparr>))"
  by (simp add: addlock_def extended_def Let_def)

lemma wf_span_self: "wf_rlock l \<Longrightarrow> wf_span (rl_start l) (rl_end l) \<and> span_within l (rl_start l) (rl_end l)"
  by (auto simp: wf_rlock_def wf_span_def span_within_def)

lemma addlock_spec:
  assumes a: "addlock org lock s = (r, s')"
    and wfs: "\<forall>b\<in>set (i_rl s org). wf_rlock b" and wf: "wf_rlock lock"
  shows "r = 0 \<and> addlock_post org lock s s' \<or>
         r = -1 \<and> freerl s = [] \<and> s' = s\<lparr>u_error := ENOLCK\<rparr>"
proof -
  obtain ls tp bt s1 where m:
    "merge_loop (i_rl s org) (extended lock) (rl_start lock) (rl_end lock) s = (ls, tp, bt, s1)"
    by (metis prod_cases4)
  note ws = wf_span_self [OF wf]
  note mp = merge_loop_post [OF m wfs wf ws [THEN conjunct1] ws [THEN conjunct2]]
  show ?thesis
  proof (cases "freerl s1")
    case Nil
    with mp have "s1 = s" "ls = i_rl s org" by auto
    with a m Nil show ?thesis
      by (auto simp: addlock_unfold getlock_def)
  next
    case (Cons new fs)
    define n where "n = new\<lparr>rl_proc := rl_proc lock, rl_type := rl_type lock,
                            rl_start := tp, rl_end := bt\<rparr>"
    define s3 where "s3 = s1\<lparr>i_rl := (i_rl s1)(org := ls), freerl := fs\<rparr>"
    obtain r4 s4 where rm: "remlock org n s3 = (r4, s4)" by (metis surj_pair)
    have res: "r = 0" "s' = s4\<lparr>i_rl := (i_rl s4)(org := n # i_rl s4 org)\<rparr>"
      using a m Cons rm
      by (auto simp: addlock_unfold getlock_def n_def s3_def Let_def)
    have cn: "covers n x = spans tp bt x" and pn: "rl_proc n = rl_proc lock" "rl_type n = rl_type lock" for x
      by (simp_all add: n_def covers_spans)
    have wn: "wf_rlock n"
      using mp wf by (auto simp: n_def wf_rlock_def wf_span_def)
    have wf3: "\<forall>b\<in>set (i_rl s3 org). wf_rlock b" using mp by (simp add: s3_def)
    from remlock_spec [OF rm wf3 wn] obtain s0 where
      rp: "remlock_post n (i_rl s3 org) s3 r4 (i_rl s4 org) s0"
      and s4: "s4 = s0\<lparr>i_rl := (i_rl s3)(org := i_rl s4 org)\<rparr>" by blast
    have f4: "freerl s4 = freerl s0" "p_prl s4 = p_prl s0" "u_error s4 = u_error s0"
      "rl_wakeups s4 = rl_wakeups s0" "\<And>o'. o' \<noteq> org \<Longrightarrow> i_rl s4 o' = i_rl s3 o'"
      by (subst s4, simp)+
    have i3: "i_rl s3 org = ls" "freerl s3 = fs" "p_prl s3 = p_prl s1" "u_error s3 = u_error s1"
      "rl_wakeups s3 = rl_wakeups s1" "\<And>o'. o' \<noteq> org \<Longrightarrow> i_rl s3 o' = i_rl s1 o'"
      by (simp_all add: s3_def)
    have mh: "\<And>p t x. (p = rl_proc lock \<and> t = rl_type lock \<and> spans tp bt x) \<or> holds ls p t x \<longleftrightarrow>
              (p = rl_proc lock \<and> t = rl_type lock \<and> covers lock x) \<or> holds (i_rl s org) p t x"
      and msp: "\<And>x. spans tp bt x \<Longrightarrow> covers lock x \<or> holds (i_rl s org) (rl_proc lock) (rl_type lock) x"
      using mp unfolding covers_spans by auto
    have h': "holds (i_rl s' org) p t x \<longleftrightarrow>
        (p = rl_proc lock \<and> t = rl_type lock \<and> spans tp bt x) \<or> holds (i_rl s4 org) p t x" for p t x
      using res(2) cn pn by auto
    have rout: "\<And>p t x. \<not> (p = rl_proc lock \<and> spans tp bt x) \<Longrightarrow> holds (i_rl s4 org) p t x = holds ls p t x"
      and rsub: "\<And>p t x. holds (i_rl s4 org) p t x \<Longrightarrow> holds ls p t x"
      and rres: "u_error s0 = u_error s3 \<and> (\<forall>t x. spans tp bt x \<longrightarrow> \<not> holds (i_rl s4 org) (rl_proc lock) t x)
        \<or> u_error s0 = ENOLCK"
      using rp unfolding remlock_post_def cn pn i3 by auto
    have sp: "spans tp bt x" if "covers lock x" for x
      using mp that unfolding span_within_def covers_def spans_def by linarith
    have "addlock_post org lock s s'"
      unfolding addlock_post_def
    proof (intro conjI)
      show "\<forall>b\<in>set (i_rl s' org). wf_rlock b"
        using rp wn res(2) by (simp add: remlock_post_def)
      show "\<forall>o'. o' \<noteq> org \<longrightarrow> i_rl s' o' = i_rl s o'"
        using res(2) f4 i3 mp by simp
      show "p_prl s' = p_prl s" "rl_wakeups s' = rl_wakeups s"
        using res(2) f4 i3 mp rp by (simp_all add: remlock_post_def)
      show "length (i_rl s' org) + length (freerl s') = length (i_rl s org) + length (freerl s)"
        using res(2) f4 i3 mp rp Cons by (simp add: remlock_post_def)
      show "\<forall>p t x. p \<noteq> rl_proc lock \<longrightarrow> holds (i_rl s' org) p t x = holds (i_rl s org) p t x"
        using h' rout mh by metis
      show "\<forall>x. holds (i_rl s' org) (rl_proc lock) (rl_type lock) x \<longleftrightarrow>
          covers lock x \<or> holds (i_rl s org) (rl_proc lock) (rl_type lock) x"
        using h' rout rsub mh by metis
      show "\<forall>t x. t \<noteq> rl_type lock \<longrightarrow> holds (i_rl s' org) (rl_proc lock) t x \<longrightarrow>
          holds (i_rl s org) (rl_proc lock) t x"
        using h' rsub mh by metis
      show "\<forall>t x. holds (i_rl s org) (rl_proc lock) t x \<longrightarrow> \<not> covers lock x \<longrightarrow>
          holds (i_rl s' org) (rl_proc lock) t x \<or> holds (i_rl s org) (rl_proc lock) (rl_type lock) x"
        using h' rout mh msp by metis
      show "u_error s' = u_error s \<and>
          (\<forall>t x. t \<noteq> rl_type lock \<longrightarrow> covers lock x \<longrightarrow> \<not> holds (i_rl s' org) (rl_proc lock) t x)
        \<or> u_error s' = ENOLCK"
        using rres h' sp f4 i3 mp res(2) by auto
    qed
    with res(1) show ?thesis by blast
  qed
qed

section \<open>Exclusion between processes\<close>

definition exclusive :: "rlock list \<Rightarrow> bool" where
  "exclusive ls \<longleftrightarrow>
     (\<forall>p q t t' x. p \<noteq> q \<longrightarrow> holds ls p t x \<longrightarrow> holds ls q t' x \<longrightarrow> t = 0 \<and> t' = 0)"

definition rl_inv :: "'a rl_state_scheme \<Rightarrow> bool" where
  "rl_inv s \<longleftrightarrow> (\<forall>org. (\<forall>b\<in>set (i_rl s org). wf_rlock b) \<and> exclusive (i_rl s org))"

lemma nextblock_Nil_holds:
  assumes "\<forall>b\<in>set ls. wf_rlock b" "wf_rlock lock"
  shows "nextblock ls lock = [] \<longleftrightarrow>
    (\<forall>q t x. q \<noteq> rl_proc lock \<longrightarrow> covers lock x \<longrightarrow> holds ls q t x \<longrightarrow> rl_type lock = 0 \<and> t = 0)"
proof -
  have "nextblock ls lock = [] \<longleftrightarrow>
      (\<forall>b\<in>set ls. \<forall>x. covers lock x \<longrightarrow> covers b x \<longrightarrow> rl_proc b \<noteq> rl_proc lock \<longrightarrow>
         rl_type lock = 0 \<and> rl_type b = 0)"
    unfolding nextblock_Nil_iff blocks_def using assms meets_iff by metis
  then show ?thesis unfolding holds_def by blast
qed

lemma remlock_rl_inv:
  assumes "remlock org lock s = (r, s')" "rl_inv s" "wf_rlock lock"
  shows "rl_inv s'"
proof -
  have wf: "\<forall>b\<in>set (i_rl s org). wf_rlock b" and ex: "exclusive (i_rl s org)"
    using assms(2) by (auto simp: rl_inv_def)
  from remlock_spec [OF assms(1) wf assms(3)] obtain s0 where
    rp: "remlock_post lock (i_rl s org) s r (i_rl s' org) s0"
    and s': "s' = s0\<lparr>i_rl := (i_rl s)(org := i_rl s' org)\<rparr>" by blast
  have "holds (i_rl s org) p t x" if "holds (i_rl s' org) p t x" for p t x
    using rp that unfolding remlock_post_def by simp
  with ex have "exclusive (i_rl s' org)"
    unfolding exclusive_def by meson
  moreover have "\<forall>b\<in>set (i_rl s' org). wf_rlock b"
    using rp by (simp add: remlock_post_def)
  moreover have "i_rl s' o' = i_rl s o'" if "o' \<noteq> org" for o'
    by (subst s') (simp add: that)
  ultimately show ?thesis
    using assms(2) unfolding rl_inv_def by metis
qed

lemma addlock_rl_inv:
  assumes "addlock org lock s = (r, s')" "rl_inv s" "wf_rlock lock" "nextblock (i_rl s org) lock = []"
  shows "rl_inv s'"
proof -
  have wf: "\<forall>b\<in>set (i_rl s org). wf_rlock b" and ex: "exclusive (i_rl s org)"
    using assms(2) by (auto simp: rl_inv_def)
  have free: "\<And>q t x. q \<noteq> rl_proc lock \<Longrightarrow> covers lock x \<Longrightarrow> holds (i_rl s org) q t x
      \<Longrightarrow> rl_type lock = 0 \<and> t = 0"
    using assms(4) nextblock_Nil_holds [OF wf assms(3)] by blast
  from addlock_spec [OF assms(1) wf assms(3)]
  consider "addlock_post org lock s s'" | "s' = s\<lparr>u_error := ENOLCK\<rparr>" by blast
  then show ?thesis
  proof cases
    case 1
    then have other: "\<And>p t x. p \<noteq> rl_proc lock \<Longrightarrow> holds (i_rl s' org) p t x = holds (i_rl s org) p t x"
      and own: "\<And>t x. holds (i_rl s' org) (rl_proc lock) t x \<Longrightarrow>
        holds (i_rl s org) (rl_proc lock) t x \<or> (t = rl_type lock \<and> covers lock x)"
      unfolding addlock_post_def by metis+
    have "exclusive (i_rl s' org)"
      unfolding exclusive_def
    proof (intro allI impI)
      fix p q t t' x
      assume pq: "p \<noteq> q" and h: "holds (i_rl s' org) p t x" "holds (i_rl s' org) q t' x"
      have old: "t = 0 \<and> t' = 0" if "holds (i_rl s org) p t x" "holds (i_rl s org) q t' x"
        using ex pq that unfolding exclusive_def by blast
      show "t = 0 \<and> t' = 0"
      proof (cases "p = rl_proc lock")
        case True
        with pq h(2) other have q: "q \<noteq> rl_proc lock" "holds (i_rl s org) q t' x" by auto
        from own h(1) True consider "holds (i_rl s org) p t x" | "t = rl_type lock" "covers lock x" by blast
        then show ?thesis using old q free [of q x t'] by cases auto
      next
        case False
        with h(1) other have p: "holds (i_rl s org) p t x" by auto
        show ?thesis
        proof (cases "q = rl_proc lock")
          case True
          from own h(2) True consider "holds (i_rl s org) q t' x" | "t' = rl_type lock" "covers lock x" by blast
          then show ?thesis using old p free [OF False, of x t] by cases auto
        next
          case False
          with h(2) other p old show ?thesis by auto
        qed
      qed
    qed
    with 1 assms(2) show ?thesis
      unfolding addlock_post_def rl_inv_def by metis
  next
    case 2
    with assms(2) show ?thesis by (simp add: rl_inv_def)
  qed
qed

fun outcome_all :: "('a \<Rightarrow> bool) \<Rightarrow> 'a lock_outcome \<Rightarrow> bool" where
  "outcome_all P (Returned r s) = P s"
| "outcome_all P (Asleep s) = P s"
| "outcome_all P Diverged = True"

lemma rl_inv_more [simp]:
  "rl_inv (s\<lparr>u_error := e\<rparr>) = rl_inv s" "rl_inv (s\<lparr>p_prl := pr\<rparr>) = rl_inv s"
  "rl_inv (s\<lparr>freerl := fs\<rparr>) = rl_inv s" "rl_inv (s\<lparr>rl_wakeups := w\<rparr>) = rl_inv s"
  "rl_inv (rl_cleanup self rl s) = rl_inv s"
  by (simp_all add: rl_inv_def rl_cleanup_def)

lemma cleanup_fields [simp]:
  "i_rl (rl_cleanup self rl s) = i_rl s" "u_error (rl_cleanup self rl s) = u_error s"
  "freerl (rl_cleanup self rl s) = rl # freerl s" "p_prl (rl_cleanup self rl s) = (p_prl s)(self := None)"
  by (simp_all add: rl_cleanup_def)

lemma waitlock_loop_rl_inv:
  assumes "rl_inv s" "wf_rlock rl" "rely rl_inv env"
  shows "outcome_all rl_inv (waitlock_loop fuel self org rl env s)"
  using assms
proof (induction fuel self org rl env s rule: waitlock_loop.induct)
  case (1 fuel self org rl env s)
  show ?case
  proof (cases "blocker_scan (waiting fuel s self) rl (nextblock (i_rl s org) rl)")
    case None
    then show ?thesis by (simp add: waitlock_loop.simps [of _ _ _ _ _ s])
  next
    case (Some dead)
    show ?thesis
    proof (cases "\<not> dead \<and> env \<noteq> []")
      case False
      then show ?thesis
        using Some "1.prems" by (cases dead) (auto simp: waitlock_loop.simps [of _ _ _ _ _ s])
    next
      case True
      then obtain f g env' where env: "env = (f, g) # env'" by (metis list.exhaust surj_pair)
      have inv1: "rl_inv (f s)" and rely': "rely rl_inv env'" using "1.prems" env by auto
      show ?thesis
      proof (cases "\<not> g \<and> nextblock (i_rl (f s) org) rl \<noteq> []")
        case again: True
        then show ?thesis
          using Some True env "1.IH" [of False "(f, g)" env' f g "f s"] inv1 rely' "1.prems"(2)
          by (simp add: waitlock_loop.simps [of _ _ _ _ _ s] Let_def)
      next
        case stop: False
        obtain r s2 where a: "addlock org rl (rl_cleanup self rl (f s)) = (r, s2)" by force
        have "g \<or> rl_inv s2"
          using addlock_rl_inv [OF a _ "1.prems"(2)] inv1 stop by auto
        then show ?thesis
          using Some True env inv1 a stop
          by (auto simp: waitlock_loop.simps [of _ _ _ _ _ s] Let_def)
      qed
    qed
  qed
qed

lemma waitlock_rl_inv:
  assumes "rl_inv s" "wf_rlock srl" "rely rl_inv env"
  shows "outcome_all rl_inv (waitlock fuel self org srl env s)"
proof (cases "nextblock (i_rl s org) srl = []")
  case True
  obtain r s1 where a: "addlock org srl s = (r, s1)" by force
  with addlock_rl_inv [OF a assms(1,2) True] True show ?thesis by (simp add: waitlock_def)
next
  case False
  then show ?thesis
    using assms by (auto simp: waitlock_def getlock_def split: list.splits intro!: waitlock_loop_rl_inv)
qed

text \<open>A request is acceptable when it passes the check at the head of \<open>rlock\<close> and does not end
  on the last byte a \<open>long\<close> can address.\<close>

definition acceptable :: "rlock \<Rightarrow> bool" where
  "acceptable srl \<longleftrightarrow> \<not> (rl_start srl < 0 \<or> rl_end srl < -1 \<or>
     (rl_end srl \<noteq> -1 \<and> rl_start srl > rl_end srl)) \<and> rl_end srl \<noteq> 2147483647"

definition in_range32 :: "flock \<Rightarrow> bool" where
  "in_range32 flp \<longleftrightarrow> - 2147483648 \<le> l_start flp \<and> l_start flp \<le> 2147483647"

lemma rlock_request_range:
  "in_range32 flp \<Longrightarrow> rl_start (rlock_request self fdp flp) \<le> 2147483647 \<and>
     rl_end (rlock_request self fdp flp) \<le> 2147483647"
  using wrap32_range by (auto simp: rlock_request_def in_range32_def Let_def)

lemma rlock_request_wf:
  assumes "in_range32 flp" "acceptable (rlock_request self fdp flp)"
  shows "wf_rlock (rlock_request self fdp flp)"
proof -
  have "rl_type (rlock_request self fdp flp) = 0 \<or> rl_type (rlock_request self fdp flp) = 1"
    by (simp add: rlock_request_def Let_def)
  with rlock_request_range [OF assms(1), of self fdp] assms(2) show ?thesis
    unfolding acceptable_def wf_rlock_def by linarith
qed

lemma outcome_all_wakeup:
  assumes "outcome_all P out" "\<And>s w. P s \<Longrightarrow> P (s\<lparr>rl_wakeups := w\<rparr>)"
  shows "outcome_all P (rl_wakeup org out)"
  using assms by (cases out) (auto simp: rl_wakeup_def)

lemma rlock_keeps_rl_inv:
  assumes "rl_inv s" "rely rl_inv env" "in_range32 flp"
    "rl_end (rlock_request self fdp flp) \<noteq> 2147483647"
  shows "outcome_all rl_inv (snd (rlock fuel env self fdp cmd flp s))"
proof -
  let ?srl = "rlock_request self fdp flp" and ?org = "f_ip fdp"
  show ?thesis
  proof (cases "acceptable ?srl")
    case False
    with assms(4) have "rl_start ?srl < 0 \<or> rl_end ?srl < -1 \<or>
        (rl_end ?srl \<noteq> -1 \<and> rl_start ?srl > rl_end ?srl)"
      unfolding acceptable_def by blast
    then show ?thesis using assms(1) by (simp add: rlock_def Let_def)
  next
    case True
    note wf = rlock_request_wf [OF assms(3) True]
    have ok: "\<not> (rl_start ?srl < 0 \<or> rl_end ?srl < -1 \<or>
        (rl_end ?srl \<noteq> -1 \<and> rl_start ?srl > rl_end ?srl))"
      using True unfolding acceptable_def by blast
    obtain r1 s1 where r: "remlock ?org ?srl s = (r1, s1)" by force
    obtain r2 s2 where a: "addlock ?org ?srl s = (r2, s2)" by force
    have "outcome_all rl_inv
      (if l_type flp = F_UNLCK then (case remlock ?org ?srl s of (r, s1) \<Rightarrow> Returned r s1)
       else if (rl_type ?srl \<noteq> 0 \<and> f_flag fdp AND IPW = 0) \<or> (rl_type ?srl = 0 \<and> f_flag fdp AND IPR = 0)
       then Returned (-1) (s\<lparr>u_error := EINVAL\<rparr>)
       else if cmd = F_SETLKW then waitlock fuel self ?org ?srl env s
       else if nextblock (i_rl s ?org) ?srl = [] then (case addlock ?org ?srl s of (r, s1) \<Rightarrow> Returned r s1)
       else Returned (-1) (s\<lparr>u_error := EACCES\<rparr>))" (is "outcome_all rl_inv ?out")
      using assms(1) remlock_rl_inv [OF r assms(1) wf] addlock_rl_inv [OF a assms(1) wf]
        waitlock_rl_inv [OF assms(1) wf assms(2)]
      by (simp add: r a)
    then have "outcome_all rl_inv (rl_wakeup ?org ?out)"
      by (rule outcome_all_wakeup) simp
    then show ?thesis
      using ok assms(1) by (simp add: rlock_def Let_def)
  qed
qed

end
