(* ===== verification/Record_Lock_Deadlock.thy ===== *)
theory Record_Lock_Deadlock
  imports Record_Lock_Laws
begin

text \<open>
  The wait-for relation of \<^verbatim>\<open>rlock.c\<close>, what \<open>waiting\<close> computes of it, and why no process that
  \<open>waitlock\<close> puts to sleep closes a cycle.
\<close>

section \<open>Who waits for whom\<close>

text \<open>\<open>p\<close> has a pending request that a lock of \<open>q\<close> blocks.\<close>

definition waits_for :: "'a rl_state_scheme \<Rightarrow> nat \<Rightarrow> nat \<Rightarrow> bool" where
  "waits_for s p q \<longleftrightarrow>
     (\<exists>org lock. p_prl s p = Some (org, lock) \<and>
        (\<exists>b\<in>set (i_rl s org). meets lock b \<and> blocks lock b \<and> rl_proc b = q))"

definition no_deadlock :: "'a rl_state_scheme \<Rightarrow> bool" where
  "no_deadlock s \<longleftrightarrow> (\<forall>p. \<not> (waits_for s)\<^sup>+\<^sup>+ p p)"

section \<open>The search of waiting\<close>

definition blocker :: "rlock \<Rightarrow> rlock list \<Rightarrow> nat \<Rightarrow> bool" where
  "blocker lock xs q \<longleftrightarrow> (\<exists>b\<in>set xs. meets lock b \<and> blocks lock b \<and> rl_proc b = q)"

lemma blocker_nextblock: "blocker lock (nextblock xs lock) q \<longleftrightarrow> blocker lock xs q"
proof (cases "nextblock xs lock")
  case Nil
  then have "\<forall>b\<in>set xs. \<not> (meets lock b \<and> blocks lock b)" by (simp add: nextblock_Nil_iff)
  with Nil show ?thesis by (auto simp: blocker_def)
next
  case (Cons b bs)
  then obtain pre where "xs = pre @ b # bs" "\<forall>c\<in>set pre. \<not> (meets lock c \<and> blocks lock c)"
    using nextblock_Cons by blast
  with Cons show ?thesis by (auto simp: blocker_def)
qed

text \<open>What the argument of \<open>blocker_scan\<close> looks like whenever the loop is entered.\<close>

definition at_blocker :: "rlock \<Rightarrow> rlock list \<Rightarrow> bool" where
  "at_blocker lock xs \<longleftrightarrow> (case xs of [] \<Rightarrow> True | b # _ \<Rightarrow> meets lock b \<and> blocks lock b)"

lemma at_blocker_nextblock: "at_blocker lock (nextblock xs lock)"
  by (cases "nextblock xs lock") (auto simp: at_blocker_def dest: nextblock_Cons)

lemma blocker_scan_True:
  "blocker_scan f lock xs = Some True \<Longrightarrow> at_blocker lock xs \<Longrightarrow>
     \<exists>q. blocker lock xs q \<and> f q = Some True"
proof (induction f lock xs rule: blocker_scan.induct)
  case (2 f lock b bs)
  have b: "meets lock b" "blocks lock b" using "2.prems"(2) by (auto simp: at_blocker_def)
  show ?case
  proof (cases "f (rl_proc b) = Some False")
    case True
    then obtain q where "blocker lock bs q" "f q = Some True"
      using "2.IH" [OF True] "2.prems"(1) at_blocker_nextblock blocker_nextblock
      by auto
    then show ?thesis by (auto simp: blocker_def)
  next
    case False
    then have "f (rl_proc b) = Some True"
      using "2.prems"(1) by (auto split: option.splits bool.splits)
    with b show ?thesis by (auto simp: blocker_def)
  qed
qed simp

lemma blocker_scan_False:
  "blocker_scan f lock xs = Some False \<Longrightarrow> at_blocker lock xs \<Longrightarrow>
     blocker lock xs q \<Longrightarrow> f q = Some False"
proof (induction f lock xs rule: blocker_scan.induct)
  case (1 f lock)
  then show ?case by (simp add: blocker_def)
next
  case (2 f lock b bs)
  have b: "f (rl_proc b) = Some False" "blocker_scan f lock (nextblock bs lock) = Some False"
    using "2.prems"(1) by (auto split: option.splits bool.splits)
  show ?case
  proof (cases "rl_proc b = q")
    case True
    with b show ?thesis by simp
  next
    case False
    with "2.prems"(3) have "blocker lock bs q" by (auto simp: blocker_def)
    then show ?thesis
      using "2.IH" [OF b(1)] b(2) at_blocker_nextblock blocker_nextblock by blast
  qed
qed

lemma blocker_scan_returns:
  "at_blocker lock xs \<Longrightarrow> (\<And>q. blocker lock xs q \<Longrightarrow> f q \<noteq> None) \<Longrightarrow> blocker_scan f lock xs \<noteq> None"
proof (induction f lock xs rule: blocker_scan.induct)
  case (2 f lock b bs)
  have b: "meets lock b" "blocks lock b" using "2.prems"(1) by (auto simp: at_blocker_def)
  then have fb: "f (rl_proc b) \<noteq> None" by (intro "2.prems"(2)) (auto simp: blocker_def)
  have rest: "f q \<noteq> None" if "blocker lock (nextblock bs lock) q" for q
    using that by (intro "2.prems"(2)) (auto simp: blocker_nextblock, auto simp: blocker_def)
  then show ?case
    using fb "2.IH" at_blocker_nextblock by (auto split: option.splits bool.splits)
qed simp

lemma waits_for_blocker:
  "p_prl s p = Some (org, lock) \<Longrightarrow> waits_for s p q \<longleftrightarrow> blocker lock (i_rl s org) q"
  by (auto simp: waits_for_def blocker_def)

lemma waiting_True_waits:
  "waiting fuel s self pp = Some True \<Longrightarrow> (waits_for s)\<^sup>+\<^sup>+ pp self"
proof (induction fuel s self pp rule: waiting.induct)
  case (2 fuel s self pp)
  then obtain org lock where p: "p_prl s pp = Some (org, lock)"
    by (auto split: option.splits)
  let ?f = "\<lambda>p. if p = self then Some True else waiting fuel s self p"
  have "blocker_scan ?f lock (nextblock (i_rl s org) lock) = Some True"
    using "2.prems" p by simp
  from blocker_scan_True [OF this at_blocker_nextblock] obtain q where
    q: "waits_for s pp q" "?f q = Some True"
    using p by (auto simp: blocker_nextblock waits_for_blocker)
  show ?case
  proof (cases "q = self")
    case True
    with q(1) show ?thesis by auto
  next
    case False
    with q(2) have "waiting fuel s self q = Some True" by simp
    with "2.IH" p False have "(waits_for s)\<^sup>+\<^sup>+ q self" by blast
    with q(1) show ?thesis by (rule tranclp_into_tranclp2)
  qed
qed simp

lemma waiting_False_not_waits:
  "waiting fuel s self pp = Some False \<Longrightarrow> \<not> (waits_for s)\<^sup>+\<^sup>+ pp self"
proof (induction fuel s self pp rule: waiting.induct)
  case (2 fuel s self pp)
  show ?case
  proof (cases "p_prl s pp")
    case None
    then have "\<not> waits_for s pp q" for q by (simp add: waits_for_def)
    then show ?thesis by (metis tranclpD)
  next
    case (Some ol)
    obtain org lock where p: "p_prl s pp = Some (org, lock)" using Some by (cases ol) auto
    let ?f = "\<lambda>p. if p = self then Some True else waiting fuel s self p"
    have sc: "blocker_scan ?f lock (nextblock (i_rl s org) lock) = Some False"
      using "2.prems" p by simp
    have step: "q \<noteq> self \<and> \<not> (waits_for s)\<^sup>+\<^sup>+ q self" if "waits_for s pp q" for q
    proof -
      have "blocker lock (nextblock (i_rl s org) lock) q"
        using that p by (cases "q = self") (simp_all add: blocker_nextblock waits_for_blocker)
      from blocker_scan_False [OF sc at_blocker_nextblock this]
      have f: "?f q = Some False" .
      then have n: "q \<noteq> self" by auto
      with f "2.IH" p show ?thesis by (metis (full_types))
    qed
    show ?thesis
    proof
      assume "(waits_for s)\<^sup>+\<^sup>+ pp self"
      then obtain q where "waits_for s pp q" "(waits_for s)\<^sup>*\<^sup>* q self" by (metis tranclpD)
      with step show False by (metis rtranclpD)
    qed
  qed
qed simp

text \<open>
  With no cycle among the sleeping processes the search ends: a fuel above the number of
  pending requests is enough.
\<close>

lemma waiting_returns:
  assumes "no_deadlock s" "finite P" "\<And>q. p_prl s q \<noteq> None \<Longrightarrow> q \<in> P"
  shows "card P < fuel \<Longrightarrow> waiting fuel s self pp \<noteq> None"
proof -
  define R where "R p = {q \<in> P. (waits_for s)\<^sup>*\<^sup>* p q \<and> p_prl s q \<noteq> None}" for p
  have finR: "finite (R p)" for p using assms(2) by (simp add: R_def)
  have "card (R pp) < fuel \<Longrightarrow> waiting fuel s self pp \<noteq> None" for fuel pp
  proof (induction fuel arbitrary: pp)
    case (Suc fuel)
    show ?case
    proof (cases "p_prl s pp")
      case None
      then show ?thesis by simp
    next
      case (Some ol)
      obtain org lock where p: "p_prl s pp = Some (org, lock)" using Some by (cases ol) auto
      have "waiting fuel s self q \<noteq> None" if w: "waits_for s pp q" for q
      proof (rule Suc.IH)
        have "pp \<notin> R q"
        proof
          assume "pp \<in> R q"
          then have "(waits_for s)\<^sup>*\<^sup>* q pp" by (simp add: R_def)
          with w have "(waits_for s)\<^sup>+\<^sup>+ pp pp" by (meson rtranclp_into_tranclp2)
          with assms(1) show False by (simp add: no_deadlock_def)
        qed
        moreover have "pp \<in> R pp" using assms(3) [of pp] p by (simp add: R_def)
        moreover have "R q \<subseteq> R pp" using w by (auto simp: R_def intro: converse_rtranclp_into_rtranclp)
        ultimately have "R q \<subset> R pp" by blast
        then show "card (R q) < fuel"
          using Suc.prems psubset_card_mono [OF finR, of "R q" pp] by simp
      qed
      then have "(if q = self then Some True else waiting fuel s self q) \<noteq> None"
        if "blocker lock (nextblock (i_rl s org) lock) q" for q
        using that p by (cases "q = self") (simp_all add: blocker_nextblock waits_for_blocker)
      from blocker_scan_returns [OF at_blocker_nextblock this] p show ?thesis by simp
    qed
  qed simp
  moreover have "card (R pp) \<le> card P" by (rule card_mono) (auto simp: R_def assms(2))
  ultimately show "card P < fuel \<Longrightarrow> waiting fuel s self pp \<noteq> None" by fastforce
qed

text \<open>The search never looks at the searcher's own request.\<close>

lemma waiting_own_request:
  "pp \<noteq> self \<Longrightarrow> waiting fuel (s\<lparr>p_prl := (p_prl s)(self := x)\<rparr>) self pp = waiting fuel s self pp"
proof (induction fuel arbitrary: pp)
  case (Suc fuel)
  have "(\<lambda>p. if p = self then Some True else waiting fuel (s\<lparr>p_prl := (p_prl s)(self := x)\<rparr>) self p)
      = (\<lambda>p. if p = self then Some True else waiting fuel s self p)"
  proof (rule ext)
    fix p
    show "(if p = self then Some True else waiting fuel (s\<lparr>p_prl := (p_prl s)(self := x)\<rparr>) self p)
      = (if p = self then Some True else waiting fuel s self p)"
      by (rule if_cong [OF refl refl]) (rule Suc.IH)
  qed
  with Suc.prems show ?case
    by (simp add: fun_upd_other split: option.split del: fun_upd_apply)
qed simp

section \<open>Sleeping never closes a cycle\<close>

definition pending_wf :: "'a rl_state_scheme \<Rightarrow> bool" where
  "pending_wf s \<longleftrightarrow> (\<forall>p org lock. p_prl s p = Some (org, lock) \<longrightarrow> wf_rlock lock \<and> rl_proc lock = p)"

definition dl_inv :: "'a rl_state_scheme \<Rightarrow> bool" where
  "dl_inv s \<longleftrightarrow> rl_inv s \<and> pending_wf s \<and> no_deadlock s"

lemma waits_for_cong:
  "i_rl s' = i_rl s \<Longrightarrow> p_prl s' p = p_prl s p \<Longrightarrow> waits_for s' p q = waits_for s p q"
  by (simp add: waits_for_def)

lemma waits_for_same:
  assumes "i_rl s' = i_rl s" "p_prl s' = p_prl s"
  shows "waits_for s' = waits_for s"
  by (intro ext waits_for_cong) (simp_all add: assms)

lemma waits_for_holds:
  assumes "rl_inv s" "pending_wf s"
  shows "waits_for s p q \<longleftrightarrow> (\<exists>org lock t x. p_prl s p = Some (org, lock) \<and> p \<noteq> q \<and>
           covers lock x \<and> holds (i_rl s org) q t x \<and> (rl_type lock \<noteq> 0 \<or> t \<noteq> 0))"
proof -
  have "(\<exists>b\<in>set (i_rl s org). meets lock b \<and> blocks lock b \<and> rl_proc b = q) \<longleftrightarrow>
      (\<exists>t x. p \<noteq> q \<and> covers lock x \<and> holds (i_rl s org) q t x \<and> (rl_type lock \<noteq> 0 \<or> t \<noteq> 0))"
    if "p_prl s p = Some (org, lock)" for org lock
  proof -
    have wf: "wf_rlock lock" "rl_proc lock = p" "\<forall>b\<in>set (i_rl s org). wf_rlock b"
      using assms that unfolding rl_inv_def pending_wf_def by blast+
    then have "(\<exists>b\<in>set (i_rl s org). meets lock b \<and> blocks lock b \<and> rl_proc b = q) \<longleftrightarrow>
        (\<exists>b\<in>set (i_rl s org). (\<exists>x. covers lock x \<and> covers b x) \<and> blocks lock b \<and> rl_proc b = q)"
      by (metis meets_iff)
    then show ?thesis
      unfolding blocks_def holds_def wf(2) by blast
  qed
  then show ?thesis unfolding waits_for_def by blast
qed

lemma waits_for_removed:
  "waits_for (s\<lparr>p_prl := (p_prl s)(self := None)\<rparr>) p q \<longleftrightarrow> p \<noteq> self \<and> waits_for s p q"
  by (auto simp: waits_for_def)

lemma no_deadlock_mono:
  assumes "no_deadlock s" "\<And>p q. waits_for s' p q \<Longrightarrow> waits_for s p q"
  shows "no_deadlock s'"
proof -
  have "(waits_for s)\<^sup>+\<^sup>+ p q" if "(waits_for s')\<^sup>+\<^sup>+ p q" for p q
    using that by (induction rule: tranclp_induct)
      (auto intro: tranclp.r_into_trancl tranclp.trancl_into_trancl assms(2))
  with assms(1) show ?thesis unfolding no_deadlock_def by blast
qed

lemma waits_for_cleanup:
  "waits_for (rl_cleanup self rl s) p q \<longleftrightarrow> p \<noteq> self \<and> waits_for s p q"
  by (auto simp: waits_for_def rl_cleanup_def)

lemma dl_inv_cleanup:
  assumes "rl_inv s" "pending_wf s" "no_deadlock (s\<lparr>p_prl := (p_prl s)(self := None)\<rparr>)"
  shows "dl_inv (rl_cleanup self rl s)"
proof -
  have "no_deadlock (rl_cleanup self rl s)"
    using assms(3) by (rule no_deadlock_mono) (simp add: waits_for_cleanup waits_for_removed)
  with assms(1,2) show ?thesis by (simp add: dl_inv_def pending_wf_def)
qed

lemma dl_inv_error [simp]: "dl_inv (s\<lparr>u_error := e\<rparr>) = dl_inv s"
proof -
  have "waits_for (s\<lparr>u_error := e\<rparr>) = waits_for s" by (rule waits_for_same) simp_all
  then show ?thesis by (simp add: dl_inv_def pending_wf_def no_deadlock_def)
qed

lemma rl_cleanup_error: "rl_cleanup self rl (s\<lparr>u_error := e\<rparr>) = (rl_cleanup self rl s)\<lparr>u_error := e\<rparr>"
  by (simp add: rl_cleanup_def)

text \<open>
  A running process has no pending request, so the locks it adds cannot lie on a cycle.
\<close>

lemma addlock_dl_inv:
  assumes a: "addlock org lock s = (r, s')" and inv: "dl_inv s" and run: "p_prl s (rl_proc lock) = None"
    and wf: "wf_rlock lock" and free: "nextblock (i_rl s org) lock = []"
  shows "dl_inv s'"
proof -
  let ?self = "rl_proc lock"
  have inv1: "rl_inv s" "pending_wf s" "no_deadlock s" using inv by (auto simp: dl_inv_def)
  have inv': "rl_inv s'" by (rule addlock_rl_inv [OF a inv1(1) wf free])
  have wfl: "\<forall>b\<in>set (i_rl s org). wf_rlock b" using inv1(1) by (simp add: rl_inv_def)
  from addlock_spec [OF a wfl wf] consider "addlock_post org lock s s'" | "s' = s\<lparr>u_error := ENOLCK\<rparr>"
    by blast
  then show ?thesis
  proof cases
    case 1
    then have prl: "p_prl s' = p_prl s"
      and other: "\<And>o' p t x. p \<noteq> ?self \<Longrightarrow> holds (i_rl s' o') p t x = holds (i_rl s o') p t x"
      unfolding addlock_post_def by (blast, metis)
    have pw: "pending_wf s'" using inv1(2) prl by (simp add: pending_wf_def)
    have edge: "waits_for s p q" if "waits_for s' p q" "q \<noteq> ?self" for p q
      using that other unfolding waits_for_holds [OF inv' pw] waits_for_holds [OF inv1(1,2)] prl
      by blast
    have out: "p \<noteq> ?self" if "waits_for s' p q" for p q
      using that run prl by (auto simp: waits_for_def)
    have path: "q \<noteq> ?self \<Longrightarrow> (waits_for s)\<^sup>+\<^sup>+ p q" if "(waits_for s')\<^sup>+\<^sup>+ p q" for p q
      using that
    proof (induction rule: tranclp_induct)
      case (base y)
      then show ?case using edge by blast
    next
      case (step y z)
      then show ?case using edge out by (meson tranclp.trancl_into_trancl)
    qed
    have "no_deadlock s'"
      unfolding no_deadlock_def
    proof (intro allI notI)
      fix p assume c: "(waits_for s')\<^sup>+\<^sup>+ p p"
      then have "p \<noteq> ?self" using out by (metis tranclpD)
      with path [OF c] inv1(3) show False by (simp add: no_deadlock_def)
    qed
    with inv' pw show ?thesis by (simp add: dl_inv_def)
  next
    case 2
    with inv show ?thesis by simp
  qed
qed

text \<open>The state \<open>waitlock\<close> sleeps in, when the search found no path back.\<close>

lemma scan_False_no_deadlock:
  assumes p: "p_prl s self = Some (org, rl)" and self: "rl_proc rl = self"
    and nd: "no_deadlock (s\<lparr>p_prl := (p_prl s)(self := None)\<rparr>)"
    and sc: "blocker_scan (waiting fuel s self) rl (nextblock (i_rl s org) rl) = Some False"
  shows "no_deadlock s"
  unfolding no_deadlock_def
proof (intro allI notI)
  let ?s0 = "s\<lparr>p_prl := (p_prl s)(self := None)\<rparr>"
  fix c assume cyc: "(waits_for s)\<^sup>+\<^sup>+ c c"
  have noself: "\<not> (waits_for s)\<^sup>+\<^sup>+ self self"
  proof
    assume "(waits_for s)\<^sup>+\<^sup>+ self self"
    then obtain q where q: "waits_for s self q" "(waits_for s)\<^sup>*\<^sup>* q self" by (metis tranclpD)
    from q(1) p self have "blocker rl (i_rl s org) q" "q \<noteq> self"
      by (auto simp: waits_for_blocker blocker_def blocks_def)
    then have "waiting fuel s self q = Some False"
      using blocker_scan_False [OF sc at_blocker_nextblock] by (simp add: blocker_nextblock)
    then have "\<not> (waits_for s)\<^sup>+\<^sup>+ q self" by (rule waiting_False_not_waits)
    with q(2) \<open>q \<noteq> self\<close> show False by (metis rtranclpD)
  qed
  have on_cycle: "d \<noteq> self" if "(waits_for s)\<^sup>*\<^sup>* c d" "(waits_for s)\<^sup>*\<^sup>* d c" for d
    using that cyc noself by (meson rtranclp_tranclp_tranclp tranclp_rtranclp_tranclp)
  have "(waits_for ?s0)\<^sup>+\<^sup>+ c d" if "(waits_for s)\<^sup>+\<^sup>+ c d" "(waits_for s)\<^sup>*\<^sup>* d c" for d
    using that
  proof (induction rule: tranclp_induct)
    case (base y)
    then show ?case using on_cycle [of c] by (auto simp: waits_for_removed simp del: fun_upd_apply)
  next
    case (step y z)
    have yc: "(waits_for s)\<^sup>*\<^sup>* y c" using step.hyps(2) step.prems by (rule converse_rtranclp_into_rtranclp)
    have "y \<noteq> self" by (rule on_cycle [OF tranclp_into_rtranclp [OF step.hyps(1)] yc])
    with step yc show ?case
      by (simp add: waits_for_removed tranclp.trancl_into_trancl del: fun_upd_apply)
  qed
  from this [OF cyc rtranclp.rtrancl_refl] nd show False by (simp add: no_deadlock_def)
qed

lemma no_deadlock_removed:
  "no_deadlock s \<Longrightarrow> no_deadlock (s\<lparr>p_prl := (p_prl s)(self := None)\<rparr>)"
  by (erule no_deadlock_mono) (simp add: waits_for_removed del: fun_upd_apply)

definition sleeping_inv :: "nat \<Rightarrow> nat \<Rightarrow> rlock \<Rightarrow> 'a rl_state_scheme \<Rightarrow> bool" where
  "sleeping_inv self org rl s \<longleftrightarrow> dl_inv s \<and> p_prl s self = Some (org, rl)"

lemma waitlock_loop_dl_inv:
  assumes "rl_inv s" "pending_wf s" "no_deadlock (s\<lparr>p_prl := (p_prl s)(self := None)\<rparr>)"
    "p_prl s self = Some (org, rl)" "rl_proc rl = self" "wf_rlock rl"
    "rely (sleeping_inv self org rl) env"
  shows "outcome_all dl_inv (waitlock_loop fuel self org rl env s)"
  using assms
proof (induction fuel self org rl env s rule: waitlock_loop.induct)
  case (1 fuel self org rl env s)
  note unf = waitlock_loop.simps [of fuel self org rl _ s]
  show ?case
  proof (cases "blocker_scan (waiting fuel s self) rl (nextblock (i_rl s org) rl)")
    case None
    then show ?thesis by (simp add: unf)
  next
    case (Some dead)
    show ?thesis
    proof (cases dead)
      case True
      have "dl_inv (rl_cleanup self rl s)" using "1.prems"(1-3) by (rule dl_inv_cleanup)
      then have "dl_inv (rl_cleanup self rl (s\<lparr>u_error := EDEADLK\<rparr>))"
        by (simp add: rl_cleanup_error)
      with Some True show ?thesis by (simp add: unf)
    next
      case False
      have nd: "no_deadlock s"
        using scan_False_no_deadlock [OF "1.prems"(4,5,3)] Some False by simp
      then have sl: "sleeping_inv self org rl s"
        using "1.prems"(1,2,4) by (simp add: sleeping_inv_def dl_inv_def)
      show ?thesis
      proof (cases env)
        case Nil
        with Some False sl show ?thesis by (simp add: unf sleeping_inv_def)
      next
        case (Cons e env')
        obtain f g where e: "e = (f, g)" by (cases e)
        have sl1: "sleeping_inv self org rl (f s)" and rely': "rely (sleeping_inv self org rl) env'"
          using "1.prems"(7) Cons e sl by auto
        then have d1: "rl_inv (f s)" "pending_wf (f s)" "no_deadlock (f s)" "p_prl (f s) self = Some (org, rl)"
          by (auto simp: sleeping_inv_def dl_inv_def)
        note nd1 = no_deadlock_removed [OF d1(3)]
        have cl: "dl_inv (rl_cleanup self rl (f s))" using d1(1,2) nd1 by (rule dl_inv_cleanup)
        show ?thesis
        proof (cases "\<not> g \<and> nextblock (i_rl (f s) org) rl \<noteq> []")
          case True
          then show ?thesis
            using Some False Cons e
              "1.IH" [of dead e env' f g "f s", OF Some _ Cons e [symmetric] refl] d1 nd1 "1.prems"(5,6) rely'
            by (simp add: unf Let_def del: fun_upd_apply)
        next
          case stop: False
          show ?thesis
          proof (cases g)
            case True
            have "dl_inv (rl_cleanup self rl ((f s)\<lparr>u_error := EINTR\<rparr>))"
              using cl by (simp add: rl_cleanup_error)
            with True show ?thesis using Some False Cons e by (simp add: unf Let_def)
          next
            case g: False
            with stop have free: "nextblock (i_rl (rl_cleanup self rl (f s)) org) rl = []" by simp
            obtain r s2 where a: "addlock org rl (rl_cleanup self rl (f s)) = (r, s2)" by force
            have "dl_inv s2"
              by (rule addlock_dl_inv [OF a cl _ "1.prems"(6) free]) (simp add: "1.prems"(5))
            then show ?thesis using Some False Cons e a g free by (simp add: unf Let_def)
          qed
        qed
      qed
    qed
  qed
qed

lemma waitlock_dl_inv:
  assumes inv: "dl_inv s" and run: "p_prl s self = None" and self: "rl_proc srl = self"
    and wf: "wf_rlock srl" and env: "rely (sleeping_inv self org srl) env"
  shows "outcome_all dl_inv (waitlock fuel self org srl env s)"
proof (cases "nextblock (i_rl s org) srl = []")
  case True
  obtain r s1 where a: "addlock org srl s = (r, s1)" by force
  have "dl_inv s1" by (rule addlock_dl_inv [OF a inv _ wf True]) (simp add: run self)
  with a True show ?thesis by (simp add: waitlock_def)
next
  case False
  have d: "rl_inv s" "pending_wf s" "no_deadlock s" using inv by (auto simp: dl_inv_def)
  show ?thesis
  proof (cases "freerl s")
    case Nil
    with False inv show ?thesis by (simp add: waitlock_def getlock_def)
  next
    case (Cons fl fs)
    let ?s1 = "s\<lparr>freerl := fs, p_prl := (p_prl s)(self := Some (org, srl))\<rparr>"
    have same: "(p_prl s)(self := None) = p_prl s" using run by auto
    have "no_deadlock (?s1\<lparr>p_prl := (p_prl ?s1)(self := None)\<rparr>)"
      using d(3) by (rule no_deadlock_mono) (simp add: waits_for_def same del: fun_upd_apply)
    moreover have "pending_wf ?s1" using d(2) self wf by (simp add: pending_wf_def)
    moreover have "rl_inv ?s1" using d(1) by (simp add: rl_inv_def)
    ultimately have "outcome_all dl_inv (waitlock_loop fuel self org srl env ?s1)"
      using self wf env by (intro waitlock_loop_dl_inv) simp_all
    with False Cons show ?thesis by (simp add: waitlock_def getlock_def)
  qed
qed

end
