(* ===== verification/Record_Lock_Properties.thy ===== *)
theory Record_Lock_Properties
  imports Record_Lock_Deadlock
begin

text \<open>
  The properties of record locking, stated for the entry point \<open>rlock\<close> and for \<open>waiting\<close>,
  with witnesses on a small system.
\<close>

lemma remlock_dl_inv:
  assumes r: "remlock org lock s = (r, s')" and inv: "dl_inv s" and wf: "wf_rlock lock"
  shows "dl_inv s'"
proof -
  have inv1: "rl_inv s" "pending_wf s" "no_deadlock s" using inv by (auto simp: dl_inv_def)
  have wfl: "\<forall>b\<in>set (i_rl s org). wf_rlock b" using inv1(1) by (simp add: rl_inv_def)
  have inv': "rl_inv s'" by (rule remlock_rl_inv [OF r inv1(1) wf])
  from remlock_spec [OF r wfl wf] obtain s0 where
    post: "remlock_post lock (i_rl s org) s r (i_rl s' org) s0"
    and s': "s' = s0\<lparr>i_rl := (i_rl s)(org := i_rl s' org)\<rparr>" by blast
  have prl: "p_prl s' = p_prl s" using post by (subst s') (simp add: remlock_post_def)
  have "i_rl s' o' = i_rl s o'" if "o' \<noteq> org" for o' by (subst s') (simp add: that)
  then have sub: "holds (i_rl s o') p t x" if "holds (i_rl s' o') p t x" for o' p t x
    using that post unfolding remlock_post_def by (cases "o' = org") auto
  have pw: "pending_wf s'" using inv1(2) prl by (simp add: pending_wf_def)
  have "no_deadlock s'"
    using inv1(3)
  proof (rule no_deadlock_mono)
    fix p q assume "waits_for s' p q"
    then show "waits_for s p q"
      using sub unfolding waits_for_holds [OF inv' pw] waits_for_holds [OF inv1(1,2)] prl by blast
  qed
  with inv' pw show ?thesis by (simp add: dl_inv_def)
qed

lemma dl_inv_wakeups: "dl_inv s \<Longrightarrow> dl_inv (s\<lparr>rl_wakeups := w\<rparr>)"
proof -
  have "waits_for (s\<lparr>rl_wakeups := w\<rparr>) = waits_for s" by (rule waits_for_same) simp_all
  then show "dl_inv s \<Longrightarrow> dl_inv (s\<lparr>rl_wakeups := w\<rparr>)"
    by (simp add: dl_inv_def pending_wf_def no_deadlock_def)
qed

text \<open>Past its argument check, \<open>rlock\<close> on a command that sets or clears.\<close>

lemma rlock_set_unfold:
  assumes "acceptable (rlock_request self fdp flp)" "cmd \<noteq> F_GETLK"
  shows "snd (rlock fuel env self fdp cmd flp s) = rl_wakeup (f_ip fdp)
     (let srl = rlock_request self fdp flp; org = f_ip fdp in
      if l_type flp = F_UNLCK then (case remlock org srl s of (r, s1) \<Rightarrow> Returned r s1)
      else if (rl_type srl \<noteq> 0 \<and> f_flag fdp AND IPW = 0) \<or> (rl_type srl = 0 \<and> f_flag fdp AND IPR = 0)
      then Returned (-1) (s\<lparr>u_error := EINVAL\<rparr>)
      else if cmd = F_SETLKW then waitlock fuel self org srl env s
      else if nextblock (i_rl s org) srl = [] then (case addlock org srl s of (r, s1) \<Rightarrow> Returned r s1)
      else Returned (-1) (s\<lparr>u_error := EACCES\<rparr>))"
proof -
  have "(rl_start (rlock_request self fdp flp) < 0 \<or> rl_end (rlock_request self fdp flp) < -1 \<or>
      (rl_end (rlock_request self fdp flp) \<noteq> -1 \<and>
       rl_start (rlock_request self fdp flp) > rl_end (rlock_request self fdp flp))) = False"
    using assms(1) unfolding acceptable_def by blast
  moreover have "(cmd = F_GETLK) = False" using assms(2) by simp
  ultimately show ?thesis by (simp only: rlock_def Let_def if_False snd_conv)
qed

section \<open>A small system for the witnesses\<close>

text \<open>One file, a write lock of process 2 on bytes 10 to 19, three free nodes.\<close>

definition demo_locks :: rl_state where
  "demo_locks = \<lparr>u_error = E_NONE, u_asu = False, p_credp = 1, cred_mem = Map.empty,
     groups_mem = Map.empty, kallocs = [], freerl = [nil_rlock, nil_rlock, nil_rlock],
     i_rl = (\<lambda>_. [])(0 := [\<lparr>rl_type = 1, rl_start = 10, rl_end = 19, rl_proc = 2\<rparr>]),
     p_prl = (\<lambda>_. None), rl_wakeups = []\<rparr>"

definition demo_fd :: lock_fd where
  "demo_fd = \<lparr>f_ip = 0, f_flag = 6, f_seek = 0, ip_size = 100\<rparr>"

definition demo_req :: "int \<Rightarrow> int \<Rightarrow> int \<Rightarrow> flock" where
  "demo_req t st len = \<lparr>l_type = t, l_whence = 0, l_start = st, l_len = len, l_pid = 0\<rparr>"

lemma demo_locks_dl_inv: "dl_inv demo_locks"
proof -
  have "\<not> waits_for demo_locks p q" for p q by (simp add: waits_for_def demo_locks_def)
  then have "\<not> (waits_for demo_locks)\<^sup>+\<^sup>+ p q" for p q by (metis tranclpD)
  then show ?thesis
    by (auto simp: dl_inv_def no_deadlock_def rl_inv_def exclusive_def pending_wf_def demo_locks_def
        wf_rlock_def)
qed


lemma demo_locks_rl_inv: "rl_inv demo_locks"
  using demo_locks_dl_inv by (simp add: dl_inv_def)

lemmas demo_lock_defs = demo_locks_def demo_fd_def demo_req_def rlock_request_def

section \<open>The terms the properties use\<close>

text \<open>Another process holds a byte of \<open>req\<close>, and one of the two locks is a write lock.\<close>

definition lock_conflict :: "rlock list \<Rightarrow> rlock \<Rightarrow> bool" where
  "lock_conflict ls req \<longleftrightarrow>
     (\<exists>q t x. q \<noteq> rl_proc req \<and> covers req x \<and> holds ls q t x \<and> \<not> (rl_type req = 0 \<and> t = 0))"



text \<open>From \<open>ls\<close> to \<open>ls'\<close>, the bytes of \<open>req\<close> were released: nothing else changes, nothing is
  gained, and \<open>all\<close> says that none of them is still held.\<close>

definition lock_released :: "rlock \<Rightarrow> rlock list \<Rightarrow> rlock list \<Rightarrow> bool \<Rightarrow> bool" where
  "lock_released req ls ls' all \<longleftrightarrow>
     (\<forall>p t x. \<not> (p = rl_proc req \<and> covers req x) \<longrightarrow> holds ls' p t x = holds ls p t x) \<and>
     (\<forall>p t x. holds ls' p t x \<longrightarrow> holds ls p t x) \<and>
     (all \<longrightarrow> (\<forall>t x. covers req x \<longrightarrow> \<not> holds ls' (rl_proc req) t x))"

lemma nextblock_lock_conflict:
  "\<forall>b\<in>set ls. wf_rlock b \<Longrightarrow> wf_rlock lock \<Longrightarrow> nextblock ls lock = [] \<longleftrightarrow> \<not> lock_conflict ls lock"
  unfolding nextblock_Nil_holds lock_conflict_def by blast


lemma remlock_released:
  assumes "remlock_post lock bs s r bs' s'"
  shows "lock_released lock bs bs' (r = 0)"
proof -
  have "\<forall>p t x. \<not> (p = rl_proc lock \<and> covers lock x) \<longrightarrow> holds bs' p t x = holds bs p t x"
    and "\<forall>p t x. holds bs' p t x \<longrightarrow> holds bs p t x"
    and "r = 0 \<Longrightarrow> \<forall>t x. covers lock x \<longrightarrow> \<not> holds bs' (rl_proc lock) t x"
    using assms unfolding remlock_post_def by auto
  then show ?thesis unfolding lock_released_def by blast
qed

lemma rlock_request_proc [simp]: "rl_proc (rlock_request self fdp flp) = self"
  by (simp add: rlock_request_def Let_def)

section \<open>Properties\<close>





text \<open>
  Unlocking: a successful \<open>F_UNLCK\<close> leaves the caller no lock on the requested bytes, and
  whether it succeeds or runs out of nodes in the middle, every other byte of the caller and
  every byte of the other processes keeps the locks it had, nothing is gained, the other
  inodes are untouched, and nodes only move between the list and the free list.
\<close>

theorem rlock_unlock:
  assumes inv: "rl_inv s" and rng: "in_range32 flp" and acc: "acceptable (rlock_request self fdp flp)"
    and ty: "l_type flp = F_UNLCK" and cmd: "cmd \<noteq> F_GETLK"
  shows "\<exists>r s'. snd (rlock fuel env self fdp cmd flp s) = Returned r s' \<and>
     (r = 0 \<or> r = -1 \<and> u_error s' = ENOLCK \<and> freerl s' = []) \<and>
     lock_released (rlock_request self fdp flp) (i_rl s (f_ip fdp)) (i_rl s' (f_ip fdp)) (r = 0) \<and>
     (\<forall>o'. o' \<noteq> f_ip fdp \<longrightarrow> i_rl s' o' = i_rl s o') \<and>
     length (i_rl s' (f_ip fdp)) + length (freerl s') = length (i_rl s (f_ip fdp)) + length (freerl s)"
proof -
  let ?org = "f_ip fdp" and ?req = "rlock_request self fdp flp"
  have wf: "wf_rlock ?req" by (rule rlock_request_wf [OF rng acc])
  have wfl: "\<forall>b\<in>set (i_rl s ?org). wf_rlock b" using inv by (simp add: rl_inv_def)
  obtain r s' where a: "remlock ?org ?req s = (r, s')" by force
  have o: "snd (rlock fuel env self fdp cmd flp s) = Returned r (s'\<lparr>rl_wakeups := ?org # rl_wakeups s'\<rparr>)"
    using rlock_set_unfold [OF acc cmd, of fuel env s] ty a by (simp add: rl_wakeup_def Let_def)
  from remlock_spec [OF a wfl wf] obtain s0 where
    p: "remlock_post ?req (i_rl s ?org) s r (i_rl s' ?org) s0"
    and s': "s' = s0\<lparr>i_rl := (i_rl s)(?org := i_rl s' ?org)\<rparr>" by blast
  have f: "freerl s' = freerl s0" "u_error s' = u_error s0" "\<And>o'. o' \<noteq> ?org \<Longrightarrow> i_rl s' o' = i_rl s o'"
    by (subst s', simp)+
  have "r = 0 \<or> r = -1 \<and> u_error s0 = ENOLCK \<and> freerl s0 = []"
    and "length (i_rl s' ?org) + length (freerl s0) = length (i_rl s ?org) + length (freerl s)"
    using p unfolding remlock_post_def by auto
  with remlock_released [OF p] show ?thesis
    unfolding o by (simp add: f)
qed

theorem rlock_unlock_witness:
  "\<exists>r s'. snd (rlock 1 [] 2 demo_fd F_SETLK (demo_req F_UNLCK 12 3) demo_locks) = Returned r s' \<and>
     lock_released (rlock_request 2 demo_fd (demo_req F_UNLCK 12 3))
       (i_rl demo_locks 0) (i_rl s' 0) (r = 0) \<and> holds (i_rl demo_locks 0) 2 1 13"
proof -
  have "acceptable (rlock_request 2 demo_fd (demo_req F_UNLCK 12 3))"
    by (simp add: acceptable_def demo_lock_defs)
  from rlock_unlock [OF demo_locks_rl_inv _ this, of F_SETLK 1 "[]"] show ?thesis
    by (auto simp: in_range32_def demo_lock_defs covers_def)
qed

text \<open>
  C2. No deadlock: when no process waits, directly or through others, for itself, and the
  caller is running, then no state \<open>rlock\<close> returns in or sleeps in has such a cycle either, for
  any command and any behaviour of the others that keeps the invariant and leaves the
  sleeper's request alone.
\<close>

theorem rlock_no_deadlock:
  assumes inv: "dl_inv s" and run: "p_prl s self = None" and rng: "in_range32 flp"
    and last: "rl_end (rlock_request self fdp flp) \<noteq> 2147483647"
    and env: "rely (sleeping_inv self (f_ip fdp) (rlock_request self fdp flp)) env"
  shows "outcome_all dl_inv (snd (rlock fuel env self fdp cmd flp s))"
proof (cases "acceptable (rlock_request self fdp flp) \<and> cmd \<noteq> F_GETLK")
  case False
  then show ?thesis
    using inv last by (auto simp: rlock_def acceptable_def Let_def)
next
  case True
  let ?org = "f_ip fdp" and ?req = "rlock_request self fdp flp"
  have acc: "acceptable ?req" and cmd: "cmd \<noteq> F_GETLK" using True by auto
  have wf: "wf_rlock ?req" by (rule rlock_request_wf [OF rng acc])
  obtain r1 s1 where r: "remlock ?org ?req s = (r1, s1)" by force
  obtain r2 s2 where a: "addlock ?org ?req s = (r2, s2)" by force
  have "dl_inv s1" by (rule remlock_dl_inv [OF r inv wf])
  moreover have "nextblock (i_rl s ?org) ?req = [] \<Longrightarrow> dl_inv s2"
    by (rule addlock_dl_inv [OF a inv _ wf]) (simp_all add: run)
  moreover note waitlock_dl_inv [OF inv run rlock_request_proc wf env, of fuel]
  ultimately show ?thesis
    unfolding rlock_set_unfold [OF acc cmd, of fuel env s] Let_def r a
    by (intro outcome_all_wakeup dl_inv_wakeups) (simp_all add: inv)
qed

theorem rlock_no_deadlock_witness:
  "dl_inv demo_locks \<and>
   (\<exists>s'. snd (rlock 1 [] 3 demo_fd F_SETLKW (demo_req F_WRLCK 15 10) demo_locks) = Asleep s' \<and>
      dl_inv s' \<and> waits_for s' 3 2)"
proof -
  have run: "p_prl demo_locks 3 = None" by (simp add: demo_locks_def)
  have "snd (rlock 1 [] 3 demo_fd F_SETLKW (demo_req F_WRLCK 15 10) demo_locks) =
      Asleep (demo_locks\<lparr>freerl := [nil_rlock, nil_rlock],
        p_prl := (\<lambda>_. None)(3 := Some (0, rlock_request 3 demo_fd (demo_req F_WRLCK 15 10)))\<rparr>)"
    (is "_ = Asleep ?s")
    by (simp add: rlock_def demo_lock_defs nextblock.simps meets_def blocks_def rl_wakeup_def Let_def
        waitlock_def getlock_def waitlock_loop.simps)
  moreover have "outcome_all dl_inv (snd (rlock 1 [] 3 demo_fd F_SETLKW (demo_req F_WRLCK 15 10) demo_locks))"
    by (rule rlock_no_deadlock [OF demo_locks_dl_inv run])
      (simp_all add: in_range32_def demo_lock_defs)
  moreover have "waits_for ?s 3 2"
    by (auto simp: waits_for_def demo_lock_defs meets_def blocks_def)
  ultimately show ?thesis using demo_locks_dl_inv by auto
qed



text \<open>
  \<open>F_GETLK\<close> changes nothing and answers the question asked: \<open>F_UNLCK\<close> exactly when no
  other process holds a conflicting lock, and otherwise the type, range and owner of a lock
  on the list that conflicts.
\<close>

theorem rlock_getlk:
  assumes inv: "rl_inv s" and rng: "in_range32 flp" and acc: "acceptable (rlock_request self fdp flp)"
    and ty: "l_type flp \<noteq> F_UNLCK" and req: "req = rlock_request self fdp flp"
  shows "\<exists>flp'. rlock fuel env self fdp F_GETLK flp s = (flp', Returned 0 s) \<and>
     (l_type flp' = F_UNLCK \<longleftrightarrow> \<not> lock_conflict (i_rl s (f_ip fdp)) req) \<and>
     (l_type flp' \<noteq> F_UNLCK \<longrightarrow>
        (\<exists>b\<in>set (i_rl s (f_ip fdp)). meets req b \<and> blocks req b \<and>
           l_type flp' = (if rl_type b = 1 then F_WRLCK else F_RDLCK) \<and>
           l_whence flp' = SEEK_SET \<and> l_start flp' = rl_start b \<and> l_pid flp' = int (rl_proc b) \<and>
           l_len flp' = (if rl_end b = -1 then 0 else rl_end b - rl_start b + 1)))"
proof -
  let ?ls = "i_rl s (f_ip fdp)"
  have wf: "wf_rlock req" unfolding req by (rule rlock_request_wf [OF rng acc])
  have wfl: "\<forall>b\<in>set ?ls. wf_rlock b" using inv by (simp add: rl_inv_def)
  note nb = nextblock_lock_conflict [OF wfl wf]
  have "(rl_start req < 0 \<or> rl_end req < -1 \<or> (rl_end req \<noteq> -1 \<and> rl_start req > rl_end req)) = False"
    using acc unfolding acceptable_def req by blast
  then have r: "rlock fuel env self fdp F_GETLK flp s = (report_lock (nextblock ?ls req) flp, Returned 0 s)"
    by (simp only: rlock_def Let_def req if_False if_True refl)
  show ?thesis
  proof (cases "nextblock ?ls req")
    case Nil
    with r nb show ?thesis by (simp add: report_lock_def)
  next
    case (Cons b bs)
    then have b: "meets req b" "blocks req b" "b \<in> set ?ls"
      using nextblock_Cons [OF Cons] by auto
    then have "wf_rlock b" using wfl by blast
    then have w: "rl_end b \<noteq> -1 \<longrightarrow> wrap32 (rl_end b - rl_start b + 1) = rl_end b - rl_start b + 1"
      and t: "rl_type b = 0 \<or> rl_type b = 1"
      by (auto simp: wf_rlock_def)
    define flp' where "flp' = report_lock (b # bs) flp"
    have f: "l_type flp' = (if rl_type b = 1 then F_WRLCK else F_RDLCK)"
      "l_whence flp' = SEEK_SET" "l_start flp' = rl_start b" "l_pid flp' = int (rl_proc b)"
      "l_len flp' = (if rl_end b = -1 then 0 else rl_end b - rl_start b + 1)"
      using w t by (auto simp: flp'_def report_lock_def)
    moreover have "l_type flp' \<noteq> F_UNLCK" "lock_conflict ?ls req"
      using f(1) nb Cons by auto
    moreover have "rlock fuel env self fdp F_GETLK flp s = (flp', Returned 0 s)"
      using r Cons by (simp add: flp'_def)
    ultimately show ?thesis using b by (intro exI [of _ flp'] conjI) blast+
  qed
qed

theorem rlock_getlk_witness:
  "\<exists>flp'. rlock 1 [] 3 demo_fd F_GETLK (demo_req F_RDLCK 0 0) demo_locks = (flp', Returned 0 demo_locks) \<and>
     l_type flp' = F_WRLCK \<and> l_start flp' = 10 \<and> l_len flp' = 10 \<and> l_pid flp' = 2"
proof -
  have acc: "acceptable (rlock_request 3 demo_fd (demo_req F_RDLCK 0 0))"
    by (simp add: acceptable_def demo_lock_defs)
  have "lock_conflict (i_rl demo_locks 0) (rlock_request 3 demo_fd (demo_req F_RDLCK 0 0))"
    unfolding lock_conflict_def
    by (intro exI [of _ 2] exI [of _ 1] exI [of _ 15]) (simp add: demo_lock_defs covers_def)
  with rlock_getlk [OF demo_locks_rl_inv _ acc _ refl, of 1 "[]"] show ?thesis
    by (auto simp: in_range32_def demo_lock_defs)
qed




end
