(* ===== verification/File_Descriptors.thy ===== *)
theory File_Descriptors
  imports Record_Locks
begin

text \<open>
  The file-descriptor table, \<^verbatim>\<open>kernel/coh.386/fd.c\<close>. A slot of \<open>u.u_filep\<close> holds a tagged
  pointer: the address of a system file-table entry with the descriptor's own flag in the two
  low bits. Entries are reference-counted and live in kernel memory (\<open>file_mem\<close>). The tables of
  the other processes (\<open>other_filep\<close>) refer to the same entries. \<open>iopen\<close>, \<open>idetach\<close> and
  \<open>iclose\<close>, which this file calls, are arguments of the operations, with the contract
  \<open>inode_layer\<close> below. Addresses are 32-bit words; 0 is NULL, for inodes too.
\<close>

section \<open>Data\<close>

record fde =
  fd_flag :: int
  fd_refc :: int
  fd_seek :: int
  fd_ip :: nat

record fd_state = rl_state +
  u_filep :: "32 word list"              \<comment> \<open>the table of the current process\<close>
  other_filep :: "32 word list list"     \<comment> \<open>the tables of the other processes\<close>
  file_mem :: "32 word \<Rightarrow> fde option"    \<comment> \<open>allocated file-table entries\<close>

definition NOFILE :: nat where "NOFILE = 60"

definition ERROR_FD :: nat where "ERROR_FD = 4294967295"

definition GET_UNTAGGED_FD :: "32 word \<Rightarrow> 32 word" where
  "GET_UNTAGGED_FD tagged = tagged AND NOT 3"

definition GET_TAGGED_FLAG :: "32 word \<Rightarrow> int" where
  "GET_TAGGED_FLAG tagged = uint (tagged AND 3)"

definition MAKE_TAGGED_FD :: "32 word \<Rightarrow> int \<Rightarrow> 32 word" where
  "MAKE_TAGGED_FD untag flag = untag + word_of_int flag"

section \<open>Looking up a descriptor\<close>

text \<open>\<open>fd_t\<close> is unsigned, hence the type \<open>nat\<close>.\<close>

definition fd_get :: "nat \<Rightarrow> 'a fd_state_scheme \<Rightarrow> 32 word" where
  "fd_get fd s =
     (if fd \<ge> NOFILE \<or> GET_UNTAGGED_FD (u_filep s ! fd) = 0 then 0
      else GET_UNTAGGED_FD (u_filep s ! fd))"

definition fd_get_flags :: "nat \<Rightarrow> 'a fd_state_scheme \<Rightarrow> int" where
  "fd_get_flags fd s =
     (if fd \<ge> NOFILE \<or> u_filep s ! fd = 0 then -1 else GET_TAGGED_FLAG (u_filep s ! fd))"

definition fd_set_flags :: "nat \<Rightarrow> int \<Rightarrow> 'a fd_state_scheme \<Rightarrow> int \<times> 'a fd_state_scheme" where
  "fd_set_flags fd flags s =
     (if fd \<ge> NOFILE \<or> u_filep s ! fd = 0 then (-1, s)
      else if flags AND NOT 3 \<noteq> 0 then (-1, s\<lparr>u_error := EINVAL\<rparr>)
      else (0, s\<lparr>u_filep := (u_filep s)
                  [fd := MAKE_TAGGED_FD (GET_UNTAGGED_FD (u_filep s ! fd)) flags]\<rparr>))"

text \<open>The reference count is a \<open>short\<close>.\<close>

definition bump_refc :: "32 word \<Rightarrow> int \<Rightarrow> 'a fd_state_scheme \<Rightarrow> 'a fd_state_scheme" where
  "bump_refc p d s =
     s\<lparr>file_mem := (file_mem s)
        (p := map_option (\<lambda>e. e\<lparr>fd_refc := wrap16 (fd_refc e + d)\<rparr>) (file_mem s p))\<rparr>"

function fd_dup :: "nat \<Rightarrow> nat \<Rightarrow> 'a fd_state_scheme \<Rightarrow> nat \<times> 'a fd_state_scheme" where
  "fd_dup old base s =
     (if base < NOFILE then
        if u_filep s ! base = 0 then
          let fdp = fd_get old s in
          if fdp = 0 then (ERROR_FD, s)
          else (base, bump_refc fdp 1 (s\<lparr>u_filep := (u_filep s)[base := MAKE_TAGGED_FD fdp 0]\<rparr>))
        else fd_dup old (base + 1) s
      else (ERROR_FD, s\<lparr>u_error := EMFILE\<rparr>))"
  by pat_completeness auto
termination by (relation "measure (\<lambda>(old, base, s). NOFILE - base)") auto

declare fd_dup.simps [simp del]

section \<open>Allocating and opening\<close>

fun first_free :: "nat \<Rightarrow> 32 word list \<Rightarrow> nat" where
  "first_free i [] = ERROR_FD"
| "first_free i (t # ts) = (if t = 0 then i else first_free (i + 1) ts)"

definition fd_get_free :: "'a fd_state_scheme \<Rightarrow> nat" where
  "fd_get_free s = first_free 0 (u_filep s)"

text \<open>\<open>mem\<close> is the result of \<open>kmem_alloc\<close>: an address, or 0 when there is no memory.\<close>

definition fd_alloc :: "32 word \<Rightarrow> 'a fd_state_scheme \<Rightarrow> nat \<times> 'a fd_state_scheme" where
  "fd_alloc mem s =
     (let fd = fd_get_free s in
      if fd = ERROR_FD then (fd, s\<lparr>u_error := EMFILE\<rparr>)
      else if mem = 0 then (ERROR_FD, s\<lparr>u_error := ENFILE\<rparr>)
      else (fd, s\<lparr>u_filep := (u_filep s)[fd := MAKE_TAGGED_FD mem 0],
                  file_mem := (file_mem s)
                    (mem \<mapsto> \<lparr>fd_flag = 0, fd_refc = 0, fd_seek = 0, fd_ip = 0\<rparr>)\<rparr>))"

text \<open>The inode operations and those that call them are \<open>None\<close> when they do not return.\<close>

definition fd_init ::
  "(nat \<Rightarrow> int \<Rightarrow> 'a fd_state_scheme \<Rightarrow> (nat \<times> 'a fd_state_scheme) option)
     \<Rightarrow> (nat \<Rightarrow> 'a fd_state_scheme \<Rightarrow> 'a fd_state_scheme option)
     \<Rightarrow> nat \<Rightarrow> nat \<Rightarrow> int \<Rightarrow> 'a fd_state_scheme \<Rightarrow> (int \<times> 'a fd_state_scheme) option" where
  "fd_init iopen idetach fd ip mode s =
     (let filep = fd_get fd s in
      if filep = 0 then Some (-1, s)
      else case iopen ip mode s of
        None \<Rightarrow> None
      | Some (newip, s1) \<Rightarrow>
          if u_error s1 \<noteq> E_NONE then Some (-1, s1)
          else if newip = 0 then Some (-1, s1\<lparr>u_error := ENXIO\<rparr>)
          else
            map_option (\<lambda>s2. (0, s2\<lparr>file_mem := (file_mem s2)
                 (filep := map_option (\<lambda>e. e\<lparr>fd_ip := newip, fd_flag := wrap16 mode, fd_refc := 1\<rparr>)
                             (file_mem s2 filep))\<rparr>))
              (if newip \<noteq> ip then idetach ip s1 else Some s1))"

definition fd_finish :: "nat \<Rightarrow> 'a fd_state_scheme \<Rightarrow> nat \<times> 'a fd_state_scheme" where
  "fd_finish fd s =
     (let filep = fd_get fd s in
      if filep = 0 then (ERROR_FD, s)
      else if fd_refc (the (file_mem s filep)) = 0
      then (ERROR_FD, s\<lparr>file_mem := (file_mem s)(filep := None), u_filep := (u_filep s)[fd := 0]\<rparr>)
      else (fd, s))"

definition fd_open ::
  "(nat \<Rightarrow> int \<Rightarrow> 'a fd_state_scheme \<Rightarrow> (nat \<times> 'a fd_state_scheme) option)
     \<Rightarrow> (nat \<Rightarrow> 'a fd_state_scheme \<Rightarrow> 'a fd_state_scheme option)
     \<Rightarrow> 32 word \<Rightarrow> nat \<Rightarrow> int \<Rightarrow> 'a fd_state_scheme \<Rightarrow> (nat \<times> 'a fd_state_scheme) option" where
  "fd_open iopen idetach mem ip mode s =
     (case fd_alloc mem s of
        (fd, s1) \<Rightarrow>
          if fd \<noteq> ERROR_FD then map_option (\<lambda>(r, s2). fd_finish fd s2) (fd_init iopen idetach fd ip mode s1)
          else Some (fd, s1))"

definition fd_recv :: "nat \<Rightarrow> 32 word \<Rightarrow> 'a fd_state_scheme \<Rightarrow> int \<times> 'a fd_state_scheme" where
  "fd_recv fd fdp s = (0, bump_refc fdp 1 (s\<lparr>u_filep := (u_filep s)[fd := MAKE_TAGGED_FD fdp 0]\<rparr>))"

section \<open>Closing\<close>

text \<open>
  The loop that closes the inode until it is not interrupted; \<open>None\<close> is running out of the fuel
  that bounds the repetitions, or not returning.
\<close>

fun iclose_loop ::
  "nat \<Rightarrow> (nat \<Rightarrow> int \<Rightarrow> 'a fd_state_scheme \<Rightarrow> 'a fd_state_scheme option)
     \<Rightarrow> nat \<Rightarrow> int \<Rightarrow> 'a fd_state_scheme \<Rightarrow> 'a fd_state_scheme option" where
  "iclose_loop 0 iclose ip flag s = None"
| "iclose_loop (Suc n) iclose ip flag s =
     (case iclose ip flag (s\<lparr>u_error := E_NONE\<rparr>) of
        None \<Rightarrow> None
      | Some s1 \<Rightarrow> if u_error s1 = EINTR then iclose_loop n iclose ip flag s1 else Some s1)"

text \<open>The static \<open>flock\<close> of \<open>fd_close\<close>: everything from byte 0 to EOF.\<close>

definition unlock_all :: flock where
  "unlock_all = \<lparr>l_type = 3, l_whence = 0, l_start = 0, l_len = 0, l_pid = 0\<rparr>"

definition delete_locks :: "nat \<Rightarrow> fde \<Rightarrow> 'a fd_state_scheme \<Rightarrow> 'a fd_state_scheme" where
  "delete_locks self e s =
     (if i_rl s (fd_ip e) \<noteq> [] then
        (case snd (rlock 0 [] self
             \<lparr>f_ip = fd_ip e, f_flag = fd_flag e, f_seek = fd_seek e, ip_size = 0\<rparr>
             F_SETLK unlock_all s) of
           Returned r s1 \<Rightarrow> s1
         | _ \<Rightarrow> s)
      else s)"

definition fd_close ::
  "nat \<Rightarrow> (nat \<Rightarrow> int \<Rightarrow> 'a fd_state_scheme \<Rightarrow> 'a fd_state_scheme option)
     \<Rightarrow> nat \<Rightarrow> nat \<Rightarrow> 'a fd_state_scheme \<Rightarrow> 'a fd_state_scheme option" where
  "fd_close fuel iclose self fd s =
     (if fd \<ge> NOFILE \<or> GET_UNTAGGED_FD (u_filep s ! fd) = 0
      then Some (s\<lparr>u_error := EBADF\<rparr>)
      else
        let fdp = GET_UNTAGGED_FD (u_filep s ! fd);
            e = the (file_mem s fdp);
            s1 = delete_locks self e s;
            s2 = bump_refc fdp (-1) (s1\<lparr>u_filep := (u_filep s1)[fd := 0]\<rparr>)
        in if fd_refc (the (file_mem s2 fdp)) = 0 then
             map_option (\<lambda>s3. s3\<lparr>file_mem := (file_mem s3)(fdp := None)\<rparr>)
               (iclose_loop fuel iclose (fd_ip e) (fd_flag e) s2)
           else Some s2)"

text \<open>The loops of \<open>fd_dup_all\<close> and \<open>fd_close_all\<close> count \<open>i\<close> up to \<open>NOFILE\<close>.\<close>

definition fd_dup_all :: "'a fd_state_scheme \<Rightarrow> 'a fd_state_scheme" where
  "fd_dup_all s =
     fold (\<lambda>i s. if u_filep s ! i \<noteq> 0 then bump_refc (GET_UNTAGGED_FD (u_filep s ! i)) 1 s else s)
       [0..<NOFILE] s"

fun fd_close_from ::
  "nat list \<Rightarrow> nat \<Rightarrow> (nat \<Rightarrow> int \<Rightarrow> 'a fd_state_scheme \<Rightarrow> 'a fd_state_scheme option)
     \<Rightarrow> nat \<Rightarrow> 'a fd_state_scheme \<Rightarrow> 'a fd_state_scheme option" where
  "fd_close_from [] fuel iclose self s = Some s"
| "fd_close_from (fd # fds) fuel iclose self s =
     (if u_filep s ! fd \<noteq> 0 then
        (case fd_close fuel iclose self fd s of
           None \<Rightarrow> None
         | Some s1 \<Rightarrow> fd_close_from fds fuel iclose self s1)
      else fd_close_from fds fuel iclose self s)"

definition fd_close_all ::
  "nat \<Rightarrow> (nat \<Rightarrow> int \<Rightarrow> 'a fd_state_scheme \<Rightarrow> 'a fd_state_scheme option)
     \<Rightarrow> nat \<Rightarrow> 'a fd_state_scheme \<Rightarrow> 'a fd_state_scheme option" where
  "fd_close_all fuel iclose self s = fd_close_from [0..<NOFILE] fuel iclose self s"

end
