(* ===== verification/File_Descriptor_Laws.thy ===== *)
theory File_Descriptor_Laws
  imports File_Descriptors Record_Lock_Laws
begin

text \<open>
  What \<^verbatim>\<open>fd.c\<close> keeps: the count in every file-table entry is the number of slots, over the
  tables of all processes, that point to it, and an entry is allocated exactly as long as a slot
  points to it.
\<close>

section \<open>Tagged pointers\<close>

lemma tag_flag_cases:
  assumes "flag AND NOT 3 = (0 :: int)"
  shows "flag \<in> {0, 1, 2, 3}"
proof -
  have m: "flag AND 3 = flag mod 4"
    using take_bit_eq_mask [of 2 flag] take_bit_eq_mod [of 2 flag] by (simp add: mask_eq_exp_minus_1)
  have "flag = (flag AND 3) OR (flag AND NOT 3)" by (rule bit_eqI) (auto simp: bit_simps)
  with assms m have "flag = flag mod 4" by simp
  moreover have "0 \<le> flag mod 4" "flag mod 4 < 4" by simp_all
  ultimately have "0 \<le> flag" "flag < 4" by simp_all
  then show ?thesis by auto
qed

lemma add_low_bits:
  assumes "p AND 3 = (0 :: 32 word)" "f AND NOT 3 = (0 :: 32 word)"
  shows "(p + f) AND NOT 3 = p" "(p + f) AND 3 = f"
proof -
  have s: "x = (x AND 3) OR (x AND NOT 3)" for x :: "32 word"
    by (rule bit_eqI) (auto simp: bit_simps)
  have z: "f = f AND 3" using assms(2) s [of f] by simp
  have n: "p AND NOT 3 = p" using assms(1) s [of p] by simp
  have "p AND f = (p AND 3) AND f" by (subst z) (simp only: and.assoc and.commute [of f 3])
  then have "p AND f = 0" using assms(1) by simp
  then have o: "p + f = p OR f" by (rule disjunctive_add_eq_or)
  show "(p + f) AND NOT 3 = p" using assms(2) n by (simp add: o bit.conj_disj_distrib2)
  show "(p + f) AND 3 = f" using assms(1) z by (simp add: o bit.conj_disj_distrib2)
qed

lemma tag_word:
  assumes "flag \<in> {0, 1, 2, 3 :: int}"
  shows "(word_of_int flag :: 32 word) AND NOT 3 = 0" "uint (word_of_int flag :: 32 word) = flag"
  using assms by auto

lemma untag_make:
  assumes "p AND 3 = 0" "flag AND NOT 3 = 0"
  shows "GET_UNTAGGED_FD (MAKE_TAGGED_FD p flag) = p"
    and "GET_TAGGED_FLAG (MAKE_TAGGED_FD p flag) = flag"
  using add_low_bits [OF assms(1) tag_word(1) [OF tag_flag_cases [OF assms(2)]]]
    tag_word(2) [OF tag_flag_cases [OF assms(2)]]
  by (simp_all add: GET_UNTAGGED_FD_def GET_TAGGED_FLAG_def MAKE_TAGGED_FD_def)

lemma untag_aligned [simp]: "GET_UNTAGGED_FD t AND 3 = 0"
  by (simp add: GET_UNTAGGED_FD_def and.assoc)

lemma untag_0 [simp]: "GET_UNTAGGED_FD 0 = 0"
  by (simp add: GET_UNTAGGED_FD_def)

lemma untag_make_0 [simp]: "p AND 3 = 0 \<Longrightarrow> GET_UNTAGGED_FD (MAKE_TAGGED_FD p 0) = p"
  by (simp add: untag_make)

section \<open>Counting references\<close>

definition slots :: "'a fd_state_scheme \<Rightarrow> 32 word list" where
  "slots s = u_filep s @ concat (other_filep s)"

definition refs :: "'a fd_state_scheme \<Rightarrow> 32 word \<Rightarrow> nat" where
  "refs s p = count_list (map GET_UNTAGGED_FD (slots s)) p"

lemma count_list_update:
  "i < length xs \<Longrightarrow>
     count_list (xs[i := y]) p + (if xs ! i = p then 1 else 0)
       = count_list xs p + (if y = p then 1 else 0)"
proof (induction xs arbitrary: i)
  case (Cons x xs)
  then show ?case by (cases i) (fastforce+)
qed simp

lemma refs_set_slot:
  assumes "u_filep s' = (u_filep s)[fd := t]" "other_filep s' = other_filep s" "fd < length (u_filep s)"
  shows "refs s' p + (if GET_UNTAGGED_FD (u_filep s ! fd) = p then 1 else 0)
       = refs s p + (if GET_UNTAGGED_FD t = p then 1 else 0)"
  using count_list_update [of fd "map GET_UNTAGGED_FD (u_filep s)" "GET_UNTAGGED_FD t" p] assms
  by (simp add: refs_def slots_def map_update)

lemma refs_cong: "u_filep s' = u_filep s \<Longrightarrow> other_filep s' = other_filep s \<Longrightarrow> refs s' p = refs s p"
  by (simp add: refs_def slots_def)

definition fd_inv :: "'a fd_state_scheme \<Rightarrow> bool" where
  "fd_inv s \<longleftrightarrow>
     length (u_filep s) = NOFILE \<and>
     length (slots s) \<le> 32767 \<and>
     (\<forall>t\<in>set (slots s). t \<noteq> 0 \<longrightarrow> GET_UNTAGGED_FD t \<noteq> 0) \<and>
     (\<forall>p. p \<noteq> 0 \<longrightarrow>
        (case file_mem s p of
           None \<Rightarrow> refs s p = 0
         | Some e \<Rightarrow> fd_refc e = int (refs s p) \<and> 0 < refs s p))"

lemma fd_invD:
  assumes "fd_inv s"
  shows "length (u_filep s) = NOFILE" "length (slots s) \<le> 32767"
    "t \<in> set (slots s) \<Longrightarrow> t \<noteq> 0 \<Longrightarrow> GET_UNTAGGED_FD t \<noteq> 0"
    "p \<noteq> 0 \<Longrightarrow> file_mem s p = None \<Longrightarrow> refs s p = 0"
    "p \<noteq> 0 \<Longrightarrow> file_mem s p = Some e \<Longrightarrow> fd_refc e = int (refs s p) \<and> 0 < refs s p"
proof -
  note a = assms [unfolded fd_inv_def]
  show "length (u_filep s) = NOFILE" "length (slots s) \<le> 32767"
    "t \<in> set (slots s) \<Longrightarrow> t \<noteq> 0 \<Longrightarrow> GET_UNTAGGED_FD t \<noteq> 0"
    using a by blast+
  have "p \<noteq> 0 \<Longrightarrow> (case file_mem s p of None \<Rightarrow> refs s p = 0
      | Some e \<Rightarrow> fd_refc e = int (refs s p) \<and> 0 < refs s p)"
    using a by blast
  then show "p \<noteq> 0 \<Longrightarrow> file_mem s p = None \<Longrightarrow> refs s p = 0"
    "p \<noteq> 0 \<Longrightarrow> file_mem s p = Some e \<Longrightarrow> fd_refc e = int (refs s p) \<and> 0 < refs s p"
    by simp_all
qed

lemma fd_invI:
  assumes "length (u_filep s) = NOFILE" "length (slots s) \<le> 32767"
    and "\<And>t. t \<in> set (slots s) \<Longrightarrow> t \<noteq> 0 \<Longrightarrow> GET_UNTAGGED_FD t \<noteq> 0"
    and "\<And>p. p \<noteq> 0 \<Longrightarrow> file_mem s p = None \<Longrightarrow> refs s p = 0"
    and "\<And>p e. p \<noteq> 0 \<Longrightarrow> file_mem s p = Some e \<Longrightarrow> fd_refc e = int (refs s p) \<and> 0 < refs s p"
  shows "fd_inv s"
  using assms unfolding fd_inv_def by (auto split: option.splits)

text \<open>The part of the state the invariant is about.\<close>

definition fd_tables :: "'a fd_state_scheme \<Rightarrow> 32 word list \<times> 32 word list list \<times> (32 word \<Rightarrow> fde option)" where
  "fd_tables s = (u_filep s, other_filep s, file_mem s)"

lemma fd_inv_cong: "fd_tables s' = fd_tables s \<Longrightarrow> fd_inv s' \<longleftrightarrow> fd_inv s"
proof -
  assume t: "fd_tables s' = fd_tables s"
  then have eq: "slots s' = slots s" "refs s' p = refs s p" "u_filep s' = u_filep s"
    "file_mem s' = file_mem s" for p
    by (simp_all add: fd_tables_def slots_def refs_def)
  show ?thesis unfolding fd_inv_def eq ..
qed

lemma refs_le: "refs s p \<le> length (slots s)"
  unfolding refs_def by (metis count_le_length length_map)

lemma refs_pos_iff: "0 < refs s p \<longleftrightarrow> (\<exists>t\<in>set (slots s). GET_UNTAGGED_FD t = p)"
proof -
  have "0 < refs s p \<longleftrightarrow> p \<in> set (map GET_UNTAGGED_FD (slots s))"
    unfolding refs_def by (metis count_list_0_iff gr0I less_numeral_extra(3))
  then show ?thesis by auto
qed

text \<open>A slot that is not free points to an allocated entry.\<close>

lemma fd_inv_slot:
  assumes "fd_inv s" "t \<in> set (slots s)" "t \<noteq> 0"
  obtains e where "file_mem s (GET_UNTAGGED_FD t) = Some e"
    "fd_refc e = int (refs s (GET_UNTAGGED_FD t))" "0 < refs s (GET_UNTAGGED_FD t)"
proof -
  have n: "GET_UNTAGGED_FD t \<noteq> 0" using fd_invD(3) [OF assms] .
  have "0 < refs s (GET_UNTAGGED_FD t)" using assms(2) refs_pos_iff by blast
  then show ?thesis
    using that fd_invD(4,5) [OF assms(1) n] by (cases "file_mem s (GET_UNTAGGED_FD t)") auto
qed

lemma fd_inv_nth:
  assumes "fd_inv s" "fd < NOFILE"
  shows "u_filep s ! fd \<in> set (slots s)"
  using assms by (simp add: fd_inv_def slots_def)

section \<open>One slot changes\<close>

text \<open>
  Every operation stores into one slot and corrects the counts. \<open>install\<close> is the common shape of
  \<open>fd_dup\<close> and \<open>fd_recv\<close>: a free slot is made to point to an entry that is in use.
\<close>

lemma bump_refc_simps [simp]:
  "u_filep (bump_refc p d s) = u_filep s" "other_filep (bump_refc p d s) = other_filep s"
  "u_error (bump_refc p d s) = u_error s" "i_rl (bump_refc p d s) = i_rl s"
  "freerl (bump_refc p d s) = freerl s" "p_prl (bump_refc p d s) = p_prl s"
  "refs (bump_refc p d s) q = refs s q" "slots (bump_refc p d s) = slots s"
  by (simp_all add: bump_refc_def refs_def slots_def)

lemma file_mem_bump:
  "file_mem (bump_refc p d s) q =
     (if q = p then map_option (\<lambda>e. e\<lparr>fd_refc := wrap16 (fd_refc e + d)\<rparr>) (file_mem s p)
      else file_mem s q)"
  by (simp add: bump_refc_def)

lemma slots_update:
  "fd < length (u_filep s) \<Longrightarrow> slots (s\<lparr>u_filep := (u_filep s)[fd := t]\<rparr>) = (slots s)[fd := t]"
  by (simp add: slots_def list_update_append)

lemma set_list_update_cases: "t \<in> set (xs[i := y]) \<Longrightarrow> t = y \<or> t \<in> set xs"
  using set_update_subset_insert by fastforce

lemma install_fd_inv:
  assumes inv: "fd_inv s" and fd: "fd < NOFILE" "u_filep s ! fd = 0"
    and p: "p \<noteq> 0" "p AND 3 = 0" "file_mem s p = Some e" and room: "refs s p < 32767"
  shows "fd_inv (bump_refc p 1 (s\<lparr>u_filep := (u_filep s)[fd := MAKE_TAGGED_FD p 0]\<rparr>))"
    (is "fd_inv ?s'")
proof -
  let ?t = "MAKE_TAGGED_FD p 0"
  let ?s1 = "s\<lparr>u_filep := (u_filep s)[fd := ?t]\<rparr>"
  have len: "fd < length (u_filep s)" using fd_invD(1) [OF inv] fd(1) by simp
  have r: "refs ?s1 q + (if q = 0 then 1 else 0) = refs s q + (if q = p then 1 else 0)" for q
    using refs_set_slot [of ?s1 s fd ?t q] len fd(2) p(2) by (auto split: if_splits)
  have e: "fd_refc e = int (refs s p)" using fd_invD(5) [OF inv p(1,3)] by simp
  show ?thesis
  proof (rule fd_invI)
    show "length (u_filep ?s') = NOFILE" using fd_invD(1) [OF inv] by simp
    show "length (slots ?s') \<le> 32767" using fd_invD(2) [OF inv] len by (simp add: slots_update)
  next
    fix t assume "t \<in> set (slots ?s')" "t \<noteq> 0"
    then show "GET_UNTAGGED_FD t \<noteq> 0"
      using fd_invD(3) [OF inv] p(1,2) len by (auto simp: slots_update dest!: set_list_update_cases)
  next
    fix q assume q: "q \<noteq> 0" "file_mem ?s' q = None"
    then have "file_mem s q = None" "q \<noteq> p" using p(3) by (auto simp: file_mem_bump split: if_splits)
    then show "refs ?s' q = 0" using fd_invD(4) [OF inv q(1)] r [of q] q(1) by simp
  next
    fix q e' assume q: "q \<noteq> 0" "file_mem ?s' q = Some e'"
    show "fd_refc e' = int (refs ?s' q) \<and> 0 < refs ?s' q"
    proof (cases "q = p")
      case True
      with q p(3) have "e' = e\<lparr>fd_refc := wrap16 (fd_refc e + 1)\<rparr>" by (simp add: file_mem_bump)
      then show ?thesis using True r [of p] p(1) e room by simp
    next
      case False
      then show ?thesis
        using q r [of q] fd_invD(5) [OF inv q(1), of e'] by (simp add: file_mem_bump)
    qed
  qed
qed

section \<open>Duplicating\<close>

lemma fd_dup_result:
  "(\<exists>fd. base \<le> fd \<and> fd < NOFILE \<and> u_filep s ! fd = 0 \<and>
       (\<forall>i. base \<le> i \<and> i < fd \<longrightarrow> u_filep s ! i \<noteq> 0) \<and>
       fd_dup old base s =
         (if fd_get old s = 0 then (ERROR_FD, s)
          else (fd, bump_refc (fd_get old s) 1
                 (s\<lparr>u_filep := (u_filep s)[fd := MAKE_TAGGED_FD (fd_get old s) 0]\<rparr>))))
   \<or> (\<forall>i. base \<le> i \<and> i < NOFILE \<longrightarrow> u_filep s ! i \<noteq> 0) \<and>
       fd_dup old base s = (ERROR_FD, s\<lparr>u_error := EMFILE\<rparr>)"
proof (induction "NOFILE - base" arbitrary: base)
  case 0
  then show ?case by (intro disjI2) (auto simp: fd_dup.simps)
next
  case (Suc n)
  then have b: "base < NOFILE" by simp
  show ?case
  proof (cases "u_filep s ! base = 0")
    case True
    with b show ?thesis
      by (intro disjI1 exI [of _ base]) (auto simp: fd_dup.simps [of old base] Let_def)
  next
    case False
    then have eq: "fd_dup old base s = fd_dup old (Suc base) s"
      using b by (simp add: fd_dup.simps [of old base])
    have ext: "(\<forall>i. Suc base \<le> i \<and> i < m \<longrightarrow> u_filep s ! i \<noteq> 0) \<longleftrightarrow>
        (\<forall>i. base \<le> i \<and> i < m \<longrightarrow> u_filep s ! i \<noteq> 0)" for m
      using False by (metis Suc_leI Suc_leD le_neq_implies_less)
    have "n = NOFILE - Suc base" using Suc.hyps(2) by simp
    from Suc.hyps(1) [OF this] show ?thesis
      unfolding eq ext by (meson Suc_leD)
  qed
qed

lemma fd_get_entry:
  assumes "fd_inv s" "fd_get old s \<noteq> 0"
  obtains e where "file_mem s (fd_get old s) = Some e" "fd_get old s AND 3 = 0"
    "old < NOFILE" "fd_get old s = GET_UNTAGGED_FD (u_filep s ! old)"
proof -
  have g: "old < NOFILE" "fd_get old s = GET_UNTAGGED_FD (u_filep s ! old)"
    using assms(2) by (auto simp: fd_get_def split: if_splits)
  then have "u_filep s ! old \<noteq> 0" using assms(2) by auto
  then show ?thesis
    using that fd_inv_slot [OF assms(1) fd_inv_nth [OF assms(1) g(1)]] g by (metis untag_aligned)
qed

text \<open>The slot that is filled was free, so no entry has as many references as there are slots.\<close>

lemma free_slot_room:
  assumes inv: "fd_inv s" and fd: "fd < NOFILE" "u_filep s ! fd = 0" and p: "p \<noteq> 0"
  shows "refs s p < 32767"
proof -
  have len: "fd < length (slots s)" "slots s ! fd = 0"
    using fd_invD(1) [OF inv] fd by (simp_all add: slots_def nth_append)
  have "count_list (map GET_UNTAGGED_FD ((slots s)[fd := p])) p \<le> length (slots s)"
    by (metis count_le_length length_list_update length_map)
  moreover have "count_list ((map GET_UNTAGGED_FD (slots s))[fd := p]) p = refs s p + 1"
    using count_list_update [of fd "map GET_UNTAGGED_FD (slots s)" p p] len p by (simp add: refs_def)
  moreover have "count_list ((map GET_UNTAGGED_FD (slots s))[fd := p]) p \<le> length (slots s)"
    by (metis count_le_length length_list_update length_map)
  ultimately show ?thesis using fd_invD(2) [OF inv] by simp
qed

lemma fd_dup_fd_inv:
  assumes inv: "fd_inv s"
  shows "fd_inv (snd (fd_dup old base s))"
  using fd_dup_result [of base s old]
proof (elim disjE exE conjE)
  fix fd assume fd: "fd < NOFILE" "u_filep s ! fd = 0"
    and r: "fd_dup old base s =
         (if fd_get old s = 0 then (ERROR_FD, s)
          else (fd, bump_refc (fd_get old s) 1
                 (s\<lparr>u_filep := (u_filep s)[fd := MAKE_TAGGED_FD (fd_get old s) 0]\<rparr>)))"
  show ?thesis
  proof (cases "fd_get old s = 0")
    case False
    then obtain e where "file_mem s (fd_get old s) = Some e" "fd_get old s AND 3 = 0"
      using fd_get_entry [OF inv] by metis
    then show ?thesis
      using r False install_fd_inv [OF inv fd False _ _ free_slot_room [OF inv fd False]] by simp
  qed (simp add: r inv)
next
  assume "fd_dup old base s = (ERROR_FD, s\<lparr>u_error := EMFILE\<rparr>)"
  then show ?thesis using inv fd_inv_cong [of "s\<lparr>u_error := EMFILE\<rparr>" s] by (simp add: fd_tables_def)
qed

lemma fd_recv_fd_inv:
  assumes inv: "fd_inv s" and "fd < NOFILE" "u_filep s ! fd = 0" "p \<noteq> 0" "p AND 3 = 0" "file_mem s p = Some e"
  shows "fd_inv (snd (fd_recv fd p s))"
  using install_fd_inv [OF assms free_slot_room [OF assms(1-4)]] by (simp add: fd_recv_def)

section \<open>Opening and closing\<close>

text \<open>
  The contract of the inode layer: opening, releasing and closing an inode leave the descriptor
  tables and the file-table entries alone, and closing leaves the record locks alone.
\<close>

locale inode_layer =
  fixes iopen :: "nat \<Rightarrow> int \<Rightarrow> 'a fd_state_scheme \<Rightarrow> (nat \<times> 'a fd_state_scheme) option"
    and idetach :: "nat \<Rightarrow> 'a fd_state_scheme \<Rightarrow> 'a fd_state_scheme option"
    and iclose :: "nat \<Rightarrow> int \<Rightarrow> 'a fd_state_scheme \<Rightarrow> 'a fd_state_scheme option"
  assumes iopen_tables: "iopen ip mode s = Some (newip, s') \<Longrightarrow> fd_tables s' = fd_tables s"
    and idetach_tables: "idetach ip s = Some s' \<Longrightarrow> fd_tables s' = fd_tables s"
    and iclose_tables: "iclose ip mode s = Some s' \<Longrightarrow> fd_tables s' = fd_tables s"
    and iclose_locks: "iclose ip mode s = Some s' \<Longrightarrow> i_rl s' = i_rl s"

lemma first_free_result:
  "first_free k ts = (if 0 \<in> set ts then k + (LEAST i. i < length ts \<and> ts ! i = 0) else ERROR_FD)"
proof (induction ts arbitrary: k)
  case (Cons t ts)
  show ?case
  proof (cases "t = 0 \<or> 0 \<notin> set ts")
    case True
    then show ?thesis
      using Cons by (auto intro!: Least_equality [symmetric])
  next
    case False
    then obtain j where "j < length ts" "ts ! j = 0" by (metis in_set_conv_nth)
    then have "(LEAST i. i < length (t # ts) \<and> (t # ts) ! i = 0) = Suc (LEAST i. i < length ts \<and> ts ! i = 0)"
      using False Least_Suc [of "\<lambda>i. i < length (t # ts) \<and> (t # ts) ! i = 0" "Suc j"] by simp
    then show ?thesis using Cons False by simp
  qed
qed simp

lemma fd_get_free_result:
  assumes "length (u_filep s) = NOFILE"
  shows "fd_get_free s = ERROR_FD \<and> 0 \<notin> set (u_filep s) \<or>
    fd_get_free s < NOFILE \<and> u_filep s ! fd_get_free s = 0 \<and> (\<forall>i < fd_get_free s. u_filep s ! i \<noteq> 0)"
proof (cases "0 \<in> set (u_filep s)")
  case True
  let ?P = "\<lambda>i. i < length (u_filep s) \<and> u_filep s ! i = 0"
  have "\<exists>i. ?P i" using True by (metis in_set_conv_nth)
  then have "?P (LEAST i. ?P i)" by (rule LeastI_ex)
  moreover have "\<forall>i < (LEAST i. ?P i). \<not> ?P i" using not_less_Least by blast
  moreover have "fd_get_free s = (LEAST i. ?P i)" using True by (simp add: fd_get_free_def first_free_result)
  ultimately show ?thesis using assms by (metis order.strict_trans)
qed (simp add: fd_get_free_def first_free_result)

text \<open>\<open>fd_alloc\<close> on its three branches.\<close>

lemma fd_alloc_result:
  assumes "fd_inv s"
  shows "fd_get_free s = ERROR_FD \<and> fd_alloc mem s = (ERROR_FD, s\<lparr>u_error := EMFILE\<rparr>) \<or>
     fd_get_free s < NOFILE \<and> mem = 0 \<and> fd_alloc mem s = (ERROR_FD, s\<lparr>u_error := ENFILE\<rparr>) \<or>
     fd_get_free s < NOFILE \<and> mem \<noteq> 0 \<and>
     fd_alloc mem s = (fd_get_free s,
       s\<lparr>u_filep := (u_filep s)[fd_get_free s := MAKE_TAGGED_FD mem 0],
         file_mem := (file_mem s)(mem \<mapsto> \<lparr>fd_flag = 0, fd_refc = 0, fd_seek = 0, fd_ip = 0\<rparr>)\<rparr>)"
  using fd_get_free_result [OF fd_invD(1) [OF assms]]
  by (auto simp: fd_alloc_def Let_def ERROR_FD_def NOFILE_def)

definition opened :: "nat \<Rightarrow> 32 word \<Rightarrow> nat \<Rightarrow> int \<Rightarrow> 'a fd_state_scheme \<Rightarrow> 'a fd_state_scheme \<Rightarrow> bool" where
  "opened fd mem newip mode s s' \<longleftrightarrow>
     fd_tables s' =
       ((u_filep s)[fd := MAKE_TAGGED_FD mem 0], other_filep s,
        (file_mem s)(mem \<mapsto> \<lparr>fd_flag = wrap16 mode, fd_refc = 1, fd_seek = 0, fd_ip = newip\<rparr>))"

lemma opened_fd_inv:
  assumes inv: "fd_inv s" and o: "opened fd mem newip mode s s'"
    and fd: "fd < NOFILE" "u_filep s ! fd = 0"
    and m: "mem \<noteq> 0" "mem AND 3 = 0" "file_mem s mem = None"
  shows "fd_inv s'"
proof -
  let ?t = "MAKE_TAGGED_FD mem 0"
  have len: "fd < length (u_filep s)" using fd_invD(1) [OF inv] fd(1) by simp
  have u: "u_filep s' = (u_filep s)[fd := ?t]" "other_filep s' = other_filep s"
    and f: "file_mem s' = (file_mem s)(mem \<mapsto> \<lparr>fd_flag = wrap16 mode, fd_refc = 1, fd_seek = 0, fd_ip = newip\<rparr>)"
    using o by (auto simp: opened_def fd_tables_def)
  have r: "refs s' q + (if q = 0 then 1 else 0) = refs s q + (if q = mem then 1 else 0)" for q
    using refs_set_slot [OF u len, of q] fd(2) m(2) by (auto split: if_splits)
  have sl: "slots s' = (slots s)[fd := ?t]" using u len by (simp add: slots_def list_update_append)
  show ?thesis
  proof (rule fd_invI)
    show "length (u_filep s') = NOFILE" "length (slots s') \<le> 32767"
      using fd_invD(1,2) [OF inv] u(1) sl by simp_all
  next
    fix t assume "t \<in> set (slots s')" "t \<noteq> 0"
    then show "GET_UNTAGGED_FD t \<noteq> 0"
      using fd_invD(3) [OF inv] m(1,2) by (auto simp: sl dest!: set_list_update_cases)
  next
    fix q assume q: "q \<noteq> 0" "file_mem s' q = None"
    then show "refs s' q = 0"
      using fd_invD(4) [OF inv q(1)] r [of q] by (auto simp: f split: if_splits)
  next
    fix q e assume q: "q \<noteq> 0" "file_mem s' q = Some e"
    then show "fd_refc e = int (refs s' q) \<and> 0 < refs s' q"
      using r [of q] fd_invD(4) [OF inv q(1)] fd_invD(5) [OF inv q(1), of e] m
      by (auto simp: f split: if_splits)
  qed
qed

text \<open>Closing: the own locks of the inode go first, whatever other descriptors are open on it.\<close>

lemma remlock_loop_all:
  assumes "rl_start lock = 0" "rl_end lock = -1" "\<forall>b\<in>set ls. wf_rlock b"
  shows "remlock_loop ls lock s =
     (0, filter (\<lambda>b. rl_proc b \<noteq> rl_proc lock) ls,
      s\<lparr>freerl := rev (filter (\<lambda>b. rl_proc b = rl_proc lock) ls) @ freerl s\<rparr>)"
  using assms(3)
proof (induction ls arbitrary: s)
  case (Cons b bs)
  then have "meets lock b" "rl_extract b lock s = (1, b, None, s)"
    using assms(1,2) by (auto simp: meets_def rl_extract_def wf_rlock_def)
  then show ?case using Cons by (auto simp: remlock_loop.simps(2) freelock_def)
qed simp

lemma delete_locks_result:
  assumes "\<forall>b\<in>set (i_rl s (fd_ip e)). wf_rlock b"
  shows "i_rl (delete_locks self e s) =
           (i_rl s)(fd_ip e := filter (\<lambda>b. rl_proc b \<noteq> self) (i_rl s (fd_ip e)))"
    and "fd_tables (delete_locks self e s) = fd_tables s"
    and "p_prl (delete_locks self e s) = p_prl s"
  using assms
  by (auto simp: delete_locks_def rlock_def Let_def rlock_request_def unlock_all_def remlock_def
      remlock_loop_all rl_wakeup_def fd_tables_def)

definition closed :: "nat \<Rightarrow> 'a fd_state_scheme \<Rightarrow> 'a fd_state_scheme \<Rightarrow> bool" where
  "closed fd s s' \<longleftrightarrow>
     (let p = GET_UNTAGGED_FD (u_filep s ! fd); e = the (file_mem s p) in
      fd_tables s' =
       ((u_filep s)[fd := 0], other_filep s,
        (file_mem s)(p := if fd_refc e = 1 then None else Some (e\<lparr>fd_refc := fd_refc e - 1\<rparr>))))"

lemma closed_fd_inv:
  assumes inv: "fd_inv s" and c: "closed fd s s'" and fd: "fd < NOFILE" "u_filep s ! fd \<noteq> 0"
  shows "fd_inv s'"
proof -
  let ?p = "GET_UNTAGGED_FD (u_filep s ! fd)"
  have len: "fd < length (u_filep s)" using fd_invD(1) [OF inv] fd(1) by simp
  obtain e where e: "file_mem s ?p = Some e" "fd_refc e = int (refs s ?p)" "0 < refs s ?p"
    using fd_inv_slot [OF inv fd_inv_nth [OF inv fd(1)] fd(2)] .
  have p0: "?p \<noteq> 0" using fd_invD(3) [OF inv fd_inv_nth [OF inv fd(1)] fd(2)] .
  have u: "u_filep s' = (u_filep s)[fd := 0]" "other_filep s' = other_filep s"
    and f: "file_mem s' = (file_mem s)(?p := if fd_refc e = 1 then None else Some (e\<lparr>fd_refc := fd_refc e - 1\<rparr>))"
    using c e(1) by (auto simp: closed_def Let_def fd_tables_def)
  have r: "refs s' q + (if ?p = q then 1 else 0) = refs s q + (if q = 0 then 1 else 0)" for q
    using refs_set_slot [OF u len, of q] by (auto split: if_splits)
  have sl: "slots s' = (slots s)[fd := 0]" using u len by (simp add: slots_def list_update_append)
  show ?thesis
  proof (rule fd_invI)
    show "length (u_filep s') = NOFILE" "length (slots s') \<le> 32767"
      using fd_invD(1,2) [OF inv] u(1) sl by simp_all
  next
    fix t assume "t \<in> set (slots s')" "t \<noteq> 0"
    then show "GET_UNTAGGED_FD t \<noteq> 0"
      using fd_invD(3) [OF inv] by (auto simp: sl dest!: set_list_update_cases)
  next
    fix q assume q: "q \<noteq> 0" "file_mem s' q = None"
    then show "refs s' q = 0"
      using fd_invD(4) [OF inv q(1)] r [of q] e by (auto simp: f split: if_splits)
  next
    fix q e' assume q: "q \<noteq> 0" "file_mem s' q = Some e'"
    then show "fd_refc e' = int (refs s' q) \<and> 0 < refs s' q"
      using r [of q] fd_invD(5) [OF inv q(1), of e'] e by (auto simp: f split: if_splits)
  qed
qed

context inode_layer begin

lemma fd_init_result:
  assumes "fd_get fd s \<noteq> 0" "fd_init iopen idetach fd ip mode s = Some (r, s')"
  shows "\<exists>newip s1. iopen ip mode s = Some (newip, s1) \<and>
    (if u_error s1 \<noteq> E_NONE \<or> newip = 0 then fd_tables s' = fd_tables s \<and> u_error s' \<noteq> E_NONE
     else fd_tables s' = (u_filep s, other_filep s,
       (file_mem s)(fd_get fd s := map_option (\<lambda>e. e\<lparr>fd_ip := newip, fd_flag := wrap16 mode, fd_refc := 1\<rparr>)
                                     (file_mem s (fd_get fd s)))))"
proof -
  obtain newip s1 where io: "iopen ip mode s = Some (newip, s1)"
    using assms by (cases "iopen ip mode s") (auto simp: fd_init_def Let_def)
  then have t1: "fd_tables s1 = fd_tables s" by (rule iopen_tables)
  show ?thesis
  proof (cases "u_error s1 \<noteq> E_NONE \<or> newip = 0")
    case True
    then show ?thesis using assms io t1
      by (intro exI [of _ newip] exI [of _ s1]) (auto simp: fd_init_def Let_def fd_tables_def split: if_splits)
  next
    case False
    then obtain s2 where d: "(if newip \<noteq> ip then idetach ip s1 else Some s1) = Some s2"
      and s': "s' = s2\<lparr>file_mem := (file_mem s2)(fd_get fd s :=
        map_option (\<lambda>e. e\<lparr>fd_ip := newip, fd_flag := wrap16 mode, fd_refc := 1\<rparr>) (file_mem s2 (fd_get fd s)))\<rparr>"
      using assms io by (auto simp: fd_init_def Let_def)
    then have "fd_tables s2 = fd_tables s" using t1 idetach_tables [of ip s1 s2] by (auto split: if_splits)
    then show ?thesis using False io s' by (auto simp: fd_tables_def)
  qed
qed

text \<open>
  \<open>fd_open\<close> is all or nothing: it fills the lowest free slot with a fresh entry of count 1, or
  leaves the tables as they were.
\<close>

lemma fd_open_result:
  assumes inv: "fd_inv s" and m: "mem = 0 \<or> mem AND 3 = 0 \<and> file_mem s mem = None"
    and r: "fd_open iopen idetach mem ip mode s = Some (fd, s')"
  shows "fd_inv s' \<and>
     (fd = ERROR_FD \<and> u_error s' \<noteq> E_NONE \<and> fd_tables s' = fd_tables s \<or>
      fd < NOFILE \<and> u_filep s ! fd = 0 \<and> (\<forall>i<fd. u_filep s ! i \<noteq> 0) \<and> mem \<noteq> 0 \<and>
      (\<exists>newip. newip \<noteq> 0 \<and> map_option fst (iopen ip mode (snd (fd_alloc mem s))) = Some newip \<and> opened fd mem newip mode s s'))"
  using fd_alloc_result [OF inv, of mem]
proof (elim disjE conjE)
  assume "fd_alloc mem s = (ERROR_FD, s\<lparr>u_error := EMFILE\<rparr>)"
  then have f: "fd = ERROR_FD" "u_error s' \<noteq> E_NONE" "fd_tables s' = fd_tables s"
    using r by (auto simp: fd_open_def fd_tables_def)
  then show ?thesis using inv fd_inv_cong by blast
next
  assume "fd_alloc mem s = (ERROR_FD, s\<lparr>u_error := ENFILE\<rparr>)"
  then have f: "fd = ERROR_FD" "u_error s' \<noteq> E_NONE" "fd_tables s' = fd_tables s"
    using r by (auto simp: fd_open_def fd_tables_def)
  then show ?thesis using inv fd_inv_cong by blast
next
  let ?fd = "fd_get_free s" and ?t = "MAKE_TAGGED_FD mem 0"
  let ?e0 = "\<lparr>fd_flag = 0, fd_refc = 0, fd_seek = 0, fd_ip = 0\<rparr>"
  assume l: "?fd < NOFILE" and m0: "mem \<noteq> 0" and a': "fd_alloc mem s = (?fd,
      s\<lparr>u_filep := (u_filep s)[?fd := ?t], file_mem := (file_mem s)(mem \<mapsto> ?e0)\<rparr>)"
  obtain s1 where a: "fd_alloc mem s = (?fd, s1)" and u1: "u_filep s1 = (u_filep s)[?fd := ?t]"
    "other_filep s1 = other_filep s" "file_mem s1 = (file_mem s)(mem \<mapsto> ?e0)"
    using a' by simp
  have m: "mem AND 3 = 0" "file_mem s mem = None" using m m0 by auto
  have len: "?fd < length (u_filep s)" using fd_invD(1) [OF inv] l by simp
  have ne: "?fd \<noteq> ERROR_FD" using l by (simp add: NOFILE_def ERROR_FD_def)
  have slot: "u_filep s ! ?fd = 0" "\<forall>i<?fd. u_filep s ! i \<noteq> 0"
    using fd_get_free_result [OF fd_invD(1) [OF inv]] ne by auto
  have g: "fd_get ?fd x = mem" if "u_filep x = (u_filep s)[?fd := ?t]" for x :: "'a fd_state_scheme"
    using that l len m m0 by (simp add: fd_get_def)
  have g1: "fd_get ?fd s1 \<noteq> 0" "fd_get ?fd s1 = mem" using g [OF u1(1)] m0 by simp_all
  obtain res s3 where i: "fd_init iopen idetach ?fd ip mode s1 = Some (res, s3)" and fin: "fd_finish ?fd s3 = (fd, s')"
    using r a ne by (auto simp: fd_open_def)
  obtain newip s2 where io: "iopen ip mode s1 = Some (newip, s2)"
    and t0: "if u_error s2 \<noteq> E_NONE \<or> newip = 0 then fd_tables s3 = fd_tables s1 \<and> u_error s3 \<noteq> E_NONE
     else fd_tables s3 = (u_filep s1, other_filep s1, (file_mem s1)(mem := map_option
          (\<lambda>e. e\<lparr>fd_ip := newip, fd_flag := wrap16 mode, fd_refc := 1\<rparr>) (file_mem s1 mem)))"
    using fd_init_result [OF g1(1) i] g1(2) by auto
  show ?thesis
  proof (cases "u_error s2 \<noteq> E_NONE \<or> newip = 0")
    case True
    then have t: "fd_tables s3 = fd_tables s1" and e: "u_error s3 \<noteq> E_NONE" using t0 by simp_all
    have u: "u_filep s3 = (u_filep s)[?fd := ?t]" "other_filep s3 = other_filep s" "file_mem s3 = (file_mem s)(mem \<mapsto> ?e0)"
      using t by (simp_all add: fd_tables_def u1)
    have "fd = ERROR_FD" "u_error s' = u_error s3"
      "fd_tables s' = ((u_filep s)[?fd := 0], other_filep s, (file_mem s)(mem := None))"
      using fin u m0 g [OF u(1)] by (auto simp: fd_finish_def Let_def fd_tables_def)
    moreover have "(u_filep s)[?fd := 0] = u_filep s" using slot(1) by (metis list_update_id)
    moreover have "(file_mem s)(mem := None) = file_mem s" using m(2) by auto
    ultimately have "fd = ERROR_FD" "u_error s' \<noteq> E_NONE" "fd_tables s' = fd_tables s"
      using e by (simp_all add: fd_tables_def)
    then show ?thesis using inv fd_inv_cong by blast
  next
    case False
    have t: "fd_tables s3 = (u_filep s1, other_filep s1, (file_mem s1)(mem := map_option
          (\<lambda>e. e\<lparr>fd_ip := newip, fd_flag := wrap16 mode, fd_refc := 1\<rparr>) (file_mem s1 mem)))"
      using t0 unfolding if_not_P [OF False] .
    then have o: "opened ?fd mem newip mode s s3" by (simp add: opened_def u1)
    have u: "u_filep s3 = (u_filep s)[?fd := ?t]" using t by (simp add: fd_tables_def u1)
    have "file_mem s3 mem = Some \<lparr>fd_flag = wrap16 mode, fd_refc = 1, fd_seek = 0, fd_ip = newip\<rparr>"
      using t by (simp add: fd_tables_def u1)
    then have "fd = ?fd" "s' = s3"
      using fin g [OF u] m0 by (simp_all add: fd_finish_def Let_def)
    then show ?thesis
      using o opened_fd_inv [OF inv o l slot(1) m0 m] l slot m0 False io a by auto
  qed
qed

lemma iclose_loop_keeps:
  "iclose_loop n iclose ip flag s = Some s' \<Longrightarrow> fd_tables s' = fd_tables s \<and> i_rl s' = i_rl s"
proof (induction n arbitrary: s)
  case (Suc n)
  then obtain s1 where c: "iclose ip flag (s\<lparr>u_error := E_NONE\<rparr>) = Some s1" by (auto split: option.splits)
  have "fd_tables s1 = fd_tables s" "i_rl s1 = i_rl s"
    using iclose_tables [OF c] iclose_locks [OF c] by (simp_all add: fd_tables_def)
  with Suc c show ?case by (auto split: if_splits)
qed simp

lemma fd_close_result:
  assumes inv: "fd_inv s" and fd: "fd < NOFILE" "u_filep s ! fd \<noteq> 0"
    and wf: "\<forall>ip. \<forall>b\<in>set (i_rl s ip). wf_rlock b"
    and r: "fd_close fuel iclose self fd s = Some s'"
    and e: "e = the (file_mem s (GET_UNTAGGED_FD (u_filep s ! fd)))"
  shows "closed fd s s' \<and> fd_inv s' \<and>
     i_rl s' = (i_rl s)(fd_ip e := filter (\<lambda>b. rl_proc b \<noteq> self) (i_rl s (fd_ip e)))"
proof -
  let ?p = "GET_UNTAGGED_FD (u_filep s ! fd)"
  have p0: "?p \<noteq> 0" using fd_invD(3) [OF inv fd_inv_nth [OF inv fd(1)] fd(2)] .
  obtain e' where e': "file_mem s ?p = Some e'" "fd_refc e' = int (refs s ?p)" "0 < refs s ?p"
    using fd_inv_slot [OF inv fd_inv_nth [OF inv fd(1)] fd(2)] .
  have "e' = e" using e'(1) e by simp
  with e' have m: "file_mem s ?p = Some e" "fd_refc e = int (refs s ?p)" "0 < refs s ?p" by simp_all
  have b: "refs s ?p \<le> 32767" using refs_le [of s ?p] fd_invD(2) [OF inv] by linarith
  define s1 where "s1 = delete_locks self e s"
  define s2 where "s2 = bump_refc ?p (-1) (s1\<lparr>u_filep := (u_filep s1)[fd := 0]\<rparr>)"
  note dl = delete_locks_result [of s e self, OF spec [OF wf], folded s1_def]
  have t2: "fd_tables s2 = ((u_filep s)[fd := 0], other_filep s,
      (file_mem s)(?p := Some (e\<lparr>fd_refc := fd_refc e - 1\<rparr>)))"
    using dl(2) m b by (simp add: s2_def fd_tables_def bump_refc_def)
  have l2: "i_rl s2 = (i_rl s)(fd_ip e := filter (\<lambda>b. rl_proc b \<noteq> self) (i_rl s (fd_ip e)))"
    using dl(1) by (simp add: s2_def)
  have eq: "fd_close fuel iclose self fd s =
      (if fd_refc e - 1 = 0
       then map_option (\<lambda>s3. s3\<lparr>file_mem := (file_mem s3)(?p := None)\<rparr>)
              (iclose_loop fuel iclose (fd_ip e) (fd_flag e) s2)
       else Some s2)"
    using fd(1) p0 t2 by (simp add: fd_close_def Let_def e [symmetric] s1_def [symmetric]
        s2_def [symmetric] fd_tables_def)
  have "closed fd s s' \<and> i_rl s' = i_rl s2"
  proof (cases "fd_refc e = 1")
    case True
    then obtain s3 where "iclose_loop fuel iclose (fd_ip e) (fd_flag e) s2 = Some s3"
      and s': "s' = s3\<lparr>file_mem := (file_mem s3)(?p := None)\<rparr>"
      using r eq by auto
    then have "fd_tables s3 = fd_tables s2" "i_rl s3 = i_rl s2" using iclose_loop_keeps by blast+
    then show ?thesis using t2 True m(1) s' by (simp add: closed_def Let_def fd_tables_def)
  next
    case False
    then show ?thesis using r eq t2 m(1) by (simp add: closed_def Let_def)
  qed
  then show ?thesis using l2 closed_fd_inv [OF inv _ fd] by auto
qed

lemma fd_close_returns:
  assumes inv: "fd_inv s" and fd: "fd < NOFILE" "u_filep s ! fd \<noteq> 0"
    and wf: "\<forall>ip. \<forall>b\<in>set (i_rl s ip). wf_rlock b"
    and e: "e = the (file_mem s (GET_UNTAGGED_FD (u_filep s ! fd)))" and n: "fd_refc e \<noteq> 1"
  shows "fd_close fuel iclose self fd s \<noteq> None"
proof -
  let ?p = "GET_UNTAGGED_FD (u_filep s ! fd)"
  have p0: "?p \<noteq> 0" using fd_invD(3) [OF inv fd_inv_nth [OF inv fd(1)] fd(2)] .
  obtain e' where e': "file_mem s ?p = Some e'" "fd_refc e' = int (refs s ?p)" "0 < refs s ?p"
    using fd_inv_slot [OF inv fd_inv_nth [OF inv fd(1)] fd(2)] .
  have b: "refs s ?p \<le> 32767" using refs_le [of s ?p] fd_invD(2) [OF inv] by linarith
  define s1 where "s1 = delete_locks self e s"
  define s2 where "s2 = bump_refc ?p (-1) (s1\<lparr>u_filep := (u_filep s1)[fd := 0]\<rparr>)"
  have "file_mem s1 ?p = Some e"
    using delete_locks_result(2) [of s e self, OF spec [OF wf]] e' e by (simp add: s1_def fd_tables_def)
  then have "fd_refc (the (file_mem s2 ?p)) \<noteq> 0"
    using e' e b n by (simp add: s2_def bump_refc_def)
  then show ?thesis
    using fd(1) p0 by (simp add: fd_close_def Let_def e [symmetric] s1_def [symmetric] s2_def [symmetric])
qed

lemma fd_close_keeps:
  assumes "fd_inv s" "\<forall>ip. \<forall>b\<in>set (i_rl s ip). wf_rlock b" "fd_close fuel iclose self fd s = Some s'"
  shows "fd_inv s' \<and> (\<forall>ip. \<forall>b\<in>set (i_rl s' ip). wf_rlock b)"
proof (cases "fd < NOFILE \<and> u_filep s ! fd \<noteq> 0")
  case True
  then show ?thesis
    using fd_close_result [OF assms(1) _ _ assms(2,3) refl] assms(2) by auto
next
  case False
  then have c: "fd \<ge> NOFILE \<or> GET_UNTAGGED_FD (u_filep s ! fd) = 0" by auto
  have "fd_close fuel iclose self fd s = Some (s\<lparr>u_error := EBADF\<rparr>)"
    by (simp only: fd_close_def if_P [OF c])
  with assms(3) have "s' = s\<lparr>u_error := EBADF\<rparr>" by simp
  then show ?thesis
    using assms(1,2) fd_inv_cong [of s' s] by (simp add: fd_tables_def)
qed

lemma fd_close_slots:
  assumes "fd_inv s" "\<forall>ip. \<forall>b\<in>set (i_rl s ip). wf_rlock b" "fd_close fuel iclose self fd s = Some s'"
    and "fd < NOFILE" "u_filep s ! fd \<noteq> 0"
  shows "u_filep s' = (u_filep s)[fd := 0] \<and> other_filep s' = other_filep s"
  using fd_close_result [OF assms(1,4,5,2,3) refl]
  by (simp add: closed_def Let_def fd_tables_def)

lemma fd_close_from_result:
  assumes "fd_inv s" "\<forall>ip. \<forall>b\<in>set (i_rl s ip). wf_rlock b"
    and "fd_close_from fds fuel iclose self s = Some s'" "set fds \<subseteq> {..<NOFILE}"
  shows "fd_inv s' \<and> other_filep s' = other_filep s \<and> (\<forall>fd\<in>set fds. u_filep s' ! fd = 0) \<and>
     (\<forall>fd. u_filep s ! fd = 0 \<and> fd < NOFILE \<longrightarrow> u_filep s' ! fd = 0)"
  using assms
proof (induction fds arbitrary: s)
  case (Cons fd fds)
  have fd: "fd < NOFILE" using Cons.prems(4) by simp
  show ?case
  proof (cases "u_filep s ! fd = 0")
    case True
    then show ?thesis using Cons.IH [OF Cons.prems(1,2)] Cons.prems(3,4) fd by auto
  next
    case False
    then obtain s1 where c: "fd_close fuel iclose self fd s = Some s1"
      and r: "fd_close_from fds fuel iclose self s1 = Some s'"
      using Cons.prems(3) by (auto split: option.splits)
    note k = fd_close_keeps [OF Cons.prems(1,2) c]
    note u = fd_close_slots [OF Cons.prems(1,2) c fd False]
    have "length (u_filep s) = NOFILE" by (rule fd_invD(1) [OF Cons.prems(1)])
    then have "u_filep s1 ! i = (if i = fd then 0 else u_filep s ! i)" if "i < NOFILE" for i
      using u that by simp
    with Cons.IH [OF _ _ r] k u Cons.prems(4) fd show ?thesis by auto
  qed
qed simp

text \<open>A process whose open files are all shared with another process can always close them.\<close>

lemma fd_close_from_returns:
  assumes "fd_inv s" "\<forall>ip. \<forall>b\<in>set (i_rl s ip). wf_rlock b" "set fds \<subseteq> {..<NOFILE}"
    "\<forall>t\<in>set (u_filep s). t \<noteq> 0 \<longrightarrow> t \<in> set (concat (other_filep s))"
  shows "fd_close_from fds fuel iclose self s \<noteq> None"
  using assms
proof (induction fds arbitrary: s)
  case (Cons fd fds)
  have fd: "fd < NOFILE" using Cons.prems(3) by simp
  show ?case
  proof (cases "u_filep s ! fd = 0")
    case True
    then show ?thesis using Cons by simp
  next
    case False
    let ?p = "GET_UNTAGGED_FD (u_filep s ! fd)"
    define e where "e = the (file_mem s ?p)"
    have i: "u_filep s ! fd \<in> set (u_filep s)" using fd_invD(1) [OF Cons.prems(1)] fd by simp
    then have "0 < count_list (map GET_UNTAGGED_FD (u_filep s)) ?p"
      "0 < count_list (map GET_UNTAGGED_FD (concat (other_filep s))) ?p"
      using Cons.prems(4) False by (auto simp: count_list_0_iff neq0_conv [symmetric] simp del: neq0_conv)
    then have "2 \<le> refs s ?p" by (simp add: refs_def slots_def)
    moreover have "fd_refc e = int (refs s ?p)"
      using fd_inv_slot [OF Cons.prems(1) fd_inv_nth [OF Cons.prems(1) fd] False] e_def by (metis option.sel)
    ultimately have "fd_refc e \<noteq> 1" by simp
    then obtain s1 where c: "fd_close fuel iclose self fd s = Some s1"
      using fd_close_returns [OF Cons.prems(1) fd False Cons.prems(2) e_def] by blast
    note k = fd_close_keeps [OF Cons.prems(1,2) c]
    note u = fd_close_slots [OF Cons.prems(1,2) c fd False]
    have "\<forall>t\<in>set (u_filep s1). t \<noteq> 0 \<longrightarrow> t \<in> set (concat (other_filep s1))"
      using Cons.prems(4) u set_list_update_cases by metis
    then show ?thesis using Cons.IH [of s1] k Cons.prems(3) False c by simp
  qed
qed simp

end

section \<open>Fork\<close>

text \<open>
  After \<open>fork\<close> has copied the user area the child's table is one more table that refers to the
  same entries; \<open>fd_dup_all\<close> makes up the counts.
\<close>

definition fork_tables :: "'a fd_state_scheme \<Rightarrow> 'a fd_state_scheme" where
  "fork_tables s = s\<lparr>other_filep := u_filep s # other_filep s\<rparr>"

lemma count_list_take_Suc:
  "n < length xs \<Longrightarrow> count_list (take (Suc n) xs) p = count_list (take n xs) p + (if xs ! n = p then 1 else 0)"
  by (simp add: take_Suc_conv_app_nth)

lemma fd_dup_all_fold:
  assumes "n \<le> length (u_filep s)" and "\<forall>t\<in>set (u_filep s). t \<noteq> 0 \<longrightarrow> GET_UNTAGGED_FD t \<noteq> 0"
    and "\<forall>p e. p \<noteq> 0 \<longrightarrow> file_mem s p = Some e \<longrightarrow> 0 \<le> fd_refc e \<and> fd_refc e + int n \<le> 32767"
  shows "\<exists>s'. fold (\<lambda>i s. if u_filep s ! i \<noteq> 0 then bump_refc (GET_UNTAGGED_FD (u_filep s ! i)) 1 s else s)
       [0..<n] s = s' \<and> u_filep s' = u_filep s \<and> other_filep s' = other_filep s \<and>
     (\<forall>p. p \<noteq> 0 \<longrightarrow> file_mem s' p = map_option
         (\<lambda>e. e\<lparr>fd_refc := fd_refc e + int (count_list (take n (map GET_UNTAGGED_FD (u_filep s))) p)\<rparr>)
         (file_mem s p))"
  using assms(1,3)
proof (induction n)
  case 0
  then show ?case by (auto simp: option.map_ident)
next
  case (Suc n)
  let ?us = "map GET_UNTAGGED_FD (u_filep s)" and ?t = "u_filep s ! n"
  let ?f = "\<lambda>i s. if u_filep s ! i \<noteq> 0 then bump_refc (GET_UNTAGGED_FD (u_filep s ! i)) 1 s else s"
  have pre: "n \<le> length (u_filep s)"
    "\<forall>p e. p \<noteq> 0 \<longrightarrow> file_mem s p = Some e \<longrightarrow> 0 \<le> fd_refc e \<and> fd_refc e + int n \<le> 32767"
    using Suc.prems by force+
  obtain s1 where f: "fold ?f [0..<n] s = s1" and u: "u_filep s1 = u_filep s" "other_filep s1 = other_filep s"
    and m: "\<And>p. p \<noteq> 0 \<Longrightarrow> file_mem s1 p = map_option
         (\<lambda>e. e\<lparr>fd_refc := fd_refc e + int (count_list (take n ?us) p)\<rparr>) (file_mem s p)"
    using Suc.IH [OF pre] by blast
  have n: "n < length (u_filep s)" using Suc.prems(1) by simp
  have c: "count_list (take (Suc n) ?us) p = count_list (take n ?us) p + (if GET_UNTAGGED_FD ?t = p then 1 else 0)" for p
    using count_list_take_Suc [of n ?us p] n by simp
  have step: "fold ?f [0..<Suc n] s = (if ?t \<noteq> 0 then bump_refc (GET_UNTAGGED_FD ?t) 1 s1 else s1)"
    using f u by simp
  show ?case
  proof (cases "?t = 0")
    case True
    then show ?thesis using step u m c by (intro exI [of _ s1]) auto
  next
    case False
    have b: "count_list (take n ?us) p \<le> n" for p
      using count_le_length [of "take n ?us" p] n by simp
    show ?thesis
    proof (intro exI conjI allI impI)
      show "fold ?f [0..<Suc n] s = bump_refc (GET_UNTAGGED_FD ?t) 1 s1" using step False by simp
    next
      fix p :: "32 word" assume p: "p \<noteq> 0"
      show "file_mem (bump_refc (GET_UNTAGGED_FD ?t) 1 s1) p =
          map_option (\<lambda>e. e\<lparr>fd_refc := fd_refc e + int (count_list (take (Suc n) ?us) p)\<rparr>) (file_mem s p)"
      proof (cases "file_mem s p")
        case (Some e)
        have "0 \<le> fd_refc e" "fd_refc e + int (Suc n) \<le> 32767" using Suc.prems(2) p Some by auto
        then have "wrap16 (fd_refc e + int (count_list (take n ?us) p) + 1)
            = fd_refc e + int (count_list (take n ?us) p) + 1"
          using b [of p] by (intro wrap16_id) linarith+
        then show ?thesis using m [OF p] Some c [of p] by (auto simp: file_mem_bump algebra_simps)
      qed (use m [OF p] in \<open>auto simp: file_mem_bump\<close>)
    qed (simp_all add: u)
  qed
qed

lemma fd_dup_all_fd_inv:
  assumes inv: "fd_inv s" and room: "length (slots s) + NOFILE \<le> 32767"
  shows "fd_inv (fd_dup_all (fork_tables s))"
proof -
  let ?f = "fork_tables s" and ?us = "map GET_UNTAGGED_FD (u_filep s)"
  have len: "length (u_filep s) = NOFILE" by (rule fd_invD(1) [OF inv])
  have f: "u_filep ?f = u_filep s" "other_filep ?f = u_filep s # other_filep s" "file_mem ?f = file_mem s"
    by (simp_all add: fork_tables_def)
  have nz: "\<forall>t\<in>set (u_filep ?f). t \<noteq> 0 \<longrightarrow> GET_UNTAGGED_FD t \<noteq> 0"
    using fd_invD(3) [OF inv] by (auto simp: f slots_def)
  have bound: "\<forall>p e. p \<noteq> 0 \<longrightarrow> file_mem ?f p = Some e \<longrightarrow> 0 \<le> fd_refc e \<and> fd_refc e + int NOFILE \<le> 32767"
  proof (intro allI impI)
    fix p :: "32 word" and e assume "p \<noteq> 0" "file_mem ?f p = Some e"
    then have "fd_refc e = int (refs s p)" using fd_invD(5) [OF inv] f(3) by auto
    then show "0 \<le> fd_refc e \<and> fd_refc e + int NOFILE \<le> 32767"
      using refs_le [of s p] room by linarith
  qed
  obtain s' where s': "fd_dup_all ?f = s'" "u_filep s' = u_filep s" "other_filep s' = u_filep s # other_filep s"
    and m: "\<And>p. p \<noteq> 0 \<Longrightarrow> file_mem s' p = map_option
         (\<lambda>e. e\<lparr>fd_refc := fd_refc e + int (count_list ?us p)\<rparr>) (file_mem s p)"
    using fd_dup_all_fold [OF _ nz bound] len f unfolding fd_dup_all_def by auto
  have sl: "slots s' = u_filep s @ slots s" using s' by (simp add: slots_def)
  have r: "refs s' p = count_list ?us p + refs s p" for p by (simp add: refs_def sl)
  have "fd_inv s'"
  proof (rule fd_invI)
    show "length (u_filep s') = NOFILE" "length (slots s') \<le> 32767" using s' sl len room by simp_all
  next
    fix t assume "t \<in> set (slots s')" "t \<noteq> 0"
    moreover have "set (slots s') \<subseteq> set (slots s)" unfolding sl by (auto simp: slots_def)
    ultimately show "GET_UNTAGGED_FD t \<noteq> 0" using fd_invD(3) [OF inv] by blast
  next
    fix p assume p: "p \<noteq> 0" "file_mem s' p = None"
    then have z: "refs s p = 0" using m [OF p(1)] fd_invD(4) [OF inv p(1)] by simp
    then have "p \<notin> set (map GET_UNTAGGED_FD (slots s))" unfolding refs_def count_list_0_iff .
    then have "p \<notin> set ?us" by (simp add: slots_def)
    then have "count_list ?us p = 0" unfolding count_list_0_iff .
    then show "refs s' p = 0" using r [of p] z by simp
  next
    fix p e assume p: "p \<noteq> 0" "file_mem s' p = Some e"
    then show "fd_refc e = int (refs s' p) \<and> 0 < refs s' p"
      using m [OF p(1)] r [of p] fd_invD(5) [OF inv p(1)] by auto
  qed
  with s'(1) show ?thesis by simp
qed

end
