(* ===== verification/Credential_Laws.thy ===== *)
theory Credential_Laws
  imports Credentials
begin

text \<open>
  Reference counting and copy-on-write of credentials: a group list is counted by the credentials
  that name it, and a credential with other holders is never changed, apart from its count.
\<close>

section \<open>The invariant\<close>

definition holders :: "'a cred_state_scheme \<Rightarrow> nat \<Rightarrow> nat set" where
  "holders s g = {p. \<exists>c. cred_mem s p = Some c \<and> cr_ngroups c > 0 \<and> cr_groups c = g}"

definition cred_inv :: "'a cred_state_scheme \<Rightarrow> bool" where
  "cred_inv s \<longleftrightarrow>
     finite (dom (cred_mem s)) \<and> card (dom (cred_mem s)) < 2147483647 \<and>
     (\<forall>p c. cred_mem s p = Some c \<longrightarrow>
        0 < cr_ref c \<and> cr_ref c \<le> 65535 \<and> 0 \<le> cr_ngroups c \<and>
        (cr_ngroups c > 0 \<longrightarrow> groups_mem s (cr_groups c) \<noteq> None)) \<and>
     (\<forall>g n gs. groups_mem s g = Some (n, gs) \<longrightarrow> n = int (card (holders s g)) \<and> holders s g \<noteq> {})"

lemma cred_invD:
  assumes "cred_inv s"
  shows "finite (dom (cred_mem s))" "card (dom (cred_mem s)) < 2147483647"
    "cred_mem s p = Some c \<Longrightarrow> 0 < cr_ref c \<and> cr_ref c \<le> 65535 \<and> 0 \<le> cr_ngroups c"
    "cred_mem s p = Some c \<Longrightarrow> cr_ngroups c > 0 \<Longrightarrow> groups_mem s (cr_groups c) \<noteq> None"
    "groups_mem s g = Some (n, gs) \<Longrightarrow> n = int (card (holders s g)) \<and> holders s g \<noteq> {}"
  using assms unfolding cred_inv_def by blast+

lemma holders_sub: "holders s g \<subseteq> dom (cred_mem s)"
  by (auto simp: holders_def)

lemma card_holders:
  assumes "cred_inv s" shows "card (holders s g) < 2147483647" "finite (holders s g)"
proof -
  show "finite (holders s g)" using holders_sub cred_invD(1) [OF assms] by (rule finite_subset)
  show "card (holders s g) < 2147483647"
    using card_mono [OF cred_invD(1) [OF assms] holders_sub [of s g]] cred_invD(2) [OF assms] by linarith
qed

section \<open>Copying\<close>

lemma cred_copy_none: "cred_copy 0 p s = (0, s)"
  by (simp add: cred_copy_def cred_alloc_def)

definition bump_groups :: "cred \<Rightarrow> 'a cred_state_scheme \<Rightarrow> nat \<Rightarrow> (int \<times> int list) option" where
  "bump_groups c s =
     (if cr_ngroups c > 0
      then (groups_mem s)(cr_groups c := map_option (\<lambda>(n, gs). (wrap32 (n + 1), gs)) (groups_mem s (cr_groups c)))
      else groups_mem s)"

lemma cred_copy_result:
  assumes "cred_mem s p = Some c" "1 < cr_ref c" "cr_ref c \<le> 65535" "mem \<noteq> 0" "mem \<noteq> p"
  shows "cred_copy mem p s =
     (mem, s\<lparr>cred_mem := (cred_mem s)(mem \<mapsto> c\<lparr>cr_ref := 1\<rparr>, p \<mapsto> c\<lparr>cr_ref := cr_ref c - 1\<rparr>),
            groups_mem := bump_groups c s\<rparr>)"
  using assms
  by (simp add: cred_copy_def cred_alloc_def Let_def cred_at_def cred_unref_def upd_cred_def
      groups_ref_def bump_groups_def)

lemma copied_cred_inv:
  assumes inv: "cred_inv s" and c: "cred_mem s p = Some c" "1 < cr_ref c"
    and m: "cred_mem s mem = None" and room: "card (dom (cred_mem s)) < 2147483646"
  shows "cred_inv (s\<lparr>cred_mem := (cred_mem s)(mem \<mapsto> c\<lparr>cr_ref := 1\<rparr>, p \<mapsto> c\<lparr>cr_ref := cr_ref c - 1\<rparr>),
            groups_mem := bump_groups c s\<rparr>)" (is "cred_inv ?s'")
proof -
  have mp: "mem \<noteq> p" using c m by auto
  have dom: "dom (cred_mem ?s') = insert mem (dom (cred_mem s))" using c by auto
  have h: "holders ?s' g = (if cr_ngroups c > 0 \<and> g = cr_groups c then insert mem (holders s g) else holders s g)" for g
    using c mp m by (auto simp: holders_def split: if_splits)
  have n: "mem \<notin> holders s g" for g using m by (auto simp: holders_def)
  show ?thesis unfolding cred_inv_def
  proof (intro conjI allI impI)
    show "finite (dom (cred_mem ?s'))" using cred_invD(1) [OF inv] by (simp only: dom finite_insert)
    show "card (dom (cred_mem ?s')) < 2147483647"
      using cred_invD(1) [OF inv] room m by (simp only: dom card_insert_if) (auto split: if_splits)
  next
    fix q d assume d: "cred_mem ?s' q = Some d"
    show "0 < cr_ref d" "cr_ref d \<le> 65535" "0 \<le> cr_ngroups d"
      using d c cred_invD(3) [OF inv, of q d] cred_invD(3) [OF inv c(1)] by (auto split: if_splits)
    assume g: "cr_ngroups d > 0"
    show "groups_mem ?s' (cr_groups d) \<noteq> None"
      using d c g cred_invD(4) [OF inv, of q d] cred_invD(4) [OF inv c(1)]
      by (auto simp: bump_groups_def split: if_splits)
  next
    fix g n gs assume g: "groups_mem ?s' g = Some (n, gs)"
    show "n = int (card (holders ?s' g))"
    proof (cases "cr_ngroups c > 0 \<and> g = cr_groups c")
      case True
      then obtain k where k: "groups_mem s g = Some (k, gs)" "n = wrap32 (k + 1)"
        using g by (auto simp: bump_groups_def)
      then have "k = int (card (holders s g))" using cred_invD(5) [OF inv] by blast
      then show ?thesis
        using True k(2) h [of g] n [of g] card_holders [OF inv, of g] by simp
    next
      case False
      then have "groups_mem s g = Some (n, gs)" using g by (auto simp: bump_groups_def split: if_splits)
      then show ?thesis using False h [of g] cred_invD(5) [OF inv] by auto
    qed
    show "holders ?s' g \<noteq> {}"
    proof (cases "cr_ngroups c > 0 \<and> g = cr_groups c")
      case False
      then have "groups_mem s g = Some (n, gs)" using g by (auto simp: bump_groups_def split: if_splits)
      then show ?thesis using False h [of g] cred_invD(5) [OF inv] by auto
    qed (simp add: h)
  qed
qed

section \<open>Changing\<close>

text \<open>A change that keeps the count and the group list.\<close>

definition keeps_counts :: "(cred \<Rightarrow> cred) \<Rightarrow> bool" where
  "keeps_counts f \<longleftrightarrow>
     (\<forall>c. cr_ref (f c) = cr_ref c \<and> cr_ngroups (f c) = cr_ngroups c \<and> cr_groups (f c) = cr_groups c)"

lemma upd_cred_inv:
  assumes inv: "cred_inv s" and f: "keeps_counts f" and c: "cred_mem s p = Some c"
  shows "cred_inv (upd_cred f p s)"
proof -
  have h: "holders (upd_cred f p s) g = holders s g" for g
    using f c by (auto simp: holders_def upd_cred_def keeps_counts_def split: if_splits)
  have d: "dom (cred_mem (upd_cred f p s)) = dom (cred_mem s)"
    using c by (auto simp: upd_cred_def split: if_splits)
  have g: "groups_mem (upd_cred f p s) = groups_mem s" by (simp add: upd_cred_def)
  have "0 < cr_ref e \<and> cr_ref e \<le> 65535 \<and> 0 \<le> cr_ngroups e \<and> (cr_ngroups e > 0 \<longrightarrow> groups_mem s (cr_groups e) \<noteq> None)"
    if "cred_mem (upd_cred f p s) q = Some e" for q e
    using that f cred_invD(3,4) [OF inv c] cred_invD(3,4) [OF inv, of q e] c
    by (auto simp: upd_cred_def keeps_counts_def split: if_splits)
  then show ?thesis
    using cred_invD(1,2,5) [OF inv] unfolding cred_inv_def h d g by blast
qed

text \<open>
  What a changing routine does: \<open>q\<close> is the credential to use from now on; every other credential
  is as before, but for one holder fewer of the original when a copy was made.
\<close>

definition changed ::
  "(cred \<Rightarrow> cred) \<Rightarrow> nat \<Rightarrow> nat \<Rightarrow> cred \<Rightarrow> nat \<Rightarrow> 'a cred_state_scheme \<Rightarrow> 'a cred_state_scheme \<Rightarrow> bool" where
  "changed f mem p c q s s' \<longleftrightarrow>
     (if cr_ref c = 1 then q = p else q = mem \<and> cred_mem s' p = Some (c\<lparr>cr_ref := cr_ref c - 1\<rparr>)) \<and>
     cred_mem s' q = Some (f (c\<lparr>cr_ref := 1\<rparr>)) \<and>
     (\<forall>r. r \<noteq> p \<and> r \<noteq> q \<longrightarrow> cred_mem s' r = cred_mem s r) \<and>
     (\<forall>g. map_option snd (groups_mem s' g) = map_option snd (groups_mem s g))"

lemma change_cred_result:
  assumes inv: "cred_inv s" and c: "cred_mem s p = Some c" and p: "p \<noteq> 0" and f: "keeps_counts f"
    and m: "cred_mem s mem = None" and room: "card (dom (cred_mem s)) < 2147483646"
    and r: "change_cred f mem p s = (q, s')"
  shows "cred_inv s' \<and>
     (q = 0 \<and> mem = 0 \<and> 1 < cr_ref c \<and> s' = s \<or> q \<noteq> 0 \<and> changed f mem p c q s s')"
proof (cases "1 < cr_ref c")
  case True
  show ?thesis
  proof (cases "mem = 0")
    case mem: True
    then have "change_cred f mem p s = (0, s)"
      using True c by (simp add: change_cred_def own_copy_def cred_at_def cred_copy_none)
    then show ?thesis using r inv mem True by simp
  next
    case False
    let ?s1 = "s\<lparr>cred_mem := (cred_mem s)(mem \<mapsto> c\<lparr>cr_ref := 1\<rparr>, p \<mapsto> c\<lparr>cr_ref := cr_ref c - 1\<rparr>),
            groups_mem := bump_groups c s\<rparr>"
    have mp: "mem \<noteq> p" using c m by auto
    have b: "cr_ref c \<le> 65535" using cred_invD(3) [OF inv c] by simp
    have "change_cred f mem p s = (mem, upd_cred f mem ?s1)"
      using True c False cred_copy_result [OF c True b False mp]
      by (simp add: change_cred_def own_copy_def cred_at_def)
    then have q: "q = mem" "s' = upd_cred f mem ?s1" using r by simp_all
    have i1: "cred_inv ?s1" by (rule copied_cred_inv [OF inv c True m room])
    have "cred_mem ?s1 mem = Some (c\<lparr>cr_ref := 1\<rparr>)" using mp by simp
    then have "cred_inv s'" unfolding q(2) by (rule upd_cred_inv [OF i1 f])
    moreover have "changed f mem p c q s s'"
      unfolding changed_def q using True mp
      by (auto simp: upd_cred_def bump_groups_def option.map_comp comp_def split_beta)
    ultimately show ?thesis using False q(1) by blast
  qed
next
  case False
  then have one: "cr_ref c = 1" using cred_invD(3) [OF inv c] by simp
  then have "change_cred f mem p s = (p, upd_cred f p s)"
    using c p by (simp add: change_cred_def own_copy_def cred_at_def)
  then have q: "q = p" "s' = upd_cred f p s" using r by simp_all
  have same: "c\<lparr>cr_ref := 1\<rparr> = c" using one by simp
  have "changed f mem p c q s s'"
    unfolding changed_def q same using one c by (simp add: upd_cred_def)
  then show ?thesis using upd_cred_inv [OF inv f c] p q by blast
qed

section \<open>The properties\<close>

definition demo_cred :: cred where
  "demo_cred = \<lparr>cr_ref = 2, cr_ngroups = 1, cr_uid = 7, cr_gid = 8, cr_ruid = 7, cr_rgid = 8,
     cr_suid = 7, cr_sgid = 8, cr_groups = 50\<rparr>"

definition demo_creds :: cred_state where
  "demo_creds = \<lparr>u_error = E_NONE, u_asu = False, p_credp = 1, cred_mem = [1 \<mapsto> demo_cred],
     groups_mem = [50 \<mapsto> (1, [20])]\<rparr>"

lemma demo_creds_inv: "cred_inv demo_creds"
proof -
  have "holders demo_creds g = (if g = 50 then {1} else {})" for g
    by (auto simp: holders_def demo_creds_def demo_cred_def split: if_splits)
  then show ?thesis
    by (auto simp: cred_inv_def demo_creds_def demo_cred_def split: if_splits)
qed

text \<open>
  C6. Credentials are copied on write: the routines that set user and group ids either fail for
  lack of memory and change nothing, or return a credential with the new ids that has one holder
  and else the old contents; no other credential changes, apart from one holder fewer of the
  original, no group list changes, and all reference counts stay exact.
\<close>

theorem credentials_copy_on_write:
  assumes inv: "cred_inv s" and c: "cred_mem s p = Some c" "p \<noteq> 0"
    and m: "cred_mem s mem = None" and room: "card (dom (cred_mem s)) < 2147483646"
    and op: "(op, f) \<in>
      {(cred_execid mem p u g, \<lambda>c. c\<lparr>cr_uid := u, cr_suid := u, cr_gid := g, cr_sgid := g\<rparr>),
       (cred_newgid mem p g, \<lambda>c. c\<lparr>cr_gid := g, cr_rgid := g, cr_sgid := g\<rparr>),
       (cred_newegid mem p g, \<lambda>c. c\<lparr>cr_gid := g\<rparr>),
       (cred_newuid mem p u, \<lambda>c. c\<lparr>cr_uid := u, cr_ruid := u, cr_suid := u\<rparr>),
       (cred_neweuid mem p u, \<lambda>c. c\<lparr>cr_uid := u\<rparr>)}"
    and r: "op s = (q, s')"
  shows "cred_inv s' \<and>
     (q = 0 \<and> mem = 0 \<and> 1 < cr_ref c \<and> s' = s \<or> q \<noteq> 0 \<and> changed f mem p c q s s')"
proof -
  have "op s = change_cred f mem p s"
    using op by (auto simp: cred_execid_def cred_newgid_def cred_newegid_def cred_newuid_def cred_neweuid_def)
  moreover have "keeps_counts f" using op by (auto simp: keeps_counts_def)
  ultimately show ?thesis using change_cred_result [OF inv c _ m room, of f q s'] r by simp
qed

theorem credentials_copy_on_write_witness:
  "\<exists>s'. cred_neweuid 9 1 0 demo_creds = (9, s') \<and> cred_inv s' \<and>
     cred_mem s' 1 = Some (demo_cred\<lparr>cr_ref := 1\<rparr>) \<and> cred_mem s' 9 = Some (demo_cred\<lparr>cr_ref := 1, cr_uid := 0\<rparr>)"
proof -
  obtain q s' where r: "cred_neweuid 9 1 0 demo_creds = (q, s')" by (cases "cred_neweuid 9 1 0 demo_creds")
  have "cred_inv s' \<and> (q = 0 \<and> (9::nat) = 0 \<and> 1 < cr_ref demo_cred \<and> s' = demo_creds \<or>
      q \<noteq> 0 \<and> changed (\<lambda>c. c\<lparr>cr_uid := 0\<rparr>) 9 1 demo_cred q demo_creds s')"
    by (rule credentials_copy_on_write [where op = "cred_neweuid 9 1 0" and u = 0 and g = 0 and s = demo_creds])
      (use demo_creds_inv r in \<open>simp_all add: demo_creds_def\<close>)
  then have "cred_inv s'" "changed (\<lambda>c. c\<lparr>cr_uid := 0\<rparr>) 9 1 demo_cred q demo_creds s'" by simp_all
  then show ?thesis using r by (auto simp: changed_def demo_cred_def)
qed

text \<open>
  IPC permission checks: access is refused exactly when something is asked for, the caller is
  not the super-user, and its class (owner or creator, their groups, others) lacks a requested bit
  or nothing is requested of that class; a refusal sets EACCES, a grant leaves the error cell
  alone, and nothing else changes but the accounting flag.
\<close>

theorem ipc_access_decision:
  "(let c = cred_at s (p_credp s);
        lvl = if cr_uid c = ip_uid ipcp \<or> cr_uid c = ip_cuid ipcp then 2
              else if cr_gid c = ip_gid ipcp \<or> cr_gid c = ip_cgid ipcp then 1
              else if cr_uid c = 0 then 2 else (0::nat);
        wanted = drop_bit (lvl * 3) mode AND 7
    in fst (ipc_lack_perm ipcp mode s) \<longleftrightarrow>
         \<not> (mode AND IRWXUGO = 0 \<or> cr_uid c = 0 \<or>
            wanted \<noteq> 0 \<and> drop_bit (lvl * 3) (ip_mode ipcp) AND wanted = wanted)) \<and>
   u_error (snd (ipc_lack_perm ipcp mode s)) = (if fst (ipc_lack_perm ipcp mode s) then EACCES else u_error s) \<and>
   same_kernel s (snd (ipc_lack_perm ipcp mode s))"
proof (intro conjI)
  show "u_error (snd (ipc_lack_perm ipcp mode s)) =
      (if fst (ipc_lack_perm ipcp mode s) then EACCES else u_error s)" by (rule ipc_lack_perm_error)
  show "same_kernel s (snd (ipc_lack_perm ipcp mode s))" by (rule ipc_lack_perm_same)
qed (simp add: ipc_lack_perm_decision ipc_level_def priv_def PERM_EXTRACT_def Let_def del: drop_bit_push_bit_int)

end
