(* ===== verification/Semaphores.thy ===== *)
theory Semaphores
  imports Kernel_Memory
begin

text \<open>
  System V semaphores, \<^verbatim>\<open>kernel/conf/sem/src/sem386.c\<close>. The table of sets is \<open>semids\<close>
  (\<open>None\<close> before the first \<open>semget\<close>); each process has a list of adjustments to make at its
  exit. A C \<open>return\<close> without a value is \<open>None\<close>: the system call's result is then whatever the
  register held, and only \<open>u_error\<close> tells that it failed. The arrays that \<open>sem_base\<close> points to
  are lists; a list keeps its contents after \<open>kfree\<close>, as the memory does until it is reused.
\<close>

section \<open>Data\<close>

record sem =
  semval :: int      \<comment> \<open>unsigned short, as the counters\<close>
  sempid :: int
  semncnt :: int
  semzcnt :: int

record semid_ds =
  sem_perm :: ipc_perm
  sem_base :: "sem list"
  sem_nsems :: int
  sem_otime :: int
  sem_ctime :: int

record sem_undo =
  un_aoe :: int      \<comment> \<open>short\<close>
  un_num :: int      \<comment> \<open>short\<close>
  un_id :: int

record sembuf =
  sb_num :: int      \<comment> \<open>unsigned short\<close>
  sb_op :: int       \<comment> \<open>short\<close>
  sb_flg :: int      \<comment> \<open>short\<close>

text \<open>The configurable limits of \<^verbatim>\<open>Space.spc\<close>.\<close>

record sem_conf =
  SEMMNI :: int
  SEMMNS :: int
  SEMMSL :: int
  SEMVMX :: int

text \<open>
  \<open>sem_wakeups\<close> lists the \<open>wakeup\<close> calls: set,
  semaphore, and whether \<open>semzcnt\<close> (or \<open>semncnt\<close>) was the event.
\<close>

record sem_state = heap_state +
  semids :: "semid_ds list option"
  sem_total :: int
  p_semu :: "nat \<Rightarrow> sem_undo list"
  sem_wakeups :: "(nat \<times> nat \<times> bool) list"

abbreviation (input) SEM_UNDO :: int where "SEM_UNDO \<equiv> 4096"

definition IN_RANGE :: "int \<Rightarrow> int \<Rightarrow> int \<Rightarrow> bool" where
  "IN_RANGE mn value mx = ((value - mn) mod 4294967296 \<le> (mx - mn) mod 4294967296)"

definition ds_at :: "'a sem_state_scheme \<Rightarrow> nat \<Rightarrow> semid_ds" where
  "ds_at s sid = the (semids s) ! sid"

definition upd_ds :: "(semid_ds \<Rightarrow> semid_ds) \<Rightarrow> nat \<Rightarrow> 'a sem_state_scheme \<Rightarrow> 'a sem_state_scheme" where
  "upd_ds f sid s = s\<lparr>semids := map_option (\<lambda>ds. ds[sid := f (ds ! sid)]) (semids s)\<rparr>"

definition sem_at :: "'a sem_state_scheme \<Rightarrow> nat \<Rightarrow> nat \<Rightarrow> sem" where
  "sem_at s sid n = sem_base (ds_at s sid) ! n"

definition upd_sem :: "(sem \<Rightarrow> sem) \<Rightarrow> nat \<Rightarrow> nat \<Rightarrow> 'a sem_state_scheme \<Rightarrow> 'a sem_state_scheme" where
  "upd_sem f sid n s = upd_ds (\<lambda>d. d\<lparr>sem_base := (sem_base d)[n := f (sem_base d ! n)]\<rparr>) sid s"

definition sem_wakeup :: "nat \<Rightarrow> nat \<Rightarrow> bool \<Rightarrow> 'a sem_state_scheme \<Rightarrow> 'a sem_state_scheme" where
  "sem_wakeup sid n zero s = s\<lparr>sem_wakeups := (sid, n, zero) # sem_wakeups s\<rparr>"

section \<open>Adjustments\<close>

definition vClearAdj :: "int \<Rightarrow> int \<Rightarrow> 'a sem_state_scheme \<Rightarrow> 'a sem_state_scheme" where
  "vClearAdj sid num s =
     s\<lparr>p_semu := (\<lambda>p. map (\<lambda>u. if un_num u = num \<and> un_id u = sid then u\<lparr>un_aoe := 0\<rparr> else u) (p_semu s p))\<rparr>"

fun find_adj :: "int \<Rightarrow> int \<Rightarrow> sem_undo list \<Rightarrow> nat option" where
  "find_adj sid num [] = None"
| "find_adj sid num (u # us) =
     (if un_num u = num \<and> un_id u = sid then Some 0 else map_option Suc (find_adj sid num us))"

text \<open>
  The new entry's \<open>un_aoe\<close> is not set but subtracted from, so it starts from what the memory
  held.
\<close>

definition iSubAdj ::
  "sem_conf \<Rightarrow> nat \<Rightarrow> int \<Rightarrow> int \<Rightarrow> int \<Rightarrow> 'a sem_state_scheme \<Rightarrow> int \<times> 'a sem_state_scheme" where
  "iSubAdj conf self sid num v s =
     (case find_adj sid num (p_semu s self) of
        Some i \<Rightarrow>
          let newAdjust = un_aoe (p_semu s self ! i) - v in
          if \<not> IN_RANGE (- SEMVMX conf) newAdjust (SEMVMX conf) then (-1, s\<lparr>u_error := ERANGE\<rparr>)
          else (0, s\<lparr>p_semu := (p_semu s)(self :=
                  (p_semu s self)[i := (p_semu s self ! i)\<lparr>un_aoe := wrap16 newAdjust\<rparr>])\<rparr>)
      | None \<Rightarrow>
          (case kalloc s of
             (None, s1) \<Rightarrow> (-1, s1\<lparr>u_error := ENOSPC\<rparr>)
           | (Some junk, s1) \<Rightarrow>
               (0, s1\<lparr>p_semu := (p_semu s1)(self :=
                  p_semu s1 self @ [\<lparr>un_aoe = wrap16 (junk - v), un_num = wrap16 num, un_id = sid\<rparr>])\<rparr>)))"

text \<open>
  At exit the adjustments of process \<open>pp\<close> are added and its list is freed; \<open>self\<close> is the pid that
  is recorded.
\<close>

definition semAllAdjust :: "int \<Rightarrow> int \<Rightarrow> nat \<Rightarrow> 'a sem_state_scheme \<Rightarrow> 'a sem_state_scheme" where
  "semAllAdjust now pid pp s =
     (fold (\<lambda>u s. upd_ds (\<lambda>d. d\<lparr>sem_ctime := now\<rparr>) (nat (un_id u))
        (upd_sem (\<lambda>m. m\<lparr>semval := uwrap16 (semval m + un_aoe u), sempid := wrap16 pid\<rparr>)
           (nat (un_id u)) (nat (un_num u)) s))
      (p_semu s pp) s)\<lparr>p_semu := (p_semu s)(pp := [])\<rparr>"

section \<open>semget\<close>

definition empty_set :: semid_ds where
  "empty_set =
     \<lparr>sem_perm = \<lparr>ip_uid = 0, ip_gid = 0, ip_cuid = 0, ip_cgid = 0, ip_mode = 0, ip_seq = 0, ip_key = 0\<rparr>,
      sem_base = [], sem_nsems = 0, sem_otime = 0, sem_ctime = 0\<rparr>"

definition seminit :: "sem_conf \<Rightarrow> 'a sem_state_scheme \<Rightarrow> int \<times> 'a sem_state_scheme" where
  "seminit conf s =
     (case kalloc s of
        (None, s1) \<Rightarrow> (-1, s1)
      | (Some _, s1) \<Rightarrow> (0, s1\<lparr>semids := Some (replicate (nat (SEMMNI conf)) empty_set)\<rparr>))"

definition allocated :: "semid_ds \<Rightarrow> bool" where
  "allocated d = (ip_mode (sem_perm d) AND IPC_ALLOC \<noteq> 0)"

text \<open>
  The search through all sets: the set with the key, if any, and the free set that was changed
  longest ago (with its time) among those passed.
\<close>

fun sem_scan :: "int \<Rightarrow> nat \<Rightarrow> semid_ds list \<Rightarrow> (nat \<times> int) option \<Rightarrow> nat option \<times> (nat \<times> int) option" where
  "sem_scan skey i [] free = (None, free)"
| "sem_scan skey i (d # ds) free =
     (if \<not> allocated d then
        sem_scan skey (i + 1) ds
          (case free of
             None \<Rightarrow> Some (i, sem_ctime d)
           | Some (j, t) \<Rightarrow> if t > sem_ctime d then Some (i, sem_ctime d) else free)
      else if skey = IPC_PRIVATE \<or> skey \<noteq> ip_key (sem_perm d) then sem_scan skey (i + 1) ds free
      else (Some i, free))"

definition zero_sem :: sem where
  "zero_sem = \<lparr>semval = 0, sempid = 0, semncnt = 0, semzcnt = 0\<rparr>"

definition usemget_found ::
  "nat \<Rightarrow> int \<Rightarrow> int \<Rightarrow> 'a sem_state_scheme \<Rightarrow> int option \<times> 'a sem_state_scheme" where
  "usemget_found i nsems semflg s =
     (let d = ds_at s i;
          s1 = (if semflg AND (IPC_CREAT OR IPC_EXCL) = IPC_CREAT OR IPC_EXCL
                then s\<lparr>u_error := EEXIST\<rparr>
                else case ipc_lack_perm (sem_perm d) semflg s of
                       (True, s') \<Rightarrow> s'
                     | (False, s') \<Rightarrow> if sem_nsems d < nsems then s'\<lparr>u_error := EINVAL\<rparr> else s')
      in if u_error s1 \<noteq> E_NONE then (Some (-1), s1) else (Some (int i), s1))"

definition usemget_create ::
  "sem_conf \<Rightarrow> int \<Rightarrow> int \<Rightarrow> int \<Rightarrow> int \<Rightarrow> (nat \<times> int) option \<Rightarrow> 'a sem_state_scheme
     \<Rightarrow> int option \<times> 'a sem_state_scheme" where
  "usemget_create conf now skey nsems semflg free s =
     (if nsems < 1 then (None, s\<lparr>u_error := EINVAL\<rparr>)
      else if sem_total s + nsems > SEMMNS conf then (None, s\<lparr>u_error := ENOSPC\<rparr>)
      else if semflg AND IPC_CREAT = 0 then (None, s\<lparr>u_error := ENOENT\<rparr>)
      else case free of
             None \<Rightarrow> (None, s\<lparr>u_error := ENOSPC\<rparr>)
           | Some (i, _) \<Rightarrow>
               (case kalloc s of
                  (None, s1) \<Rightarrow> (None, s1\<lparr>u_error := ENOSPC\<rparr>)
                | (Some _, s1) \<Rightarrow>
                    (Some (int i),
                     upd_ds (\<lambda>d. d\<lparr>sem_perm := (ipc_perm_init (sem_perm d) semflg s1)
                                     \<lparr>ip_key := skey, ip_seq := int i\<rparr>,
                                   sem_base := replicate (nat nsems) zero_sem,
                                   sem_nsems := uwrap16 nsems, sem_otime := 0, sem_ctime := now\<rparr>) i
                       (s1\<lparr>sem_total := sem_total s1 + nsems\<rparr>))))"

definition usemget ::
  "sem_conf \<Rightarrow> int \<Rightarrow> int \<Rightarrow> int \<Rightarrow> int \<Rightarrow> 'a sem_state_scheme \<Rightarrow> int option \<times> 'a sem_state_scheme" where
  "usemget conf now skey nsems semflg s =
     (if \<not> IN_RANGE 0 nsems (SEMMSL conf - 1) then (Some (-1), s\<lparr>u_error := EINVAL\<rparr>)
      else
        case (if semids s = None then seminit conf s else (0, s)) of
          (r, s1) \<Rightarrow>
            if r \<noteq> 0 then (None, s1\<lparr>u_error := ENOSPC\<rparr>)
            else
              case sem_scan skey 0 (the (semids s1)) None of
                (Some i, free) \<Rightarrow> usemget_found i nsems semflg s1
              | (None, free) \<Rightarrow> usemget_create conf now skey nsems semflg free s1)"

section \<open>semctl\<close>

text \<open>
  The argument's uses: a value, the three fields of a user's \<open>semid_ds\<close> that are read, or an array.
  A user word that cannot be read or written is \<open>None\<close>; a fault sets \<open>EFAULT\<close>, and \<open>fault\<close> is
  what \<open>getusd\<close> then returns.
\<close>

record semun =
  sv_val :: int
  sv_uid :: "int option"
  sv_gid :: "int option"
  sv_mode :: "int option"
  sv_array :: "int option list"
  fault :: int

datatype sem_out = NoOut | ArrayOut "int list" | DsOut semid_ds

definition getusd :: "semun \<Rightarrow> int option \<Rightarrow> 'a sem_state_scheme \<Rightarrow> int \<times> 'a sem_state_scheme" where
  "getusd arg w s = (case w of Some v \<Rightarrow> (v, s) | None \<Rightarrow> (fault arg, s\<lparr>u_error := EFAULT\<rparr>))"

definition user_word :: "semun \<Rightarrow> nat \<Rightarrow> int option" where
  "user_word arg i = (if i < length (sv_array arg) then sv_array arg ! i else None)"

fun getall_loop :: "semun \<Rightarrow> nat \<Rightarrow> sem list \<Rightarrow> 'a sem_state_scheme \<Rightarrow> int list \<times> 'a sem_state_scheme" where
  "getall_loop arg i [] s = ([], s)"
| "getall_loop arg i (m # ms) s =
     (let s1 = (if user_word arg i = None then s\<lparr>u_error := EFAULT\<rparr> else s) in
      if u_error s1 \<noteq> E_NONE then (if user_word arg i = None then [] else [semval m], s1)
      else case getall_loop arg (i + 1) ms s1 of (vs, s2) \<Rightarrow> (semval m # vs, s2))"

fun setall_loop ::
  "sem_conf \<Rightarrow> semun \<Rightarrow> nat \<Rightarrow> nat \<Rightarrow> nat \<Rightarrow> 'a sem_state_scheme \<Rightarrow> bool \<times> 'a sem_state_scheme" where
  "setall_loop conf arg sid i 0 s = (True, s)"
| "setall_loop conf arg sid i (Suc n) s =
     (case getusd arg (user_word arg i) s of
        (val, s1) \<Rightarrow>
          if u_error s1 \<noteq> E_NONE then (False, s1)
          else if \<not> IN_RANGE 0 val (SEMVMX conf) then (False, s1\<lparr>u_error := ERANGE\<rparr>)
          else setall_loop conf arg sid (i + 1) n
                 (vClearAdj (int sid) (int i) (upd_sem (\<lambda>m. m\<lparr>semval := uwrap16 val\<rparr>) sid i s1)))"

fun wake_all :: "nat \<Rightarrow> nat \<Rightarrow> sem list \<Rightarrow> 'a sem_state_scheme \<Rightarrow> 'a sem_state_scheme" where
  "wake_all sid i [] s = s"
| "wake_all sid i (m # ms) s =
     (let s1 = (if semncnt m \<noteq> 0 then sem_wakeup sid i False s else s);
          s2 = (if semzcnt m \<noteq> 0 then sem_wakeup sid i True s1 else s1)
      in wake_all sid (i + 1) ms s2)"

abbreviation (input) IPC_RMID :: int where "IPC_RMID \<equiv> 0"
abbreviation (input) IPC_SET :: int where "IPC_SET \<equiv> 1"
abbreviation (input) IPC_STAT :: int where "IPC_STAT \<equiv> 2"
abbreviation (input) GETNCNT :: int where "GETNCNT \<equiv> 3"
abbreviation (input) GETPID :: int where "GETPID \<equiv> 4"
abbreviation (input) GETVAL :: int where "GETVAL \<equiv> 5"
abbreviation (input) GETALL :: int where "GETALL \<equiv> 6"
abbreviation (input) GETZCNT :: int where "GETZCNT \<equiv> 7"
abbreviation (input) SETVAL :: int where "SETVAL \<equiv> 8"
abbreviation (input) SETALL :: int where "SETALL \<equiv> 9"

text \<open>A command that reads one field of the semaphore.\<close>

definition read_sem ::
  "(sem \<Rightarrow> int) \<Rightarrow> nat \<Rightarrow> nat \<Rightarrow> 'a sem_state_scheme \<Rightarrow> int option \<times> sem_out \<times> 'a sem_state_scheme" where
  "read_sem f sid n s =
     (case ipc_lack_perm (sem_perm (ds_at s sid)) IRUGO s of
        (True, s1) \<Rightarrow> (None, NoOut, s1)
      | (False, s1) \<Rightarrow> (Some (f (sem_at s1 sid n)), NoOut, s1))"

definition sem_setval ::
  "sem_conf \<Rightarrow> int \<Rightarrow> nat \<Rightarrow> nat \<Rightarrow> int \<Rightarrow> 'a sem_state_scheme \<Rightarrow> int option \<times> sem_out \<times> 'a sem_state_scheme" where
  "sem_setval conf now sid n v s =
     (case ipc_lack_perm (sem_perm (ds_at s sid)) IWUGO s of
        (True, s1) \<Rightarrow> (None, NoOut, s1)
      | (False, s1) \<Rightarrow>
          if \<not> IN_RANGE 0 v (SEMVMX conf) then (None, NoOut, s1\<lparr>u_error := ERANGE\<rparr>)
          else
            let s2 = upd_sem (\<lambda>m. m\<lparr>semval := uwrap16 v\<rparr>) sid n s1;
                s3 = (if semval (sem_at s2 sid n) \<noteq> 0
                      then (if semncnt (sem_at s2 sid n) \<noteq> 0 then sem_wakeup sid n False s2 else s2)
                      else (if semzcnt (sem_at s2 sid n) \<noteq> 0 then sem_wakeup sid n True s2 else s2))
            in (Some 0, NoOut, vClearAdj (int sid) (int n) (upd_ds (\<lambda>d. d\<lparr>sem_ctime := now\<rparr>) sid s3)))"

definition sem_setall ::
  "sem_conf \<Rightarrow> int \<Rightarrow> nat \<Rightarrow> semun \<Rightarrow> 'a sem_state_scheme \<Rightarrow> int option \<times> sem_out \<times> 'a sem_state_scheme" where
  "sem_setall conf now sid arg s =
     (case ipc_lack_perm (sem_perm (ds_at s sid)) IWRITE s of
        (True, s1) \<Rightarrow> (None, NoOut, s1)
      | (False, s1) \<Rightarrow>
          (case setall_loop conf arg sid 0 (nat (sem_nsems (ds_at s1 sid))) s1 of
             (False, s2) \<Rightarrow> (None, NoOut, s2)
           | (True, s2) \<Rightarrow> (Some 0, NoOut, upd_ds (\<lambda>d. d\<lparr>sem_ctime := now\<rparr>) sid s2)))"

definition sem_ipc_set ::
  "int \<Rightarrow> nat \<Rightarrow> semun \<Rightarrow> 'a sem_state_scheme \<Rightarrow> int option \<times> sem_out \<times> 'a sem_state_scheme" where
  "sem_ipc_set now sid arg s =
     (case ipc_lack_perm (sem_perm (ds_at s sid)) IREAD s of
        (True, s1) \<Rightarrow> (None, NoOut, s1)
      | (False, s1) \<Rightarrow>
          (case getusd arg (sv_uid arg) s1 of (u, s2) \<Rightarrow>
           case getusd arg (sv_gid arg) s2 of (g, s3) \<Rightarrow>
           case getusd arg (sv_mode arg) s3 of (m, s4) \<Rightarrow>
             (Some 0, NoOut,
              upd_ds (\<lambda>d. d\<lparr>sem_perm := (sem_perm d)\<lparr>ip_uid := u, ip_gid := g,
                                ip_mode := (m AND IRWXUGO) OR IPC_ALLOC\<rparr>,
                            sem_ctime := now\<rparr>) sid s4)))"

definition sem_rmid :: "nat \<Rightarrow> 'a sem_state_scheme \<Rightarrow> int option \<times> sem_out \<times> 'a sem_state_scheme" where
  "sem_rmid sid s =
     (case ipc_cred_match (sem_perm (ds_at s sid)) s of
        (lvl, s1) \<Rightarrow>
          if lvl \<noteq> CRED_OWNER then (None, NoOut, s1\<lparr>u_error := EPERM\<rparr>)
          else
            let s2 = wake_all sid 0 (take (nat (sem_nsems (ds_at s1 sid))) (sem_base (ds_at s1 sid))) s1
            in (Some 0, NoOut,
                upd_ds (\<lambda>d. d\<lparr>sem_perm := (sem_perm d)\<lparr>ip_mode := 0\<rparr>\<rparr>) sid
                  (s2\<lparr>sem_total := sem_total s2 - sem_nsems (ds_at s2 sid)\<rparr>)))"

definition usemctl ::
  "sem_conf \<Rightarrow> int \<Rightarrow> int \<Rightarrow> int \<Rightarrow> int \<Rightarrow> semun \<Rightarrow> 'a sem_state_scheme
     \<Rightarrow> int option \<times> sem_out \<times> 'a sem_state_scheme" where
  "usemctl conf now semid semnum cmd arg s =
     (if \<not> IN_RANGE 0 semnum (SEMMSL conf - 1) then (Some (-1), NoOut, s\<lparr>u_error := EINVAL\<rparr>)
      else if semids s = None then (None, NoOut, s\<lparr>u_error := EINVAL\<rparr>)
      else if \<not> IN_RANGE 0 semid (SEMMNI conf - 1) then (None, NoOut, s\<lparr>u_error := EINVAL\<rparr>)
      else
        let sid = nat semid; n = nat semnum in
        case (if allocated (ds_at s sid) then (True, s) else if cmd \<noteq> IPC_STAT then (False, s) else super s) of
          (False, s1) \<Rightarrow> (None, NoOut, s1\<lparr>u_error := EINVAL\<rparr>)
        | (True, s1) \<Rightarrow>
            if semnum \<ge> sem_nsems (ds_at s1 sid) then (None, NoOut, s1\<lparr>u_error := EFBIG\<rparr>)
            else if cmd = GETVAL then read_sem semval sid n s1
            else if cmd = SETVAL then sem_setval conf now sid n (sv_val arg) s1
            else if cmd = GETPID then read_sem sempid sid n s1
            else if cmd = GETNCNT then read_sem semncnt sid n s1
            else if cmd = GETZCNT then read_sem semzcnt sid n s1
            else if cmd = GETALL then
              (case ipc_lack_perm (sem_perm (ds_at s1 sid)) IRUGO s1 of
                 (True, s2) \<Rightarrow> (None, NoOut, s2)
               | (False, s2) \<Rightarrow>
                   (case getall_loop arg 0 (take (nat (sem_nsems (ds_at s2 sid))) (sem_base (ds_at s2 sid))) s2 of
                      (vs, s3) \<Rightarrow> (if u_error s3 \<noteq> E_NONE then None else Some 0, ArrayOut vs, s3)))
            else if cmd = SETALL then sem_setall conf now sid arg s1
            else if cmd = IPC_STAT then
              (case ipc_lack_perm (sem_perm (ds_at s1 sid)) IRUGO s1 of
                 (True, s2) \<Rightarrow> (None, NoOut, s2)
               | (False, s2) \<Rightarrow> (Some 0, DsOut (ds_at s2 sid), s2))
            else if cmd = IPC_SET then sem_ipc_set now sid arg s1
            else if cmd = IPC_RMID then sem_rmid sid s1
            else (None, NoOut, s1\<lparr>u_error := EINVAL\<rparr>))"

section \<open>semop\<close>

text \<open>
  \<open>semundo\<close> is to undo the first operations of the array. Its semaphore pointer starts at the
  first semaphore of the set and advances with the operations, whatever their \<open>sem_num\<close>.
\<close>

fun semundo ::
  "sem_conf \<Rightarrow> nat \<Rightarrow> nat \<Rightarrow> nat \<Rightarrow> sembuf list \<Rightarrow> 'a sem_state_scheme \<Rightarrow> 'a sem_state_scheme" where
  "semundo conf self sid i [] s = s"
| "semundo conf self sid i (b # bs) s =
     (let s1 = upd_sem (\<lambda>m. m\<lparr>semval := uwrap16 (semval m - sb_op b)\<rparr>) sid i s;
          s2 = (if sb_flg b AND SEM_UNDO \<noteq> 0
                then snd (iSubAdj conf self (int sid) (sb_num b) (wrap16 (- sb_op b)) s1) else s1)
      in semundo conf self sid (i + 1) bs s2)"

datatype 'a pass_result =
    PassDone int 'a           \<comment> \<open>all operations done; how many changed a value\<close>
  | PassFailed 'a
  | PassWait nat bool 'a      \<comment> \<open>wait on \<open>semncnt\<close> or \<open>semzcnt\<close> (True) of this semaphore\<close>

text \<open>
  One pass of \<open>usemop\<close> over the operations, \<open>pre\<close> being those done so far.
\<close>

definition sem_decrement ::
  "sem_conf \<Rightarrow> nat \<Rightarrow> nat \<Rightarrow> sembuf list \<Rightarrow> sembuf \<Rightarrow> 'a sem_state_scheme \<Rightarrow> 'a sem_state_scheme pass_result" where
  "sem_decrement conf self sid pre b s =
     (let n = nat (sb_num b) in
      case ipc_lack_perm (sem_perm (ds_at s sid)) IWRITE s of
        (True, s1) \<Rightarrow> PassFailed s1
      | (False, s1) \<Rightarrow>
          if semval (sem_at s1 sid n) \<ge> - sb_op b then
            let s2 = upd_sem (\<lambda>m. m\<lparr>semval := uwrap16 (semval m + sb_op b)\<rparr>) sid n s1;
                s3 = (if semval (sem_at s2 sid n) = 0 \<and> semzcnt (sem_at s2 sid n) \<noteq> 0
                      then sem_wakeup sid n True s2 else s2);
                r = (if sb_flg b AND SEM_UNDO \<noteq> 0 then iSubAdj conf self (int sid) (sb_num b) (sb_op b) s3
                     else (0, s3))
            in if fst r \<noteq> 0 then PassFailed (semundo conf self sid 0 pre (snd r)) else PassDone 1 (snd r)
          else
            let s2 = semundo conf self sid 0 pre s1 in
            if sb_flg b AND IPC_NOWAIT \<noteq> 0
            then PassFailed (if u_error s2 = E_NONE then s2\<lparr>u_error := EAGAIN\<rparr> else s2)
            else PassWait n False s2)"

definition sem_test_zero ::
  "sem_conf \<Rightarrow> nat \<Rightarrow> nat \<Rightarrow> sembuf list \<Rightarrow> sembuf \<Rightarrow> 'a sem_state_scheme \<Rightarrow> 'a sem_state_scheme pass_result" where
  "sem_test_zero conf self sid pre b s =
     (let n = nat (sb_num b) in
      case ipc_lack_perm (sem_perm (ds_at s sid)) IREAD s of
        (True, s1) \<Rightarrow>
          (case ipc_lack_perm (sem_perm (ds_at s1 sid)) IWRITE s1 of
             (True, s2) \<Rightarrow> PassFailed (semundo conf self sid 0 pre s2)
           | (False, s2) \<Rightarrow> PassFailed s2)
      | (False, s1) \<Rightarrow>
          if semval (sem_at s1 sid n) = 0 then PassDone 0 s1
          else
            let s2 = semundo conf self sid 0 pre s1 in
            if sb_flg b AND IPC_NOWAIT \<noteq> 0
            then PassFailed (if u_error s2 = E_NONE then s2\<lparr>u_error := EAGAIN\<rparr> else s2)
            else PassWait n True s2)"

definition sem_increment ::
  "sem_conf \<Rightarrow> nat \<Rightarrow> nat \<Rightarrow> sembuf list \<Rightarrow> sembuf \<Rightarrow> 'a sem_state_scheme \<Rightarrow> 'a sem_state_scheme pass_result" where
  "sem_increment conf self sid pre b s =
     (let n = nat (sb_num b) in
      case ipc_lack_perm (sem_perm (ds_at s sid)) IWRITE s of
        (True, s1) \<Rightarrow> PassFailed s1
      | (False, s1) \<Rightarrow>
          let r = (if sb_flg b AND SEM_UNDO \<noteq> 0 then iSubAdj conf self (int sid) (sb_num b) (sb_op b) s1
                   else (0, s1));
              s2 = snd r
          in if fst r \<noteq> 0 then PassFailed (semundo conf self sid 0 pre s2)
             else if semval (sem_at s2 sid n) > SEMVMX conf - sb_op b then
               let s3 = semundo conf self sid 0 pre s2;
                   s4 = (if sb_flg b AND SEM_UNDO \<noteq> 0
                         then snd (iSubAdj conf self (int sid) (sb_num b) (wrap16 (- sb_op b)) s3) else s3)
               in PassFailed (s4\<lparr>u_error := ERANGE\<rparr>)
             else
               let s3 = upd_sem (\<lambda>m. m\<lparr>semval := uwrap16 (semval m + sb_op b)\<rparr>) sid n s2
               in PassDone 1 (if semncnt (sem_at s3 sid n) \<noteq> 0 then sem_wakeup sid n False s3 else s3))"

fun sem_pass ::
  "sem_conf \<Rightarrow> nat \<Rightarrow> nat \<Rightarrow> sembuf list \<Rightarrow> sembuf list \<Rightarrow> int \<Rightarrow> 'a sem_state_scheme
     \<Rightarrow> 'a sem_state_scheme pass_result" where
  "sem_pass conf self sid pre [] change s = PassDone change s"
| "sem_pass conf self sid pre (b # bs) change s =
     (if \<not> IN_RANGE (- SEMVMX conf) (sb_op b) (SEMVMX conf) then
        PassFailed ((semundo conf self sid 0 pre s)\<lparr>u_error := E2BIG\<rparr>)
      else if u_error s \<noteq> E_NONE \<or> sb_num b \<ge> sem_nsems (ds_at s sid) then
        (let s1 = semundo conf self sid 0 pre s
         in PassFailed (if u_error s1 = E_NONE then s1\<lparr>u_error := EFBIG\<rparr> else s1))
      else
        (case (if sb_op b < 0 then sem_decrement conf self sid pre b s
               else if sb_op b = 0 then sem_test_zero conf self sid pre b s
               else sem_increment conf self sid pre b s) of
           PassDone d s1 \<Rightarrow> sem_pass conf self sid (pre @ [b]) bs (wrap16 (change + d)) s1
         | r \<Rightarrow> r))"

datatype 'a sem_result =
    SemReturn "int option" 'a
  | SemAsleep 'a              \<comment> \<open>still asleep when the list of wake-ups ends\<close>

definition bump_cnt :: "nat \<Rightarrow> nat \<Rightarrow> bool \<Rightarrow> int \<Rightarrow> 'a sem_state_scheme \<Rightarrow> 'a sem_state_scheme" where
  "bump_cnt sid n zero d s =
     upd_sem (\<lambda>m. if zero then m\<lparr>semzcnt := uwrap16 (semzcnt m + d)\<rparr>
                  else m\<lparr>semncnt := uwrap16 (semncnt m + d)\<rparr>) sid n s"

text \<open>
  \<open>semwait\<close> after the sleep: \<open>s\<close> is the state at the wake-up, \<open>signalled\<close> how it ended.
\<close>

definition semwait_woken :: "nat \<Rightarrow> nat \<Rightarrow> bool \<Rightarrow> bool \<Rightarrow> 'a sem_state_scheme \<Rightarrow> int \<times> 'a sem_state_scheme" where
  "semwait_woken sid n zero signalled s =
     (if \<not> allocated (ds_at s sid) then (-1, s\<lparr>u_error := EIDRM\<rparr>)
      else
        let s1 = bump_cnt sid n zero (-1) s in
        if signalled then (-1, s1\<lparr>u_error := EINTR\<rparr>) else (0, s1))"

definition record_pid :: "int \<Rightarrow> nat \<Rightarrow> sembuf list \<Rightarrow> 'a sem_state_scheme \<Rightarrow> 'a sem_state_scheme" where
  "record_pid pid sid bs s = fold (\<lambda>b. upd_sem (\<lambda>m. m\<lparr>sempid := wrap16 pid\<rparr>) sid (nat (sb_num b))) bs s"

text \<open>
  The retry loop of \<open>usemop\<close>: each sleep consumes an entry of \<open>env\<close>, what the others did to the
  shared state meanwhile and whether a signal ended the sleep.
\<close>

fun semop_retry ::
  "sem_conf \<Rightarrow> int \<Rightarrow> nat \<Rightarrow> int \<Rightarrow> nat \<Rightarrow> sembuf list
     \<Rightarrow> (('a sem_state_scheme \<Rightarrow> 'a sem_state_scheme) \<times> bool) list \<Rightarrow> 'a sem_state_scheme
     \<Rightarrow> 'a sem_state_scheme sem_result" where
  "semop_retry conf now self pid sid ops env s =
     (case sem_pass conf self sid [] ops 0 s of
        PassFailed s1 \<Rightarrow> SemReturn None s1
      | PassDone change s1 \<Rightarrow>
          let s2 = upd_ds (\<lambda>d. d\<lparr>sem_otime := now, sem_ctime := if change \<noteq> 0 then now else sem_ctime d\<rparr>) sid s1
          in SemReturn (Some 0) (record_pid pid sid ops s2)
      | PassWait n zero s1 \<Rightarrow>
          let s2 = bump_cnt sid n zero 1 s1 in
          (case env of
             [] \<Rightarrow> SemAsleep s2
           | (others, signalled) # env' \<Rightarrow>
               (case semwait_woken sid n zero signalled (others s2) of
                  (r, s3) \<Rightarrow> if r < 0 then SemReturn None s3
                             else semop_retry conf now self pid sid ops env' s3)))"

declare semop_retry.simps [simp del]

text \<open>\<open>accessible\<close> is the result of \<open>useracc\<close> on the operations.\<close>

definition usemop ::
  "sem_conf \<Rightarrow> int \<Rightarrow> nat \<Rightarrow> int \<Rightarrow> int \<Rightarrow> bool \<Rightarrow> sembuf list
     \<Rightarrow> (('a sem_state_scheme \<Rightarrow> 'a sem_state_scheme) \<times> bool) list \<Rightarrow> 'a sem_state_scheme
     \<Rightarrow> 'a sem_state_scheme sem_result" where
  "usemop conf now self pid sem_id accessible ops env s =
     (if semids s = None then SemReturn None (s\<lparr>u_error := EINVAL\<rparr>)
      else if \<not> IN_RANGE 0 sem_id (SEMMNI conf - 1) then SemReturn None (s\<lparr>u_error := EINVAL\<rparr>)
      else if \<not> accessible \<or> ops = [] then SemReturn None (s\<lparr>u_error := EFAULT\<rparr>)
      else if \<not> allocated (ds_at s (nat sem_id)) then SemReturn (Some (-1)) (s\<lparr>u_error := EINVAL\<rparr>)
      else semop_retry conf now self pid (nat sem_id) ops env s)"

end
