(* ===== verification/Id_Tables.thy ===== *)
theory Id_Tables
  imports Prelude
begin

text \<open>
  The search that \<open>semget\<close> and \<open>msgget\<close> make through the table of their identifiers: the entry
  in use that matches the key, and otherwise the free entry that was changed longest ago. Both
  models' searches are this one, so what it finds is proved once.
\<close>

fun ipc_scan ::
  "('a \<Rightarrow> bool) \<Rightarrow> ('a \<Rightarrow> bool) \<Rightarrow> ('a \<Rightarrow> int) \<Rightarrow> nat \<Rightarrow> 'a list \<Rightarrow> (nat \<times> int) option
     \<Rightarrow> nat option \<times> (nat \<times> int) option" where
  "ipc_scan alive match ctime k [] free = (None, free)"
| "ipc_scan alive match ctime k (d # ds) free =
     (if \<not> alive d then
        ipc_scan alive match ctime (k + 1) ds
          (case free of
             None \<Rightarrow> Some (k, ctime d)
           | Some (j, t) \<Rightarrow> if t > ctime d then Some (k, ctime d) else free)
      else if \<not> match d then ipc_scan alive match ctime (k + 1) ds free
      else (Some k, free))"

lemma ipc_scan_result:
  "ipc_scan alive match ctime k ds free = (f, fr) \<Longrightarrow>
     (case f of
        Some i \<Rightarrow> k \<le> i \<and> i < k + length ds \<and> alive (ds ! (i - k)) \<and>
                  match (ds ! (i - k))
      | None \<Rightarrow> (\<forall>d\<in>set ds. alive d \<longrightarrow> \<not> match d) \<and>
                (\<forall>d\<in>set ds. \<not> alive d \<longrightarrow> (\<exists>j t. fr = Some (j, t) \<and> t \<le> ctime d))) \<and>
     (\<forall>j t. fr = Some (j, t) \<longrightarrow>
        free = Some (j, t) \<or>
        k \<le> j \<and> j < k + length ds \<and> \<not> alive (ds ! (j - k)) \<and> t = ctime (ds ! (j - k))) \<and>
     (\<forall>j0 t0. free = Some (j0, t0) \<longrightarrow> (\<exists>j t. fr = Some (j, t) \<and> t \<le> t0))"
proof (induction ds arbitrary: k free)
  case (Cons d ds)
  consider (free) "\<not> alive d" | (other) "alive d" "\<not> match d"
    | (found) "alive d" "match d" by blast
  then show ?case
  proof cases
    case free
    define free' where "free' = (case free of None \<Rightarrow> Some (k, ctime d)
        | Some (j, t) \<Rightarrow> if t > ctime d then Some (k, ctime d) else free)"
    have r: "ipc_scan alive match ctime (k + 1) ds free' = (f, fr)"
      using Cons.prems free by (simp add: free'_def)
    have f': "\<exists>j t. free' = Some (j, t) \<and> t \<le> ctime d \<and>
        (free = Some (j, t) \<or> j = k \<and> t = ctime d) \<and> (\<forall>j0 t0. free = Some (j0, t0) \<longrightarrow> t \<le> t0)"
      by (auto simp: free'_def split: option.splits)
    then obtain j t where jt: "free' = Some (j, t)" "t \<le> ctime d"
        "free = Some (j, t) \<or> j = k \<and> t = ctime d" "\<And>j0 t0. free = Some (j0, t0) \<Longrightarrow> t \<le> t0" by blast
    note ih = Cons.IH [OF r]
    obtain j' t' where jt': "fr = Some (j', t')" "t' \<le> t" using ih jt(1) by blast
    have "free = Some (j', t') \<or> k \<le> j' \<and> j' < k + length (d # ds) \<and>
        \<not> alive ((d # ds) ! (j' - k)) \<and> t' = ctime ((d # ds) ! (j' - k))"
    proof -
      have "free' = Some (j', t') \<or> k + 1 \<le> j' \<and> j' < k + 1 + length ds \<and>
          \<not> alive (ds ! (j' - (k + 1))) \<and> t' = ctime (ds ! (j' - (k + 1)))"
        using ih jt'(1) by blast
      then show ?thesis
      proof
        assume "free' = Some (j', t')"
        then show ?thesis using jt(1,3) free by auto
      next
        assume a: "k + 1 \<le> j' \<and> j' < k + 1 + length ds \<and>
          \<not> alive (ds ! (j' - (k + 1))) \<and> t' = ctime (ds ! (j' - (k + 1)))"
        then have "j' - k = Suc (j' - (k + 1))" by (elim conjE) arith
        then show ?thesis using a by simp
      qed
    qed
    moreover have "\<exists>j t. fr = Some (j, t) \<and> t \<le> ctime d" using jt' jt(2) by force
    moreover have "case f of
        Some i \<Rightarrow> k \<le> i \<and> i < k + length (d # ds) \<and> alive ((d # ds) ! (i - k)) \<and>
                  match ((d # ds) ! (i - k))
      | None \<Rightarrow> (\<forall>d\<in>set ds. alive d \<longrightarrow> \<not> match d) \<and>
                (\<forall>d\<in>set ds. \<not> alive d \<longrightarrow> (\<exists>j t. fr = Some (j, t) \<and> t \<le> ctime d))"
      using ih by (auto split: option.splits simp: nth_Cons' Suc_diff_le)
    ultimately show ?thesis using free jt jt' by (auto split: option.splits)
  next
    case other
    then have "ipc_scan alive match ctime (k + 1) ds free = (f, fr)" using Cons.prems by simp
    note ih = Cons.IH [OF this]
    have sh: "(d # ds) ! (i - k) = ds ! (i - (k + 1))" if "k + 1 \<le> i" for i
    proof -
      have "i - k = Suc (i - (k + 1))" using that by arith
      then show ?thesis by simp
    qed
    show ?thesis using ih other sh by (auto split: option.splits)
  next
    case found
    then have "f = Some k" "fr = free" using Cons.prems by auto
    then show ?thesis using found by (cases free) auto
  qed
qed (auto split: option.splits)

end
