(* ===== verification/Semaphore_Laws.thy ===== *)
theory Semaphore_Laws
  imports Semaphores Id_Tables
begin

text \<open>
  What the semaphore calls keep and do: the accounting of the sets, the values after a sequence of
  operations, and the adjustments at exit.
\<close>

section \<open>The shape of the table\<close>

text \<open>
  The shape of a set is what \<open>semop\<close> never changes: permissions, number of semaphores, and the
  length of its array.
\<close>

type_synonym set_shape = "ipc_perm \<times> int \<times> nat"

definition shape_of :: "semid_ds \<Rightarrow> set_shape" where
  "shape_of d = (sem_perm d, sem_nsems d, length (sem_base d))"

definition shape :: "'a sem_state_scheme \<Rightarrow> set_shape list option" where
  "shape s = map_option (map shape_of) (semids s)"

definition shape_alloc :: "set_shape \<Rightarrow> bool" where
  "shape_alloc sh = (ip_mode (fst sh) AND IPC_ALLOC \<noteq> 0)"

definition shape_size :: "set_shape \<Rightarrow> int" where
  "shape_size sh = (if shape_alloc sh then fst (snd sh) else 0)"

definition shapes_ok :: "sem_conf \<Rightarrow> int \<Rightarrow> set_shape list \<Rightarrow> bool" where
  "shapes_ok conf tot shs \<longleftrightarrow>
     length shs = nat (SEMMNI conf) \<and>
     (\<forall>sh\<in>set shs. shape_alloc sh \<longrightarrow> 1 \<le> fst (snd sh) \<and> fst (snd sh) = int (snd (snd sh))) \<and>
     tot = sum_list (map shape_size shs) \<and> tot \<le> SEMMNS conf \<and>
     (\<forall>i j. i < j \<and> j < length shs \<and> shape_alloc (shs ! i) \<and> shape_alloc (shs ! j) \<and>
        ip_key (fst (shs ! i)) = ip_key (fst (shs ! j)) \<longrightarrow> ip_key (fst (shs ! i)) = IPC_PRIVATE)"

definition sem_inv :: "sem_conf \<Rightarrow> 'a sem_state_scheme \<Rightarrow> bool" where
  "sem_inv conf s \<longleftrightarrow> (case shape s of None \<Rightarrow> sem_total s = 0 | Some shs \<Rightarrow> shapes_ok conf (sem_total s) shs)"

definition conf_ok :: "sem_conf \<Rightarrow> bool" where
  "conf_ok conf \<longleftrightarrow>
     0 < SEMMNI conf \<and> SEMMNI conf \<le> 2147483647 \<and> 0 < SEMMSL conf \<and> SEMMSL conf \<le> 65536 \<and>
     0 < SEMVMX conf \<and> SEMVMX conf \<le> 65535 \<and> 0 \<le> SEMMNS conf \<and> SEMMNS conf \<le> 2147483647"

lemma sem_inv_cong: "shape s' = shape s \<Longrightarrow> sem_total s' = sem_total s \<Longrightarrow> sem_inv conf s' = sem_inv conf s"
  unfolding sem_inv_def by (erule ssubst)+ (rule refl)

lemma shape_of_alloc: "shape_alloc (shape_of d) = allocated d"
  by (simp add: shape_alloc_def shape_of_def allocated_def)

text \<open>\<open>quiet s s'\<close>: the table keeps its shape and the total.\<close>

definition quiet :: "'a sem_state_scheme \<Rightarrow> 'a sem_state_scheme \<Rightarrow> bool" where
  "quiet s s' \<longleftrightarrow> shape s' = shape s \<and> sem_total s' = sem_total s"

lemma quiet_refl [simp]: "quiet s s"
  by (simp add: quiet_def)

lemma quiet_trans: "quiet s t \<Longrightarrow> quiet t u \<Longrightarrow> quiet s u"
  by (simp add: quiet_def)

lemma quiet_inv: "quiet s s' \<Longrightarrow> sem_inv conf s \<Longrightarrow> sem_inv conf s'"
  unfolding quiet_def using sem_inv_cong by blast

lemma quiet_updates [simp]:
  "quiet s (s'\<lparr>u_error := e\<rparr>) = quiet s s'"
  "quiet s (s'\<lparr>p_semu := u\<rparr>) = quiet s s'"
  "quiet s (s'\<lparr>kallocs := k\<rparr>) = quiet s s'"
  "quiet s (s'\<lparr>sem_wakeups := w\<rparr>) = quiet s s'"
  by (simp_all add: quiet_def shape_def)

lemma upd_ds_shape:
  assumes "\<And>d. shape_of (f d) = shape_of d"
  shows "shape (upd_ds f sid s) = shape s"
proof (cases "semids s")
  case (Some ds)
  have "map shape_of (ds[sid := f (ds ! sid)]) = map shape_of ds"
    using assms by (cases "sid < length ds") (simp_all add: map_update list_update_same_conv list_update_beyond)
  then show ?thesis using Some by (simp add: shape_def upd_ds_def)
qed (simp add: shape_def upd_ds_def)

lemma quiet_upd_ds:
  "(\<And>d. shape_of (f d) = shape_of d) \<Longrightarrow> quiet s (upd_ds f sid s') = quiet s s'"
  by (simp add: quiet_def upd_ds_shape) (simp add: upd_ds_def)

lemma quiet_upd_sem [simp]: "quiet s (upd_sem f sid n s') = quiet s s'"
  unfolding upd_sem_def by (rule quiet_upd_ds) (simp add: shape_of_def)

lemma quiet_times [simp]:
  "quiet s (upd_ds (\<lambda>d. d\<lparr>sem_ctime := t\<rparr>) sid s') = quiet s s'"
  "quiet s (upd_ds (\<lambda>d. d\<lparr>sem_otime := t, sem_ctime := g d\<rparr>) sid s') = quiet s s'"
  by (rule quiet_upd_ds, simp add: shape_of_def)+

lemma quiet_wakeup [simp]: "quiet s (sem_wakeup sid n z s') = quiet s s'"
  by (simp add: sem_wakeup_def)

lemma quiet_bump [simp]: "quiet s (bump_cnt sid n z d s') = quiet s s'"
  by (simp add: bump_cnt_def)

lemma quiet_vClearAdj [simp]: "quiet s (vClearAdj a b s') = quiet s s'"
  by (simp add: vClearAdj_def)

lemma same_kernel_sem:
  "same_kernel s t \<Longrightarrow> semids t = semids s \<and> sem_total t = sem_total s \<and> p_semu t = p_semu s \<and>
     kallocs t = kallocs s \<and> sem_wakeups t = sem_wakeups s"
  unfolding same_kernel_def
  by (drule arg_cong [of _ _ "\<lambda>s. (semids s, sem_total s, p_semu s, kallocs s, sem_wakeups s)"]) simp

lemma quiet_same: "same_kernel s t \<Longrightarrow> quiet s t"
  using same_kernel_sem by (fastforce simp: quiet_def shape_def)

lemma quiet_lack: "ipc_lack_perm p m s = (b, t) \<Longrightarrow> quiet s t"
  using ipc_lack_perm_same [of s p m] by (simp add: quiet_same)

lemma quiet_kalloc: "kalloc s = (r, t) \<Longrightarrow> quiet s t"
  by (auto simp: kalloc_def split: list.splits option.splits)

lemma quiet_iSubAdj: "quiet s (snd (iSubAdj conf self sid n v s))"
  using quiet_kalloc [of s]
  by (auto simp: iSubAdj_def Let_def split: option.splits prod.splits)

lemma quiet_semundo: "quiet s (semundo conf self sid i bs s)"
proof (induction bs arbitrary: i s)
  case (Cons b bs)
  let ?s1 = "upd_sem (\<lambda>m. m\<lparr>semval := uwrap16 (semval m - sb_op b)\<rparr>) sid i s"
  have "quiet s ?s1" by simp
  moreover have "quiet ?s1 (snd (iSubAdj conf self (int sid) (sb_num b) (wrap16 (- sb_op b)) ?s1))"
    by (rule quiet_iSubAdj)
  ultimately have "quiet s (snd (iSubAdj conf self (int sid) (sb_num b) (wrap16 (- sb_op b)) ?s1))"
    by (rule quiet_trans)
  with \<open>quiet s ?s1\<close> show ?case
    using quiet_trans [OF _ Cons.IH] by (auto simp: Let_def)
qed simp

lemma quiet_semundoI: "quiet s t \<Longrightarrow> quiet s (semundo conf self sid i bs t)"
  by (rule quiet_trans [OF _ quiet_semundo])

lemma quiet_iSubAdjI: "quiet s t \<Longrightarrow> quiet s (snd (iSubAdj conf self sid n v t))"
  by (rule quiet_trans [OF _ quiet_iSubAdj])

definition pass_state :: "'a pass_result \<Rightarrow> 'a" where
  "pass_state r = (case r of PassDone _ s \<Rightarrow> s | PassFailed s \<Rightarrow> s | PassWait _ _ s \<Rightarrow> s)"

lemma pass_state_simps [simp]:
  "pass_state (PassDone c s) = s" "pass_state (PassFailed s) = s" "pass_state (PassWait n z s) = s"
  by (simp_all add: pass_state_def)

lemma quiet_decrement: "quiet s (pass_state (sem_decrement conf self sid pre b s))"
proof (cases "ipc_lack_perm (sem_perm (ds_at s sid)) IWRITE s")
  case (Pair r s1)
  have 1: "quiet s s1" using Pair by (rule quiet_lack)
  then show ?thesis
    by (auto simp: sem_decrement_def Let_def Pair split: bool.split
        intro!: quiet_semundoI quiet_iSubAdjI)
qed

lemma quiet_test_zero: "quiet s (pass_state (sem_test_zero conf self sid pre b s))"
proof (cases "ipc_lack_perm (sem_perm (ds_at s sid)) IREAD s")
  case (Pair r s1)
  have 1: "quiet s s1" using Pair by (rule quiet_lack)
  then show ?thesis
    by (auto simp: sem_test_zero_def Let_def Pair split: bool.split prod.split
        intro: quiet_semundoI dest: quiet_lack quiet_trans)
qed

lemma quiet_increment: "quiet s (pass_state (sem_increment conf self sid pre b s))"
proof (cases "ipc_lack_perm (sem_perm (ds_at s sid)) IWRITE s")
  case (Pair r s1)
  have 1: "quiet s s1" using Pair by (rule quiet_lack)
  then show ?thesis
    by (auto simp: sem_increment_def Let_def Pair split: bool.split
        intro!: quiet_semundoI quiet_iSubAdjI)
qed

lemma quiet_sem_pass: "quiet s (pass_state (sem_pass conf self sid pre bs c s))"
proof (induction bs arbitrary: pre c s)
  case (Cons b bs)
  let ?r = "if sb_op b < 0 then sem_decrement conf self sid pre b s
            else if sb_op b = 0 then sem_test_zero conf self sid pre b s
            else sem_increment conf self sid pre b s"
  have q: "quiet s (pass_state ?r)"
    using quiet_decrement quiet_test_zero quiet_increment by auto
  have u: "quiet s (semundo conf self sid 0 pre s)" by (rule quiet_semundo)
  show ?case
    using q u quiet_trans [OF q Cons.IH] by (cases ?r) (auto simp: Let_def)
qed simp

definition sem_result_all :: "('a \<Rightarrow> bool) \<Rightarrow> 'a sem_result \<Rightarrow> bool" where
  "sem_result_all P r = (case r of SemReturn v s \<Rightarrow> P s | SemAsleep s \<Rightarrow> P s)"

lemma sem_result_all_simps [simp]:
  "sem_result_all P (SemReturn v s) = P s" "sem_result_all P (SemAsleep s) = P s"
  by (simp_all add: sem_result_all_def)

lemma quiet_record_pid: "quiet s s' \<Longrightarrow> quiet s (record_pid pid sid bs s')"
  unfolding record_pid_def by (induction bs arbitrary: s') simp_all

lemma quiet_done:
  "quiet s s1 \<Longrightarrow> quiet s (record_pid pid sid ops (upd_ds (\<lambda>d. d\<lparr>sem_otime := now,
     sem_ctime := if c \<noteq> 0 then now else sem_ctime d\<rparr>) sid s1))"
  by (intro quiet_record_pid) (simp add: quiet_upd_ds shape_of_def)

lemma quiet_semwait_woken: "quiet s (snd (semwait_woken sid n z sg s))"
  by (simp add: semwait_woken_def Let_def)

lemma semop_retry_inv:
  assumes "sem_inv conf s" "rely (sem_inv conf) env"
  shows "sem_result_all (sem_inv conf) (semop_retry conf now self pid sid ops env s)"
  using assms
proof (induction env arbitrary: s)
  case Nil
  have "quiet s (pass_state (sem_pass conf self sid [] ops 0 s))" by (rule quiet_sem_pass)
  then show ?case
    using Nil.prems(1) by (cases "sem_pass conf self sid [] ops 0 s")
      (auto simp: semop_retry.simps Let_def intro: quiet_inv quiet_inv [OF quiet_done])
next
  case (Cons e env)
  have q: "quiet s (pass_state (sem_pass conf self sid [] ops 0 s))" by (rule quiet_sem_pass)
  show ?case
  proof (cases "sem_pass conf self sid [] ops 0 s")
    case (PassWait n zero s1)
    let ?s2 = "bump_cnt sid n zero 1 s1"
    have "sem_inv conf ?s2" using q PassWait Cons.prems(1) by (auto intro: quiet_inv)
    then have o: "sem_inv conf (fst e ?s2)" using Cons.prems(2) by simp
    obtain r s3 where w: "semwait_woken sid n zero (snd e) (fst e ?s2) = (r, s3)" by fastforce
    then have "quiet (fst e ?s2) s3" using quiet_semwait_woken by (metis snd_conv)
    then have "sem_inv conf s3" using o by (rule quiet_inv)
    then show ?thesis
      using Cons.IH Cons.prems(2) w
      by (simp add: semop_retry.simps [of _ _ _ _ _ _ "e # env"] PassWait Let_def split_beta)
  qed (use q Cons.prems(1) in \<open>auto simp: semop_retry.simps Let_def intro: quiet_inv quiet_inv [OF quiet_done]\<close>)
qed

section \<open>Creating and removing sets\<close>

lemma sem_scan_eq:
  "sem_scan skey k ds free =
     ipc_scan allocated (\<lambda>d. \<not> (skey = IPC_PRIVATE \<or> skey \<noteq> ip_key (sem_perm d))) sem_ctime k ds free"
  by (induction ds arbitrary: k free) simp_all

lemmas sem_scan_result = ipc_scan_result [where alive = allocated and ctime = sem_ctime
    and match = "\<lambda>d. \<not> (skey = IPC_PRIVATE \<or> skey \<noteq> ip_key (sem_perm d))" for skey, folded sem_scan_eq]

lemma sum_list_update_int:
  "i < length xs \<Longrightarrow> sum_list (xs[i := x]) = sum_list xs - xs ! i + (x :: int)"
  by (induction xs arbitrary: i) (auto split: nat.split simp: nth_Cons')

lemma alloc_mode: "((m AND 511) OR 32768) AND 32768 \<noteq> (0 :: int)"
  by (simp add: bit.conj_disj_distrib2 and.assoc)

lemma IN_RANGE_iff:
  assumes "0 \<le> mx - mn" "mx - mn < 4294967296" "- 2147483648 \<le> v - mn" "v - mn \<le> 4294967295"
    and "mx - mn < 2147483648"
  shows "IN_RANGE mn v mx \<longleftrightarrow> mn \<le> v \<and> v \<le> mx"
proof (cases "mn \<le> v")
  case True
  then show ?thesis using assms by (simp add: IN_RANGE_def)
next
  case False
  then have "(v - mn + 4294967296) mod 4294967296 = v - mn + 4294967296"
    using assms by (intro mod_pos_pos_trivial) simp_all
  then have "(v - mn) mod 4294967296 = v - mn + 4294967296" by simp
  then show ?thesis using False assms by (simp add: IN_RANGE_def)
qed

lemma shapes_ok_keys:
  "shapes_ok conf tot shs \<Longrightarrow> i < j \<Longrightarrow> j < length shs \<Longrightarrow> shape_alloc (shs ! i) \<Longrightarrow> shape_alloc (shs ! j) \<Longrightarrow>
     ip_key (fst (shs ! i)) = ip_key (fst (shs ! j)) \<Longrightarrow> ip_key (fst (shs ! i)) = IPC_PRIVATE"
  unfolding shapes_ok_def by blast

text \<open>A set is created in, or removed from, one place.\<close>

lemma shapes_ok_replace:
  assumes ok: "shapes_ok conf tot shs" and i: "i < length shs"
    and new: "shape_alloc sh \<Longrightarrow> 1 \<le> fst (snd sh) \<and> fst (snd sh) = int (snd (snd sh))"
    and tot: "tot' = tot - shape_size (shs ! i) + shape_size sh" "tot' \<le> SEMMNS conf"
    and key: "\<And>j. shape_alloc sh \<Longrightarrow> j < length shs \<Longrightarrow> j \<noteq> i \<Longrightarrow> shape_alloc (shs ! j) \<Longrightarrow>
       ip_key (fst sh) = ip_key (fst (shs ! j)) \<Longrightarrow> ip_key (fst sh) = IPC_PRIVATE"
  shows "shapes_ok conf tot' (shs[i := sh])"
  unfolding shapes_ok_def
proof (intro conjI allI impI ballI)
  show "length (shs[i := sh]) = nat (SEMMNI conf)" using ok by (simp add: shapes_ok_def)
next
  fix sh' assume "sh' \<in> set (shs[i := sh])" "shape_alloc sh'"
  then show "1 \<le> fst (snd sh')" "fst (snd sh') = int (snd (snd sh'))"
    using ok new set_update_subset_insert [of shs i sh] by (auto simp: shapes_ok_def)
next
  have "tot = sum_list (map shape_size shs)" using ok by (simp add: shapes_ok_def)
  then show "tot' = sum_list (map shape_size (shs[i := sh]))"
    using i tot(1) by (simp add: map_update sum_list_update_int)
next
  fix a b assume ab: "a < b \<and> b < length (shs[i := sh]) \<and> shape_alloc (shs[i := sh] ! a) \<and>
      shape_alloc (shs[i := sh] ! b) \<and> ip_key (fst (shs[i := sh] ! a)) = ip_key (fst (shs[i := sh] ! b))"
  consider "a = i" "b \<noteq> i" | "b = i" "a \<noteq> i" | "a \<noteq> i" "b \<noteq> i" using ab by force
  then show "ip_key (fst (shs[i := sh] ! a)) = IPC_PRIVATE"
  proof cases
    case 1
    then show ?thesis using ab key [of b] i by (auto simp: nth_list_update)
  next
    case 2
    then show ?thesis using ab key [of a] i by (auto simp: nth_list_update)
  next
    case 3
    then have "shs[i := sh] ! a = shs ! a" "shs[i := sh] ! b = shs ! b" by simp_all
    then show ?thesis using ab shapes_ok_keys [OF ok, of a b] by simp
  qed
qed (rule tot(2))

lemma shape_upd_ds:
  "semids s = Some ds \<Longrightarrow> shape (upd_ds f i s) = Some ((map shape_of ds)[i := shape_of (f (ds ! i))])"
  by (simp add: shape_def upd_ds_def map_update)

lemma sem_inv_Some:
  "semids s = Some ds \<Longrightarrow> sem_inv conf s \<longleftrightarrow> shapes_ok conf (sem_total s) (map shape_of ds)"
  by (simp add: sem_inv_def shape_def)

lemma sem_inv_seminit:
  assumes "sem_inv conf s" "conf_ok conf" "seminit conf s = (r, s')" "semids s = None"
  shows "sem_inv conf s' \<and> (r = 0 \<longrightarrow> semids s' = Some (replicate (nat (SEMMNI conf)) empty_set)) \<and>
     (r \<noteq> 0 \<longrightarrow> semids s' = None) \<and> sem_total s' = 0 \<and>
     cred_mem s' = cred_mem s \<and> p_credp s' = p_credp s \<and> (r = 0 \<longrightarrow> u_error s' = u_error s)"
proof -
  have e: "shape_of empty_set = (sem_perm empty_set, 0, 0)" "\<not> shape_alloc (shape_of empty_set)"
    by (simp_all add: shape_of_def empty_set_def shape_alloc_def)
  have "shapes_ok conf 0 (map shape_of (replicate (nat (SEMMNI conf)) empty_set))"
    using assms(2) e by (auto simp: shapes_ok_def conf_ok_def shape_size_def sum_list_replicate)
  then show ?thesis
    using assms by (auto simp: seminit_def kalloc_def sem_inv_def shape_def split: list.splits option.splits)
qed

lemma usemget_create_inv:
  assumes inv: "sem_inv conf s" and cok: "conf_ok conf" and ds: "semids s = Some ds"
    and n: "nsems \<le> 65535"
    and sc: "sem_scan skey 0 ds None = (None, free)"
    and r: "usemget_create conf now skey nsems semflg free s = (v, s')"
  shows "sem_inv conf s' \<and>
    (v = None \<and> u_error s' \<noteq> E_NONE \<and> quiet s s' \<or>
     (\<exists>i. v = Some (int i) \<and> i < length ds \<and> \<not> allocated (ds ! i) \<and> u_error s' = u_error s \<and> 1 \<le> nsems \<and>
        (\<forall>d\<in>set ds. \<not> allocated d \<longrightarrow> sem_ctime (ds ! i) \<le> sem_ctime d) \<and>
        semids s' = Some (ds[i := \<lparr>sem_perm = (ipc_perm_init (sem_perm (ds ! i)) semflg s)\<lparr>ip_key := skey, ip_seq := int i\<rparr>,
                 sem_base = replicate (nat nsems) zero_sem, sem_nsems = nsems, sem_otime = 0, sem_ctime = now\<rparr>])))"
proof (cases "nsems < 1 \<or> sem_total s + nsems > SEMMNS conf \<or> semflg AND IPC_CREAT = 0 \<or> free = None \<or> fst (kalloc s) = None")
  case True
  then have "v = None" "u_error s' \<noteq> E_NONE" "quiet s s'"
    using r quiet_kalloc [of s]
    by (auto simp: usemget_create_def split: if_splits option.splits prod.splits)
  then show ?thesis using inv quiet_inv by blast
next
  case False
  then obtain i t j s1 where f: "free = Some (i, t)" and k: "kalloc s = (Some j, s1)"
    by (cases free; cases "kalloc s") auto
  have s1: "semids s1 = Some ds" "sem_total s1 = sem_total s" "u_error s1 = u_error s"
      "cred_mem s1 = cred_mem s" "p_credp s1 = p_credp s"
    using k ds by (auto simp: kalloc_def split: list.splits option.splits)
  have i: "i < length ds" "\<not> allocated (ds ! i)" "t = sem_ctime (ds ! i)"
    and old: "\<forall>d\<in>set ds. \<not> allocated d \<longrightarrow> t \<le> sem_ctime d"
    and nokey: "\<forall>d\<in>set ds. allocated d \<longrightarrow> skey = IPC_PRIVATE \<or> ip_key (sem_perm d) \<noteq> skey"
    using sem_scan_result [OF sc] f by auto
  let ?new = "\<lparr>sem_perm = (ipc_perm_init (sem_perm (ds ! i)) semflg s)\<lparr>ip_key := skey, ip_seq := int i\<rparr>,
      sem_base = replicate (nat nsems) zero_sem, sem_nsems = nsems, sem_otime = 0, sem_ctime = now\<rparr>"
  have n1: "1 \<le> nsems" "sem_total s + nsems \<le> SEMMNS conf" using False by auto
  have v: "v = Some (int i)"
    and s': "s' = upd_ds (\<lambda>d. d\<lparr>sem_perm := (ipc_perm_init (sem_perm d) semflg s1)\<lparr>ip_key := skey, ip_seq := int i\<rparr>,
                     sem_base := replicate (nat nsems) zero_sem, sem_nsems := uwrap16 nsems, sem_otime := 0,
                     sem_ctime := now\<rparr>) i (s1\<lparr>sem_total := sem_total s1 + nsems\<rparr>)"
    using r False f k by (auto simp: usemget_create_def)
  have "semids s' = Some (ds[i := ?new])"
    using s1 n n1 by (cases "ds ! i") (simp add: s' upd_ds_def ipc_perm_init_def Let_def cred_at_def)
  moreover have "u_error s' = u_error s" "sem_total s' = sem_total s + nsems"
    using s1 by (simp_all add: s' upd_ds_def)
  moreover have "shapes_ok conf (sem_total s + nsems) ((map shape_of ds)[i := shape_of ?new])"
  proof (rule shapes_ok_replace)
    show "shapes_ok conf (sem_total s) (map shape_of ds)" using inv ds by (simp add: sem_inv_Some)
    show "i < length (map shape_of ds)" using i by simp
    show "1 \<le> fst (snd (shape_of ?new)) \<and> fst (snd (shape_of ?new)) = int (snd (snd (shape_of ?new)))"
      using n1 by (simp add: shape_of_def)
    have "shape_size (map shape_of ds ! i) = 0" using i by (simp add: shape_size_def shape_of_alloc)
    moreover have "shape_alloc (shape_of ?new)"
      using alloc_mode by (simp add: shape_alloc_def shape_of_def ipc_perm_init_def Let_def)
    ultimately show "sem_total s + nsems = sem_total s - shape_size (map shape_of ds ! i) + shape_size (shape_of ?new)"
      by (simp add: shape_size_def shape_of_def)
    show "sem_total s + nsems \<le> SEMMNS conf" by (rule n1(2))
  next
    fix j assume "j < length (map shape_of ds)" "shape_alloc (map shape_of ds ! j)"
      "ip_key (fst (shape_of ?new)) = ip_key (fst (map shape_of ds ! j))"
    then have "j < length ds" "allocated (ds ! j)" "skey = ip_key (sem_perm (ds ! j))"
      by (simp_all add: shape_of_alloc) (simp add: shape_of_def)
    then show "ip_key (fst (shape_of ?new)) = IPC_PRIVATE"
      using nokey nth_mem [of j ds] by (auto simp: shape_of_def)
  qed
  ultimately show ?thesis
    using v i old n1 by (auto simp: sem_inv_Some map_update)
qed

lemma usemget_found_result:
  assumes "usemget_found i nsems semflg s = (v, s')" "u_error s = E_NONE"
  shows "quiet s s' \<and> semids s' = semids s \<and>
     (u_error s' = E_NONE \<longrightarrow> v = Some (int i) \<and> nsems \<le> sem_nsems (ds_at s i)) \<and>
     (u_error s' \<noteq> E_NONE \<longrightarrow> v = Some (-1))"
proof -
  obtain b s1 where l: "ipc_lack_perm (sem_perm (ds_at s i)) semflg s = (b, s1)" by fastforce
  then have k: "semids s1 = semids s" "quiet s s1" and e: "u_error s1 = (if b then EACCES else E_NONE)"
    using ipc_lack_perm_same [of s "sem_perm (ds_at s i)" semflg] same_kernel_sem [of s s1] quiet_lack [OF l]
      ipc_lack_perm_error [of "sem_perm (ds_at s i)" semflg s] assms(2) by simp_all
  show ?thesis
    using assms k e
    by (auto simp: usemget_found_def Let_def l split: if_splits bool.splits)
qed

lemma usemget_result:
  assumes inv: "sem_inv conf s" and cok: "conf_ok conf" and e: "u_error s = E_NONE"
    and n: "- 2147483648 \<le> nsems" "nsems \<le> 2147483647"
    and r: "usemget conf now skey nsems semflg s = (v, s')"
  shows "sem_inv conf s' \<and>
    (u_error s' \<noteq> E_NONE \<longrightarrow> (v = None \<or> v = Some (-1)) \<and> (semids s \<noteq> None \<longrightarrow> quiet s s')) \<and>
    (u_error s' = E_NONE \<longrightarrow> (\<exists>i. v = Some (int i) \<and> i < nat (SEMMNI conf) \<and> allocated (ds_at s' i) \<and>
       ip_key (sem_perm (ds_at s' i)) = skey \<and> nsems \<le> sem_nsems (ds_at s' i)))"
proof (cases "IN_RANGE 0 nsems (SEMMSL conf - 1)")
  case False
  then have "v = Some (-1)" "s' = s\<lparr>u_error := EINVAL\<rparr>" using r by (simp_all add: usemget_def)
  then show ?thesis using quiet_inv [OF _ inv, of s'] by simp
next
  case True
  then have n': "nsems \<le> 65535"
    using IN_RANGE_iff [of "SEMMSL conf - 1" 0 nsems] cok n by (auto simp: conf_ok_def)
  obtain r1 s1 where i1: "(if semids s = None then seminit conf s else (0, s)) = (r1, s1)" by fastforce
  have i: "sem_inv conf s1" "r1 = 0 \<longrightarrow> semids s1 \<noteq> None \<and> u_error s1 = E_NONE" "semids s \<noteq> None \<longrightarrow> r1 = 0 \<and> s1 = s"
    using i1 inv e sem_inv_seminit [OF inv cok, of r1 s1] by (auto split: if_splits)
  show ?thesis
  proof (cases "r1 = 0")
    case False
    then have "v = None" "s' = s1\<lparr>u_error := ENOSPC\<rparr>" using r True i1 by (simp_all add: usemget_def)
    then show ?thesis using i False quiet_inv [OF _ i(1), of s'] by auto
  next
    case zero: True
    then obtain ds where ds: "semids s1 = Some ds" and e1: "u_error s1 = E_NONE" using i by auto
    have len: "length ds = nat (SEMMNI conf)" using i(1) ds by (simp add: sem_inv_Some shapes_ok_def)
    obtain f free where sc: "sem_scan skey 0 ds None = (f, free)" by fastforce
    have q: "semids s \<noteq> None \<Longrightarrow> quiet s1 s' \<Longrightarrow> quiet s s'" using i by simp
    show ?thesis
    proof (cases f)
      case (Some k)
      have k: "k < length ds" "allocated (ds ! k)" "ip_key (sem_perm (ds ! k)) = skey"
        using sem_scan_result [OF sc] Some by auto
      have "usemget_found k nsems semflg s1 = (v, s')"
        using r True i1 zero ds sc Some by (simp add: usemget_def)
      note g = usemget_found_result [OF this e1]
      have "ds_at s' k = ds ! k" "ds_at s1 k = ds ! k" using g ds by (simp_all add: ds_at_def)
      then show ?thesis using g k len q quiet_inv [OF _ i(1), of s'] by auto
    next
      case None
      have "usemget_create conf now skey nsems semflg free s1 = (v, s')"
        using r True i1 zero ds sc None by (simp add: usemget_def)
      note g = usemget_create_inv [OF i(1) cok ds n' _ this, OF sc [unfolded None]]
      show ?thesis
        using g q len alloc_mode e1
        by (auto simp: ds_at_def allocated_def ipc_perm_init_def Let_def)
    qed
  qed
qed

section \<open>semctl keeps the accounting\<close>

lemma getusd_result: "getusd arg w s = (v, t) \<Longrightarrow> quiet s t \<and> semids t = semids s \<and> (w \<noteq> None \<longrightarrow> t = s)"
  by (auto simp: getusd_def split: option.splits)

lemma quiet_setall_loop: "quiet s (snd (setall_loop conf arg sid i n s))"
proof (induction n arbitrary: i s)
  case (Suc n)
  obtain v t where g: "getusd arg (user_word arg i) s = (v, t)" by fastforce
  have "quiet s t" using getusd_result [OF g] by simp
  moreover have "quiet t (snd (setall_loop conf arg sid (Suc i) n
      (vClearAdj (int sid) (int i) (upd_sem (\<lambda>m. m\<lparr>semval := uwrap16 v\<rparr>) sid i t))))"
    using Suc.IH [of "vClearAdj (int sid) (int i) (upd_sem (\<lambda>m. m\<lparr>semval := uwrap16 v\<rparr>) sid i t)" "Suc i"]
    by (rule quiet_trans [rotated]) simp
  ultimately show ?case by (auto simp: g intro: quiet_trans)
qed simp

lemma quiet_getall_loop: "quiet s (snd (getall_loop arg i ms s))"
  by (induction ms arbitrary: i s) (auto simp: Let_def split_beta)

lemma wake_all_result: "quiet s (wake_all sid i ms s) \<and> semids (wake_all sid i ms s) = semids s \<and>
   sem_total (wake_all sid i ms s) = sem_total s"
proof (induction ms arbitrary: i s)
  case (Cons m ms)
  let ?s1 = "if semncnt m \<noteq> 0 then sem_wakeup sid i False s else s"
  let ?s2 = "if semzcnt m \<noteq> 0 then sem_wakeup sid i True ?s1 else ?s1"
  have "quiet s ?s2" "semids ?s2 = semids s" "sem_total ?s2 = sem_total s" by (simp_all add: sem_wakeup_def)
  then show ?case
    using Cons.IH [of ?s2 "Suc i"] by (auto simp: Let_def intro: quiet_trans)
qed simp

lemma sem_inv_ipc_set:
  assumes inv: "sem_inv conf s" and i: "semids s = Some ds" "i < length ds" "allocated (ds ! i)"
    and m: "m AND IPC_ALLOC \<noteq> 0"
  shows "sem_inv conf (upd_ds (\<lambda>d. d\<lparr>sem_perm := (sem_perm d)\<lparr>ip_uid := u, ip_gid := g, ip_mode := m\<rparr>,
                            sem_ctime := now\<rparr>) i s)" (is "sem_inv conf ?s'")
proof -
  let ?f = "\<lambda>d. d\<lparr>sem_perm := (sem_perm d)\<lparr>ip_uid := u, ip_gid := g, ip_mode := m\<rparr>, sem_ctime := now\<rparr>"
  let ?shs = "map shape_of ds"
  have ok: "shapes_ok conf (sem_total s) ?shs" using inv i(1) by (simp add: sem_inv_Some)
  have a: "shape_alloc (?shs ! i)" using i by (simp add: shape_of_alloc)
  have z: "1 \<le> sem_nsems (ds ! i)" "sem_nsems (ds ! i) = int (length (sem_base (ds ! i)))"
    using ok i a by (auto simp: shapes_ok_def shape_of_def shape_of_alloc)
  have sz: "shape_size (shape_of (?f (ds ! i))) = shape_size (?shs ! i)"
    using i m by (simp add: shape_size_def shape_of_def shape_alloc_def allocated_def)
  have "shapes_ok conf (sem_total s) (?shs[i := shape_of (?f (ds ! i))])"
  proof (rule shapes_ok_replace [OF ok])
    show "i < length ?shs" using i by simp
    show "1 \<le> fst (snd (shape_of (?f (ds ! i)))) \<and>
        fst (snd (shape_of (?f (ds ! i)))) = int (snd (snd (shape_of (?f (ds ! i)))))"
      using z by (simp add: shape_of_def)
    show "sem_total s = sem_total s - shape_size (?shs ! i) + shape_size (shape_of (?f (ds ! i)))"
      using sz by simp
    show "sem_total s \<le> SEMMNS conf" using ok by (simp add: shapes_ok_def)
  next
    fix j assume j: "j < length ?shs" "j \<noteq> i" "shape_alloc (?shs ! j)"
      "ip_key (fst (shape_of (?f (ds ! i)))) = ip_key (fst (?shs ! j))"
    then have k: "ip_key (fst (?shs ! i)) = ip_key (fst (?shs ! j))" using i by (simp add: shape_of_def)
    have "ip_key (fst (?shs ! i)) = IPC_PRIVATE"
    proof (cases "i < j")
      case True
      then show ?thesis using shapes_ok_keys [OF ok True] j a k by simp
    next
      case False
      then have "j < i" using j(2) by simp
      then show ?thesis using shapes_ok_keys [OF ok, of j i] i j a k by simp
    qed
    then show "ip_key (fst (shape_of (?f (ds ! i)))) = IPC_PRIVATE" using i by (simp add: shape_of_def)
  qed
  then show ?thesis
    using i by (simp add: sem_inv_def shape_upd_ds) (simp add: upd_ds_def)
qed

lemma sem_inv_rmid:
  assumes inv: "sem_inv conf s" and i: "semids s = Some ds" "i < length ds" "allocated (ds ! i)"
  shows "sem_inv conf (upd_ds (\<lambda>d. d\<lparr>sem_perm := (sem_perm d)\<lparr>ip_mode := 0\<rparr>\<rparr>) i
      (s\<lparr>sem_total := sem_total s - sem_nsems (ds ! i)\<rparr>))"
proof -
  let ?f = "\<lambda>d. d\<lparr>sem_perm := (sem_perm d)\<lparr>ip_mode := 0\<rparr>\<rparr>"
  let ?shs = "map shape_of ds"
  have ok: "shapes_ok conf (sem_total s) ?shs" using inv i(1) by (simp add: sem_inv_Some)
  have a: "shape_alloc (?shs ! i)" using i by (simp add: shape_of_alloc)
  have z: "1 \<le> sem_nsems (ds ! i)"
    using ok i a by (auto simp: shapes_ok_def shape_of_def shape_of_alloc)
  have na: "\<not> shape_alloc (shape_of (?f (ds ! i)))" by (simp add: shape_of_def shape_alloc_def)
  have sz: "shape_size (?shs ! i) = sem_nsems (ds ! i)"
    using i a by (simp add: shape_size_def) (simp add: shape_of_def)
  have "shapes_ok conf (sem_total s - sem_nsems (ds ! i)) (?shs[i := shape_of (?f (ds ! i))])"
  proof (rule shapes_ok_replace [OF ok])
    show "sem_total s - sem_nsems (ds ! i) =
        sem_total s - shape_size (?shs ! i) + shape_size (shape_of (?f (ds ! i)))"
      using sz na by (simp add: shape_size_def)
    show "sem_total s - sem_nsems (ds ! i) \<le> SEMMNS conf" using ok z by (simp add: shapes_ok_def)
  qed (use i na in simp_all)
  then show ?thesis using i by (simp add: sem_inv_def shape_upd_ds) (simp add: upd_ds_def)
qed

definition ctl_state :: "int option \<times> sem_out \<times> 'a \<Rightarrow> 'a" where
  "ctl_state r = snd (snd r)"

lemma ctl_state_simp [simp]: "ctl_state (v, out, s) = s"
  by (simp add: ctl_state_def)

lemma quiet_read_sem: "quiet s (ctl_state (read_sem f sid n s))"
proof (cases "ipc_lack_perm (sem_perm (ds_at s sid)) IRUGO s")
  case (Pair b s1)
  then show ?thesis using quiet_lack by (auto simp: read_sem_def split: bool.split)
qed

lemma quiet_setval: "quiet s (ctl_state (sem_setval conf now sid n v s))"
proof (cases "ipc_lack_perm (sem_perm (ds_at s sid)) IWUGO s")
  case (Pair b s1)
  then have "quiet s s1" by (rule quiet_lack)
  then show ?thesis by (simp add: sem_setval_def Pair Let_def split: bool.split)
qed

lemma quiet_setall: "quiet s (ctl_state (sem_setall conf now sid arg s))"
proof (cases "ipc_lack_perm (sem_perm (ds_at s sid)) IWRITE s")
  case (Pair b s1)
  then have q: "quiet s s1" by (rule quiet_lack)
  have "quiet s1 (snd (setall_loop conf arg sid 0 (nat (sem_nsems (ds_at s1 sid))) s1))"
    by (rule quiet_setall_loop)
  with q have "quiet s (snd (setall_loop conf arg sid 0 (nat (sem_nsems (ds_at s1 sid))) s1))"
    by (rule quiet_trans)
  then show ?thesis
    using q by (auto simp: sem_setall_def Pair split: bool.split prod.split)
qed

lemma sem_inv_super: "sem_inv conf s \<Longrightarrow> super s = (b, s') \<Longrightarrow> sem_inv conf s' \<and> semids s' = semids s"
  using super_result [of s] quiet_same same_kernel_sem quiet_inv by (metis snd_conv)

lemma ctl_ipc_set_inv:
  assumes inv: "sem_inv conf s" and i: "semids s = Some ds" "sid < length ds" "allocated (ds ! sid)"
  shows "sem_inv conf (ctl_state (sem_ipc_set now sid arg s))"
proof -
  obtain b s1 where l: "ipc_lack_perm (sem_perm (ds_at s sid)) IREAD s = (b, s1)" by fastforce
  have q1: "quiet s s1" using l by (rule quiet_lack)
  have k1: "semids s1 = semids s"
    using ipc_lack_perm_same [of s "sem_perm (ds_at s sid)" IREAD] same_kernel_sem [of s s1] l by simp
  obtain u s2 g s3 m s4 where gs: "getusd arg (sv_uid arg) s1 = (u, s2)" "getusd arg (sv_gid arg) s2 = (g, s3)"
      "getusd arg (sv_mode arg) s3 = (m, s4)" by (metis surj_pair)
  have k: "semids s4 = Some ds" "quiet s s4"
    using getusd_result [OF gs(1)] getusd_result [OF gs(2)] getusd_result [OF gs(3)] k1 q1 i(1)
    by (auto intro: quiet_trans)
  have "sem_inv conf (upd_ds (\<lambda>d. d\<lparr>sem_perm := (sem_perm d)\<lparr>ip_uid := u, ip_gid := g,
      ip_mode := (m AND IRWXUGO) OR IPC_ALLOC\<rparr>, sem_ctime := now\<rparr>) sid s4)"
    by (rule sem_inv_ipc_set [OF quiet_inv [OF k(2) inv] k(1) i(2,3) alloc_mode])
  then show ?thesis
    using quiet_inv [OF q1 inv] by (simp add: sem_ipc_set_def l gs split: bool.split)
qed

lemma ctl_rmid_inv:
  assumes inv: "sem_inv conf s" and i: "semids s = Some ds" "sid < length ds" "allocated (ds ! sid)"
  shows "sem_inv conf (ctl_state (sem_rmid sid s))"
proof -
  obtain lvl s1 where l: "ipc_cred_match (sem_perm (ds_at s sid)) s = (lvl, s1)" by fastforce
  have sk: "same_kernel s s1" using ipc_cred_match_result [of "sem_perm (ds_at s sid)" s] l by simp
  have k1: "semids s1 = semids s" and q1: "quiet s s1" using same_kernel_sem [OF sk] quiet_same [OF sk] by simp_all
  define s2 where "s2 = wake_all sid 0 (take (nat (sem_nsems (ds_at s1 sid))) (sem_base (ds_at s1 sid))) s1"
  have w: "quiet s1 s2" "semids s2 = Some ds" using wake_all_result [of s1] k1 i by (simp_all add: s2_def)
  have inv2: "sem_inv conf s2" using quiet_inv [OF w(1) quiet_inv [OF q1 inv]] .
  have "sem_inv conf (upd_ds (\<lambda>d. d\<lparr>sem_perm := (sem_perm d)\<lparr>ip_mode := 0\<rparr>\<rparr>) sid
      (s2\<lparr>sem_total := sem_total s2 - sem_nsems (ds ! sid)\<rparr>))"
    by (rule sem_inv_rmid [OF inv2 w(2) i(2,3)])
  moreover have "ds_at s2 sid = ds ! sid" using w(2) by (simp add: ds_at_def)
  moreover have "sem_inv conf (s1\<lparr>u_error := EPERM\<rparr>)" using quiet_inv [OF _ inv] q1 by simp
  ultimately show ?thesis by (simp add: sem_rmid_def l s2_def [symmetric] Let_def)
qed

lemma usemctl_inv:
  assumes inv: "sem_inv conf s" and cok: "conf_ok conf" and n: "- 2147483648 \<le> semid" "semid \<le> 2147483647"
  shows "sem_inv conf (ctl_state (usemctl conf now semid semnum cmd arg s))"
proof (cases "IN_RANGE 0 semnum (SEMMSL conf - 1) \<and> semids s \<noteq> None \<and> IN_RANGE 0 semid (SEMMNI conf - 1)")
  case False
  then have "\<exists>e. ctl_state (usemctl conf now semid semnum cmd arg s) = s\<lparr>u_error := e\<rparr>"
    by (auto simp: usemctl_def)
  then show ?thesis using quiet_inv [OF _ inv] by auto
next
  case True
  then obtain ds where ds: "semids s = Some ds" by auto
  have "length ds = nat (SEMMNI conf)" using inv ds by (simp add: sem_inv_Some shapes_ok_def)
  moreover have "0 \<le> semid \<and> semid \<le> SEMMNI conf - 1"
    using True cok n IN_RANGE_iff [of "SEMMNI conf - 1" 0 semid] by (simp add: conf_ok_def)
  ultimately have len: "nat semid < length ds" by simp
  obtain b s1 where o: "(if allocated (ds_at s (nat semid)) then (True, s)
      else if cmd \<noteq> IPC_STAT then (False, s) else super s) = (b, s1)" by fastforce
  have i1: "sem_inv conf s1" "semids s1 = Some ds"
    using o inv ds sem_inv_super [OF inv, of b s1] by (auto split: if_splits)
  have al: "allocated (ds ! nat semid)" if "b" "cmd \<noteq> IPC_STAT"
    using o that ds by (auto simp: ds_at_def split: if_splits)
  let ?i = "nat semid" and ?n = "nat semnum"
  have getall: "sem_inv conf (ctl_state
      (case ipc_lack_perm (sem_perm (ds_at s1 ?i)) IRUGO s1 of
                 (True, s2) \<Rightarrow> (None, NoOut, s2)
               | (False, s2) \<Rightarrow>
                   (case getall_loop arg 0 (take (nat (sem_nsems (ds_at s2 ?i))) (sem_base (ds_at s2 ?i))) s2 of
                      (vs, s3) \<Rightarrow> (if u_error s3 \<noteq> E_NONE then None else Some 0, ArrayOut vs, s3))))"
  proof (cases "ipc_lack_perm (sem_perm (ds_at s1 ?i)) IRUGO s1")
    case (Pair c s2)
    have "quiet s2 (snd (getall_loop arg 0 (take (nat (sem_nsems (ds_at s2 ?i))) (sem_base (ds_at s2 ?i))) s2))"
      by (rule quiet_getall_loop)
    then show ?thesis
      using quiet_inv [OF quiet_lack [OF Pair] i1(1)] quiet_inv
      by (auto simp: Pair split_beta split: bool.split)
  qed
  have stat: "sem_inv conf (ctl_state
      (case ipc_lack_perm (sem_perm (ds_at s1 ?i)) IRUGO s1 of
                 (True, s2) \<Rightarrow> (None, NoOut, s2)
               | (False, s2) \<Rightarrow> (Some 0, DsOut (ds_at s2 ?i), s2)))"
  proof (cases "ipc_lack_perm (sem_perm (ds_at s1 ?i)) IRUGO s1")
    case (Pair c s2)
    then show ?thesis using quiet_inv [OF quiet_lack [OF Pair] i1(1)] by (simp split: bool.split)
  qed
  have err: "sem_inv conf (s1\<lparr>u_error := e\<rparr>)" for e using quiet_inv [OF _ i1(1)] by simp
  have c: "IN_RANGE 0 semnum (SEMMSL conf - 1) = True" "(semids s = None) = False"
    "IN_RANGE 0 semid (SEMMNI conf - 1) = True"
    using True ds by simp_all
  have eq: "usemctl conf now semid semnum cmd arg s =
     (case (b, s1) of
          (False, s1) \<Rightarrow> (None, NoOut, s1\<lparr>u_error := EINVAL\<rparr>)
        | (True, s1) \<Rightarrow>
            if semnum \<ge> sem_nsems (ds_at s1 ?i) then (None, NoOut, s1\<lparr>u_error := EFBIG\<rparr>)
            else if cmd = GETVAL then read_sem semval ?i ?n s1
            else if cmd = SETVAL then sem_setval conf now ?i ?n (sv_val arg) s1
            else if cmd = GETPID then read_sem sempid ?i ?n s1
            else if cmd = GETNCNT then read_sem semncnt ?i ?n s1
            else if cmd = GETZCNT then read_sem semzcnt ?i ?n s1
            else if cmd = GETALL then
              (case ipc_lack_perm (sem_perm (ds_at s1 ?i)) IRUGO s1 of
                 (True, s2) \<Rightarrow> (None, NoOut, s2)
               | (False, s2) \<Rightarrow>
                   (case getall_loop arg 0 (take (nat (sem_nsems (ds_at s2 ?i))) (sem_base (ds_at s2 ?i))) s2 of
                      (vs, s3) \<Rightarrow> (if u_error s3 \<noteq> E_NONE then None else Some 0, ArrayOut vs, s3)))
            else if cmd = SETALL then sem_setall conf now ?i arg s1
            else if cmd = IPC_STAT then
              (case ipc_lack_perm (sem_perm (ds_at s1 ?i)) IRUGO s1 of
                 (True, s2) \<Rightarrow> (None, NoOut, s2)
               | (False, s2) \<Rightarrow> (Some 0, DsOut (ds_at s2 ?i), s2))
            else if cmd = IPC_SET then sem_ipc_set now ?i arg s1
            else if cmd = IPC_RMID then sem_rmid ?i s1
            else (None, NoOut, s1\<lparr>u_error := EINVAL\<rparr>))"
    unfolding usemctl_def Let_def o by (simp only: c if_False not_True_eq_False)
  show ?thesis
    unfolding eq
    using getall stat err quiet_inv [OF quiet_read_sem i1(1)] quiet_inv [OF quiet_setval i1(1)]
      quiet_inv [OF quiet_setall i1(1)] ctl_ipc_set_inv [OF i1 len] ctl_rmid_inv [OF i1 len] al
    by (cases b) simp_all
qed

lemma quiet_semAllAdjust: "quiet s (semAllAdjust now pid pp s)"
proof -
  have "quiet s (fold (\<lambda>u s. upd_ds (\<lambda>d. d\<lparr>sem_ctime := now\<rparr>) (nat (un_id u))
        (upd_sem (\<lambda>m. m\<lparr>semval := uwrap16 (semval m + un_aoe u), sempid := wrap16 pid\<rparr>)
           (nat (un_id u)) (nat (un_num u)) s)) us s')" if "quiet s s'" for us s'
    using that by (induction us arbitrary: s') simp_all
  from this [OF quiet_refl] show ?thesis unfolding semAllAdjust_def by simp
qed

end
