(* ===== verification/Semaphore_Values.thy ===== *)
theory Semaphore_Values
  imports Semaphore_Laws
begin

text \<open>
  The values of a set under \<open>semop\<close>: an abstract run of the operations on the list of values, and
  what \<open>semundo\<close> gives back when the run stops.
\<close>

section \<open>The abstract run\<close>

definition vals :: "'a sem_state_scheme \<Rightarrow> nat \<Rightarrow> int list" where
  "vals s sid = map semval (sem_base (ds_at s sid))"

definition op_allowed :: "sem_conf \<Rightarrow> sembuf \<Rightarrow> int \<Rightarrow> bool" where
  "op_allowed conf b v =
     (if sb_op b < 0 then - sb_op b \<le> v else if sb_op b = 0 then v = 0 else v + sb_op b \<le> SEMVMX conf)"

definition op_vals :: "sembuf \<Rightarrow> int list \<Rightarrow> int list" where
  "op_vals b vs = vs[nat (sb_num b) := vs ! nat (sb_num b) + sb_op b]"

fun sem_run :: "sem_conf \<Rightarrow> sembuf list \<Rightarrow> int list \<Rightarrow> int list option" where
  "sem_run conf [] vs = Some vs"
| "sem_run conf (b # bs) vs =
     (if op_allowed conf b (vs ! nat (sb_num b)) then sem_run conf bs (op_vals b vs) else None)"

fun undo_vals :: "nat \<Rightarrow> sembuf list \<Rightarrow> int list \<Rightarrow> int list" where
  "undo_vals i [] vs = vs"
| "undo_vals i (b # bs) vs = undo_vals (i + 1) bs (vs[i := uwrap16 (vs ! i - sb_op b)])"

text \<open>Operations on the semaphores \<open>i, i + 1, \<dots>\<close> in this order are undone by \<open>semundo\<close>.\<close>

fun in_order :: "nat \<Rightarrow> sembuf list \<Rightarrow> bool" where
  "in_order i [] = True"
| "in_order i (b # bs) = (sb_num b = int i \<and> in_order (i + 1) bs)"

lemma in_order_append: "in_order i (xs @ ys) \<longleftrightarrow> in_order i xs \<and> in_order (i + length xs) ys"
  by (induction xs arbitrary: i) auto

lemma op_vals_above:
  assumes "in_order k bs" "i < k"
  shows "fold op_vals bs (vs[i := x]) = (fold op_vals bs vs)[i := x]"
  using assms
proof (induction bs arbitrary: k vs)
  case (Cons b bs)
  then have "nat (sb_num b) = k" "k \<noteq> i" by auto
  then have "op_vals b (vs[i := x]) = (op_vals b vs)[i := x]"
    by (simp add: op_vals_def list_update_swap)
  then show ?case using Cons.IH [of "k + 1" "op_vals b vs"] Cons.prems by simp
qed simp

lemma op_vals_above_nth:
  assumes "in_order k bs" "i < k"
  shows "fold op_vals bs vs ! i = vs ! i"
  using assms
proof (induction bs arbitrary: k vs)
  case (Cons b bs)
  then have "nat (sb_num b) = k" "k \<noteq> i" by auto
  then have "op_vals b vs ! i = vs ! i" by (simp add: op_vals_def)
  then show ?case using Cons.IH [of "k + 1" "op_vals b vs"] Cons.prems by simp
qed simp

lemma length_op_vals [simp]: "length (op_vals b vs) = length vs"
  by (simp add: op_vals_def)

lemma undo_op_vals:
  assumes "in_order i bs" "i + length bs \<le> length vs" "\<forall>v\<in>set vs. 0 \<le> v \<and> v \<le> 65535"
  shows "undo_vals i bs (fold op_vals bs vs) = vs"
  using assms
proof (induction bs arbitrary: i vs)
  case (Cons b bs)
  let ?w = "op_vals b vs"
  have n: "nat (sb_num b) = i" and o: "in_order (i + 1) bs" and l: "i < length vs" using Cons.prems by auto
  have r: "0 \<le> vs ! i" "vs ! i \<le> 65535" using Cons.prems(3) l by simp_all
  have "(fold op_vals bs ?w) ! i = vs ! i + sb_op b"
    using op_vals_above_nth [OF o, of i ?w] l n by (simp add: op_vals_def)
  then have "uwrap16 (fold op_vals bs ?w ! i - sb_op b) = vs ! i" using r by simp
  then have "(fold op_vals bs ?w)[i := uwrap16 (fold op_vals bs ?w ! i - sb_op b)]
      = fold op_vals bs (?w[i := vs ! i])"
    using op_vals_above [OF o, of i ?w "vs ! i"] by simp
  also have "?w[i := vs ! i] = vs" using n by (simp add: op_vals_def)
  finally have u: "undo_vals i (b # bs) (fold op_vals (b # bs) vs) = undo_vals (i + 1) bs (fold op_vals bs vs)"
    by simp
  show ?case unfolding u using Cons.IH [OF o] Cons.prems(2,3) by simp
qed simp

section \<open>The code's steps on the values\<close>

lemma vals_cong: "semids t = semids s \<Longrightarrow> vals t sid = vals s sid"
  by (simp add: vals_def ds_at_def)

text \<open>Where the set is, what the caller may do, and what every step keeps.\<close>

definition set_there :: "nat \<Rightarrow> 'a sem_state_scheme \<Rightarrow> bool" where
  "set_there sid s \<longleftrightarrow> (\<exists>ds. semids s = Some ds \<and> sid < length ds)"

definition granted :: "int \<Rightarrow> nat \<Rightarrow> 'a sem_state_scheme \<Rightarrow> bool" where
  "granted m sid s \<longleftrightarrow> \<not> fst (ipc_lack_perm (sem_perm (ds_at s sid)) m s)"

definition frame :: "nat \<Rightarrow> 'a sem_state_scheme \<Rightarrow> 'a sem_state_scheme \<Rightarrow> bool" where
  "frame sid s t \<longleftrightarrow>
     cred_mem t = cred_mem s \<and> p_credp t = p_credp s \<and> set_there sid t = set_there sid s \<and>
     sem_perm (ds_at t sid) = sem_perm (ds_at s sid) \<and> sem_nsems (ds_at t sid) = sem_nsems (ds_at s sid)"

lemma frame_refl [simp]: "frame sid s s"
  by (simp add: frame_def)

lemma frame_trans: "frame sid s t \<Longrightarrow> frame sid t u \<Longrightarrow> frame sid s u"
  by (simp add: frame_def)

lemma granted_frame: "frame sid s t \<Longrightarrow> granted m sid t = granted m sid s"
  by (simp add: granted_def frame_def ipc_lack_perm_decision priv_def cred_at_def)

lemma frame_upd_sem [simp]: "frame sid s (upd_sem f sid n t) = frame sid s t"
proof (cases "semids t")
  case (Some ds)
  have "sid < length ds \<or> ds[sid := x] = ds" for x by (metis leI list_update_beyond)
  then show ?thesis
    using Some by (cases "sid < length ds") (auto simp: frame_def upd_sem_def upd_ds_def set_there_def ds_at_def)
qed (simp add: frame_def upd_sem_def upd_ds_def set_there_def ds_at_def)

lemma frame_wakeup [simp]: "frame sid s (sem_wakeup i n z t) = frame sid s t"
  by (simp add: frame_def sem_wakeup_def set_there_def ds_at_def)

lemma frame_error [simp]: "frame sid s (t\<lparr>u_error := e\<rparr>) = frame sid s t"
  by (simp add: frame_def set_there_def ds_at_def)

lemma frame_same: "same_kernel s t \<Longrightarrow> frame sid s t"
  using same_kernel_sem [of s t] same_kernel_creds [of s t] by (simp add: frame_def set_there_def ds_at_def)

lemma vals_upd_sem:
  assumes "set_there sid s"
  shows "vals (upd_sem (\<lambda>m. m\<lparr>semval := g (semval m)\<rparr>) sid n s) sid =
     (vals s sid)[n := g (vals s sid ! n)]"
proof -
  obtain ds where ds: "semids s = Some ds" "sid < length ds" using assms by (auto simp: set_there_def)
  have "map semval (xs[n := (xs ! n)\<lparr>semval := g (semval (xs ! n))\<rparr>]) =
      (map semval xs)[n := g (map semval xs ! n)]" for xs
    by (cases "n < length xs") (simp_all add: map_update list_update_beyond)
  then show ?thesis using ds by (simp add: vals_def upd_sem_def upd_ds_def ds_at_def)
qed

lemma vals_other [simp]:
  "vals (t\<lparr>u_error := e\<rparr>) sid = vals t sid" "vals (sem_wakeup i n z t) sid = vals t sid"
  by (simp_all add: vals_def ds_at_def sem_wakeup_def)

lemma set_there_upd [simp]: "set_there sid (upd_sem f i n s) = set_there sid s"
  by (auto simp: set_there_def upd_sem_def upd_ds_def)

lemma semundo_vals:
  assumes "set_there sid s" "\<forall>b\<in>set bs. sb_flg b AND SEM_UNDO = 0"
  shows "vals (semundo conf self sid i bs s) sid = undo_vals i bs (vals s sid)"
  using assms
proof (induction bs arbitrary: i s)
  case (Cons b bs)
  then show ?case
    using vals_upd_sem [of sid s "\<lambda>v. uwrap16 (v - sb_op b)" i] by (simp add: Let_def)
qed simp

lemma lack_granted:
  assumes "granted m sid s" "set_there sid s"
  shows "\<exists>t. ipc_lack_perm (sem_perm (ds_at s sid)) m s = (False, t) \<and> semids t = semids s \<and>
     frame sid s t \<and> u_error t = u_error s"
proof -
  obtain b t where l: "ipc_lack_perm (sem_perm (ds_at s sid)) m s = (b, t)" by fastforce
  moreover have k: "same_kernel s t" using ipc_lack_perm_same [of s "sem_perm (ds_at s sid)" m] l by simp
  moreover have "\<not> b" using assms l by (simp add: granted_def)
  ultimately show ?thesis
    using same_kernel_sem [OF k] frame_same [OF k] ipc_lack_perm_error [of "sem_perm (ds_at s sid)" m s] by simp
qed

definition plain_ops :: "sembuf list \<Rightarrow> bool" where
  "plain_ops bs \<longleftrightarrow> (\<forall>b\<in>set bs. sb_flg b AND SEM_UNDO = 0 \<and> 0 \<le> sb_num b)"

text \<open>One operation without \<open>SEM_UNDO\<close> of a caller that may read and alter.\<close>

definition step_of ::
  "sem_conf \<Rightarrow> nat \<Rightarrow> nat \<Rightarrow> sembuf list \<Rightarrow> sembuf \<Rightarrow> 'a sem_state_scheme \<Rightarrow> 'a sem_state_scheme pass_result" where
  "step_of conf self sid pre b s =
     (if sb_op b < 0 then sem_decrement conf self sid pre b s
      else if sb_op b = 0 then sem_test_zero conf self sid pre b s
      else sem_increment conf self sid pre b s)"

lemma step_allowed:
  assumes g: "granted IREAD sid s" "granted IWRITE sid s" and t: "set_there sid s"
    and fl: "sb_flg b AND SEM_UNDO = 0" and cok: "conf_ok conf"
    and n: "nat (sb_num b) < length (vals s sid)" "\<forall>v\<in>set (vals s sid). 0 \<le> v \<and> v \<le> SEMVMX conf"
    and a: "op_allowed conf b (vals s sid ! nat (sb_num b))"
  shows "\<exists>d s'. step_of conf self sid pre b s = PassDone d s' \<and> frame sid s s' \<and> u_error s' = u_error s \<and>
     vals s' sid = op_vals b (vals s sid)"
proof -
  let ?n = "nat (sb_num b)" and ?v = "vals s sid ! nat (sb_num b)"
  obtain r where r: "ipc_lack_perm (sem_perm (ds_at s sid)) IREAD s = (False, r)" "semids r = semids s"
     "frame sid s r" "u_error r = u_error s" using lack_granted [OF g(1) t] by auto
  obtain w where w: "ipc_lack_perm (sem_perm (ds_at s sid)) IWRITE s = (False, w)" "semids w = semids s"
     "frame sid s w" "u_error w = u_error s" using lack_granted [OF g(2) t] by auto
  have v: "0 \<le> ?v" "?v \<le> SEMVMX conf" using n by simp_all
  have sv: "semval (sem_at x sid ?n) = ?v" if "semids x = semids s" for x :: "'a sem_state_scheme"
    using that n(1) by (simp add: vals_def sem_at_def ds_at_def)
  have tw: "set_there sid w" using w(3) t by (simp add: frame_def)
  have up: "vals (upd_sem (\<lambda>m. m\<lparr>semval := uwrap16 (semval m + sb_op b)\<rparr>) sid ?n w) sid =
      (vals s sid)[?n := uwrap16 (?v + sb_op b)]"
    using vals_upd_sem [OF tw, of "\<lambda>x. uwrap16 (x + sb_op b)" ?n] vals_cong [OF w(2)] by simp
  have ue: "u_error (upd_sem f sid ?n w) = u_error w" for f by (simp add: upd_sem_def upd_ds_def)
  have we: "u_error (sem_wakeup i j z x) = u_error x" for i j z and x :: "'a sem_state_scheme"
    by (simp add: sem_wakeup_def)
  have lim: "SEMVMX conf \<le> 65535" using cok by (simp add: conf_ok_def)
  consider "sb_op b < 0" | "sb_op b = 0" | "sb_op b > 0" by linarith
  then show ?thesis
  proof cases
    case 1
    then have "uwrap16 (?v + sb_op b) = ?v + sb_op b" using a v lim by (simp add: op_allowed_def)
    then show ?thesis
      using 1 a w up sv [OF w(2)] fl
      by (simp add: step_of_def sem_decrement_def Let_def op_allowed_def op_vals_def ue we)
  next
    case 2
    then show ?thesis
      using a r sv [OF r(2)] vals_cong [OF r(2), of sid] list_update_id [of "vals s sid" ?n]
      by (simp add: step_of_def sem_test_zero_def Let_def op_allowed_def op_vals_def)
  next
    case 3
    then have "uwrap16 (?v + sb_op b) = ?v + sb_op b" using a v lim by (simp add: op_allowed_def)
    then show ?thesis
      using 3 a w up sv [OF w(2)] fl
      by (simp add: step_of_def sem_increment_def Let_def op_allowed_def op_vals_def ue we)
  qed
qed

lemma step_blocked:
  assumes g: "granted IREAD sid s" "granted IWRITE sid s" and t: "set_there sid s"
    and fl: "plain_ops (b # pre)" and n: "nat (sb_num b) < length (vals s sid)"
    and a: "\<not> op_allowed conf b (vals s sid ! nat (sb_num b))"
  shows "\<exists>s'. (step_of conf self sid pre b s = PassFailed s' \<or>
       (\<exists>z. step_of conf self sid pre b s = PassWait (nat (sb_num b)) z s')) \<and>
     vals s' sid = undo_vals 0 pre (vals s sid)"
proof -
  let ?n = "nat (sb_num b)" and ?v = "vals s sid ! nat (sb_num b)"
  obtain r where r: "ipc_lack_perm (sem_perm (ds_at s sid)) IREAD s = (False, r)" "semids r = semids s"
     "frame sid s r" using lack_granted [OF g(1) t] by auto
  obtain w where w: "ipc_lack_perm (sem_perm (ds_at s sid)) IWRITE s = (False, w)" "semids w = semids s"
     "frame sid s w" using lack_granted [OF g(2) t] by auto
  have sv: "semval (sem_at x sid ?n) = ?v" if "semids x = semids s" for x :: "'a sem_state_scheme"
    using that n by (simp add: vals_def sem_at_def ds_at_def)
  have p: "\<forall>b\<in>set pre. sb_flg b AND SEM_UNDO = 0" "sb_flg b AND SEM_UNDO = 0"
    using fl by (auto simp: plain_ops_def)
  have u: "vals (semundo conf self sid 0 pre x) sid = undo_vals 0 pre (vals s sid)"
    if "semids x = semids s" for x :: "'a sem_state_scheme"
    using semundo_vals [OF _ p(1), of sid x] that t vals_cong [OF that] by (simp add: set_there_def)
  consider "sb_op b < 0" | "sb_op b = 0" | "sb_op b > 0" by linarith
  then show ?thesis
  proof cases
    case 1
    then show ?thesis using a w sv [OF w(2)] u [OF w(2)]
      by (simp add: step_of_def sem_decrement_def Let_def op_allowed_def ex_bool_eq)
  next
    case 2
    then show ?thesis using a r sv [OF r(2)] u [OF r(2)]
      by (simp add: ex_bool_eq step_of_def sem_test_zero_def Let_def op_allowed_def)
  next
    case 3
    then show ?thesis using a w sv [OF w(2)] u [OF w(2)] p(2)
      by (simp add: step_of_def sem_increment_def Let_def op_allowed_def)
  qed
qed

section \<open>A pass over the operations\<close>

definition ops_fit :: "sem_conf \<Rightarrow> nat \<Rightarrow> sembuf list \<Rightarrow> 'a sem_state_scheme \<Rightarrow> bool" where
  "ops_fit conf sid bs s \<longleftrightarrow>
     (\<forall>b\<in>set bs. sb_num b < sem_nsems (ds_at s sid) \<and> - SEMVMX conf \<le> sb_op b \<and> sb_op b \<le> SEMVMX conf)"

definition vals_fit :: "sem_conf \<Rightarrow> nat \<Rightarrow> 'a sem_state_scheme \<Rightarrow> bool" where
  "vals_fit conf sid s \<longleftrightarrow>
     sem_nsems (ds_at s sid) = int (length (vals s sid)) \<and> (\<forall>v\<in>set (vals s sid). 0 \<le> v \<and> v \<le> SEMVMX conf)"

lemma op_in_range:
  assumes "conf_ok conf" "- SEMVMX conf \<le> sb_op b" "sb_op b \<le> SEMVMX conf"
  shows "IN_RANGE (- SEMVMX conf) (sb_op b) (SEMVMX conf)"
  using assms IN_RANGE_iff [of "SEMVMX conf" "- SEMVMX conf" "sb_op b"] by (simp add: conf_ok_def)

lemma sem_pass_Cons:
  "sem_pass conf self sid pre (b # bs) change s =
     (if \<not> IN_RANGE (- SEMVMX conf) (sb_op b) (SEMVMX conf) then
        PassFailed ((semundo conf self sid 0 pre s)\<lparr>u_error := E2BIG\<rparr>)
      else if u_error s \<noteq> E_NONE \<or> sb_num b \<ge> sem_nsems (ds_at s sid) then
        (let s1 = semundo conf self sid 0 pre s
         in PassFailed (if u_error s1 = E_NONE then s1\<lparr>u_error := EFBIG\<rparr> else s1))
      else
        (case step_of conf self sid pre b s of
           PassDone d s1 \<Rightarrow> sem_pass conf self sid (pre @ [b]) bs (wrap16 (change + d)) s1
         | r \<Rightarrow> r))"
  by (simp add: step_of_def)

declare sem_pass.simps(2) [simp del]

lemma op_vals_range:
  assumes "op_allowed conf b (vs ! nat (sb_num b))" "nat (sb_num b) < length vs"
    "\<forall>v\<in>set vs. 0 \<le> v \<and> v \<le> SEMVMX conf"
  shows "\<forall>v\<in>set (op_vals b vs). 0 \<le> v \<and> v \<le> SEMVMX conf"
proof
  fix v assume "v \<in> set (op_vals b vs)"
  then have "v = vs ! nat (sb_num b) + sb_op b \<or> v \<in> set vs"
    unfolding op_vals_def using set_update_subset_insert by fastforce
  moreover have "0 \<le> vs ! nat (sb_num b)" "vs ! nat (sb_num b) \<le> SEMVMX conf" using assms(2,3) by simp_all
  ultimately show "0 \<le> v \<and> v \<le> SEMVMX conf"
    using assms(1,3) by (auto simp: op_allowed_def split: if_splits)
qed

lemma sem_pass_runs:
  assumes "granted IREAD sid s" "granted IWRITE sid s" "set_there sid s" "conf_ok conf"
    and "plain_ops (pre @ bs)" "ops_fit conf sid bs s" "vals_fit conf sid s" "u_error s = E_NONE"
  shows "(case sem_run conf bs (vals s sid) of
     Some vs \<Rightarrow> \<exists>c s'. sem_pass conf self sid pre bs change s = PassDone c s' \<and> vals s' sid = vs \<and>
       frame sid s s' \<and> u_error s' = E_NONE \<and> (\<forall>v\<in>set vs. 0 \<le> v \<and> v \<le> SEMVMX conf)
   | None \<Rightarrow> \<exists>s'. sem_pass conf self sid pre bs change s = PassFailed s' \<or>
       (\<exists>n z. sem_pass conf self sid pre bs change s = PassWait n z s'))"
  using assms
proof (induction bs arbitrary: pre change s)
  case Nil
  then show ?case by (simp add: vals_fit_def)
next
  case (Cons b bs)
  note g = Cons.prems(1,2) and t = Cons.prems(3) and cok = Cons.prems(4)
  have b: "sb_num b < sem_nsems (ds_at s sid)" "- SEMVMX conf \<le> sb_op b" "sb_op b \<le> SEMVMX conf"
    using Cons.prems(6) by (simp_all add: ops_fit_def)
  have fl: "sb_flg b AND SEM_UNDO = 0" "0 \<le> sb_num b" "plain_ops (b # pre)"
    using Cons.prems(5) by (auto simp: plain_ops_def)
  have n: "nat (sb_num b) < length (vals s sid)" "\<forall>v\<in>set (vals s sid). 0 \<le> v \<and> v \<le> SEMVMX conf"
    using Cons.prems(7) b fl(2) by (auto simp: vals_fit_def)
  have eq: "sem_pass conf self sid pre (b # bs) change s =
      (case step_of conf self sid pre b s of
           PassDone d s1 \<Rightarrow> sem_pass conf self sid (pre @ [b]) bs (wrap16 (change + d)) s1
         | r \<Rightarrow> r)"
    using op_in_range [OF cok b(2,3)] b(1) Cons.prems(8) by (simp add: sem_pass_Cons)
  show ?case
  proof (cases "op_allowed conf b (vals s sid ! nat (sb_num b))")
    case True
    obtain d s1 where st: "step_of conf self sid pre b s = PassDone d s1" and f: "frame sid s s1"
      and e: "u_error s1 = u_error s" and v: "vals s1 sid = op_vals b (vals s sid)"
      using step_allowed [OF g t fl(1) cok n True] by blast
    have s1: "granted IREAD sid s1" "granted IWRITE sid s1" "set_there sid s1" "u_error s1 = E_NONE"
      using g t f e Cons.prems(8) granted_frame [OF f] by (simp_all add: frame_def)
    have vf: "vals_fit conf sid s1"
      using op_vals_range [OF True n] Cons.prems(7) f v by (simp add: vals_fit_def frame_def)
    have of': "ops_fit conf sid bs s1" using Cons.prems(6) f by (simp add: ops_fit_def frame_def)
    have p': "plain_ops ((pre @ [b]) @ bs)" using Cons.prems(5) by simp
    note ih = Cons.IH [OF s1(1-3) cok p' of' vf s1(4), of "wrap16 (change + d)"]
    show ?thesis
      using ih True unfolding eq st v
      by (auto split: option.splits intro: frame_trans [OF f])
  next
    case False
    then show ?thesis
      using step_blocked [OF g t fl(3) n(1) False, of self] by (fastforce simp: eq)
  qed
qed

text \<open>
  When a pass stops short, and the operations are on the semaphores 0, 1, 2, \<dots> in this order, the
  values are what they were.
\<close>

lemma sem_pass_restores:
  assumes "granted IREAD sid s" "granted IWRITE sid s" "set_there sid s" "conf_ok conf"
    and "plain_ops (pre @ bs)" "ops_fit conf sid bs s" "vals_fit conf sid s"
    and "in_order 0 (pre @ bs)" "length pre \<le> length vs0" "\<forall>v\<in>set vs0. 0 \<le> v \<and> v \<le> SEMVMX conf"
    and "vals s sid = fold op_vals pre vs0" "u_error s = E_NONE"
    and "sem_pass conf self sid pre bs change s = PassFailed s' \<or>
         sem_pass conf self sid pre bs change s = PassWait n z s'"
  shows "vals s' sid = vs0"
  using assms
proof (induction bs arbitrary: pre change s)
  case (Cons b bs)
  note g = Cons.prems(1,2) and t = Cons.prems(3) and cok = Cons.prems(4)
  have b: "sb_num b < sem_nsems (ds_at s sid)" "- SEMVMX conf \<le> sb_op b" "sb_op b \<le> SEMVMX conf"
    using Cons.prems(6) by (simp_all add: ops_fit_def)
  have fl: "sb_flg b AND SEM_UNDO = 0" "0 \<le> sb_num b" "plain_ops (b # pre)"
    using Cons.prems(5) by (auto simp: plain_ops_def)
  have n: "nat (sb_num b) < length (vals s sid)" "\<forall>v\<in>set (vals s sid). 0 \<le> v \<and> v \<le> SEMVMX conf"
    using Cons.prems(7) b fl(2) by (auto simp: vals_fit_def)
  have o: "in_order 0 pre" "sb_num b = int (length pre)"
    using Cons.prems(8) by (auto simp: in_order_append)
  have l0: "length vs0 = length (vals s sid)"
  proof -
    have "length (fold op_vals xs ys) = length ys" for xs ys by (induction xs arbitrary: ys) simp_all
    then show ?thesis using Cons.prems(11) by simp
  qed
  have eq: "sem_pass conf self sid pre (b # bs) change s =
      (case step_of conf self sid pre b s of
           PassDone d s1 \<Rightarrow> sem_pass conf self sid (pre @ [b]) bs (wrap16 (change + d)) s1
         | r \<Rightarrow> r)"
    using op_in_range [OF cok b(2,3)] b(1) Cons.prems(12) by (simp add: sem_pass_Cons)
  show ?case
  proof (cases "op_allowed conf b (vals s sid ! nat (sb_num b))")
    case True
    obtain d s1 where st: "step_of conf self sid pre b s = PassDone d s1" and f: "frame sid s s1"
      and e: "u_error s1 = u_error s" and v: "vals s1 sid = op_vals b (vals s sid)"
      using step_allowed [OF g t fl(1) cok n True] by blast
    have s1: "granted IREAD sid s1" "granted IWRITE sid s1" "set_there sid s1" "u_error s1 = E_NONE"
      using g t f e Cons.prems(12) granted_frame [OF f] by (simp_all add: frame_def)
    have vf: "vals_fit conf sid s1"
      using op_vals_range [OF True n] Cons.prems(7) f v by (simp add: vals_fit_def frame_def)
    have of': "ops_fit conf sid bs s1" using Cons.prems(6) f by (simp add: ops_fit_def frame_def)
    have p': "plain_ops ((pre @ [b]) @ bs)" "in_order 0 ((pre @ [b]) @ bs)" using Cons.prems(5,8) by simp_all
    have l1: "length (pre @ [b]) \<le> length vs0" using n(1) o(2) l0 by simp
    have v1: "vals s1 sid = fold op_vals (pre @ [b]) vs0" using v Cons.prems(11) by simp
    have "sem_pass conf self sid (pre @ [b]) bs (wrap16 (change + d)) s1 = PassFailed s' \<or>
        sem_pass conf self sid (pre @ [b]) bs (wrap16 (change + d)) s1 = PassWait n z s'"
      using Cons.prems(13) unfolding eq st by simp
    then show ?thesis
      by (rule Cons.IH [OF s1(1-3) cok p'(1) of' vf p'(2) l1 Cons.prems(10) v1 s1(4)])
  next
    case False
    then obtain s2 where s2: "step_of conf self sid pre b s = PassFailed s2 \<or>
        (\<exists>z. step_of conf self sid pre b s = PassWait (nat (sb_num b)) z s2)"
      and u: "vals s2 sid = undo_vals 0 pre (vals s sid)"
      using step_blocked [OF g t fl(3) n(1) False] by blast
    then have "s' = s2" using Cons.prems(13) eq by auto
    moreover have "\<forall>v\<in>set vs0. 0 \<le> v \<and> v \<le> 65535"
      using Cons.prems(10) cok by (auto simp: conf_ok_def)
    ultimately show ?thesis
      using u undo_op_vals [OF o(1), of vs0] Cons.prems(9,11) by simp
  qed
qed simp

end
