(* ===== verification/Semaphore_Properties.thy ===== *)
theory Semaphore_Properties
  imports Semaphore_Values
begin

text \<open>The properties of the semaphore calls, each with a witness on a small concrete state.\<close>

section \<open>A concrete state\<close>

definition demo_conf :: sem_conf where
  "demo_conf = \<lparr>SEMMNI = 2, SEMMNS = 60, SEMMSL = 25, SEMVMX = 32767\<rparr>"

definition demo_perm :: ipc_perm where
  "demo_perm = \<lparr>ip_uid = 5, ip_gid = 5, ip_cuid = 5, ip_cgid = 5, ip_mode = 33152, ip_seq = 0, ip_key = 7\<rparr>"

definition demo_set :: semid_ds where
  "demo_set = \<lparr>sem_perm = demo_perm, sem_base = [zero_sem, zero_sem], sem_nsems = 2, sem_otime = 0, sem_ctime = 1\<rparr>"

definition demo_user :: cred where
  "demo_user = \<lparr>cr_ref = 1, cr_ngroups = 0, cr_uid = 5, cr_gid = 5, cr_ruid = 5, cr_rgid = 5,
     cr_suid = 5, cr_sgid = 5, cr_groups = 0\<rparr>"

definition demo_sems :: sem_state where
  "demo_sems = \<lparr>u_error = E_NONE, u_asu = False, p_credp = 1, cred_mem = [1 \<mapsto> demo_user],
     groups_mem = Map.empty, kallocs = [Some 0, Some 0, Some 0], semids = Some [demo_set, empty_set], sem_total = 2,
     p_semu = (\<lambda>_. [])(4 := [\<lparr>un_aoe = 2, un_num = 0, un_id = 0\<rparr>]), sem_wakeups = []\<rparr>"

definition demo_arg :: semun where
  "demo_arg = \<lparr>sv_val = 3, sv_uid = None, sv_gid = None, sv_mode = None, sv_array = [], fault = 0\<rparr>"

lemmas demo_sem_defs = demo_conf_def demo_perm_def demo_set_def demo_user_def demo_sems_def
  demo_arg_def empty_set_def zero_sem_def

lemma demo_conf_ok: "conf_ok demo_conf"
  by (simp add: conf_ok_def demo_conf_def)

lemma demo_sems_inv: "sem_inv demo_conf demo_sems"
proof -
  have "j = 1" if "i < j" "j < 2" for i j :: nat using that by simp
  then show ?thesis
    by (auto simp: sem_inv_def shape_def shapes_ok_def shape_of_def shape_alloc_def shape_size_def
        demo_sem_defs)
qed

lemma demo_granted:
  "granted IREAD 0 demo_sems" "granted IWRITE 0 demo_sems"
  by (simp_all add: granted_def ipc_lack_perm_decision ipc_level_def priv_def cred_at_def
      PERM_EXTRACT_def ds_at_def demo_sem_defs)

lemma demo_there: "set_there 0 demo_sems" "vals_fit demo_conf 0 demo_sems" "vals demo_sems 0 = [0, 0]"
  by (simp_all add: set_there_def vals_fit_def vals_def ds_at_def demo_sem_defs)

section \<open>Accounting\<close>

text \<open>
  C7. The semaphore calls keep their books: the total is the sum of the sizes of the existing
  sets and within its limit, every existing set has as many semaphores as it says, and no two
  existing sets share a key other than \<open>IPC_PRIVATE\<close>. \<open>semget\<close>, every command of \<open>semctl\<close>,
  \<open>semop\<close> (given that other processes keep it while this one sleeps) and the adjustments at exit
  preserve this.
\<close>

theorem sem_calls_keep_accounting:
  assumes inv: "sem_inv conf s" and cok: "conf_ok conf" and e: "u_error s = E_NONE"
    and r: "- 2147483648 \<le> nsems" "nsems \<le> 2147483647" "- 2147483648 \<le> semid" "semid \<le> 2147483647"
    and env: "rely (sem_inv conf) env"
  shows "sem_inv conf (snd (usemget conf now skey nsems semflg s)) \<and>
     sem_inv conf (snd (snd (usemctl conf now semid semnum cmd arg s))) \<and>
     sem_result_all (sem_inv conf) (usemop conf now self pid semid acc ops env s) \<and>
     sem_inv conf (semAllAdjust now pid pp s)"
proof (intro conjI)
  show "sem_inv conf (snd (usemget conf now skey nsems semflg s))"
    using usemget_result [OF inv cok e r(1,2)] by (metis prod.collapse)
  show "sem_inv conf (snd (snd (usemctl conf now semid semnum cmd arg s)))"
    using usemctl_inv [OF inv cok r(3,4)] by (simp add: ctl_state_def)
  have "sem_inv conf (s\<lparr>u_error := x\<rparr>)" for x using quiet_inv [OF _ inv] by simp
  then show "sem_result_all (sem_inv conf) (usemop conf now self pid semid acc ops env s)"
    using semop_retry_inv [OF inv env] by (simp add: usemop_def)
  show "sem_inv conf (semAllAdjust now pid pp s)" by (rule quiet_inv [OF quiet_semAllAdjust inv])
qed

theorem sem_calls_keep_accounting_witness:
  "sem_inv demo_conf (snd (usemget demo_conf 3 9 2 (IPC_CREAT OR 384) demo_sems)) \<and>
   sem_inv demo_conf (snd (snd (usemctl demo_conf 3 0 0 IPC_RMID demo_arg demo_sems)))"
  using sem_calls_keep_accounting [OF demo_sems_inv demo_conf_ok, of 2 0 "[]" 3 9 "IPC_CREAT OR 384" 0 IPC_RMID demo_arg]
  by (simp add: demo_sems_def)

text \<open>
  \<open>semget\<close> returns the set with the key: on success an existing set that has this key and at
  least as many semaphores as asked for; on an error nothing about the sets changes.
\<close>

theorem semget_finds_or_creates:
  assumes "sem_inv conf s" and "conf_ok conf" and "u_error s = E_NONE" "semids s \<noteq> None"
    and "- 2147483648 \<le> nsems" "nsems \<le> 2147483647"
    and "usemget conf now skey nsems semflg s = (v, s')"
  shows "(if u_error s' = E_NONE
     then \<exists>i. v = Some (int i) \<and> i < nat (SEMMNI conf) \<and> allocated (ds_at s' i) \<and>
            ip_key (sem_perm (ds_at s' i)) = skey \<and> nsems \<le> sem_nsems (ds_at s' i)
     else (v = None \<or> v = Some (-1)) \<and> shape s' = shape s \<and> sem_total s' = sem_total s)"
  using usemget_result [OF assms(1-3,5-7)] assms(4) by (simp add: quiet_def)

theorem semget_finds_or_creates_witness:
  "\<exists>v s'. usemget demo_conf 3 7 2 0 demo_sems = (v, s') \<and> u_error s' = E_NONE \<and> v = Some 0"
proof -
  obtain v s' where r: "usemget demo_conf 3 7 2 0 demo_sems = (v, s')" by fastforce
  have e: "u_error s' = E_NONE \<and> v = Some 0"
    using r by (simp add: usemget_def usemget_found_def IN_RANGE_def Let_def allocated_def ds_at_def
        ipc_lack_perm_def demo_sem_defs) auto
  have "u_error demo_sems = E_NONE" "semids demo_sems \<noteq> None" by (simp_all add: demo_sems_def)
  from semget_finds_or_creates [OF demo_sems_inv demo_conf_ok this _ _ r] e r show ?thesis by auto
qed

section \<open>Operations\<close>

definition demo_ops :: "sembuf list" where
  "demo_ops = [\<lparr>sb_num = 0, sb_op = 1, sb_flg = 0\<rparr>, \<lparr>sb_num = 1, sb_op = -1, sb_flg = 2048\<rparr>]"

definition demo_ops' :: "sembuf list" where
  "demo_ops' = [\<lparr>sb_num = 1, sb_op = 1, sb_flg = 0\<rparr>, \<lparr>sb_num = 0, sb_op = -1, sb_flg = 2048\<rparr>]"

lemma record_pid_vals: "set_there sid s \<Longrightarrow> vals (record_pid pid sid bs s) sid = vals s sid"
proof (induction bs arbitrary: s)
  case (Cons b bs)
  let ?s1 = "upd_sem (\<lambda>m. m\<lparr>sempid := wrap16 pid\<rparr>) sid (nat (sb_num b)) s"
  have "vals ?s1 sid = vals s sid"
  proof -
    have "map semval (xs[n := (xs ! n)\<lparr>sempid := p\<rparr>]) = map semval xs" for xs n p
      by (cases "n < length xs") (simp_all add: map_update list_update_beyond map_update_same)
    then show ?thesis
      using Cons.prems by (auto simp: vals_def upd_sem_def upd_ds_def ds_at_def set_there_def)
  qed
  then show ?case using Cons by (simp add: record_pid_def)
qed (simp add: record_pid_def)

lemma times_vals: "vals (upd_ds (\<lambda>d. d\<lparr>sem_otime := t, sem_ctime := g d\<rparr>) sid s) sid = vals s sid"
    "set_there sid (upd_ds f sid s) = set_there sid s"
proof -
  show "set_there sid (upd_ds f sid s) = set_there sid s" by (auto simp: set_there_def upd_ds_def)
  show "vals (upd_ds (\<lambda>d. d\<lparr>sem_otime := t, sem_ctime := g d\<rparr>) sid s) sid = vals s sid"
  proof (cases "semids s")
    case (Some ds)
    then show ?thesis
      by (cases "sid < length ds") (simp_all add: vals_def ds_at_def upd_ds_def list_update_beyond)
  qed (simp add: vals_def ds_at_def upd_ds_def)
qed

lemma bump_vals: "set_there sid s \<Longrightarrow> vals (bump_cnt sid n z d s) sid = vals s sid"
proof -
  assume t: "set_there sid s"
  have "map semval (xs[n := (if z then (xs ! n)\<lparr>semzcnt := p\<rparr> else (xs ! n)\<lparr>semncnt := q\<rparr>)]) = map semval xs"
    for xs p q by (cases "n < length xs") (simp_all add: map_update list_update_beyond map_update_same)
  then show ?thesis
    using t by (auto simp: bump_cnt_def vals_def upd_sem_def upd_ds_def ds_at_def set_there_def)
qed



text \<open>
  All or nothing, when the operations are on the semaphores 0, 1, 2 and so on in this order:
  if one of them cannot proceed, the call that fails (\<open>IPC_NOWAIT\<close>) or sleeps leaves every value as
  it was.
\<close>

theorem semop_all_or_nothing:
  assumes s: "set_there sid s" "allocated (ds_at s sid)" "IN_RANGE 0 (int sid) (SEMMNI conf - 1)"
    and g: "granted IREAD sid s" "granted IWRITE sid s" and cok: "conf_ok conf"
    and ops: "ops \<noteq> []" "plain_ops ops" "ops_fit conf sid ops s" "in_order 0 ops"
    and v: "vals_fit conf sid s" "u_error s = E_NONE"
    and blocked: "sem_run conf ops (vals s sid) = None"
  shows "\<exists>s'. (usemop conf now self pid (int sid) True ops [] s = SemReturn None s' \<or>
               usemop conf now self pid (int sid) True ops [] s = SemAsleep s') \<and>
           vals s' sid = vals s sid"
proof -
  have p: "plain_ops ([] @ ops)" "in_order 0 ([] @ ops)" using ops(2,4) by simp_all
  have b: "\<forall>v\<in>set (vals s sid). 0 \<le> v \<and> v \<le> SEMVMX conf" using v(1) by (simp add: vals_fit_def)
  have u: "usemop conf now self pid (int sid) True ops [] s = semop_retry conf now self pid sid ops [] s"
    using s ops(1) by (auto simp: usemop_def set_there_def)
  obtain s1 where r: "sem_pass conf self sid [] ops 0 s = PassFailed s1 \<or>
      (\<exists>n z. sem_pass conf self sid [] ops 0 s = PassWait n z s1)"
    using sem_pass_runs [OF g s(1) cok p(1) ops(3) v, of self 0] blocked by auto
  then have v1: "vals s1 sid = vals s sid"
    using sem_pass_restores [OF g s(1) cok p(1) ops(3) v(1) p(2) _ b _ v(2), of self 0 s1] by auto
  have "quiet s s1" using r quiet_sem_pass [of s conf self sid "[]" ops 0] by auto
  then have "set_there sid s1"
    using s(1) by (auto simp: set_there_def quiet_def shape_def) (metis length_map)
  then show ?thesis using r v1 by (auto simp: u semop_retry.simps Let_def bump_vals)
qed

theorem semop_all_or_nothing_witness:
  "sem_run demo_conf demo_ops [0, 0] = None \<and>
   (\<exists>s'. (usemop demo_conf 3 1 9 0 True demo_ops [] demo_sems = SemReturn None s' \<or>
          usemop demo_conf 3 1 9 0 True demo_ops [] demo_sems = SemAsleep s') \<and> vals s' 0 = [0, 0])"
proof -
  have n: "sem_run demo_conf demo_ops (vals demo_sems 0) = None"
    by (simp add: demo_there demo_ops_def op_allowed_def op_vals_def demo_conf_def)
  have "\<exists>s'. (usemop demo_conf 3 1 9 (int 0) True demo_ops [] demo_sems = SemReturn None s' \<or>
          usemop demo_conf 3 1 9 (int 0) True demo_ops [] demo_sems = SemAsleep s') \<and>
       vals s' 0 = vals demo_sems 0"
    by (rule semop_all_or_nothing [OF demo_there(1) _ _ demo_granted demo_conf_ok _ _ _ _ demo_there(2) _ n])
      (simp_all add: allocated_def ds_at_def IN_RANGE_def plain_ops_def ops_fit_def demo_ops_def demo_sem_defs)
  with n show ?thesis by (simp add: demo_there)
qed

text \<open>
  In any other order it is not: on two semaphores that are 0, raising the second and lowering
  the first with \<open>IPC_NOWAIT\<close> fails with EAGAIN and leaves the values 65535 and 1, because
  \<open>semundo\<close> walks the semaphores from the first one instead of taking those the operations name.
\<close>

theorem semop_undoes_wrong_semaphore:
  assumes s: "set_there sid s" "allocated (ds_at s sid)" "IN_RANGE 0 (int sid) (SEMMNI conf - 1)"
    and g: "granted IREAD sid s" "granted IWRITE sid s" and cok: "conf_ok conf"
    and v: "vals s sid = [0, 0]" "sem_nsems (ds_at s sid) = 2" "u_error s = E_NONE"
  shows "\<exists>s'. usemop conf now self pid (int sid) True demo_ops' env s = SemReturn None s' \<and>
           u_error s' = EAGAIN \<and> vals s' sid = [65535, 1]"
proof -
  let ?up = "\<lparr>sb_num = 1, sb_op = 1, sb_flg = 0\<rparr>" and ?down = "\<lparr>sb_num = 0, sb_op = -1, sb_flg = 2048\<rparr>"
  have lim: "1 \<le> SEMVMX conf" "SEMVMX conf \<le> 65535" using cok by (simp_all add: conf_ok_def)
  have u: "usemop conf now self pid (int sid) True demo_ops' env s = semop_retry conf now self pid sid demo_ops' env s"
    using s by (auto simp: usemop_def set_there_def demo_ops'_def)
  obtain d s1 where st: "step_of conf self sid [] ?up s = PassDone d s1" "frame sid s s1"
      "u_error s1 = E_NONE" "vals s1 sid = [0, 1]"
    using step_allowed [OF g s(1) _ cok, of ?up self "[]"] v lim by (auto simp: op_allowed_def op_vals_def)
  have g1: "granted IREAD sid s1" "granted IWRITE sid s1" "set_there sid s1" "sem_nsems (ds_at s1 sid) = 2"
    using g s(1) v(2) st(2) granted_frame [OF st(2)] by (simp_all add: frame_def)
  obtain w where w: "ipc_lack_perm (sem_perm (ds_at s1 sid)) IWRITE s1 = (False, w)" "semids w = semids s1"
     "frame sid s1 w" "u_error w = u_error s1" using lack_granted [OF g1(2,3)] by auto
  have vw: "vals w sid = [0, 1]" "set_there sid w"
    using vals_cong [OF w(2)] st(4) g1(3) w(3) by (simp_all add: frame_def)
  then have "semval (sem_at w sid 0) = 0"
    by (cases "sem_base (ds_at w sid)") (auto simp: vals_def sem_at_def)
  moreover have "vals (semundo conf self sid 0 [?up] w) sid = [65535, 1]"
    using semundo_vals [OF vw(2), of "[?up]" conf self 0] vw(1) by (simp add: uwrap16_def)
  moreover have "u_error (semundo conf self sid 0 [?up] w) = E_NONE"
    using w(4) st(3) by (simp add: upd_sem_def upd_ds_def)
  ultimately have "step_of conf self sid [?up] ?down s1 =
      PassFailed ((semundo conf self sid 0 [?up] w)\<lparr>u_error := EAGAIN\<rparr>)"
    using w(1) by (simp add: step_of_def sem_decrement_def Let_def del: semundo.simps)
  moreover have "IN_RANGE (- SEMVMX conf) 1 (SEMVMX conf)" "IN_RANGE (- SEMVMX conf) (-1) (SEMVMX conf)"
    using op_in_range [OF cok, of ?up] op_in_range [OF cok, of ?down] lim by simp_all
  ultimately have "sem_pass conf self sid [] demo_ops' 0 s =
      PassFailed ((semundo conf self sid 0 [?up] w)\<lparr>u_error := EAGAIN\<rparr>)"
    using v g1(4) st(1,3) by (simp add: demo_ops'_def sem_pass_Cons del: semundo.simps)
  then show ?thesis
    using \<open>vals (semundo conf self sid 0 [?up] w) sid = [65535, 1]\<close>
    by (simp add: u semop_retry.simps del: semundo.simps)
qed

theorem semop_undoes_wrong_semaphore_witness:
  "\<exists>s'. usemop demo_conf 3 1 9 0 True demo_ops' [] demo_sems = SemReturn None s' \<and>
     u_error s' = EAGAIN \<and> vals s' 0 = [65535, 1]"
  using semop_undoes_wrong_semaphore [OF demo_there(1) _ _ demo_granted demo_conf_ok demo_there(3), of 3 1 9 "[]"]
  by (simp add: allocated_def ds_at_def IN_RANGE_def demo_sem_defs)

section \<open>Adjustments at exit\<close>

lemma uwrap16_absorb: "uwrap16 (uwrap16 a + wrap16 b) = uwrap16 (a + b)"
proof -
  have "(a mod 65536 + ((b + 32768) mod 65536 - 32768)) mod 65536 = (a + b) mod 65536"
    using mod_add_cong [OF mod_mod_trivial [of a 65536] mod_diff_left_eq [of "b + 32768" 65536 32768]] by simp
  then show ?thesis by (simp add: uwrap16_def wrap16_def)
qed

text \<open>
  A process that raises a semaphore with \<open>SEM_UNDO\<close> and exits: if it had no adjustment before,
  the value afterwards is the old one plus whatever the memory of the new \<open>sem_undo\<close> entry held,
  modulo 65536. It is restored exactly when \<open>kalloc\<close> happened to return a block whose first word
  is a multiple of 65536, because \<open>iSubAdj\<close> subtracts from \<open>un_aoe\<close> without initialising it.
\<close>

theorem exit_adds_uninitialised_memory:
  assumes s: "set_there sid s" "allocated (ds_at s sid)" "IN_RANGE 0 (int sid) (SEMMNI conf - 1)"
    and g: "granted IREAD sid s" "granted IWRITE sid s" and cok: "conf_ok conf"
    and v: "vals_fit conf sid s" "u_error s = E_NONE" "n < length (vals s sid)" "n < 32768"
    and k: "p_semu s self = []" "kallocs s = Some junk # ks"
    and op: "0 < d" "vals s sid ! n + d \<le> SEMVMX conf"
  shows "\<exists>s'. usemop conf now self pid (int sid) True [\<lparr>sb_num = int n, sb_op = d, sb_flg = 4096\<rparr>] env s
       = SemReturn (Some 0) s' \<and>
     vals (semAllAdjust now' pid self s') sid = (vals s sid)[n := uwrap16 (vals s sid ! n + junk)]"
proof -
  let ?b = "\<lparr>sb_num = int n, sb_op = d, sb_flg = 4096\<rparr>" and ?v = "vals s sid ! n"
  let ?u = "\<lparr>un_aoe = wrap16 (junk - d), un_num = int n, un_id = int sid\<rparr>"
  have nn: "int n < sem_nsems (ds_at s sid)" "0 \<le> ?v" "?v \<le> SEMVMX conf" "SEMVMX conf \<le> 65535"
    using v cok by (auto simp: vals_fit_def conf_ok_def)
  obtain w where w: "ipc_lack_perm (sem_perm (ds_at s sid)) IWRITE s = (False, w)" "semids w = semids s"
     "frame sid s w" "u_error w = u_error s" using lack_granted [OF g(2) s(1)] by auto
  have sk: "p_semu w = p_semu s" "kallocs w = kallocs s"
    using ipc_lack_perm_same [of s "sem_perm (ds_at s sid)" IWRITE] w(1) same_kernel_sem [of s w] by simp_all
  define w1 where "w1 = w\<lparr>kallocs := ks, p_semu := (p_semu w)(self := [?u])\<rparr>"
  have sub: "iSubAdj conf self (int sid) (int n) d w = (0, w1)"
    using sk k v(4) by (simp add: iSubAdj_def kalloc_def w1_def)
  have w1: "semids w1 = semids s" "u_error w1 = E_NONE" "set_there sid w1"
    using w v(2) s(1) by (simp_all add: w1_def set_there_def)
  have sv: "semval (sem_at w1 sid n) = ?v" using v(3) w1(1) by (simp add: vals_def sem_at_def ds_at_def)
  define s3 where "s3 = upd_sem (\<lambda>m. m\<lparr>semval := uwrap16 (semval m + d)\<rparr>) sid n w1"
  define s4 where "s4 = (if semncnt (sem_at s3 sid n) \<noteq> 0 then sem_wakeup sid n False s3 else s3)"
  have v3: "vals s3 sid = (vals s sid)[n := uwrap16 (?v + d)]" "set_there sid s3"
    using vals_upd_sem [OF w1(3), of "\<lambda>x. uwrap16 (x + d)" n] vals_cong [OF w1(1)] w1(3)
    by (simp_all add: s3_def)
  have "p_semu s3 = (p_semu s)(self := [?u])" using sk by (simp add: s3_def upd_sem_def upd_ds_def w1_def)
  then have v4: "vals s4 sid = (vals s sid)[n := uwrap16 (?v + d)]" "set_there sid s4"
      "p_semu s4 = (p_semu s)(self := [?u])"
    using v3 by (simp_all add: s4_def sem_wakeup_def set_there_def vals_def ds_at_def)
  have "sem_increment conf self sid [] ?b s = PassDone 1 s4"
    using w(1) sub sv op(2) by (simp add: sem_increment_def Let_def s3_def s4_def)
  moreover have "IN_RANGE (- SEMVMX conf) d (SEMVMX conf)"
    using op_in_range [OF cok, of ?b] op nn by simp
  ultimately have p: "sem_pass conf self sid [] [?b] 0 s = PassDone 1 s4"
    using nn(1) v(2) op(1) by (simp add: sem_pass_Cons step_of_def)
  define s5 where "s5 = record_pid pid sid [?b] (upd_ds (\<lambda>d. d\<lparr>sem_otime := now, sem_ctime := now\<rparr>) sid s4)"
  have u: "usemop conf now self pid (int sid) True [?b] env s = SemReturn (Some 0) s5"
    using s p by (auto simp: usemop_def set_there_def semop_retry.simps s5_def Let_def)
  have "p_semu s5 = p_semu s4" by (simp add: s5_def record_pid_def upd_sem_def upd_ds_def)
  moreover have v5: "vals s5 sid = (vals s sid)[n := uwrap16 (?v + d)]" "set_there sid s5"
    unfolding s5_def using v4 times_vals(1) [where t = now and g = "\<lambda>_. now" and sid = sid and s = s4]
    by (simp add: record_pid_vals times_vals(2)) (simp add: v4(2) record_pid_def times_vals(2))
  ultimately have "semAllAdjust now' pid self s5 =
     (upd_ds (\<lambda>d. d\<lparr>sem_ctime := now'\<rparr>) sid
        (upd_sem (\<lambda>m. m\<lparr>semval := uwrap16 (semval m + wrap16 (junk - d)), sempid := wrap16 pid\<rparr>) sid n s5))
     \<lparr>p_semu := (p_semu s5)(self := [])\<rparr>"
    using v4(3) by (simp add: semAllAdjust_def)
  moreover have "vals (upd_ds (\<lambda>d. d\<lparr>sem_ctime := now'\<rparr>) sid t) sid = vals t sid" for t :: "'a sem_state_scheme"
  proof (cases "semids t")
    case (Some ds)
    then show ?thesis
      by (cases "sid < length ds") (simp_all add: vals_def ds_at_def upd_ds_def list_update_beyond)
  qed (simp add: vals_def ds_at_def upd_ds_def)
  moreover have "vals (upd_sem (\<lambda>m. m\<lparr>semval := f (semval m), sempid := q\<rparr>) sid n s5) sid
      = (vals s5 sid)[n := f (vals s5 sid ! n)]" for f q
  proof -
    obtain ds where ds: "semids s5 = Some ds" "sid < length ds" using v5(2) by (auto simp: set_there_def)
    have "map semval (xs[n := (xs ! n)\<lparr>semval := f (semval (xs ! n)), sempid := q\<rparr>]) =
        (map semval xs)[n := f (map semval xs ! n)]" for xs
      by (cases "n < length xs") (simp_all add: map_update list_update_beyond)
    then show ?thesis using ds by (simp add: vals_def upd_sem_def upd_ds_def ds_at_def)
  qed
  ultimately have "vals (semAllAdjust now' pid self s5) sid =
      (vals s sid)[n := uwrap16 (uwrap16 (?v + d) + wrap16 (junk - d))]"
    using v5(1) v(3) by (simp add: vals_def ds_at_def)
  then show ?thesis using u by (auto simp: uwrap16_absorb)
qed

theorem exit_adds_uninitialised_memory_witness:
  "\<exists>s'. usemop demo_conf 3 1 9 0 True [\<lparr>sb_num = 0, sb_op = 2, sb_flg = 4096\<rparr>] []
         (demo_sems\<lparr>kallocs := [Some 40]\<rparr>) = SemReturn (Some 0) s' \<and>
       vals (semAllAdjust 8 9 1 s') 0 = [40, 0]"
proof -
  let ?s = "demo_sems\<lparr>kallocs := [Some 40]\<rparr>"
  have "granted IREAD 0 ?s" "granted IWRITE 0 ?s" "set_there 0 ?s" "vals_fit demo_conf 0 ?s" "vals ?s 0 = [0, 0]"
    by (simp_all add: granted_def ipc_lack_perm_decision ipc_level_def PERM_EXTRACT_def priv_def cred_at_def
        set_there_def vals_fit_def vals_def ds_at_def demo_sem_defs)
  note a = this
  show ?thesis
    using exit_adds_uninitialised_memory [OF a(3) _ _ a(1,2) demo_conf_ok a(4), of 0 1 40 "[]" 2 3 9 "[]" 8] a(5)
    by (simp add: allocated_def ds_at_def IN_RANGE_def uwrap16_def demo_sem_defs)
qed

text \<open>
  Removing a set does not remove the adjustments to it: in a table of one set, after \<open>IPC_RMID\<close> of set 0 and a
  \<open>semget\<close> that creates a new set under another key in its place, the exit of a process with an
  adjustment of 2 to the old set changes the new set's semaphore from 0 to 2.
\<close>

theorem removed_set_adjusts_new_set:
  "(let conf = demo_conf\<lparr>SEMMNI := 1\<rparr>;
        s1 = snd (snd (usemctl conf 5 0 0 IPC_RMID demo_arg (demo_sems\<lparr>semids := Some [demo_set]\<rparr>)));
        r = usemget conf 6 9 1 (IPC_CREAT OR 384) s1
    in fst r = Some 0 \<and> u_error (snd r) = E_NONE \<and> ip_key (sem_perm (ds_at (snd r) 0)) = 9 \<and>
       vals (snd r) 0 = [0] \<and> vals (semAllAdjust 7 2 4 (snd r)) 0 = [2])"
  by code_simp

end
