(* ===== verification/Messages.thy ===== *)
theory Messages
  imports Kernel_Memory
begin

text \<open>
  System V message queues, \<^verbatim>\<open>kernel/conf/msg/src/msg386.c\<close>. A queue's linked messages are a
  list in queue order, and \<open>msg_last\<close> points to a message by its place in the message map, which no
  two messages share. The text of a message is in the map, as in the code.
\<close>

section \<open>Data\<close>

record msg =
  msg_type :: int
  msg_ts :: int       \<comment> \<open>unsigned short\<close>
  msg_spot :: int     \<comment> \<open>short\<close>

record msqid_ds =
  msg_perm :: ipc_perm
  msg_first :: "msg list"
  msg_last :: "int option"
  msg_cbytes :: int   \<comment> \<open>unsigned short, as the next four\<close>
  msg_qnum :: int
  msg_qbytes :: int
  msg_lspid :: int
  msg_lrpid :: int
  msg_stime :: int
  msg_rtime :: int
  msg_ctime :: int

record msg_conf =
  NMSQID :: int
  NMSG :: int
  NMSC :: int

text \<open>
  An entry of the message map is NULL, the text of a message, or what the memory held when the map
  was allocated. \<open>msg_gate\<close> tells which queues are locked, \<open>NMSQB\<close> is the limit that
  \<open>IPC_SET\<close> changes too, \<open>msg_wakeups\<close> lists the queues for which \<open>wakeup\<close> was called.
\<close>

datatype map_entry = NoText | Text "int list" | Stale

record msg_state = heap_state +
  msqs :: "msqid_ds list option"
  msg_gate :: "nat \<Rightarrow> bool"
  msg_map :: "map_entry list"
  NMSQB :: int
  msg_wakeups :: "nat list"

text \<open>
  How a call ends: with a value, asleep, waiting for a gate that nobody will unlock, or with a fault
  or panic in the kernel.
\<close>

datatype 'a msg_result =
    MsgReturn int 'a
  | MsgNoValue 'a
  | MsgAsleep 'a
  | MsgStuck 'a
  | MsgPanic

abbreviation (input) MSG_RWAIT :: int where "MSG_RWAIT \<equiv> 512"
abbreviation (input) MSG_WWAIT :: int where "MSG_WWAIT \<equiv> 1024"
abbreviation (input) MSG_NOERROR :: int where "MSG_NOERROR \<equiv> 4096"

definition queue_at :: "'a msg_state_scheme \<Rightarrow> nat \<Rightarrow> msqid_ds" where
  "queue_at s i = the (msqs s) ! i"

definition upd_queue :: "(msqid_ds \<Rightarrow> msqid_ds) \<Rightarrow> nat \<Rightarrow> 'a msg_state_scheme \<Rightarrow> 'a msg_state_scheme" where
  "upd_queue f i s = s\<lparr>msqs := map_option (\<lambda>qs. qs[i := f (qs ! i)]) (msqs s)\<rparr>"

definition upd_mode :: "(int \<Rightarrow> int) \<Rightarrow> msqid_ds \<Rightarrow> msqid_ds" where
  "upd_mode f q = q\<lparr>msg_perm := (msg_perm q)\<lparr>ip_mode := f (ip_mode (msg_perm q))\<rparr>\<rparr>"

definition set_gate :: "bool \<Rightarrow> nat \<Rightarrow> 'a msg_state_scheme \<Rightarrow> 'a msg_state_scheme" where
  "set_gate b i s = s\<lparr>msg_gate := (msg_gate s)(i := b)\<rparr>"

definition set_spot :: "map_entry \<Rightarrow> int \<Rightarrow> 'a msg_state_scheme \<Rightarrow> 'a msg_state_scheme" where
  "set_spot e p s = s\<lparr>msg_map := (msg_map s)[nat p := e]\<rparr>"

definition msg_error :: "errno \<Rightarrow> 'a msg_state_scheme \<Rightarrow> 'a msg_state_scheme msg_result" where
  "msg_error e s = MsgReturn (-1) (s\<lparr>u_error := e\<rparr>)"

definition queue_alive :: "msqid_ds \<Rightarrow> bool" where
  "queue_alive q = (ip_mode (msg_perm q) AND IPC_ALLOC \<noteq> 0)"

definition msgfree :: "msg \<Rightarrow> 'a msg_state_scheme \<Rightarrow> 'a msg_state_scheme" where
  "msgfree mp s = set_spot NoText (msg_spot mp) s"

section \<open>msgctl\<close>

abbreviation (input) MSG_RMID :: int where "MSG_RMID \<equiv> 0"
abbreviation (input) MSG_SET :: int where "MSG_SET \<equiv> 1"
abbreviation (input) MSG_STAT :: int where "MSG_STAT \<equiv> 2"

text \<open>
  The user's structure for \<open>IPC_SET\<close>: the fields that are read (\<open>None\<close> if they cannot be), and
  for \<open>IPC_STAT\<close> whether it can be written.
\<close>

record msq_buf =
  mq_set :: "(int \<times> int \<times> int \<times> int) option"    \<comment> \<open>uid, gid, mode, qbytes\<close>
  mq_writable :: bool

datatype msg_out = NoMsgOut | StatOut msqid_ds | TextOut int "int list"

definition msg_stat :: "nat \<Rightarrow> msq_buf \<Rightarrow> 'a msg_state_scheme \<Rightarrow> msg_out \<times> 'a msg_state_scheme" where
  "msg_stat i buf s =
     (case ipc_lack_perm (msg_perm (queue_at s i)) IRUGO s of
        (True, s1) \<Rightarrow> (NoMsgOut, s1)
      | (False, s1) \<Rightarrow>
          if mq_writable buf then (StatOut (queue_at s1 i), s1) else (NoMsgOut, s1\<lparr>u_error := EFAULT\<rparr>))"

definition msg_set :: "nat \<Rightarrow> msq_buf \<Rightarrow> 'a msg_state_scheme \<Rightarrow> 'a msg_state_scheme" where
  "msg_set i buf s =
     (case ipc_cred_match (msg_perm (queue_at s i)) s of
        (lvl, s1) \<Rightarrow>
          if lvl \<noteq> CRED_OWNER then s1\<lparr>u_error := EPERM\<rparr>
          else case mq_set buf of
                 None \<Rightarrow> s1\<lparr>u_error := EFAULT\<rparr>
               | Some (uid, gid, mode, qbytes) \<Rightarrow>
                   (case (if qbytes > msg_qbytes (queue_at s1 i) then super s1 else (True, s1)) of
                      (False, s2) \<Rightarrow> s2\<lparr>u_error := EPERM\<rparr>
                    | (True, s2) \<Rightarrow>
                        upd_queue (\<lambda>q. q\<lparr>msg_perm := (msg_perm q)
                              \<lparr>ip_uid := uid, ip_gid := gid,
                               ip_mode := (ip_mode (msg_perm q) AND NOT IRWXUGO) OR (mode AND IRWXUGO)\<rparr>,
                            msg_qbytes := qbytes\<rparr>) i (s2\<lparr>NMSQB := qbytes\<rparr>)))"

definition msg_rmid :: "int \<Rightarrow> nat \<Rightarrow> 'a msg_state_scheme \<Rightarrow> 'a msg_state_scheme" where
  "msg_rmid now i s =
     (case ipc_cred_match (msg_perm (queue_at s i)) s of
        (lvl, s1) \<Rightarrow>
          if lvl \<noteq> CRED_OWNER then s1\<lparr>u_error := EPERM\<rparr>
          else
            upd_queue (\<lambda>q. q\<lparr>msg_first := [], msg_last := None, msg_qnum := 0, msg_cbytes := 0,
                msg_perm := (msg_perm q)\<lparr>ip_mode := 0, ip_seq := uwrap16 (ip_seq (msg_perm q) + 50)\<rparr>,
                msg_ctime := now\<rparr>) i (fold msgfree (msg_first (queue_at s1 i)) s1))"

definition umsgctl ::
  "msg_conf \<Rightarrow> int \<Rightarrow> int \<Rightarrow> int \<Rightarrow> msq_buf \<Rightarrow> 'a msg_state_scheme
     \<Rightarrow> msg_out \<times> 'a msg_state_scheme msg_result" where
  "umsgctl conf now qid cmd buf s =
     (if qid < 0 then (NoMsgOut, msg_error EINVAL s)
      else if msqs s = None then (NoMsgOut, MsgPanic)
      else
        let i = nat (qid mod NMSQID conf); q = queue_at s i in
        case (if ip_seq (msg_perm q) \<noteq> qid \<or> \<not> queue_alive q
              then (if cmd \<noteq> MSG_STAT then (True, s) else case super s of (b, s') \<Rightarrow> (\<not> b, s'))
              else (False, s)) of
          (True, s1) \<Rightarrow> (NoMsgOut, msg_error EINVAL s1)
        | (False, s1) \<Rightarrow>
            (case (if cmd = MSG_STAT then msg_stat i buf s1
                   else if cmd = MSG_SET then (NoMsgOut, msg_set i buf s1)
                   else if cmd = MSG_RMID then (NoMsgOut, msg_rmid now i s1)
                   else (NoMsgOut, s1\<lparr>u_error := EINVAL\<rparr>)) of
               (out, s2) \<Rightarrow> (out, MsgReturn (if u_error s2 \<noteq> E_NONE then -1 else 0) s2)))"

section \<open>msgget\<close>

definition fresh_queue :: "int \<Rightarrow> int \<Rightarrow> nat \<Rightarrow> msqid_ds" where
  "fresh_queue now qbytes i =
     \<lparr>msg_perm = \<lparr>ip_uid = 0, ip_gid = 0, ip_cuid = 0, ip_cgid = 0, ip_mode = 0,
                 ip_seq = uwrap16 (int i), ip_key = 0\<rparr>,
      msg_first = [], msg_last = None, msg_cbytes = 0, msg_qnum = 0, msg_qbytes = uwrap16 qbytes,
      msg_lspid = 0, msg_lrpid = 0, msg_stime = 0, msg_rtime = 0, msg_ctime = now\<rparr>"

text \<open>
  \<open>memset (msg_map, size, 0)\<close> has its last arguments swapped and writes nothing, so the map keeps
  what the memory held: \<open>old i\<close> tells whether word \<open>i\<close> of it was not 0. (Ids and key of the fresh
  queues are not set either; they are 0 here, and no operation reads them before they are set.)
\<close>

definition msginit ::
  "msg_conf \<Rightarrow> int \<Rightarrow> (nat \<Rightarrow> bool) \<Rightarrow> 'a msg_state_scheme \<Rightarrow> int \<times> 'a msg_state_scheme" where
  "msginit conf now old s =
     (case kalloc s of
        (None, s1) \<Rightarrow> (-1, s1)
      | (Some _, s1) \<Rightarrow>
          (case kalloc s1 of
             (None, s2) \<Rightarrow> (-1, s2)
           | (Some _, s2) \<Rightarrow>
               (case kalloc s2 of
                  (None, s3) \<Rightarrow> (-1, s3)
                | (Some _, s3) \<Rightarrow>
                    (0, s3\<lparr>msqs := Some (map (fresh_queue now (NMSQB s3)) [0..<nat (NMSQID conf)]),
                          msg_gate := (\<lambda>_. False),
                          msg_map := map (\<lambda>i. if old i then Stale else NoText)
                                       [0..<nat (NMSQID conf * NMSG conf)]\<rparr>))))"

text \<open>The search: the queue with the key, if any, and the oldest free queue passed.\<close>

fun msg_scan :: "int \<Rightarrow> nat \<Rightarrow> msqid_ds list \<Rightarrow> (nat \<times> int) option \<Rightarrow> nat option \<times> (nat \<times> int) option" where
  "msg_scan mykey i [] free = (None, free)"
| "msg_scan mykey i (q # qs) free =
     (if \<not> queue_alive q then
        msg_scan mykey (i + 1) qs
          (case free of
             None \<Rightarrow> Some (i, msg_ctime q)
           | Some (j, t) \<Rightarrow> if t > msg_ctime q then Some (i, msg_ctime q) else free)
      else if mykey = IPC_PRIVATE \<or> ip_key (msg_perm q) \<noteq> mykey then msg_scan mykey (i + 1) qs free
      else (Some i, free))"

definition umsgget ::
  "msg_conf \<Rightarrow> int \<Rightarrow> (nat \<Rightarrow> bool) \<Rightarrow> int \<Rightarrow> int \<Rightarrow> 'a msg_state_scheme \<Rightarrow> 'a msg_state_scheme msg_result" where
  "umsgget conf now old mykey msgflg s =
     (case (if msqs s = None then msginit conf now old s else (0, s)) of
        (r, s1) \<Rightarrow>
          if r \<noteq> 0 then msg_error ENOSPC s1
          else
            case msg_scan mykey 0 (the (msqs s1)) None of
              (Some i, _) \<Rightarrow>
                if msgflg AND (IPC_CREAT OR IPC_EXCL) = IPC_CREAT OR IPC_EXCL then msg_error EEXIST s1
                else (case ipc_lack_perm (msg_perm (queue_at s1 i)) msgflg s1 of
                        (True, s2) \<Rightarrow> MsgReturn (-1) s2
                      | (False, s2) \<Rightarrow> MsgReturn (ip_seq (msg_perm (queue_at s2 i))) s2)
            | (None, free) \<Rightarrow>
                if msgflg AND IPC_CREAT = 0 then msg_error ENOENT s1
                else case free of
                       None \<Rightarrow> msg_error ENOSPC s1
                     | Some (i, _) \<Rightarrow>
                         let s2 = upd_queue (\<lambda>q. q\<lparr>
                               msg_perm := (ipc_perm_init (msg_perm q) msgflg s1)\<lparr>ip_key := mykey\<rparr>,
                               msg_ctime := now, msg_qnum := 0, msg_lspid := 0, msg_lrpid := 0,
                               msg_stime := 0, msg_rtime := 0\<rparr>) i s1
                         in MsgReturn (ip_seq (msg_perm (queue_at s2 i))) s2)"

section \<open>msgsnd\<close>

text \<open>
  The user's message: its type as \<open>*bufp\<close> reads it in the kernel, as \<open>ukcopy\<close> reads it, and
  its text, each \<open>None\<close> if it cannot be read.
\<close>

record msg_ubuf =
  mb_peek :: "int option"
  mb_type :: "int option"
  mb_text :: "int list option"

fun find_index :: "('b \<Rightarrow> bool) \<Rightarrow> 'b list \<Rightarrow> nat" where
  "find_index P [] = 0"
| "find_index P (x # xs) = (if P x then 0 else Suc (find_index P xs))"

datatype 'a ready =
    Ready 'a               \<comment> \<open>with the queue locked\<close>
  | Stop "'a msg_result"

definition lock_queue :: "nat \<Rightarrow> 'a msg_state_scheme \<Rightarrow> 'a msg_state_scheme ready" where
  "lock_queue i s = (if msg_gate s i then Stop (MsgStuck s) else Ready (set_gate True i s))"

text \<open>
  The waiting loop of \<open>umsgsnd\<close>, with the queue locked. Each sleep consumes an entry of \<open>env\<close>.
\<close>

fun snd_wait ::
  "msg_conf \<Rightarrow> nat \<Rightarrow> int \<Rightarrow> int \<Rightarrow> int \<Rightarrow> (('a msg_state_scheme \<Rightarrow> 'a msg_state_scheme) \<times> bool) list
     \<Rightarrow> 'a msg_state_scheme \<Rightarrow> 'a msg_state_scheme ready" where
  "snd_wait conf i qid msgsz msgflg env s =
     (let q = queue_at s i in
      if \<not> (msg_qnum q \<ge> NMSG conf \<or> msg_qbytes q < msg_cbytes q + msgsz) then Ready s
      else if msgflg AND IPC_NOWAIT \<noteq> 0 then Stop (msg_error EAGAIN (set_gate False i s))
      else
        let s1 = set_gate False i (upd_queue (upd_mode (\<lambda>m. m OR MSG_WWAIT)) i s) in
        case env of
          [] \<Rightarrow> Stop (MsgAsleep s1)
        | (others, signalled) # env' \<Rightarrow>
            (let s2 = others s1 in
             if signalled then Stop (msg_error EINTR s2)
             else if qid \<noteq> ip_seq (msg_perm (queue_at s2 i)) then Stop (msg_error EINVAL s2)
             else case lock_queue i s2 of
                    Stop r \<Rightarrow> Stop r
                  | Ready s3 \<Rightarrow> snd_wait conf i qid msgsz msgflg env' s3))"

declare snd_wait.simps [simp del]

text \<open>After the wait: make the message and append it. A request for 0 bytes makes \<open>kalloc\<close> panic.\<close>

definition snd_deliver ::
  "msg_conf \<Rightarrow> int \<Rightarrow> int \<Rightarrow> nat \<Rightarrow> msg_ubuf \<Rightarrow> int \<Rightarrow> 'a msg_state_scheme \<Rightarrow> 'a msg_state_scheme msg_result" where
  "snd_deliver conf now pid i buf msgsz s =
     (let spot = find_index (\<lambda>e. e = NoText) (msg_map s) in
      if int spot \<ge> NMSQID conf * NMSG conf then msg_error ENOSPC s
      else
        case kalloc s of
          (None, s1) \<Rightarrow> msg_error ENOSPC (set_gate False i s1)
        | (Some _, s1) \<Rightarrow>
            if kalloc_panics msgsz then MsgPanic
            else
              case kalloc s1 of
                (None, s2) \<Rightarrow> msg_error ENOSPC (set_gate False i s2)
              | (Some _, s2) \<Rightarrow>
                  let s3 = (if mb_type buf = None \<or> mb_text buf = None then s2\<lparr>u_error := EFAULT\<rparr> else s2);
                      mp = \<lparr>msg_type = the (mb_type buf), msg_ts = uwrap16 msgsz,
                            msg_spot = wrap16 (int spot)\<rparr>;
                      s4 = set_spot (Text (take (nat msgsz) (the (mb_text buf)))) (int spot) s3
                  in if u_error s4 \<noteq> E_NONE then MsgReturn (-1) (set_gate False i (msgfree mp s4))
                     else
                       let s5 = set_gate False i (upd_queue (\<lambda>q. q\<lparr>
                             msg_first := msg_first q @ [mp], msg_last := Some (msg_spot mp),
                             msg_cbytes := uwrap16 (msg_cbytes q + msgsz),
                             msg_qnum := uwrap16 (msg_qnum q + 1),
                             msg_lspid := uwrap16 pid, msg_stime := now\<rparr>) i s4)
                       in MsgReturn 0
                            (if ip_mode (msg_perm (queue_at s5 i)) AND MSG_RWAIT \<noteq> 0
                             then (upd_queue (upd_mode (\<lambda>m. m AND NOT MSG_RWAIT)) i s5)
                                    \<lparr>msg_wakeups := i # msg_wakeups s5\<rparr>
                             else s5))"

definition umsgsnd ::
  "msg_conf \<Rightarrow> int \<Rightarrow> int \<Rightarrow> int \<Rightarrow> msg_ubuf \<Rightarrow> int \<Rightarrow> int
     \<Rightarrow> (('a msg_state_scheme \<Rightarrow> 'a msg_state_scheme) \<times> bool) list \<Rightarrow> 'a msg_state_scheme
     \<Rightarrow> 'a msg_state_scheme msg_result" where
  "umsgsnd conf now pid qid buf msgsz msgflg env s =
     (if msqs s = None then MsgPanic
      else
        let i = find_index (\<lambda>q. ip_seq (msg_perm q) = qid) (the (msqs s)) in
        if int i \<ge> NMSQID conf then msg_error EINVAL s
        else
          case ipc_lack_perm (msg_perm (queue_at s i)) IWUGO s of
            (True, s1) \<Rightarrow> MsgReturn (-1) s1
          | (False, s1) \<Rightarrow>
              if mb_peek buf = None then MsgPanic
              else if the (mb_peek buf) < 1 \<or> msgsz < 0 \<or> msgsz > NMSC conf \<or> msgsz > NMSQB s1
              then msg_error EINVAL s1
              else
                case lock_queue i s1 of
                  Stop r \<Rightarrow> r
                | Ready s2 \<Rightarrow>
                    (case snd_wait conf i qid msgsz msgflg env s2 of
                       Stop r \<Rightarrow> r
                     | Ready s3 \<Rightarrow> snd_deliver conf now pid i buf msgsz s3))"

section \<open>msgrcv\<close>

text \<open>
  The search for a message, which gives its position: for a negative type the first of the lowest
  type that is at most \<open>- msgtyp\<close>, \<open>best\<close> being the best so far.
\<close>

fun rcv_lowest :: "int \<Rightarrow> nat \<Rightarrow> msg list \<Rightarrow> (nat \<times> int) option \<Rightarrow> nat option" where
  "rcv_lowest t i [] best = map_option fst best"
| "rcv_lowest t i (m # ms) best =
     rcv_lowest t (i + 1) ms
       (if msg_type m > t then best
        else case best of
               None \<Rightarrow> Some (i, msg_type m)
             | Some (_, b) \<Rightarrow> if msg_type m < b then Some (i, msg_type m) else best)"

definition rcv_pick :: "int \<Rightarrow> msg list \<Rightarrow> nat option" where
  "rcv_pick msgtyp ms =
     (if msgtyp < 0 then rcv_lowest (wrap32 (- msgtyp)) 0 ms None
      else if msgtyp > 0 then
        (let i = find_index (\<lambda>m. msg_type m = msgtyp) ms in if i < length ms then Some i else None)
      else if ms = [] then None else Some 0)"

fun rcv_wait ::
  "nat \<Rightarrow> int \<Rightarrow> int \<Rightarrow> int \<Rightarrow> (('a msg_state_scheme \<Rightarrow> 'a msg_state_scheme) \<times> bool) list
     \<Rightarrow> 'a msg_state_scheme \<Rightarrow> 'a msg_state_scheme ready" where
  "rcv_wait i qid msgtyp msgflg env s =
     (if rcv_pick msgtyp (msg_first (queue_at s i)) \<noteq> None then Ready s
      else if msgflg AND IPC_NOWAIT \<noteq> 0 then Stop (msg_error ENOMSG (set_gate False i s))
      else
        let s1 = set_gate False i (upd_queue (upd_mode (\<lambda>m. m OR MSG_RWAIT)) i s) in
        case env of
          [] \<Rightarrow> Stop (MsgAsleep s1)
        | (others, signalled) # env' \<Rightarrow>
            (let s2 = others s1 in
             if signalled then Stop (msg_error EINTR s2)
             else if qid \<noteq> ip_seq (msg_perm (queue_at s2 i)) then Stop (msg_error EINVAL s2)
             else case lock_queue i s2 of
                    Stop r \<Rightarrow> Stop r
                  | Ready s3 \<Rightarrow> rcv_wait i qid msgtyp msgflg env' s3))"

declare rcv_wait.simps [simp del]

definition text_of :: "map_entry \<Rightarrow> int list" where
  "text_of e = (case e of Text t \<Rightarrow> t | _ \<Rightarrow> [])"

definition remove_nth :: "nat \<Rightarrow> 'b list \<Rightarrow> 'b list" where
  "remove_nth k xs = take k xs @ drop (Suc k) xs"

text \<open>The transfer of message \<open>k\<close>; \<open>out_ok\<close> is whether the user's buffer can be written.\<close>

definition rcv_deliver ::
  "int \<Rightarrow> int \<Rightarrow> nat \<Rightarrow> nat \<Rightarrow> bool \<Rightarrow> int \<Rightarrow> int \<Rightarrow> 'a msg_state_scheme
     \<Rightarrow> msg_out \<times> 'a msg_state_scheme msg_result" where
  "rcv_deliver now pid i k out_ok msgsz msgflg s =
     (let mp = msg_first (queue_at s i) ! k in
      if msgsz < msg_ts mp \<and> msgflg AND MSG_NOERROR = 0
      then (NoMsgOut, msg_error E2BIG (set_gate False i s))
      else
        let sz = (if msgsz > msg_ts mp then msg_ts mp else msgsz);
            s1 = (if \<not> out_ok then s\<lparr>u_error := EFAULT\<rparr> else s)
        in if u_error s1 \<noteq> E_NONE then (NoMsgOut, MsgReturn (-1) (set_gate False i s1))
           else
             let txt = text_of (msg_map s1 ! nat (msg_spot mp));
                 s2 = upd_queue (\<lambda>q. q\<lparr>
                   msg_first := remove_nth k (msg_first q),
                   msg_last := (if msg_last q = Some (msg_spot mp)
                                then (if k = 0 then None else Some (msg_spot (msg_first q ! (k - 1))))
                                else msg_last q),
                   msg_cbytes := uwrap16 (msg_cbytes q - msg_ts mp),
                   msg_qnum := uwrap16 (msg_qnum q - 1),
                   msg_lrpid := uwrap16 pid, msg_rtime := now\<rparr>) i s1;
                 s3 = set_gate False i (msgfree mp s2)
             in (TextOut (msg_type mp) (take (nat sz) txt),
                 MsgReturn sz
                   (if ip_mode (msg_perm (queue_at s3 i)) AND MSG_WWAIT \<noteq> 0
                    then (upd_queue (upd_mode (\<lambda>m. m AND NOT MSG_WWAIT)) i s3)
                           \<lparr>msg_wakeups := i # msg_wakeups s3\<rparr>
                    else s3)))"

definition umsgrcv ::
  "msg_conf \<Rightarrow> int \<Rightarrow> int \<Rightarrow> int \<Rightarrow> bool \<Rightarrow> int \<Rightarrow> int \<Rightarrow> int
     \<Rightarrow> (('a msg_state_scheme \<Rightarrow> 'a msg_state_scheme) \<times> bool) list \<Rightarrow> 'a msg_state_scheme
     \<Rightarrow> msg_out \<times> 'a msg_state_scheme msg_result" where
  "umsgrcv conf now pid qid out_ok msgsz msgtyp msgflg env s =
     (if qid < 0 \<or> msqs s = None then (NoMsgOut, msg_error EINVAL s)
      else
        let i = nat (qid mod NMSQID conf); q = queue_at s i in
        if ip_seq (msg_perm q) \<noteq> qid \<or> \<not> queue_alive q then (NoMsgOut, msg_error EINVAL s)
        else
          case ipc_lack_perm (msg_perm q) IRUGO s of
            (True, s1) \<Rightarrow> (NoMsgOut, MsgReturn (-1) s1)
          | (False, s1) \<Rightarrow>
              (case lock_queue i s1 of
                 Stop r \<Rightarrow> (NoMsgOut, r)
               | Ready s2 \<Rightarrow>
                   (case rcv_wait i qid msgtyp msgflg env s2 of
                      Stop r \<Rightarrow> (NoMsgOut, r)
                    | Ready s3 \<Rightarrow>
                        rcv_deliver now pid i (the (rcv_pick msgtyp (msg_first (queue_at s3 i))))
                          out_ok msgsz msgflg s3)))"

section \<open>The system call\<close>

datatype msg_call =
    Msgget int int
  | Msgctl int int msq_buf
  | Msgrcv int bool int int int
  | Msgsnd int msg_ubuf int int
  | Msg_other

definition umsgsys ::
  "msg_conf \<Rightarrow> int \<Rightarrow> int \<Rightarrow> (nat \<Rightarrow> bool) \<Rightarrow> msg_call
     \<Rightarrow> (('a msg_state_scheme \<Rightarrow> 'a msg_state_scheme) \<times> bool) list \<Rightarrow> 'a msg_state_scheme
     \<Rightarrow> msg_out \<times> 'a msg_state_scheme msg_result" where
  "umsgsys conf now pid old call env s =
     (case call of
        Msgget mykey msgflg \<Rightarrow> (NoMsgOut, umsgget conf now old mykey msgflg s)
      | Msgctl qid cmd buf \<Rightarrow> umsgctl conf now qid cmd buf s
      | Msgrcv qid out_ok msgsz msgtyp msgflg \<Rightarrow> umsgrcv conf now pid qid out_ok msgsz msgtyp msgflg env s
      | Msgsnd qid buf msgsz msgflg \<Rightarrow> (NoMsgOut, umsgsnd conf now pid qid buf msgsz msgflg env s)
      | Msg_other \<Rightarrow> (NoMsgOut, MsgNoValue (s\<lparr>u_error := EINVAL\<rparr>)))"

end
