(* ===== verification/Message_Laws.thy ===== *)
theory Message_Laws
  imports Messages Id_Tables
begin

text \<open>
  The store of messages: its invariant, that appending, removing and freeing messages keep it, and
  that a queue with room finds a free place in the map. Then the operations: what each leaves, and
  the abstract contents of the queues.
\<close>

section \<open>The store\<close>

definition spots :: "msqid_ds \<Rightarrow> int list" where
  "spots q = map msg_spot (msg_first q)"

definition all_spots :: "msqid_ds list \<Rightarrow> int list" where
  "all_spots qs = concat (map spots qs)"

definition spot_ok :: "map_entry list \<Rightarrow> msg \<Rightarrow> bool" where
  "spot_ok mp m \<longleftrightarrow>
     0 \<le> msg_spot m \<and> nat (msg_spot m) < length mp \<and>
     (\<exists>t. mp ! nat (msg_spot m) = Text t \<and> int (length t) = msg_ts m)"

definition queue_ok :: "msg_conf \<Rightarrow> map_entry list \<Rightarrow> msqid_ds \<Rightarrow> bool" where
  "queue_ok conf mp q \<longleftrightarrow>
     (\<forall>m\<in>set (msg_first q). spot_ok mp m) \<and>
     msg_qnum q = int (length (msg_first q)) \<and> msg_qnum q \<le> NMSG conf \<and>
     msg_cbytes q = sum_list (map msg_ts (msg_first q)) \<and> msg_cbytes q \<le> 65535 \<and>
     msg_qbytes q \<le> 65535 \<and>
     msg_last q = (if msg_first q = [] then None else Some (msg_spot (last (msg_first q)))) \<and>
     (\<not> queue_alive q \<longrightarrow> msg_first q = [])"

definition store_ok :: "msg_conf \<Rightarrow> msqid_ds list \<Rightarrow> map_entry list \<Rightarrow> bool" where
  "store_ok conf qs mp \<longleftrightarrow>
     length qs = nat (NMSQID conf) \<and> length mp = nat (NMSQID conf * NMSG conf) \<and>
     (\<forall>q\<in>set qs. queue_ok conf mp q) \<and> distinct (all_spots qs) \<and>
     (\<forall>p<length mp. mp ! p \<noteq> NoText \<longrightarrow> int p \<in> set (all_spots qs))"

definition msg_conf_ok :: "msg_conf \<Rightarrow> bool" where
  "msg_conf_ok conf \<longleftrightarrow>
     0 < NMSQID conf \<and> 0 < NMSG conf \<and> NMSQID conf * NMSG conf \<le> 32767 \<and> NMSG conf \<le> 32767 \<and>
     0 \<le> NMSC conf \<and> NMSC conf \<le> 65535"

lemma spots_split:
  assumes "i < length qs"
  obtains A B where "\<And>q. all_spots (qs[i := q]) = A @ spots q @ B" "all_spots qs = A @ spots (qs ! i) @ B"
proof
  show "\<And>q. all_spots (qs[i := q]) =
      all_spots (take i qs) @ spots q @ all_spots (drop (Suc i) qs)"
    using assms by (simp add: all_spots_def upd_conv_take_nth_drop)
  then show "all_spots qs = all_spots (take i qs) @ spots (qs ! i) @ all_spots (drop (Suc i) qs)"
    by (metis list_update_id)
qed

lemma spots_in: "q \<in> set qs \<Longrightarrow> m \<in> set (msg_first q) \<Longrightarrow> msg_spot m \<in> set (all_spots qs)"
  by (auto simp: all_spots_def spots_def)

text \<open>The messages of two queues have different places.\<close>

lemma spots_apart:
  assumes "distinct (all_spots qs)" "i < length qs" "j < length qs" "j \<noteq> i" "m \<in> set (msg_first (qs ! j))"
  shows "msg_spot m \<in> set (all_spots qs) - set (spots (qs ! i))"
proof -
  obtain A B where ab: "\<And>q. all_spots (qs[i := q]) = A @ spots q @ B" "all_spots qs = A @ spots (qs ! i) @ B"
    using spots_split [OF assms(2)] by metis
  let ?e = "(qs ! i)\<lparr>msg_first := []\<rparr>"
  have "qs ! j = qs[i := ?e] ! j" using assms(4) by simp
  then have "qs ! j \<in> set (qs[i := ?e])" using assms(3) by (metis length_list_update nth_mem)
  then have "msg_spot m \<in> set (all_spots (qs[i := ?e]))" using assms(5) by (rule spots_in)
  then have "msg_spot m \<in> set (A @ B)" using ab(1) [of ?e] by (simp add: spots_def)
  then show ?thesis using assms(1) ab(2) by auto
qed

lemma spot_ok_other:
  "spot_ok mp m \<Longrightarrow> msg_spot m \<noteq> p \<Longrightarrow> 0 \<le> p \<Longrightarrow> spot_ok (mp[nat p := e]) m"
  unfolding spot_ok_def by (metis length_list_update nat_eq_iff2 nth_list_update_neq)

text \<open>An update of queue \<open>i\<close> alone, with a map in which the other queues' texts are unchanged.\<close>

lemma store_update:
  assumes ok: "store_ok conf qs mp" and i: "i < length qs" and len: "length mp' = length mp"
    and q: "queue_ok conf mp' q'"
    and old: "\<And>p. 0 \<le> p \<Longrightarrow> p \<in> set (all_spots qs) \<Longrightarrow> p \<notin> set (spots (qs ! i)) \<Longrightarrow> mp' ! nat p = mp ! nat p"
    and d: "distinct (spots q')" "set (spots q') \<inter> (set (all_spots qs) - set (spots (qs ! i))) = {}"
    and cover: "\<And>p. p < length mp \<Longrightarrow> mp' ! p \<noteq> NoText \<Longrightarrow>
        int p \<in> set (spots q') \<or> int p \<in> set (all_spots qs) - set (spots (qs ! i))"
  shows "store_ok conf (qs[i := q']) mp'"
proof -
  obtain A B where ab: "\<And>q. all_spots (qs[i := q]) = A @ spots q @ B"
      "all_spots qs = A @ spots (qs ! i) @ B"
    using spots_split [OF i] by metis
  have dq: "distinct (all_spots qs)" using ok by (simp add: store_ok_def)
  then have rest: "set (all_spots qs) - set (spots (qs ! i)) = set A \<union> set B"
    using ab(2) by auto
  have dist: "distinct (all_spots (qs[i := q']))"
    using dq d rest ab by auto
  have each: "queue_ok conf mp' q" if qin: "q \<in> set (qs[i := q'])" for q
  proof (cases "q = q'")
    case False
    obtain j where j: "j < length qs" "qs[i := q'] ! j = q"
      using iffD1 [OF in_set_conv_nth qin] by (simp only: length_list_update) blast
    with False i have ne: "j \<noteq> i" by auto
    with j have qj: "q = qs ! j" by simp
    then have qq: "q \<in> set qs" using j(1) by simp
    have sq: "set (spots q) \<subseteq> set A \<union> set B"
      unfolding rest [symmetric] qj using spots_apart [OF dq i j(1) ne] by (auto simp: spots_def [of "qs ! j"])
    have "queue_ok conf mp q" using ok qq by (simp add: store_ok_def)
    moreover have "spot_ok mp' m" if "m \<in> set (msg_first q)" "spot_ok mp m" for m
    proof -
      have "msg_spot m \<in> set A \<union> set B" using that(1) sq by (auto simp: spots_def)
      then have "mp' ! nat (msg_spot m) = mp ! nat (msg_spot m)"
        using old [of "msg_spot m"] rest that(2) by (auto simp: spot_ok_def)
      then show ?thesis using that(2) len by (simp add: spot_ok_def)
    qed
    ultimately show ?thesis unfolding queue_ok_def by blast
  qed (simp add: q)
  have "int p \<in> set (all_spots (qs[i := q']))" if "p < length mp'" "mp' ! p \<noteq> NoText" for p
    using cover [of p] that len rest ab(1) by auto
  then show ?thesis using ok dist each len by (simp add: store_ok_def)
qed

lemma find_index_found: "find_index P xs < length xs \<Longrightarrow> P (xs ! find_index P xs)"
  by (induction xs) auto

lemma find_index_before: "k < find_index P xs \<Longrightarrow> \<not> P (xs ! k)"
  by (induction xs arbitrary: k) (auto simp: nth_Cons split: nat.splits if_splits)

lemma find_index_le: "find_index P xs \<le> length xs"
  by (induction xs) auto

lemma find_index_none: "find_index P xs = length xs \<longleftrightarrow> (\<forall>x\<in>set xs. \<not> P x)"
  by (induction xs) auto

lemma find_index_first: "k < length xs \<Longrightarrow> P (xs ! k) \<Longrightarrow> find_index P xs \<le> k"
  using find_index_before [of k P xs] by (meson not_le)

text \<open>A queue that is not full finds a free place in the map.\<close>

lemma count_spots:
  assumes "\<forall>q\<in>set qs. queue_ok conf mp q" "0 < NMSG conf"
  shows "int (length (all_spots qs)) \<le> int (length qs) * NMSG conf"
  using assms(1)
proof (induction qs)
  case (Cons q qs)
  then have "int (length (msg_first q)) \<le> NMSG conf" by (auto simp: queue_ok_def)
  with Cons show ?case by (simp add: all_spots_def spots_def algebra_simps)
qed (simp add: all_spots_def)

lemma free_spot:
  assumes ok: "store_ok conf qs mp" and c: "msg_conf_ok conf"
    and i: "i < length qs" and room: "msg_qnum (qs ! i) < NMSG conf"
  shows "find_index (\<lambda>e. e = NoText) mp < length mp"
proof (rule ccontr)
  assume "\<not> ?thesis"
  then have "find_index (\<lambda>e. e = NoText) mp = length mp"
    using find_index_le [of "\<lambda>e. e = NoText" mp] by simp
  then have full: "int p \<in> set (all_spots qs)" if "p < length mp" for p
    using that ok by (auto simp: find_index_none store_ok_def)
  obtain A B where ab: "\<And>q. all_spots (qs[i := q]) = A @ spots q @ B"
      "all_spots qs = A @ spots (qs ! i) @ B"
    using spots_split [OF i] by metis
  let ?e = "(qs ! i)\<lparr>msg_first := [], msg_qnum := 0, msg_cbytes := 0, msg_last := None\<rparr>"
  have q: "queue_ok conf mp (qs ! i)" and pos: "0 < NMSG conf"
    using ok i c by (auto simp: store_ok_def msg_conf_ok_def)
  have "queue_ok conf mp ?e" using q pos by (simp add: queue_ok_def)
  then have "\<forall>q\<in>set (take i qs @ drop (Suc i) qs). queue_ok conf mp q"
    using ok by (auto simp: store_ok_def dest: in_set_takeD in_set_dropD)
  then have bound: "int (length (all_spots (take i qs @ drop (Suc i) qs)))
      \<le> int (length (take i qs @ drop (Suc i) qs)) * NMSG conf"
    by (rule count_spots) (rule pos)
  have "all_spots (take i qs @ drop (Suc i) qs) = all_spots (qs[i := ?e])"
    using i by (simp add: all_spots_def upd_conv_take_nth_drop spots_def)
  then have "all_spots (take i qs @ drop (Suc i) qs) = A @ B"
    using ab(1) [of ?e] by (simp add: spots_def)
  moreover have "length (take i qs @ drop (Suc i) qs) = length qs - 1"
    using i by (simp add: min_absorb2)
  ultimately have "int (length (A @ B)) \<le> int (length qs - 1) * NMSG conf" using bound by metis
  moreover have "int (length (spots (qs ! i))) < NMSG conf"
    using q room by (simp add: queue_ok_def spots_def)
  ultimately have "int (length (all_spots qs)) < int (length qs - 1) * NMSG conf + NMSG conf"
    using ab(2) by simp
  also have "\<dots> = int (length qs) * NMSG conf"
    using i by (simp add: of_nat_diff algebra_simps)
  finally have lt: "length (all_spots qs) < length mp"
    using ok c pos by (simp add: store_ok_def msg_conf_ok_def)
  have "int ` {..<length mp} \<subseteq> set (all_spots qs)" using full by auto
  then have "card (int ` {..<length mp}) \<le> card (set (all_spots qs))" by (intro card_mono) auto
  then have "length mp \<le> length (all_spots qs)"
    using card_length [of "all_spots qs"] by (simp add: card_image)
  with lt show False by simp
qed

text \<open>Appending a message, taking one out, and freeing all of a queue's.\<close>

lemma store_append:
  assumes ok: "store_ok conf qs mp" and c: "msg_conf_ok conf" and i: "i < length qs"
    and room: "msg_qnum (qs ! i) < NMSG conf"
    and p: "p = find_index (\<lambda>e. e = NoText) mp"
    and m: "msg_spot m = int p" "msg_ts m = int (length t)"
    and q': "msg_first q' = msg_first (qs ! i) @ [m]" "msg_last q' = Some (msg_spot m)"
      "msg_qnum q' = msg_qnum (qs ! i) + 1" "msg_cbytes q' = msg_cbytes (qs ! i) + int (length t)"
      "msg_cbytes (qs ! i) + int (length t) \<le> msg_qbytes (qs ! i)"
      "msg_qbytes q' = msg_qbytes (qs ! i)" "queue_alive q'"
  shows "store_ok conf (qs[i := q']) (mp[p := Text t])"
proof (rule store_update [OF ok i])
  have pl: "p < length mp" using free_spot [OF ok c i room] p by simp
  then have free: "mp ! p = NoText" using find_index_found [of "\<lambda>e. e = NoText" mp] p by simp
  have fresh: "msg_spot x \<noteq> int p" if "q \<in> set qs" "x \<in> set (msg_first q)" for q x
  proof
    assume "msg_spot x = int p"
    moreover have "spot_ok mp x" using ok that by (auto simp: store_ok_def queue_ok_def)
    ultimately show False using free by (simp add: spot_ok_def)
  qed
  have q: "queue_ok conf mp (qs ! i)" using ok i by (simp add: store_ok_def)
  have "spot_ok (mp[p := Text t]) x" if "x \<in> set (msg_first (qs ! i))" for x
    using spot_ok_other [of mp x "int p"] q that fresh [of "qs ! i" x] i by (auto simp: queue_ok_def)
  moreover have "spot_ok (mp[p := Text t]) m" using m pl by (simp add: spot_ok_def)
  ultimately show "queue_ok conf (mp[p := Text t]) q'"
    using q q' m room by (auto simp: queue_ok_def)
  show "mp[p := Text t] ! nat x = mp ! nat x" if "0 \<le> x" "x \<in> set (all_spots qs)" for x
  proof -
    have "x \<noteq> int p" using that fresh by (auto simp: all_spots_def spots_def)
    then show ?thesis using that(1) by simp
  qed
  have new: "int p \<notin> set (all_spots qs)"
  proof
    assume "int p \<in> set (all_spots qs)"
    then obtain q x where "q \<in> set qs" "x \<in> set (msg_first q)" "msg_spot x = int p"
      by (auto simp: all_spots_def spots_def)
    with fresh show False by blast
  qed
  obtain A B where "all_spots qs = A @ spots (qs ! i) @ B"
    using spots_split [OF i] by metis
  then have di: "distinct (spots (qs ! i))" "set (spots (qs ! i)) \<subseteq> set (all_spots qs)"
    using ok by (auto simp: store_ok_def)
  have sq: "spots q' = spots (qs ! i) @ [int p]" using q' m by (simp add: spots_def)
  show "distinct (spots q')" using di new sq by auto
  show "set (spots q') \<inter> (set (all_spots qs) - set (spots (qs ! i))) = {}" using new sq by auto
  show "int x \<in> set (spots q') \<or> int x \<in> set (all_spots qs) - set (spots (qs ! i))"
    if "x < length mp" "mp[p := Text t] ! x \<noteq> NoText" for x
    using that ok sq by (cases "x = p") (auto simp: store_ok_def)
qed simp

lemma set_remove_nth:
  assumes "distinct (map f xs)" "k < length xs"
  shows "set (map f (remove_nth k xs)) = set (map f xs) - {f (xs ! k)}"
proof -
  have e: "xs = take k xs @ xs ! k # drop (Suc k) xs" using assms(2) by (simp add: id_take_nth_drop)
  define A where "A = map f (take k xs)"
  define B where "B = map f (drop (Suc k) xs)"
  have "map f xs = A @ f (xs ! k) # B" by (subst e) (simp add: A_def B_def)
  with assms(1) have "distinct (A @ f (xs ! k) # B)" "set (map f xs) = set A \<union> {f (xs ! k)} \<union> set B" by auto
  moreover have "map f (remove_nth k xs) = A @ B" by (simp add: remove_nth_def A_def B_def)
  ultimately show ?thesis by auto
qed

lemma remove_nth_facts:
  fixes g :: "'b \<Rightarrow> int"
  assumes "k < length xs"
  shows "length (remove_nth k xs) = length xs - 1"
    "sum_list (map g (remove_nth k xs)) = sum_list (map g xs) - g (xs ! k)"
    "set (remove_nth k xs) \<subseteq> set xs"
    "distinct (map f xs) \<Longrightarrow> distinct (map f (remove_nth k xs))"
    "remove_nth k xs \<noteq> [] \<Longrightarrow> last (remove_nth k xs) = (if Suc k = length xs then xs ! (k - 1) else last xs)"
proof -
  have e: "xs = take k xs @ xs ! k # drop (Suc k) xs" using assms by (simp add: id_take_nth_drop)
  show "length (remove_nth k xs) = length xs - 1" using assms by (simp add: remove_nth_def min_absorb2)
  have "sum_list (map g xs) = sum_list (map g (take k xs @ xs ! k # drop (Suc k) xs))" using e by metis
  then show "sum_list (map g (remove_nth k xs)) = sum_list (map g xs) - g (xs ! k)"
    by (simp add: remove_nth_def)
  show "set (remove_nth k xs) \<subseteq> set xs"
    unfolding remove_nth_def using set_take_subset set_drop_subset by fastforce
  show "distinct (map f xs) \<Longrightarrow> distinct (map f (remove_nth k xs))"
    by (subst (asm) e) (auto simp: remove_nth_def)
  show "remove_nth k xs \<noteq> [] \<Longrightarrow>
      last (remove_nth k xs) = (if Suc k = length xs then xs ! (k - 1) else last xs)"
  proof (cases "Suc k = length xs")
    case True
    then show "remove_nth k xs \<noteq> [] \<Longrightarrow> ?thesis"
      by (auto simp: remove_nth_def last_conv_nth min_absorb2)
  next
    case False
    then have "drop (Suc k) xs \<noteq> []" using assms by simp
    then have "last (remove_nth k xs) = last xs" by (simp add: remove_nth_def last_append last_drop)
    with False show ?thesis by simp
  qed
qed

lemma remove_nth_empty: "k < length xs \<Longrightarrow> remove_nth k xs = [] \<longleftrightarrow> length xs = 1"
  by (cases xs) (auto simp: remove_nth_def)

lemma spots_at:
  assumes "store_ok conf qs mp" "i < length qs"
  shows "distinct (spots (qs ! i))" "set (spots (qs ! i)) \<subseteq> set (all_spots qs)"
proof -
  obtain A B where "all_spots qs = A @ spots (qs ! i) @ B"
    using spots_split [OF assms(2)] by metis
  then show "distinct (spots (qs ! i))" "set (spots (qs ! i)) \<subseteq> set (all_spots qs)"
    using assms(1) by (auto simp: store_ok_def)
qed

lemma store_remove:
  assumes ok: "store_ok conf qs mp" and i: "i < length qs"
    and k: "k < length (msg_first (qs ! i))" and m: "m = msg_first (qs ! i) ! k"
    and q': "msg_first q' = remove_nth k (msg_first (qs ! i))"
      "msg_last q' = (if msg_last (qs ! i) = Some (msg_spot m)
         then (if k = 0 then None else Some (msg_spot (msg_first (qs ! i) ! (k - 1)))) else msg_last (qs ! i))"
      "msg_qnum q' = msg_qnum (qs ! i) - 1" "msg_cbytes q' = msg_cbytes (qs ! i) - msg_ts m"
      "msg_qbytes q' = msg_qbytes (qs ! i)" "queue_alive q' = queue_alive (qs ! i)"
  shows "store_ok conf (qs[i := q']) (mp[nat (msg_spot m) := NoText])"
proof (rule store_update [OF ok i])
  let ?ms = "msg_first (qs ! i)"
  have q: "queue_ok conf mp (qs ! i)" using ok i by (simp add: store_ok_def)
  then have pos: "0 \<le> msg_ts x" "0 \<le> msg_spot x" if "x \<in> set ?ms" for x
    using that by (auto simp: queue_ok_def spot_ok_def)
  have mem: "m \<in> set ?ms" using k m by simp
  have d: "distinct (map msg_spot ?ms)" using spots_at(1) [OF ok i] by (simp add: spots_def)
  have sq: "set (spots q') = set (spots (qs ! i)) - {msg_spot m}"
    using set_remove_nth [OF d k] q'(1) m by (simp add: spots_def)
  have "spot_ok (mp[nat (msg_spot m) := NoText]) x" if "x \<in> set (msg_first q')" for x
  proof (rule spot_ok_other)
    show "msg_spot x \<noteq> msg_spot m" using that sq by (auto simp: spots_def)
    show "spot_ok mp x" using that q remove_nth_facts(3) [OF k] q'(1) by (auto simp: queue_ok_def)
  qed (use mem pos in simp)
  moreover have "msg_last q' = (if msg_first q' = [] then None else Some (msg_spot (last (msg_first q'))))"
  proof (cases "Suc k = length ?ms")
    case True
    then have "m = last ?ms" using m k by (metis diff_Suc_1 last_conv_nth length_0_conv not_less_zero)
    then have "msg_last (qs ! i) = Some (msg_spot m)" using q k by (auto simp: queue_ok_def)
    then show ?thesis
      using q'(1,2) True k remove_nth_facts(5) [OF k] remove_nth_empty [OF k] by auto
  next
    case False
    then have "last ?ms \<noteq> m" using m k d
      by (metis Suc_lessI distinct_map last_conv_nth length_0_conv nth_eq_iff_index_eq diff_Suc_1
          Suc_pred diff_less less_Suc_eq not_less_zero zero_less_one length_greater_0_conv)
    moreover have "last ?ms \<in> set ?ms" using k by (metis last_in_set length_0_conv not_less_zero)
    ultimately have "msg_spot (last ?ms) \<noteq> msg_spot m" using d mem by (auto simp: distinct_map inj_on_def)
    then have "msg_last q' = msg_last (qs ! i)" "msg_last (qs ! i) = Some (msg_spot (last ?ms))"
      using q'(2) q k by (auto simp: queue_ok_def)
    moreover have "msg_first q' \<noteq> []" using False k remove_nth_empty [OF k] q'(1) by auto
    ultimately show ?thesis using remove_nth_facts(5) [OF k] q'(1) False by auto
  qed
  moreover have "sum_list (map msg_ts (msg_first q')) = msg_cbytes q'"
    using remove_nth_facts(2) [OF k, of msg_ts] q' m q by (simp add: queue_ok_def)
  moreover have "msg_cbytes q' \<le> 65535" "msg_qnum q' = int (length (msg_first q'))" "msg_qnum q' \<le> NMSG conf"
    using q q' pos(1) [OF mem] remove_nth_facts(1) [OF k] k by (auto simp: queue_ok_def)
  moreover have "\<not> queue_alive q' \<longrightarrow> msg_first q' = []" using q q'(6) k by (auto simp: queue_ok_def)
  ultimately show "queue_ok conf (mp[nat (msg_spot m) := NoText]) q'"
    using q q'(5) by (simp add: queue_ok_def)
  have inm: "msg_spot m \<in> set (spots (qs ! i))" using mem by (simp add: spots_def)
  show "mp[nat (msg_spot m) := NoText] ! nat x = mp ! nat x"
    if "0 \<le> x" "x \<notin> set (spots (qs ! i))" for x
    using that inm pos(2) [OF mem] by (metis nat_eq_iff2 nth_list_update_neq nat_0_le)
  show "distinct (spots q')"
    using remove_nth_facts(4) [OF k, of msg_spot] d q'(1) by (simp add: spots_def)
  show "set (spots q') \<inter> (set (all_spots qs) - set (spots (qs ! i))) = {}" using sq by auto
  show "int x \<in> set (spots q') \<or> int x \<in> set (all_spots qs) - set (spots (qs ! i))"
    if "x < length mp" "mp[nat (msg_spot m) := NoText] ! x \<noteq> NoText" for x
  proof -
    have "x \<noteq> nat (msg_spot m)" using that by auto
    then have "mp ! x \<noteq> NoText" "int x \<noteq> msg_spot m" using that by auto
    then show ?thesis using that(1) ok sq by (auto simp: store_ok_def)
  qed
qed simp

lemma fold_msgfree:
  "fold msgfree ms s = s\<lparr>msg_map := fold (\<lambda>m mp. mp[nat (msg_spot m) := NoText]) ms (msg_map s)\<rparr>"
  by (induction ms arbitrary: s) (simp_all add: msgfree_def set_spot_def)

lemma fold_free_nth:
  "p < length mp \<Longrightarrow>
   fold (\<lambda>m mp. mp[nat (msg_spot m) := NoText]) ms mp ! p =
     (if \<exists>m\<in>set ms. nat (msg_spot m) = p then NoText else mp ! p)"
  by (induction ms arbitrary: mp) (auto simp: nth_list_update)

lemma fold_free_length [simp]:
  "length (fold (\<lambda>m mp. mp[nat (msg_spot m) := NoText]) ms mp) = length mp"
  by (induction ms arbitrary: mp) simp_all

lemma store_clear:
  assumes ok: "store_ok conf qs mp" and c: "msg_conf_ok conf" and i: "i < length qs"
    and q': "msg_first q' = []" "msg_last q' = None" "msg_qnum q' = 0" "msg_cbytes q' = 0"
      "msg_qbytes q' \<le> 65535"
  shows "store_ok conf (qs[i := q']) (fold (\<lambda>m mp. mp[nat (msg_spot m) := NoText]) (msg_first (qs ! i)) mp)"
proof (rule store_update [OF ok i])
  let ?mp = "fold (\<lambda>m mp. mp[nat (msg_spot m) := NoText]) (msg_first (qs ! i)) mp"
  show "queue_ok conf ?mp q'" using q' c by (simp add: queue_ok_def msg_conf_ok_def)
  have pos: "0 \<le> msg_spot x" "nat (msg_spot x) < length mp" if "q \<in> set qs" "x \<in> set (msg_first q)" for q x
    using that ok by (auto simp: store_ok_def queue_ok_def spot_ok_def)
  show "?mp ! nat x = mp ! nat x" if "0 \<le> x" "x \<in> set (all_spots qs)" "x \<notin> set (spots (qs ! i))" for x
  proof -
    have "nat x < length mp" using that(2) pos by (auto simp: all_spots_def spots_def)
    moreover have "\<not> (\<exists>m\<in>set (msg_first (qs ! i)). nat (msg_spot m) = nat x)"
    proof
      assume "\<exists>m\<in>set (msg_first (qs ! i)). nat (msg_spot m) = nat x"
      then obtain m where m: "m \<in> set (msg_first (qs ! i))" "nat (msg_spot m) = nat x" by blast
      then have "0 \<le> msg_spot m" using pos(1) i nth_mem by blast
      with m that(1) have "msg_spot m = x" by (simp add: eq_nat_nat_iff)
      with m that(3) show False by (auto simp: spots_def)
    qed
    ultimately show ?thesis by (simp add: fold_free_nth)
  qed
  show "distinct (spots q')" "set (spots q') \<inter> (set (all_spots qs) - set (spots (qs ! i))) = {}"
    using q' by (simp_all add: spots_def)
  show "int x \<in> set (spots q') \<or> int x \<in> set (all_spots qs) - set (spots (qs ! i))"
    if "x < length mp" "?mp ! x \<noteq> NoText" for x
  proof -
    have n: "\<not> (\<exists>m\<in>set (msg_first (qs ! i)). nat (msg_spot m) = x)" "mp ! x \<noteq> NoText"
      using that by (auto simp: fold_free_nth split: if_splits)
    then have "int x \<notin> set (spots (qs ! i))" by (auto simp: spots_def dest: sym [of "int x"])
    then show ?thesis using n(2) that(1) ok by (auto simp: store_ok_def)
  qed
qed simp

text \<open>A change of a queue's times, limits or permissions.\<close>

lemma store_same:
  assumes ok: "store_ok conf qs mp" and i: "i < length qs"
    and q': "msg_first q' = msg_first (qs ! i)" "msg_last q' = msg_last (qs ! i)"
      "msg_qnum q' = msg_qnum (qs ! i)" "msg_cbytes q' = msg_cbytes (qs ! i)" "msg_qbytes q' \<le> 65535"
      "queue_alive (qs ! i) \<longrightarrow> queue_alive q'"
  shows "store_ok conf (qs[i := q']) mp"
proof (rule store_update [OF ok i])
  have "queue_ok conf mp (qs ! i)" using ok i by (simp add: store_ok_def)
  then show "queue_ok conf mp q'" using q' by (auto simp: queue_ok_def)
  have s: "spots q' = spots (qs ! i)" using q' by (simp add: spots_def)
  show "distinct (spots q')" "set (spots q') \<inter> (set (all_spots qs) - set (spots (qs ! i))) = {}"
    using spots_at [OF ok i] s by auto
  show "int x \<in> set (spots q') \<or> int x \<in> set (all_spots qs) - set (spots (qs ! i))"
    if "x < length mp" "mp ! x \<noteq> NoText" for x
    using that ok s by (auto simp: store_ok_def)
qed simp_all

section \<open>The search\<close>

lemma msg_scan_eq:
  "msg_scan key k qs free =
     ipc_scan queue_alive (\<lambda>q. \<not> (key = IPC_PRIVATE \<or> ip_key (msg_perm q) \<noteq> key)) msg_ctime k qs free"
  by (induction qs arbitrary: k free) simp_all

lemmas msg_scan_result = ipc_scan_result [where alive = queue_alive and ctime = msg_ctime
    and match = "\<lambda>q. \<not> (key = IPC_PRIVATE \<or> ip_key (msg_perm q) \<noteq> key)" for key, folded msg_scan_eq]

end
