(* ===== verification/Message_Contents.thy ===== *)
theory Message_Contents
  imports Message_Laws
begin

text \<open>
  What the message calls keep and do, in terms of the contents of the queues: the list of
  types and texts of the messages that wait.
\<close>

section \<open>Frames\<close>

lemma same_kernel_msg:
  "same_kernel s t \<Longrightarrow> msqs t = msqs s \<and> msg_gate t = msg_gate s \<and> msg_map t = msg_map s \<and>
     NMSQB t = NMSQB s \<and> kallocs t = kallocs s \<and> msg_wakeups t = msg_wakeups s"
  unfolding same_kernel_def
  by (drule arg_cong [of _ _ "\<lambda>s. (msqs s, msg_gate s, msg_map s, NMSQB s, kallocs s, msg_wakeups s)"]) simp

lemma kalloc_msg:
  assumes "kalloc s = (r, t)"
  shows "msqs t = msqs s" "msg_gate t = msg_gate s" "msg_map t = msg_map s" "NMSQB t = NMSQB s"
    "r \<noteq> None \<Longrightarrow> u_error t = u_error s"
  using assms by (auto simp: kalloc_def split: list.splits option.splits)

lemma queue_at_fields [simp]:
  "queue_at (s\<lparr>u_error := e\<rparr>) j = queue_at s j" "queue_at (s\<lparr>msg_gate := g\<rparr>) j = queue_at s j"
  "queue_at (s\<lparr>msg_map := mp\<rparr>) j = queue_at s j" "queue_at (s\<lparr>msg_wakeups := w\<rparr>) j = queue_at s j"
  "queue_at (s\<lparr>NMSQB := b\<rparr>) j = queue_at s j" "queue_at (set_gate g' i s) j = queue_at s j"
  "queue_at (set_spot en p s) j = queue_at s j"
  by (simp_all add: queue_at_def set_gate_def set_spot_def)

lemma gate_fields [simp]:
  "msqs (set_gate b i s) = msqs s" "msg_map (set_gate b i s) = msg_map s"
  "msg_gate (set_gate b i s) = (msg_gate s)(i := b)" "u_error (set_gate b i s) = u_error s"
  "kallocs (set_gate b i s) = kallocs s" "NMSQB (set_gate b i s) = NMSQB s"
  "msqs (set_spot e p s) = msqs s" "msg_map (set_spot e p s) = (msg_map s)[nat p := e]"
  "msg_gate (set_spot e p s) = msg_gate s" "u_error (set_spot e p s) = u_error s"
  "msqs (upd_queue f i s) = map_option (\<lambda>qs. qs[i := f (qs ! i)]) (msqs s)"
  "msg_map (upd_queue f i s) = msg_map s" "msg_gate (upd_queue f i s) = msg_gate s"
  "u_error (upd_queue f i s) = u_error s" "NMSQB (upd_queue f i s) = NMSQB s"
  by (simp_all add: set_gate_def set_spot_def upd_queue_def)

lemma queue_alive_mode:
  "queue_alive (upd_mode (\<lambda>m. m OR 512) q) = queue_alive q"
  "queue_alive (upd_mode (\<lambda>m. m OR 1024) q) = queue_alive q"
  "queue_alive (upd_mode (\<lambda>m. m AND NOT 512) q) = queue_alive q"
  "queue_alive (upd_mode (\<lambda>m. m AND NOT 1024) q) = queue_alive q"
proof -
  have a: "(m OR n) AND 32768 = (m AND 32768) OR (n AND (32768::int))" for m n
    by (simp add: bit_eq_iff bit_simps) blast
  have b: "(m AND - 513) AND 32768 = m AND (32768::int)" "(m AND - 1025) AND 32768 = m AND (32768::int)" for m
    by (simp_all add: and.assoc)
  show "queue_alive (upd_mode (\<lambda>m. m OR 512) q) = queue_alive q"
    "queue_alive (upd_mode (\<lambda>m. m OR 1024) q) = queue_alive q"
    "queue_alive (upd_mode (\<lambda>m. m AND NOT 512) q) = queue_alive q"
    "queue_alive (upd_mode (\<lambda>m. m AND NOT 1024) q) = queue_alive q"
    unfolding queue_alive_def upd_mode_def by (simp_all add: a b)
qed

lemma upd_mode_fields [simp]:
  "msg_first (upd_mode f q) = msg_first q" "msg_last (upd_mode f q) = msg_last q"
  "msg_qnum (upd_mode f q) = msg_qnum q" "msg_cbytes (upd_mode f q) = msg_cbytes q"
  "msg_qbytes (upd_mode f q) = msg_qbytes q" "ip_seq (msg_perm (upd_mode f q)) = ip_seq (msg_perm q)"
  by (simp_all add: upd_mode_def)

section \<open>The invariant\<close>

definition msg_store :: "msg_conf \<Rightarrow> 'a msg_state_scheme \<Rightarrow> bool" where
  "msg_store conf s \<longleftrightarrow> (case msqs s of None \<Rightarrow> True | Some qs \<Rightarrow> store_ok conf qs (msg_map s))"

definition msg_inv :: "msg_conf \<Rightarrow> 'a msg_state_scheme \<Rightarrow> bool" where
  "msg_inv conf s \<longleftrightarrow> msg_store conf s \<and> (\<forall>i. \<not> msg_gate s i)"

text \<open>With queue \<open>i\<close> locked, and the queues there.\<close>

definition msg_held :: "msg_conf \<Rightarrow> nat \<Rightarrow> 'a msg_state_scheme \<Rightarrow> bool" where
  "msg_held conf i s \<longleftrightarrow> msg_store conf s \<and> (\<forall>j. msg_gate s j \<longleftrightarrow> j = i) \<and> msqs s \<noteq> None \<and> int i < NMSQID conf"

definition msg_up :: "msg_conf \<Rightarrow> 'a msg_state_scheme \<Rightarrow> bool" where
  "msg_up conf s \<longleftrightarrow> msg_inv conf s \<and> msqs s \<noteq> None"

lemma msg_store_queues: "msg_store conf s \<Longrightarrow> msqs s = Some qs \<Longrightarrow> store_ok conf qs (msg_map s)"
  by (simp add: msg_store_def)

lemma msg_store_cong:
  "msqs t = msqs s \<Longrightarrow> msg_map t = msg_map s \<Longrightarrow> msg_store conf t = msg_store conf s"
  by (simp add: msg_store_def split: option.split)

lemma msg_store_set [simp]:
  "msg_store conf (s\<lparr>u_error := e\<rparr>) = msg_store conf s"
  "msg_store conf (set_gate b i s) = msg_store conf s"
  "msg_store conf (s\<lparr>msg_wakeups := w\<rparr>) = msg_store conf s"
  "msg_store conf (s\<lparr>NMSQB := n\<rparr>) = msg_store conf s"
  by (rule msg_store_cong; simp)+

lemma msg_inv_same: "same_kernel s t \<Longrightarrow> msg_inv conf s \<Longrightarrow> msg_inv conf t"
  using same_kernel_msg msg_store_cong unfolding msg_inv_def by metis

lemma msg_inv_error: "msg_inv conf (s\<lparr>u_error := e\<rparr>) = msg_inv conf s"
  by (simp add: msg_inv_def)

lemma held_unlock: "msg_held conf i s \<Longrightarrow> msg_up conf (set_gate False i s)"
  by (simp add: msg_held_def msg_up_def msg_inv_def)

lemma up_lock:
  assumes "msg_up conf s" "int i < NMSQID conf"
  shows "lock_queue i s = Ready (set_gate True i s)" "msg_held conf i (set_gate True i s)"
  using assms by (simp_all add: msg_up_def msg_inv_def msg_held_def lock_queue_def)

lemma upd_queue_same:
  assumes st: "msg_store conf s"
    and f: "\<And>q. msg_first (f q) = msg_first q \<and> msg_last (f q) = msg_last q \<and> msg_qnum (f q) = msg_qnum q \<and>
        msg_cbytes (f q) = msg_cbytes q \<and> (msg_qbytes q \<le> 65535 \<longrightarrow> msg_qbytes (f q) \<le> 65535) \<and>
        (queue_alive q \<longrightarrow> queue_alive (f q))"
  shows "msg_store conf (upd_queue f i s)"
proof (cases "msqs s")
  case (Some qs)
  show ?thesis
  proof (cases "i < length qs")
    case True
    have ok: "store_ok conf qs (msg_map s)" using st Some by (simp add: msg_store_def)
    then have "msg_qbytes (qs ! i) \<le> 65535" using True by (auto simp: store_ok_def queue_ok_def)
    then have "store_ok conf (qs[i := f (qs ! i)]) (msg_map s)"
      using store_same [OF ok True, of "f (qs ! i)"] f [of "qs ! i"] by simp
    then show ?thesis using Some by (simp add: msg_store_def)
  next
    case False
    then show ?thesis using st Some by (simp add: msg_store_def list_update_beyond)
  qed
qed (simp add: msg_store_def)

lemma upd_mode_store:
  assumes "msg_store conf s" "\<And>q. queue_alive (upd_mode f q) = queue_alive q"
  shows "msg_store conf (upd_queue (upd_mode f) i s)"
  by (rule upd_queue_same [OF assms(1)]) (simp add: assms(2))

section \<open>Contents\<close>

definition msg_content :: "map_entry list \<Rightarrow> msg \<Rightarrow> int \<times> int list" where
  "msg_content mp m = (msg_type m, text_of (mp ! nat (msg_spot m)))"

definition contents :: "'a msg_state_scheme \<Rightarrow> nat \<Rightarrow> (int \<times> int list) list" where
  "contents s i =
     (case msqs s of
        None \<Rightarrow> []
      | Some qs \<Rightarrow> if i < length qs then map (msg_content (msg_map s)) (msg_first (qs ! i)) else [])"

lemma contents_cong: "msqs t = msqs s \<Longrightarrow> msg_map t = msg_map s \<Longrightarrow> contents t = contents s"
  by (rule ext) (simp add: contents_def split: option.split)

lemma contents_set [simp]:
  "contents (s\<lparr>u_error := e\<rparr>) = contents s"
  "contents (set_gate b i s) = contents s"
  "contents (s\<lparr>msg_wakeups := w\<rparr>) = contents s"
  "contents (s\<lparr>NMSQB := n\<rparr>) = contents s"
  by (rule contents_cong; simp)+

lemma contents_upd_queue:
  assumes "\<And>q. msg_first (f q) = msg_first q"
  shows "contents (upd_queue f i s) = contents s"
proof (rule ext)
  show "contents (upd_queue f i s) j = contents s j" for j
    using assms by (cases "j = i") (auto simp: contents_def split: option.split)
qed

text \<open>The contents after an update of queue \<open>i\<close> that leaves the texts of the others alone.\<close>

lemma contents_other:
  assumes ok: "store_ok conf qs mp" and i: "i < length qs" and j: "j < length qs" "j \<noteq> i"
    and p: "0 \<le> p" "p \<in> set (spots (qs ! i)) \<or> p \<notin> set (all_spots qs)"
  shows "map (msg_content (mp[nat p := e])) (msg_first (qs ! j)) = map (msg_content mp) (msg_first (qs ! j))"
proof (rule map_cong [OF refl])
  fix m assume m: "m \<in> set (msg_first (qs ! j))"
  have pos: "0 \<le> msg_spot m" using ok j m by (auto simp: store_ok_def queue_ok_def spot_ok_def)
  have "msg_spot m \<noteq> p"
    using spots_apart [OF _ i j m] ok p(2) by (auto simp: store_ok_def)
  then have "nat (msg_spot m) \<noteq> nat p" using pos p(1) by simp
  then show "msg_content (mp[nat p := e]) m = msg_content mp m" by (simp add: msg_content_def)
qed


section \<open>Waiting\<close>

lemma snd_wait_ready:
  assumes "snd_wait conf i qid sz flg env s = Ready s1" "msg_held conf i s" "rely P env"
    "\<And>t. P t \<Longrightarrow> msg_up conf t" "\<And>t. msg_held conf i t \<Longrightarrow> Q t \<Longrightarrow>
        P (set_gate False i (upd_queue (upd_mode (\<lambda>m. m OR 1024)) i t))"
    "\<And>t. P t \<Longrightarrow> qid = ip_seq (msg_perm (queue_at t i)) \<Longrightarrow> Q (set_gate True i t)" "Q s"
  shows "msg_held conf i s1 \<and> Q s1 \<and> msg_qnum (queue_at s1 i) < NMSG conf \<and>
    msg_cbytes (queue_at s1 i) + sz \<le> msg_qbytes (queue_at s1 i) \<and> (env = [] \<longrightarrow> s1 = s)"
  using assms(1-3,7)
proof (induction env arbitrary: s)
  case Nil
  then show ?case by (simp add: snd_wait.simps [of _ _ _ _ _ "[]"] Let_def split: if_splits)
next
  case (Cons e env)
  obtain others sig where e: "e = (others, sig)" by (cases e)
  let ?s1 = "set_gate False i (upd_queue (upd_mode (\<lambda>m. m OR 1024)) i s)"
  show ?case
  proof (cases "msg_qnum (queue_at s i) \<ge> NMSG conf \<or> msg_qbytes (queue_at s i) < msg_cbytes (queue_at s i) + sz")
    case False
    then show ?thesis using Cons.prems by (simp add: e snd_wait.simps [of _ _ _ _ _ "(others, sig) # env"] Let_def)
  next
    case True
    have "P ?s1" using Cons.prems(2,4) assms(5) by blast
    then have P: "P (others ?s1)" using Cons.prems(3) e by simp
    have i: "int i < NMSQID conf" using Cons.prems(2) by (simp add: msg_held_def)
    note lock = up_lock [OF assms(4) [OF P] i]
    have seq: "qid = ip_seq (msg_perm (queue_at (others ?s1) i))"
      and "snd_wait conf i qid sz flg env (set_gate True i (others ?s1)) = Ready s1"
      using Cons.prems(1) True lock(1)
      by (auto simp: snd_wait.simps [of _ _ _ _ _ "(others, sig) # env"] Let_def e split: if_splits)
    then show ?thesis
      using Cons.IH [of "set_gate True i (others ?s1)"] lock(2) Cons.prems(3) assms(6) [OF P seq] by simp
  qed
qed

text \<open>
  \<open>msg_ends P r\<close>: the call neither panics nor waits for ever, and \<open>P\<close> holds of the value it
  returns (\<open>None\<close> if none, or if it sleeps) and the state it leaves.
\<close>

fun msg_ends :: "(int option \<Rightarrow> 'a \<Rightarrow> bool) \<Rightarrow> 'a msg_result \<Rightarrow> bool" where
  "msg_ends P (MsgReturn v s) = P (Some v) s"
| "msg_ends P (MsgNoValue s) = P None s"
| "msg_ends P (MsgAsleep s) = P None s"
| "msg_ends P (MsgStuck s) = False"
| "msg_ends P MsgPanic = False"

lemma msg_ends_mono:
  "msg_ends P r \<Longrightarrow> (\<And>v t. P v t \<Longrightarrow> Q v t) \<Longrightarrow> msg_ends Q r"
  by (cases r) auto

definition fails_clean ::
  "msg_conf \<Rightarrow> (nat \<Rightarrow> (int \<times> int list) list) \<Rightarrow> bool \<Rightarrow> int option \<Rightarrow> 'a msg_state_scheme \<Rightarrow> bool" where
  "fails_clean conf c alone v t \<longleftrightarrow>
     msg_inv conf t \<and> (v \<noteq> None \<longrightarrow> v = Some (-1) \<and> u_error t \<noteq> E_NONE \<and> (alone \<longrightarrow> contents t = c))"

lemma fails_clean_error:
  "msg_inv conf s \<Longrightarrow> (alone \<longrightarrow> contents s = c) \<Longrightarrow> e \<noteq> E_NONE \<Longrightarrow>
   msg_ends (fails_clean conf c alone) (msg_error e s)"
  by (simp add: msg_error_def fails_clean_def msg_inv_error)

lemma fails_clean_asleep: "msg_inv conf s \<Longrightarrow> fails_clean conf c alone None s"
  by (simp add: fails_clean_def)

lemma fails_clean_weaken: "msg_ends (fails_clean conf c alone) r \<Longrightarrow> msg_ends (fails_clean conf c' False) r"
  by (cases r) (auto simp: fails_clean_def)

lemma held_wait:
  assumes "msg_held conf i s" "m = 512 \<or> m = 1024"
  shows "msg_up conf (set_gate False i (upd_queue (upd_mode (\<lambda>x. x OR m)) i s))"
proof -
  have "msg_store conf (upd_queue (upd_mode (\<lambda>x. x OR m)) i s)"
    using assms upd_mode_store queue_alive_mode unfolding msg_held_def by metis
  then have "msg_held conf i (upd_queue (upd_mode (\<lambda>x. x OR m)) i s)"
    using assms(1) by (simp add: msg_held_def)
  then show ?thesis by (rule held_unlock)
qed

lemma snd_wait_stop:
  assumes "snd_wait conf i qid sz flg env s = Stop r" "msg_held conf i s" "rely P env"
    "\<And>t. P t \<Longrightarrow> msg_up conf t" "\<And>t. msg_held conf i t \<Longrightarrow> Q t \<Longrightarrow>
        P (set_gate False i (upd_queue (upd_mode (\<lambda>m. m OR 1024)) i t))"
    "\<And>t. P t \<Longrightarrow> qid = ip_seq (msg_perm (queue_at t i)) \<Longrightarrow> Q (set_gate True i t)" "Q s"
  shows "msg_ends (fails_clean conf (contents s) (env = [])) r"
  using assms(1-3,7)
proof (induction env arbitrary: s)
  case Nil
  have "contents (set_gate False i s) = contents s" by simp
  moreover have "msg_inv conf (set_gate False i s)" "msg_inv conf (set_gate False i (upd_queue (upd_mode (\<lambda>m. m OR 1024)) i s))"
    using held_unlock [OF Nil.prems(2)] held_wait [OF Nil.prems(2)] by (auto simp: msg_up_def)
  ultimately show ?case using Nil.prems(1)
    by (auto simp: snd_wait.simps [of _ _ _ _ _ "[]"] Let_def fails_clean_error fails_clean_asleep split: if_splits)
next
  case (Cons e env)
  obtain others sig where e: "e = (others, sig)" by (cases e)
  let ?s1 = "set_gate False i (upd_queue (upd_mode (\<lambda>m. m OR 1024)) i s)"
  have P: "P (others ?s1)"
    using assms(5) [OF Cons.prems(2,4)] Cons.prems(3) e by simp
  then have inv: "msg_inv conf (others ?s1)" "msg_inv conf (set_gate False i s)"
    using assms(4) held_unlock [OF Cons.prems(2)] by (auto simp: msg_up_def)
  have i: "int i < NMSQID conf" using Cons.prems(2) by (simp add: msg_held_def)
  note lock = up_lock [OF assms(4) [OF P] i]
  have ih: "msg_ends (fails_clean conf c False) r"
    if "snd_wait conf i qid sz flg env (set_gate True i (others ?s1)) = Stop r"
      "qid = ip_seq (msg_perm (queue_at (others ?s1) i))" for c
  proof -
    have "msg_ends (fails_clean conf (contents (set_gate True i (others ?s1))) (env = [])) r"
      using Cons.IH [OF that(1) lock(2)] Cons.prems(3) assms(6) [OF P that(2)] by simp
    then show ?thesis by (rule fails_clean_weaken)
  qed
  show ?case using Cons.prems(1) inv lock(1) ih
    by (auto simp: snd_wait.simps [of _ _ _ _ _ "(others, sig) # env"] Let_def e fails_clean_error split: if_splits)
qed

text \<open>The receiver's wait.\<close>

lemma rcv_wait_ends:
  assumes "msg_held conf i s" "rely (msg_up conf) env"
  shows "(case rcv_wait i qid typ flg env s of
      Ready s1 \<Rightarrow> msg_held conf i s1 \<and> rcv_pick typ (msg_first (queue_at s1 i)) \<noteq> None \<and> (env = [] \<longrightarrow> s1 = s)
    | Stop r \<Rightarrow> msg_ends (fails_clean conf (contents s) (env = [])) r)"
  using assms
proof (induction env arbitrary: s)
  case Nil
  have "contents (set_gate False i s) = contents s" by simp
  moreover have "msg_inv conf (set_gate False i s)" "msg_inv conf (set_gate False i (upd_queue (upd_mode (\<lambda>m. m OR 512)) i s))"
    using held_unlock [OF Nil.prems(1)] held_wait [OF Nil.prems(1)] by (auto simp: msg_up_def)
  ultimately show ?case using Nil.prems(1)
    by (auto simp: rcv_wait.simps [of _ _ _ _ "[]"] Let_def fails_clean_error fails_clean_asleep)
next
  case (Cons e env)
  obtain others sig where e: "e = (others, sig)" by (cases e)
  let ?s1 = "set_gate False i (upd_queue (upd_mode (\<lambda>m. m OR 512)) i s)"
  let ?s2 = "set_gate True i (others ?s1)"
  have P: "msg_up conf (others ?s1)"
    using held_wait [OF Cons.prems(1)] Cons.prems(2) e by simp
  then have inv: "msg_inv conf (others ?s1)" "msg_inv conf (set_gate False i s)"
    using held_unlock [OF Cons.prems(1)] by (auto simp: msg_up_def)
  have i: "int i < NMSQID conf" using Cons.prems(1) by (simp add: msg_held_def)
  note lock = up_lock [OF P i]
  have ih: "(case rcv_wait i qid typ flg env ?s2 of
      Ready s1 \<Rightarrow> msg_held conf i s1 \<and> rcv_pick typ (msg_first (queue_at s1 i)) \<noteq> None \<and> (env = [] \<longrightarrow> s1 = ?s2)
    | Stop r \<Rightarrow> msg_ends (fails_clean conf (contents ?s2) (env = [])) r)"
    using Cons.IH [OF lock(2)] Cons.prems(2) by simp
  define other where "other \<longleftrightarrow> qid \<noteq> ip_seq (msg_perm (queue_at (others ?s1) i))"
  have unfold: "rcv_wait i qid typ flg ((others, sig) # env) s =
      (if rcv_pick typ (msg_first (queue_at s i)) \<noteq> None then Ready s
       else if flg AND IPC_NOWAIT \<noteq> 0 then Stop (msg_error ENOMSG (set_gate False i s))
       else if sig then Stop (msg_error EINTR (others ?s1))
       else if other then Stop (msg_error EINVAL (others ?s1))
       else rcv_wait i qid typ flg env ?s2)"
    by (simp add: rcv_wait.simps [of _ _ _ _ "(others, sig) # env"] Let_def lock(1) other_def)
  show ?case
  proof (cases "rcv_wait i qid typ flg env ?s2")
    case (Ready s1)
    then show ?thesis using inv ih Cons.prems(1) by (simp add: e unfold fails_clean_error)
  next
    case (Stop r)
    then have "msg_ends (fails_clean conf (contents s) False) r"
      using ih fails_clean_weaken by simp
    then show ?thesis using inv Stop Cons.prems(1) by (simp add: e unfold fails_clean_error)
  qed
qed

section \<open>Sending\<close>

definition sent ::
  "msg_conf \<Rightarrow> (nat \<Rightarrow> (int \<times> int list) list) \<Rightarrow> nat \<Rightarrow> msg_ubuf \<Rightarrow> int \<Rightarrow> int option
     \<Rightarrow> 'a msg_state_scheme \<Rightarrow> bool" where
  "sent conf c i buf sz v t \<longleftrightarrow>
     v = Some 0 \<and> msg_inv conf t \<and>
     (\<exists>ty txt. mb_type buf = Some ty \<and> mb_text buf = Some txt \<and>
        contents t = c(i := c i @ [(ty, take (nat sz) txt)]))"

lemma append_message:
  assumes c: "msg_conf_ok conf" and st: "msg_store conf s" and qs: "msqs s = Some qs" and i: "i < length qs"
    and room: "msg_qnum (qs ! i) < NMSG conf" "msg_cbytes (qs ! i) + int (length t) \<le> msg_qbytes (qs ! i)"
    and alive: "queue_alive (qs ! i)"
    and p: "p = find_index (\<lambda>e. e = NoText) (msg_map s)"
    and mp: "mp = \<lparr>msg_type = ty, msg_ts = int (length t), msg_spot = int p\<rparr>"
    and f: "f = (\<lambda>q. q\<lparr>msg_first := msg_first q @ [mp], msg_last := Some (msg_spot mp),
        msg_cbytes := msg_cbytes q + int (length t), msg_qnum := msg_qnum q + 1, msg_lspid := pid, msg_stime := now\<rparr>)"
  shows "msg_store conf (upd_queue f i (set_spot (Text t) (int p) s))"
    "contents (upd_queue f i (set_spot (Text t) (int p) s)) = (contents s)(i := contents s i @ [(ty, t)])"
    "p < length (msg_map s)" "msg_map s ! p = NoText"
proof -
  have ok: "store_ok conf qs (msg_map s)" using st qs by (rule msg_store_queues)
  have pl: "p < length (msg_map s)" using free_spot [OF ok c i room(1)] p by simp
  then have free: "msg_map s ! p = NoText"
    using find_index_found [of "\<lambda>e. e = NoText" "msg_map s"] p by simp
  show "p < length (msg_map s)" "msg_map s ! p = NoText" by (fact pl free)+
  have "store_ok conf (qs[i := f (qs ! i)]) ((msg_map s)[p := Text t])"
    by (rule store_append [OF ok c i room(1) p, where m = mp])
      (use room alive in \<open>simp_all add: f mp queue_alive_def\<close>)
  then show "msg_store conf (upd_queue f i (set_spot (Text t) (int p) s))"
    using qs by (simp add: msg_store_def)
  have new: "int p \<notin> set (all_spots qs)"
  proof
    assume "int p \<in> set (all_spots qs)"
    then obtain q x where q: "q \<in> set qs" "x \<in> set (msg_first q)" "msg_spot x = int p"
      by (auto simp: all_spots_def spots_def)
    then have "spot_ok (msg_map s) x" using ok by (auto simp: store_ok_def queue_ok_def)
    then show False using q(3) free by (simp add: spot_ok_def)
  qed
  have same: "map (msg_content ((msg_map s)[p := Text t])) (msg_first (qs ! i)) =
      map (msg_content (msg_map s)) (msg_first (qs ! i))"
  proof (rule map_cong [OF refl])
    fix m assume m: "m \<in> set (msg_first (qs ! i))"
    then have "msg_spot m \<noteq> int p" "0 \<le> msg_spot m"
      using new spots_in [of "qs ! i" qs m] i ok by (auto simp: store_ok_def queue_ok_def spot_ok_def)
    then have "nat (msg_spot m) \<noteq> p" by auto
    then show "msg_content ((msg_map s)[p := Text t]) m = msg_content (msg_map s) m"
      by (simp add: msg_content_def)
  qed
  show "contents (upd_queue f i (set_spot (Text t) (int p) s)) = (contents s)(i := contents s i @ [(ty, t)])"
  proof (rule ext)
    fix j
    show "contents (upd_queue f i (set_spot (Text t) (int p) s)) j =
        ((contents s)(i := contents s i @ [(ty, t)])) j"
    proof (cases "j = i")
      case True
      have "text_of (Text t) = t" by (simp add: text_of_def)
      then show ?thesis using True qs i same pl by (simp add: contents_def f mp msg_content_def)
    next
      case False
      then show ?thesis
        using qs contents_other [OF ok i, of j "int p" "Text t"] new by (simp add: contents_def)
    qed
  qed
qed

lemma member_le_sum_list_int:
  fixes xs :: "int list"
  shows "x \<in> set xs \<Longrightarrow> (\<And>y. y \<in> set xs \<Longrightarrow> 0 \<le> y) \<Longrightarrow> x \<le> sum_list xs"
proof (induction xs)
  case (Cons a xs)
  then have "0 \<le> sum_list xs" "0 \<le> a" by (auto intro: sum_list_nonneg)
  with Cons show ?case by fastforce
qed simp

lemma queue_ok_bounds:
  assumes "queue_ok conf mp q"
  shows "0 \<le> msg_cbytes q" "0 \<le> msg_qnum q" "m \<in> set (msg_first q) \<Longrightarrow> 0 \<le> msg_ts m"
proof -
  have ts: "0 \<le> msg_ts m" if "m \<in> set (msg_first q)" for m
    using assms that by (fastforce simp: queue_ok_def spot_ok_def)
  then have "0 \<le> sum_list (map msg_ts (msg_first q))" by (intro sum_list_nonneg) auto
  then show "0 \<le> msg_cbytes q" "0 \<le> msg_qnum q" using assms by (simp_all add: queue_ok_def)
  show "m \<in> set (msg_first q) \<Longrightarrow> 0 \<le> msg_ts m" by (rule ts)
qed

lemma snd_deliver_ends:
  assumes c: "msg_conf_ok conf" and h: "msg_held conf i s"
    and room: "msg_qnum (queue_at s i) < NMSG conf" "msg_cbytes (queue_at s i) + sz \<le> msg_qbytes (queue_at s i)"
    and alive: "queue_alive (queue_at s i)" and sz: "0 < sz"
    and buf: "\<And>txt. mb_text buf = Some txt \<Longrightarrow> nat sz \<le> length txt"
  shows "msg_ends (\<lambda>v t. fails_clean conf (contents s) True v t \<or> sent conf (contents s) i buf sz v t)
    (snd_deliver conf now pid i buf sz s)"
proof -
  obtain qs where qs: "msqs s = Some qs" using h by (auto simp: msg_held_def)
  have st: "msg_store conf s" using h by (simp add: msg_held_def)
  have ok: "store_ok conf qs (msg_map s)" using st qs by (rule msg_store_queues)
  have i: "i < length qs" using h ok by (auto simp: msg_held_def store_ok_def)
  have qi: "queue_at s i = qs ! i" using qs by (simp add: queue_at_def)
  have qok: "queue_ok conf (msg_map s) (qs ! i)" using ok i by (simp add: store_ok_def)
  define p where "p = find_index (\<lambda>e. e = NoText) (msg_map s)"
  have pl: "p < length (msg_map s)" using free_spot [OF ok c i] room qi p_def by simp
  then have p2: "int p < NMSQID conf * NMSG conf" "int p \<le> 32767"
    using ok c by (auto simp: store_ok_def msg_conf_ok_def)
  have room': "msg_cbytes (qs ! i) + sz \<le> 65535" "0 \<le> msg_cbytes (qs ! i)" "0 \<le> msg_qnum (qs ! i)"
    "msg_qnum (qs ! i) + 1 \<le> 65535"
    using room qi c queue_ok_bounds [OF qok] qok by (simp_all add: queue_ok_def msg_conf_ok_def)
  have wrap: "uwrap16 (msg_cbytes (qs ! i) + sz) = msg_cbytes (qs ! i) + sz"
    "uwrap16 (msg_qnum (qs ! i) + 1) = msg_qnum (qs ! i) + 1" "uwrap16 sz = sz" "wrap16 (int p) = int p"
    using room' sz p2 by simp_all
  obtain r1 s1 where k1: "kalloc s = (r1, s1)" by (cases "kalloc s")
  obtain r2 s2 where k2: "kalloc s1 = (r2, s2)" by (cases "kalloc s1")
  note f1 = kalloc_msg [OF k1] and f2 = kalloc_msg [OF k2]
  have clean: "fails_clean conf (contents s) True (Some (-1)) (set_gate False i t)"
    if "msqs t = msqs s" "msg_map t = msg_map s" "msg_gate t = msg_gate s" "u_error t \<noteq> E_NONE" for t
    using that h contents_cong [of t s] msg_store_cong [of t s]
    by (simp add: fails_clean_def msg_inv_def msg_held_def)
  have nospace: "fails_clean conf (contents s) True (Some (-1)) ((set_gate False i t)\<lparr>u_error := ENOSPC\<rparr>)"
    if "msqs t = msqs s" "msg_map t = msg_map s" "msg_gate t = msg_gate s" for t
    using that h contents_cong [of t s] msg_store_cong [of t s]
    by (simp add: fails_clean_def msg_inv_def msg_held_def)
  show ?thesis
  proof (cases "r1 = None \<or> r2 = None")
    case True
    then show ?thesis
    proof
      assume "r1 = None"
      then show ?thesis using k1 p2 f1 nospace [of s1]
        by (simp add: snd_deliver_def Let_def p_def [symmetric] msg_error_def)
    next
      assume "r2 = None"
      then show ?thesis using k1 k2 p2 f1 f2 sz nospace [of s1] nospace [of s2]
        by (cases r1) (simp_all add: snd_deliver_def Let_def p_def [symmetric] msg_error_def kalloc_panics_def)
    qed
  next
    case False
    then obtain x1 x2 where r: "r1 = Some x1" "r2 = Some x2" by auto
    define s3 where "s3 = (if mb_type buf = None \<or> mb_text buf = None then s2\<lparr>u_error := EFAULT\<rparr> else s2)"
    define t where "t = take (nat sz) (the (mb_text buf))"
    have e3: "msqs s3 = msqs s" "msg_map s3 = msg_map s" "msg_gate s3 = msg_gate s"
      using f1 f2 by (simp_all add: s3_def)
    define mp where "mp = \<lparr>msg_type = the (mb_type buf), msg_ts = sz, msg_spot = int p\<rparr>"
    define s4 where "s4 = set_spot (Text t) (int p) s3"
    define g where "g = (\<lambda>q :: msqid_ds. q\<lparr>msg_first := msg_first q @ [mp], msg_last := Some (msg_spot mp),
      msg_cbytes := uwrap16 (msg_cbytes q + sz), msg_qnum := uwrap16 (msg_qnum q + 1),
      msg_lspid := uwrap16 pid, msg_stime := now\<rparr>)"
    define s5 where "s5 = set_gate False i (upd_queue g i s4)"
    define s6 where "s6 = (upd_queue (upd_mode (\<lambda>m. m AND NOT 512)) i s5)\<lparr>msg_wakeups := i # msg_wakeups s5\<rparr>"
    have eqn: "snd_deliver conf now pid i buf sz s =
        (if u_error s4 \<noteq> E_NONE then MsgReturn (-1) (set_gate False i (msgfree mp s4))
         else MsgReturn 0 (if ip_mode (msg_perm (queue_at s5 i)) AND MSG_RWAIT \<noteq> 0 then s6 else s5))"
    proof -
      have "(NMSQID conf * NMSG conf \<le> int p) = False" "(sz = 0) = False" using p2 sz by simp_all
      note this [unfolded p_def]
      then show ?thesis
        by (simp only: snd_deliver_def Let_def k1 k2 r kalloc_panics_def wrap [unfolded p_def] s3_def s4_def
          s5_def s6_def g_def mp_def t_def p_def prod.case option.case if_False if_True)
    qed
    show ?thesis
    proof (cases "u_error s3 = E_NONE")
      case False
      have "msg_map s ! p = NoText"
        using find_index_found [of "\<lambda>e. e = NoText" "msg_map s"] pl p_def by simp
      then have "msg_map (msgfree mp s4) = msg_map s" "msqs (msgfree mp s4) = msqs s"
        "msg_gate (msgfree mp s4) = msg_gate s" "u_error (msgfree mp s4) = u_error s3"
        using e3 \<open>msg_map s ! p = NoText\<close> list_update_id [of "msg_map s" p]
        by (simp_all add: msgfree_def s4_def mp_def)
      then have "fails_clean conf (contents s) True (Some (-1)) (set_gate False i (msgfree mp s4))"
        using False by (intro clean) simp_all
      moreover have "u_error s4 \<noteq> E_NONE" using False by (simp add: s4_def)
      ultimately show ?thesis using p2 sz by (simp add: eqn)
    next
      case True
      then obtain ty tx where b: "mb_type buf = Some ty" "mb_text buf = Some tx"
        by (auto simp: s3_def split: if_splits)
      then have len: "int (length t) = sz" using buf sz by (simp add: t_def)
      define f where "f = (\<lambda>q :: msqid_ds. q\<lparr>msg_first := msg_first q @ [mp], msg_last := Some (msg_spot mp),
        msg_cbytes := msg_cbytes q + sz, msg_qnum := msg_qnum q + 1, msg_lspid := uwrap16 pid, msg_stime := now\<rparr>)"
      have "g (qs ! i) = f (qs ! i)" by (simp add: f_def g_def wrap)
      then have gf: "upd_queue g i s4 = upd_queue f i s4"
        using e3 qs by (simp add: upd_queue_def s4_def)
      have st3: "msg_store conf s3" using st msg_store_cong e3 by metis
      have fl: "f = (\<lambda>q. q\<lparr>msg_first := msg_first q @ [mp], msg_last := Some (msg_spot mp),
        msg_cbytes := msg_cbytes q + int (length t), msg_qnum := msg_qnum q + 1, msg_lspid := uwrap16 pid, msg_stime := now\<rparr>)"
        by (simp add: f_def len)
      have mpl: "mp = \<lparr>msg_type = ty, msg_ts = int (length t), msg_spot = int p\<rparr>"
        using b len by (simp add: mp_def)
      note app = append_message [OF c st3 _ i _ _ _ _ mpl fl]
      have a1: "msqs s3 = Some qs" "msg_qnum (qs ! i) < NMSG conf"
          "msg_cbytes (qs ! i) + int (length t) \<le> msg_qbytes (qs ! i)" "queue_alive (qs ! i)"
          "p = find_index (\<lambda>e. e = NoText) (msg_map s3)"
        using e3 qs room qi alive len by (simp_all add: p_def)
      have st5: "msg_store conf (upd_queue f i s4)"
        and c5: "contents (upd_queue f i s4) = (contents s)(i := contents s i @ [(ty, t)])"
        using app(1,2) [OF a1] contents_cong [OF e3(1,2)] by (simp_all add: s4_def)
      have "msg_gate s4 = msg_gate s" using e3 by (simp add: s4_def)
      then have i5: "msg_inv conf s5" using st5 h by (simp add: s5_def gf msg_inv_def msg_held_def)
      then have "msg_store conf (upd_queue (upd_mode (\<lambda>m. m AND NOT 512)) i s5)"
        by (intro upd_mode_store queue_alive_mode) (simp add: msg_inv_def)
      then have i6: "msg_inv conf s6" using i5 by (simp add: s6_def msg_inv_def)
      have c6: "contents s5 = (contents s)(i := contents s i @ [(ty, t)])" "contents s6 = contents s5"
        using c5 by (simp_all add: s5_def s6_def gf contents_upd_queue)
      have "sent conf (contents s) i buf sz (Some 0) s5" "sent conf (contents s) i buf sz (Some 0) s6"
        using i5 i6 c6 b by (auto simp: sent_def t_def)
      moreover have "u_error s4 = E_NONE" using True by (simp add: s4_def)
      moreover have "snd_deliver conf now pid i buf sz s =
          MsgReturn 0 (if ip_mode (msg_perm (queue_at s5 i)) AND MSG_RWAIT \<noteq> 0 then s6 else s5)"
        using \<open>u_error s4 = E_NONE\<close> by (simp add: eqn)
      ultimately show ?thesis by simp
    qed
  qed
qed

section \<open>Receiving\<close>

text \<open>Which message is received: any, of a type, or of the lowest type up to a bound.\<close>

definition mq_selects :: "int \<Rightarrow> (int \<times> 'b) list \<Rightarrow> nat \<Rightarrow> bool" where
  "mq_selects typ q k \<longleftrightarrow>
     k < length q \<and>
     (if typ = 0 then k = 0
      else if typ > 0 then fst (q ! k) = typ \<and> (\<forall>j<k. fst (q ! j) \<noteq> typ)
      else fst (q ! k) \<le> - typ \<and>
           (\<forall>j<length q. fst (q ! j) \<le> - typ \<longrightarrow>
              fst (q ! k) \<le> fst (q ! j) \<and> (j < k \<longrightarrow> fst (q ! k) < fst (q ! j))))"

definition best_ok :: "int \<Rightarrow> msg list \<Rightarrow> (nat \<times> int) option \<Rightarrow> bool" where
  "best_ok t pre best \<longleftrightarrow>
     (case best of
        None \<Rightarrow> \<forall>j<length pre. msg_type (pre ! j) > t
      | Some (b, ty) \<Rightarrow> b < length pre \<and> ty = msg_type (pre ! b) \<and> ty \<le> t \<and>
          (\<forall>j<length pre. msg_type (pre ! j) \<le> t \<longrightarrow>
             ty \<le> msg_type (pre ! j) \<and> (j < b \<longrightarrow> ty < msg_type (pre ! j))))"

lemma best_ok_step:
  assumes "best_ok t pre best"
  shows "best_ok t (pre @ [m])
    (if msg_type m > t then best
     else case best of None \<Rightarrow> Some (length pre, msg_type m)
          | Some (_, b) \<Rightarrow> if msg_type m < b then Some (length pre, msg_type m) else best)"
proof (cases best)
  case None
  then show ?thesis using assms by (auto simp: best_ok_def nth_append less_Suc_eq)
next
  case (Some bt)
  obtain b ty where bt: "bt = (b, ty)" by (cases bt)
  have old: "b < length pre" "ty = msg_type (pre ! b)" "ty \<le> t"
    "\<And>j. j < length pre \<Longrightarrow> msg_type (pre ! j) \<le> t \<Longrightarrow>
       ty \<le> msg_type (pre ! j) \<and> (j < b \<longrightarrow> ty < msg_type (pre ! j))"
    using assms Some bt by (auto simp: best_ok_def)
  then show ?thesis using Some bt
    by (fastforce simp: best_ok_def nth_append less_Suc_eq)
qed

lemma rcv_lowest_best:
  "best_ok t pre best \<Longrightarrow>
   \<exists>best'. rcv_lowest t (length pre) ms best = map_option fst best' \<and> best_ok t (pre @ ms) best'"
proof (induction ms arbitrary: pre best)
  case (Cons m ms)
  show ?case using Cons.IH [OF best_ok_step [OF Cons.prems, of m]] by simp
qed auto

lemma rcv_pick_selects:
  assumes "rcv_pick typ ms = Some k" "- 2147483648 < typ" "typ \<le> 2147483647"
  shows "mq_selects typ (map (msg_content mp) ms) k" "k < length ms"
proof -
  have f: "fst (msg_content mp m) = msg_type m" for m by (simp add: msg_content_def)
  have "mq_selects typ (map (msg_content mp) ms) k \<and> k < length ms"
  proof (cases "typ < 0")
    case True
    have "best_ok (- typ) [] None" by (simp add: best_ok_def)
    then obtain best where best: "rcv_lowest (- typ) 0 ms None = map_option fst best" "best_ok (- typ) ms best"
      using rcv_lowest_best [of "- typ" "[]" None ms] by auto
    then obtain ty where "best = Some (k, ty)" using assms True by (auto simp: rcv_pick_def)
    then show ?thesis using best(2) True by (auto simp: best_ok_def mq_selects_def f)
  next
    case False
    let ?P = "\<lambda>m. msg_type m = typ"
    show ?thesis
    proof (cases "typ = 0")
      case True
      then show ?thesis using assms(1) by (auto simp: rcv_pick_def mq_selects_def split: if_splits)
    next
      case False
      then have "k = find_index ?P ms" "k < length ms"
        using assms(1) \<open>\<not> typ < 0\<close> by (auto simp: rcv_pick_def Let_def split: if_splits)
      then show ?thesis
        using find_index_found [of ?P ms] find_index_before [of _ ?P ms] f False \<open>\<not> typ < 0\<close>
        by (simp add: mq_selects_def)
    qed
  qed
  then show "mq_selects typ (map (msg_content mp) ms) k" "k < length ms" by simp_all
qed

lemma rcv_pick_less: "rcv_pick typ ms = Some k \<Longrightarrow> k < length ms"
proof (cases "typ < 0")
  case True
  assume k: "rcv_pick typ ms = Some k"
  have "best_ok (wrap32 (- typ)) [] None" by (simp add: best_ok_def)
  then obtain best where "rcv_lowest (wrap32 (- typ)) 0 ms None = map_option fst best"
      "best_ok (wrap32 (- typ)) ms best"
    using rcv_lowest_best [of "wrap32 (- typ)" "[]" None ms] by auto
  then show ?thesis using k True by (auto simp: rcv_pick_def best_ok_def)
qed (auto simp: rcv_pick_def Let_def split: if_splits)

definition received ::
  "msg_conf \<Rightarrow> (nat \<Rightarrow> (int \<times> int list) list) \<Rightarrow> nat \<Rightarrow> nat \<Rightarrow> int \<Rightarrow> int \<Rightarrow> msg_out \<Rightarrow> int option
     \<Rightarrow> 'a msg_state_scheme \<Rightarrow> bool" where
  "received conf c i k sz flg out v t \<longleftrightarrow>
     (let n = min sz (int (length (snd (c i ! k)))) in
      (n < int (length (snd (c i ! k))) \<longrightarrow> flg AND MSG_NOERROR \<noteq> 0) \<and>
      out = TextOut (fst (c i ! k)) (take (nat n) (snd (c i ! k))) \<and> v = Some n \<and>
      contents t = c(i := remove_nth k (c i)) \<and> msg_inv conf t)"

lemma map_remove_nth: "map f (remove_nth k xs) = remove_nth k (map f xs)"
  by (simp add: remove_nth_def take_map drop_map)

lemma remove_message:
  assumes st: "msg_store conf s" and qs: "msqs s = Some qs" and i: "i < length qs"
    and k: "k < length (msg_first (qs ! i))" and mp: "mp = msg_first (qs ! i) ! k"
    and f: "f = (\<lambda>q :: msqid_ds. q\<lparr>
       msg_first := remove_nth k (msg_first q),
       msg_last := (if msg_last q = Some (msg_spot mp)
                    then (if k = 0 then None else Some (msg_spot (msg_first q ! (k - 1)))) else msg_last q),
       msg_cbytes := msg_cbytes q - msg_ts mp, msg_qnum := msg_qnum q - 1,
       msg_lrpid := pid, msg_rtime := now\<rparr>)"
  shows "msg_store conf (msgfree mp (upd_queue f i s))"
    "contents (msgfree mp (upd_queue f i s)) = (contents s)(i := remove_nth k (contents s i))"
    "contents s i ! k = (msg_type mp, text_of (msg_map s ! nat (msg_spot mp)))"
    "int (length (text_of (msg_map s ! nat (msg_spot mp)))) = msg_ts mp"
    "0 \<le> msg_ts mp" "msg_ts mp \<le> msg_cbytes (qs ! i)" "msg_cbytes (qs ! i) \<le> 65535"
proof -
  have ok: "store_ok conf qs (msg_map s)" using st qs by (rule msg_store_queues)
  have qok: "queue_ok conf (msg_map s) (qs ! i)" using ok i by (simp add: store_ok_def)
  have mem: "mp \<in> set (msg_first (qs ! i))" using k mp by simp
  have sp: "spot_ok (msg_map s) mp" using qok mem by (simp add: queue_ok_def)
  then show "int (length (text_of (msg_map s ! nat (msg_spot mp)))) = msg_ts mp"
    by (auto simp: spot_ok_def text_of_def)
  show "contents s i ! k = (msg_type mp, text_of (msg_map s ! nat (msg_spot mp)))"
    using qs i k mp by (simp add: contents_def msg_content_def)
  show "0 \<le> msg_ts mp" using queue_ok_bounds(3) [OF qok mem] .
  have "msg_ts mp \<le> sum_list (map msg_ts (msg_first (qs ! i)))"
  proof (rule member_le_sum_list_int)
    show "msg_ts mp \<in> set (map msg_ts (msg_first (qs ! i)))" using mem by simp
    show "\<And>x. x \<in> set (map msg_ts (msg_first (qs ! i))) \<Longrightarrow> 0 \<le> x"
      using queue_ok_bounds(3) [OF qok] by auto
  qed
  then show "msg_ts mp \<le> msg_cbytes (qs ! i)" "msg_cbytes (qs ! i) \<le> 65535"
    using qok by (simp_all add: queue_ok_def)
  have "store_ok conf (qs[i := f (qs ! i)]) ((msg_map s)[nat (msg_spot mp) := NoText])"
    by (rule store_remove [OF ok i k mp]) (simp_all add: f queue_alive_def)
  then show "msg_store conf (msgfree mp (upd_queue f i s))"
    using qs by (simp add: msg_store_def msgfree_def)
  have d: "distinct (map msg_spot (msg_first (qs ! i)))" using spots_at(1) [OF ok i] by (simp add: spots_def)
  let ?mp = "(msg_map s)[nat (msg_spot mp) := NoText]"
  have same: "map (msg_content ?mp) (remove_nth k (msg_first (qs ! i))) =
      map (msg_content (msg_map s)) (remove_nth k (msg_first (qs ! i)))"
  proof (rule map_cong [OF refl])
    fix m assume m: "m \<in> set (remove_nth k (msg_first (qs ! i)))"
    then have "msg_spot m \<in> set (map msg_spot (msg_first (qs ! i))) - {msg_spot mp}"
      using set_remove_nth [OF d k] mp by auto
    moreover have "0 \<le> msg_spot m"
      using m remove_nth_facts(3) [OF k] qok by (auto simp: queue_ok_def spot_ok_def)
    ultimately have "nat (msg_spot m) \<noteq> nat (msg_spot mp)" using sp by (auto simp: spot_ok_def)
    then show "msg_content ?mp m = msg_content (msg_map s) m" by (simp add: msg_content_def)
  qed
  have "msg_spot mp \<in> set (spots (qs ! i))" "0 \<le> msg_spot mp" using mem sp by (auto simp: spots_def spot_ok_def)
  then have other: "map (msg_content ?mp) (msg_first (qs ! j)) = map (msg_content (msg_map s)) (msg_first (qs ! j))"
    if "j < length qs" "j \<noteq> i" for j
    using contents_other [OF ok i that] by simp
  show "contents (msgfree mp (upd_queue f i s)) = (contents s)(i := remove_nth k (contents s i))"
  proof (rule ext)
    show "contents (msgfree mp (upd_queue f i s)) j = ((contents s)(i := remove_nth k (contents s i))) j" for j
      using qs i same other [of j] by (cases "j = i") (simp_all add: contents_def msgfree_def f map_remove_nth)
  qed
qed

lemma rcv_deliver_ends:
  assumes c: "msg_conf_ok conf" and h: "msg_held conf i s" and k: "k < length (msg_first (queue_at s i))"
    and r: "rcv_deliver now pid i k ok sz flg s = (out, r)"
  shows "msg_ends (\<lambda>v t. out = NoMsgOut \<and> fails_clean conf (contents s) True v t \<or>
    received conf (contents s) i k sz flg out v t) r"
proof -
  obtain qs where qs: "msqs s = Some qs" using h by (auto simp: msg_held_def)
  have st: "msg_store conf s" using h by (simp add: msg_held_def)
  have i: "i < length qs"
    using h msg_store_queues [OF st qs] by (auto simp: msg_held_def store_ok_def)
  have qi: "queue_at s i = qs ! i" using qs by (simp add: queue_at_def)
  define mp where "mp = msg_first (qs ! i) ! k"
  define tx where "tx = text_of (msg_map s ! nat (msg_spot mp))"
  define g where "g = (\<lambda>q :: msqid_ds. q\<lparr>
       msg_first := remove_nth k (msg_first q),
       msg_last := (if msg_last q = Some (msg_spot mp)
                    then (if k = 0 then None else Some (msg_spot (msg_first q ! (k - 1)))) else msg_last q),
       msg_cbytes := uwrap16 (msg_cbytes q - msg_ts mp), msg_qnum := uwrap16 (msg_qnum q - 1),
       msg_lrpid := uwrap16 pid, msg_rtime := now\<rparr>)"
  define f where "f = (\<lambda>q :: msqid_ds. q\<lparr>
       msg_first := remove_nth k (msg_first q),
       msg_last := (if msg_last q = Some (msg_spot mp)
                    then (if k = 0 then None else Some (msg_spot (msg_first q ! (k - 1)))) else msg_last q),
       msg_cbytes := msg_cbytes q - msg_ts mp, msg_qnum := msg_qnum q - 1,
       msg_lrpid := uwrap16 pid, msg_rtime := now\<rparr>)"
  note rem = remove_message [OF st qs i k [unfolded qi] mp_def f_def]
  have "queue_ok conf (msg_map s) (qs ! i)"
    using msg_store_queues [OF st qs] i by (simp add: store_ok_def)
  then have num: "1 \<le> msg_qnum (qs ! i)" "msg_qnum (qs ! i) \<le> NMSG conf" "int (length (msg_first (qs ! i))) = msg_qnum (qs ! i)"
    using k qi by (auto simp: queue_ok_def)
  define s2 where "s2 = msgfree mp (upd_queue g i s)"
  show ?thesis
  proof (cases "sz < msg_ts mp \<and> flg AND MSG_NOERROR = 0")
    case True
    have "msg_inv conf (set_gate False i s)" using held_unlock [OF h] by (simp add: msg_up_def)
    then have "msg_ends (fails_clean conf (contents s) True) (msg_error E2BIG (set_gate False i s))"
      by (intro fails_clean_error) simp_all
    moreover have "out = NoMsgOut" "r = msg_error E2BIG (set_gate False i s)"
      using r True by (simp_all add: rcv_deliver_def qi mp_def [symmetric])
    ultimately show ?thesis using msg_ends_mono [of "fails_clean conf (contents s) True" r] by simp
  next
    case fits: False
    show ?thesis
    proof (cases "ok \<and> u_error s = E_NONE")
      case False
      then have "out = NoMsgOut"
          "r = MsgReturn (-1) (set_gate False i (if \<not> ok then s\<lparr>u_error := EFAULT\<rparr> else s))"
        using r fits by (auto simp: rcv_deliver_def Let_def qi mp_def [symmetric] split: if_splits)
      moreover have "msg_gate s j \<Longrightarrow> j = i" for j using h by (simp add: msg_held_def)
      ultimately show ?thesis using False st by (auto simp: fails_clean_def msg_inv_def)
    next
      case True
      have wr: "g (qs ! i) = f (qs ! i)"
      proof -
        have "uwrap16 (msg_cbytes (qs ! i) - msg_ts mp) = msg_cbytes (qs ! i) - msg_ts mp"
          using rem(5-7) by simp
        moreover have "uwrap16 (msg_qnum (qs ! i) - 1) = msg_qnum (qs ! i) - 1"
          using num c by (simp add: msg_conf_ok_def)
        ultimately show ?thesis by (simp add: f_def g_def)
      qed
      then have s2: "s2 = msgfree mp (upd_queue f i s)" using qs by (simp add: s2_def upd_queue_def)
      then have st2: "msg_store conf s2" and c2: "contents s2 = (contents s)(i := remove_nth k (contents s i))"
        using rem(1,2) by simp_all
      have "msg_gate s2 = msg_gate s" by (simp add: s2 msgfree_def)
      define s3 where "s3 = set_gate False i s2"
      define s4 where "s4 = (upd_queue (upd_mode (\<lambda>m. m AND NOT 1024)) i s3)\<lparr>msg_wakeups := i # msg_wakeups s3\<rparr>"
      have i3: "msg_inv conf s3"
        using st2 h \<open>msg_gate s2 = msg_gate s\<close> by (simp add: s3_def msg_inv_def msg_held_def)
      then have "msg_store conf (upd_queue (upd_mode (\<lambda>m. m AND NOT 1024)) i s3)"
        by (intro upd_mode_store queue_alive_mode) (simp add: msg_inv_def)
      then have i4: "msg_inv conf s4" using i3 by (simp add: s4_def msg_inv_def)
      have c34: "contents s3 = (contents s)(i := remove_nth k (contents s i))" "contents s4 = contents s3"
        using c2 by (simp_all add: s3_def s4_def contents_upd_queue)
      define n where "n = (if sz > msg_ts mp then msg_ts mp else sz)"
      have n: "n = min sz (int (length tx))" using rem(4) by (auto simp: n_def tx_def)
      have res: "out = TextOut (msg_type mp) (take (nat n) tx)"
          "r = MsgReturn n (if ip_mode (msg_perm (queue_at s3 i)) AND MSG_WWAIT \<noteq> 0 then s4 else s3)"
      proof -
        have F: "(sz < msg_ts mp \<and> flg AND MSG_NOERROR = 0) = False" "(\<not> ok) = False" "(u_error s \<noteq> E_NONE) = False"
          using fits True by simp_all
        have "rcv_deliver now pid i k ok sz flg s =
            (TextOut (msg_type mp) (take (nat n) tx),
             MsgReturn n (if ip_mode (msg_perm (queue_at s3 i)) AND MSG_WWAIT \<noteq> 0 then s4 else s3))"
          by (simp only: rcv_deliver_def Let_def qi F [unfolded mp_def] if_False s4_def s3_def s2_def g_def n_def tx_def mp_def)
        with r show "out = TextOut (msg_type mp) (take (nat n) tx)"
          "r = MsgReturn n (if ip_mode (msg_perm (queue_at s3 i)) AND MSG_WWAIT \<noteq> 0 then s4 else s3)" by simp_all
      qed
      have ck: "contents s i ! k = (msg_type mp, tx)" using rem(3) by (simp add: tx_def)
      have "n < int (length tx) \<longrightarrow> flg AND 4096 \<noteq> 0" using fits rem(4) by (auto simp: n_def tx_def)
      then have rc: "received conf (contents s) i k sz flg out (Some n) t" if "msg_inv conf t" "contents t = contents s3" for t
        using that c34 res(1) by (simp add: received_def Let_def ck n [symmetric])
      have "received conf (contents s) i k sz flg out (Some n) s3" using i3 by (rule rc) simp
      moreover have "received conf (contents s) i k sz flg out (Some n) s4" using i4 c34(2) by (rule rc)
      ultimately show ?thesis using res by simp
    qed
  qed
qed

end
