(* ===== verification/Message_Properties.thy ===== *)
theory Message_Properties
  imports Message_Contents
begin

text \<open>
  The properties of the message calls: the invariant of the store, sending and receiving in terms of
  the contents of the queues, removal, and two errors that modelling showed.
\<close>

section \<open>Each call\<close>

definition no_dead :: "int \<Rightarrow> 'a msg_state_scheme \<Rightarrow> bool" where
  "no_dead qid s \<longleftrightarrow> (\<forall>q\<in>set (the (msqs s)). ip_seq (msg_perm q) = qid \<longrightarrow> queue_alive q)"

lemma no_dead_cong: "msqs t = msqs s \<Longrightarrow> no_dead qid t = no_dead qid s"
  by (simp add: no_dead_def)

lemma no_dead_wait:
  "no_dead qid s \<Longrightarrow> no_dead qid (set_gate False i (upd_queue (upd_mode (\<lambda>m. m OR 1024)) i s))"
proof (cases "msqs s")
  case (Some qs)
  assume nd: "no_dead qid s"
  have "queue_alive (upd_mode (\<lambda>m. m OR 1024) q)" if "queue_alive q" for q
    using that by (simp add: queue_alive_mode)
  then show ?thesis using nd Some
    by (cases "i < length qs") (auto simp: no_dead_def list_update_beyond dest!: set_update_subset_insert [THEN subsetD])
qed (simp add: no_dead_def)

lemma umsgsnd_ends:
  assumes c: "msg_conf_ok conf" and inv: "msg_inv conf s" and up: "msqs s \<noteq> None"
    and ok: "mb_peek buf \<noteq> None" "sz \<noteq> 0" "\<forall>tx. mb_text buf = Some tx \<longrightarrow> nat sz \<le> length tx"
    and nd: "no_dead qid s" and env: "rely (\<lambda>t. msg_up conf t \<and> no_dead qid t) env"
  shows "\<exists>c. (env = [] \<longrightarrow> c = contents s) \<and>
    msg_ends (\<lambda>v t. fails_clean conf c (env = []) v t \<or>
      sent conf c (find_index (\<lambda>q. ip_seq (msg_perm q) = qid) (the (msqs s))) buf sz v t)
      (umsgsnd conf now pid qid buf sz flg env s)"
proof -
  define i where "i = find_index (\<lambda>q. ip_seq (msg_perm q) = qid) (the (msqs s))"
  define c0 where "c0 = contents s"
  have fail: "msg_ends (\<lambda>v t. fails_clean conf c0 (env = []) v t \<or> sent conf c0 i buf sz v t) r"
    if "msg_ends (fails_clean conf c0 (env = [])) r" for r
    by (rule msg_ends_mono [OF that]) simp
  obtain l s1 where l: "ipc_lack_perm (msg_perm (queue_at s i)) IWUGO s = (l, s1)"
    by (cases "ipc_lack_perm (msg_perm (queue_at s i)) IWUGO s")
  have sk: "same_kernel s s1"
    using ipc_lack_perm_same [of s "msg_perm (queue_at s i)" IWUGO] l by simp
  have inv1: "msg_inv conf s1" by (rule msg_inv_same [OF sk inv])
  have m1: "msqs s1 = msqs s" "msg_map s1 = msg_map s" using same_kernel_msg [OF sk] by blast+
  have c1: "contents s1 = c0" unfolding c0_def by (rule contents_cong) (simp_all add: m1)
  have eacces: "l \<Longrightarrow> u_error s1 = EACCES"
    using ipc_lack_perm_error [of "msg_perm (queue_at s i)" IWUGO s] l by simp
  show ?thesis
  proof (cases "int i < NMSQID conf \<and> \<not> l \<and> \<not> (the (mb_peek buf) < 1 \<or> sz < 0 \<or> sz > NMSC conf \<or> sz > NMSQB s1)")
    case False
    have "msg_ends (fails_clean conf c0 (env = [])) (umsgsnd conf now pid qid buf sz flg env s)"
      using False up ok(1) inv inv1 c1 c0_def eacces
      by (auto simp: umsgsnd_def Let_def i_def [symmetric] l fails_clean_error fails_clean_def split: bool.split)
    then show ?thesis using fail i_def c0_def by blast
  next
    case True
    have up1: "msg_up conf s1" using inv1 up m1 by (simp add: msg_up_def)
    have ii: "int i < NMSQID conf" using True by simp
    note lock = up_lock [OF up1 ii]
    let ?s2 = "set_gate True i s1"
    obtain qs where qs: "msqs s = Some qs" using up by auto
    have "length qs = nat (NMSQID conf)" using inv qs by (simp add: msg_inv_def msg_store_def store_ok_def)
    then have il: "i < length qs" using ii by simp
    then have seq: "ip_seq (msg_perm (queue_at s i)) = qid"
      using find_index_found [of "\<lambda>q. ip_seq (msg_perm q) = qid" qs] qs by (simp add: i_def queue_at_def)
    let ?Q = "\<lambda>t. no_dead qid t \<and> ip_seq (msg_perm (queue_at t i)) = qid"
    let ?P = "\<lambda>t. msg_up conf t \<and> no_dead qid t"
    have q2: "?Q ?s2" using nd seq m1 by (simp add: no_dead_def queue_at_def)
    have PQ: "?P (set_gate False i (upd_queue (upd_mode (\<lambda>m. m OR 1024)) i t))"
      if "msg_held conf i t" "?Q t" for t
      using held_wait [OF that(1)] no_dead_wait that(2) by blast
    have QP: "?Q (set_gate True i t)" if "?P t" "qid = ip_seq (msg_perm (queue_at t i))" for t
      using that no_dead_cong [of "set_gate True i t" t] by simp
    have eq: "umsgsnd conf now pid qid buf sz flg env s =
        (case snd_wait conf i qid sz flg env ?s2 of Stop r \<Rightarrow> r | Ready s3 \<Rightarrow> snd_deliver conf now pid i buf sz s3)"
      using True up ok(1) l lock(1) by (auto simp: umsgsnd_def Let_def i_def [symmetric])
    show ?thesis
    proof (cases "snd_wait conf i qid sz flg env ?s2")
      case (Stop r)
      have "msg_ends (fails_clean conf (contents ?s2) (env = [])) r"
        by (rule snd_wait_stop [where P = ?P and Q = ?Q, OF Stop lock(2) env]) (use PQ QP q2 in auto)
      then have "msg_ends (fails_clean conf c0 (env = [])) r" using c1 by simp
      then show ?thesis using fail i_def c0_def eq Stop by auto
    next
      case (Ready s3)
      have w: "msg_held conf i s3 \<and> ?Q s3 \<and> msg_qnum (queue_at s3 i) < NMSG conf \<and>
          msg_cbytes (queue_at s3 i) + sz \<le> msg_qbytes (queue_at s3 i) \<and> (env = [] \<longrightarrow> s3 = ?s2)"
        by (rule snd_wait_ready [where P = ?P and Q = ?Q, OF Ready lock(2) env]) (use PQ QP q2 in auto)
      then obtain qs3 where qs3: "msqs s3 = Some qs3" by (auto simp: msg_held_def)
      then have "i < length qs3" using w by (auto simp: msg_held_def msg_store_def store_ok_def)
      then have alive: "queue_alive (queue_at s3 i)" using w qs3 by (auto simp: no_dead_def queue_at_def)
      have "msg_ends (\<lambda>v t. fails_clean conf (contents s3) True v t \<or> sent conf (contents s3) i buf sz v t)
          (snd_deliver conf now pid i buf sz s3)"
        by (rule snd_deliver_ends [OF c]) (use w alive True ok in auto)
      then have "msg_ends (\<lambda>v t. fails_clean conf (contents s3) (env = []) v t \<or> sent conf (contents s3) i buf sz v t)
          (umsgsnd conf now pid qid buf sz flg env s)"
        unfolding eq Ready ready.case by (elim msg_ends_mono) (auto simp: fails_clean_def)
      moreover have "env = [] \<longrightarrow> contents s3 = contents s" using w c1 c0_def by auto
      ultimately show ?thesis using i_def by blast
    qed
  qed
qed

lemma umsgrcv_ends:
  assumes c: "msg_conf_ok conf" and inv: "msg_inv conf s" and env: "rely (msg_up conf) env"
    and r: "umsgrcv conf now pid qid ok sz typ flg env s = (out, r)"
  shows "\<exists>c k. (env = [] \<longrightarrow> c = contents s) \<and>
    msg_ends (\<lambda>v t. out = NoMsgOut \<and> fails_clean conf c (env = []) v t \<or>
      (- 2147483648 < typ \<and> typ \<le> 2147483647 \<longrightarrow> mq_selects typ (c (nat (qid mod NMSQID conf))) k) \<and>
      received conf c (nat (qid mod NMSQID conf)) k sz flg out v t) r"
proof -
  define i where "i = nat (qid mod NMSQID conf)"
  define c0 where "c0 = contents s"
  let ?R = "\<lambda>c k. msg_ends (\<lambda>v t. out = NoMsgOut \<and> fails_clean conf c (env = []) v t \<or>
      (- 2147483648 < typ \<and> typ \<le> 2147483647 \<longrightarrow> mq_selects typ (c i) k) \<and> received conf c i k sz flg out v t) r"
  have fail: "?R c0 0" if "out = NoMsgOut" "msg_ends (fails_clean conf c0 (env = [])) r"
    by (rule msg_ends_mono [OF that(2)]) (simp add: that(1))
  obtain l s1 where l: "ipc_lack_perm (msg_perm (queue_at s i)) IRUGO s = (l, s1)"
    by (cases "ipc_lack_perm (msg_perm (queue_at s i)) IRUGO s")
  have sk: "same_kernel s s1"
    using ipc_lack_perm_same [of s "msg_perm (queue_at s i)" IRUGO] l by simp
  have inv1: "msg_inv conf s1" by (rule msg_inv_same [OF sk inv])
  have m1: "msqs s1 = msqs s" "msg_map s1 = msg_map s" using same_kernel_msg [OF sk] by blast+
  have c1: "contents s1 = c0" unfolding c0_def by (rule contents_cong) (simp_all add: m1)
  have eacces: "l \<Longrightarrow> u_error s1 = EACCES"
    using ipc_lack_perm_error [of "msg_perm (queue_at s i)" IRUGO s] l by simp
  have "\<exists>c k. (env = [] \<longrightarrow> c = c0) \<and> ?R c k"
  proof (cases "\<not> (qid < 0 \<or> msqs s = None) \<and> \<not> (ip_seq (msg_perm (queue_at s i)) \<noteq> qid \<or> \<not> queue_alive (queue_at s i)) \<and> \<not> l")
    case False
    have "out = NoMsgOut \<and> msg_ends (fails_clean conf c0 (env = [])) r"
    proof (cases "l \<and> u_error s1 = EACCES \<and> r = MsgReturn (-1) s1 \<and> out = NoMsgOut")
      case True
      then show ?thesis using inv1 c1 by (simp add: fails_clean_def)
    next
      case F: False
      then have "out = NoMsgOut \<and> r = msg_error EINVAL s"
        using False r eacces by (auto simp: umsgrcv_def Let_def i_def [symmetric] l split: if_splits bool.splits)
      then show ?thesis using inv c0_def by (simp add: fails_clean_error)
    qed
    then show ?thesis using fail by blast
  next
    case True
    have up1: "msg_up conf s1" using inv1 True m1 by (simp add: msg_up_def)
    have ii: "int i < NMSQID conf" using c by (simp add: i_def msg_conf_ok_def)
    note lock = up_lock [OF up1 ii]
    let ?s2 = "set_gate True i s1"
    note w = rcv_wait_ends [OF lock(2) env, of "typ" qid flg]
    have eq: "(out, r) = (case rcv_wait i qid typ flg env ?s2 of
         Stop r \<Rightarrow> (NoMsgOut, r)
       | Ready s3 \<Rightarrow> rcv_deliver now pid i (the (rcv_pick typ (msg_first (queue_at s3 i)))) ok sz flg s3)"
    proof -
      have F: "(qid < 0 \<or> msqs s = None) = False"
        "(ip_seq (msg_perm (queue_at s i)) \<noteq> qid \<or> \<not> queue_alive (queue_at s i)) = False" "l = False"
        using True by simp_all
      show ?thesis
        unfolding r [symmetric] umsgrcv_def Let_def i_def [symmetric] F l
        by (simp only: lock(1) if_False prod.case bool.case ready.case)
    qed
    show ?thesis
    proof (cases "rcv_wait i qid typ flg env ?s2")
      case (Stop r')
      then have o: "out = NoMsgOut" "r = r'" using eq by simp_all
      have "msg_ends (fails_clean conf c0 (env = [])) r" using w c1 o(2) by (simp add: Stop)
      with o(1) have "?R c0 0" by (rule fail)
      then show ?thesis by blast
    next
      case (Ready s3)
      then have w3: "msg_held conf i s3" "env = [] \<longrightarrow> s3 = ?s2"
        "rcv_pick typ (msg_first (queue_at s3 i)) \<noteq> None" using w by simp_all
      then obtain k where k: "rcv_pick typ (msg_first (queue_at s3 i)) = Some k" by blast
      obtain qs3 where qs3: "msqs s3 = Some qs3" using w3 by (auto simp: msg_held_def)
      then have il: "i < length qs3" using w3 by (auto simp: msg_held_def msg_store_def store_ok_def)
      have sel: "- 2147483648 < typ \<and> typ \<le> 2147483647 \<longrightarrow> mq_selects typ (contents s3 i) k"
        using rcv_pick_selects(1) [of "typ" "msg_first (qs3 ! i)" k "msg_map s3"] k qs3 il
        by (simp add: contents_def queue_at_def)
      have "msg_ends (\<lambda>v t. out = NoMsgOut \<and> fails_clean conf (contents s3) True v t \<or>
          received conf (contents s3) i k sz flg out v t) r"
        by (rule rcv_deliver_ends [OF c w3(1) rcv_pick_less [OF k]]) (use eq Ready k in simp)
      then have "?R (contents s3) k"
        by (elim msg_ends_mono) (use sel in \<open>auto simp: fails_clean_def\<close>)
      moreover have "env = [] \<longrightarrow> contents s3 = c0" using w3(2) c1 by auto
      ultimately show ?thesis by blast
    qed
  qed
  then show ?thesis unfolding i_def c0_def .
qed



lemma alive_mode_bits:
  "((m AND NOT 511) OR (k AND 511)) AND 32768 = m AND (32768 :: int)"
proof -
  have "(m AND - 512) AND 32768 = m AND (32768 :: int)" "(k AND 511) AND 32768 = (0 :: int)"
    by (simp_all add: and.assoc)
  then show ?thesis by (simp add: bit.conj_disj_distrib2)
qed

definition quiet_msg :: "msg_conf \<Rightarrow> 'a msg_state_scheme \<Rightarrow> 'a msg_state_scheme \<Rightarrow> bool" where
  "quiet_msg conf s t \<longleftrightarrow> msg_inv conf t \<and> contents t = contents s \<and> msg_wakeups t = msg_wakeups s"

lemma quiet_msg_same: "same_kernel s t \<Longrightarrow> msg_inv conf s \<Longrightarrow> quiet_msg conf s t"
  unfolding quiet_msg_def using msg_inv_same same_kernel_msg contents_cong by metis

lemma quiet_msg_error: "quiet_msg conf s (t\<lparr>u_error := e\<rparr>) = quiet_msg conf s t"
  by (simp add: quiet_msg_def msg_inv_error)

lemma msg_set_quiet:
  assumes inv: "msg_inv conf s" and b: "\<forall>u g m b. mq_set buf = Some (u, g, m, b) \<longrightarrow> b \<le> 65535"
  shows "quiet_msg conf s (msg_set i buf s)"
proof -
  obtain lvl s1 where l: "ipc_cred_match (msg_perm (queue_at s i)) s = (lvl, s1)" by fastforce
  have sk: "same_kernel s s1" using ipc_cred_match_result [of "msg_perm (queue_at s i)" s] l by simp
  note q1 = quiet_msg_same [OF sk inv]
  show ?thesis
  proof (cases "lvl \<noteq> CRED_OWNER \<or> mq_set buf = None")
    case True
    then show ?thesis using l q1 by (auto simp: msg_set_def quiet_msg_error)
  next
    case False
    then obtain u g m b where m: "mq_set buf = Some (u, g, m, b)" by (metis prod_cases4 option.exhaust)
    obtain ok s2 where s2: "(if b > msg_qbytes (queue_at s1 i) then super s1 else (True, s1)) = (ok, s2)" by fastforce
    have sk2: "same_kernel s s2"
      using s2 super_result [of s1] sk same_kernel_trans [of s s1 "snd (super s1)"] by (auto split: if_splits)
    define f where "f = (\<lambda>q :: msqid_ds. q\<lparr>msg_perm := (msg_perm q)
        \<lparr>ip_uid := u, ip_gid := g, ip_mode := (ip_mode (msg_perm q) AND NOT IRWXUGO) OR (m AND IRWXUGO)\<rparr>,
        msg_qbytes := b\<rparr>)"
    have "quiet_msg conf s (upd_queue f i (s2\<lparr>NMSQB := b\<rparr>))"
    proof -
      note q2 = quiet_msg_same [OF sk2 inv]
      have "msg_store conf (upd_queue f i (s2\<lparr>NMSQB := b\<rparr>))"
      proof (rule upd_queue_same)
        show "msg_store conf (s2\<lparr>NMSQB := b\<rparr>)" using q2 by (simp add: quiet_msg_def msg_inv_def)
        fix q :: msqid_ds
        have "queue_alive (f q) = queue_alive q"
          unfolding queue_alive_def f_def by (simp add: alive_mode_bits [simplified])
        then show "msg_first (f q) = msg_first q \<and> msg_last (f q) = msg_last q \<and> msg_qnum (f q) = msg_qnum q \<and>
            msg_cbytes (f q) = msg_cbytes q \<and> (msg_qbytes q \<le> 65535 \<longrightarrow> msg_qbytes (f q) \<le> 65535) \<and>
            (queue_alive q \<longrightarrow> queue_alive (f q))"
          using b m by (simp add: f_def)
      qed
      moreover have "contents (upd_queue f i (s2\<lparr>NMSQB := b\<rparr>)) = contents (s2\<lparr>NMSQB := b\<rparr>)"
        by (rule contents_upd_queue) (simp add: f_def)
      ultimately show ?thesis using q2 by (simp add: quiet_msg_def msg_inv_def) (simp add: upd_queue_def)
    qed
    then show ?thesis using False l m s2 quiet_msg_same [OF sk2 inv]
      by (cases ok) (simp_all add: msg_set_def f_def quiet_msg_error)
  qed
qed

definition msg_removed :: "msg_conf \<Rightarrow> int \<Rightarrow> nat \<Rightarrow> 'a msg_state_scheme \<Rightarrow> 'a msg_state_scheme \<Rightarrow> bool" where
  "msg_removed conf now i s t \<longleftrightarrow>
     msg_inv conf t \<and> contents t = (contents s)(i := []) \<and> msg_wakeups t = msg_wakeups s \<and>
     ip_mode (msg_perm (queue_at t i)) = 0 \<and> msg_ctime (queue_at t i) = now \<and>
     ip_seq (msg_perm (queue_at t i)) = uwrap16 (ip_seq (msg_perm (queue_at s i)) + 50)"

lemma msg_rmid_result:
  assumes c: "msg_conf_ok conf" and inv: "msg_inv conf s" and up: "msqs s \<noteq> None" and i: "int i < NMSQID conf"
  shows "quiet_msg conf s (msg_rmid now i s) \<and> u_error (msg_rmid now i s) = EPERM \<or>
    msg_removed conf now i s (msg_rmid now i s) \<and> u_error (msg_rmid now i s) = u_error s"
proof -
  obtain lvl s1 where l: "ipc_cred_match (msg_perm (queue_at s i)) s = (lvl, s1)" by fastforce
  have sk: "same_kernel s s1" and e1: "u_error s1 = u_error s"
    using ipc_cred_match_result [of "msg_perm (queue_at s i)" s] l by simp_all
  note q1 = quiet_msg_same [OF sk inv]
  show ?thesis
  proof (cases "lvl = CRED_OWNER")
    case False
    then show ?thesis using l q1 by (simp add: msg_rmid_def quiet_msg_error)
  next
    case True
    obtain qs where qs: "msqs s = Some qs" using up by auto
    have m1: "msqs s1 = Some qs" "msg_map s1 = msg_map s" "msg_wakeups s1 = msg_wakeups s" "msg_gate s1 = msg_gate s"
      using same_kernel_msg [OF sk] qs by auto
    have store: "store_ok conf qs (msg_map s)" using inv qs by (simp add: msg_inv_def msg_store_def)
    then have il: "i < length qs" using i by (simp add: store_ok_def)
    define f where "f = (\<lambda>q :: msqid_ds. q\<lparr>msg_first := [], msg_last := None, msg_qnum := 0, msg_cbytes := 0,
        msg_perm := (msg_perm q)\<lparr>ip_mode := 0, ip_seq := uwrap16 (ip_seq (msg_perm q) + 50)\<rparr>, msg_ctime := now\<rparr>)"
    define mp where "mp = fold (\<lambda>m mp. mp[nat (msg_spot m) := NoText]) (msg_first (qs ! i)) (msg_map s)"
    define t where "t = upd_queue f i (s1\<lparr>msg_map := mp\<rparr>)"
    have t: "msg_rmid now i s = t"
      using True l m1 by (simp add: msg_rmid_def fold_msgfree queue_at_def f_def t_def mp_def)
    have "queue_ok conf (msg_map s) (qs ! i)" using store il by (simp add: store_ok_def)
    then have "store_ok conf (qs[i := f (qs ! i)]) mp"
      unfolding mp_def by (intro store_clear [OF store c il]) (simp_all add: f_def queue_ok_def)
    then have inv': "msg_inv conf t" using m1 inv by (simp add: t_def msg_inv_def msg_store_def)
    have other: "map (msg_content mp) (msg_first (qs ! j)) = map (msg_content (msg_map s)) (msg_first (qs ! j))"
      if j: "j < length qs" "j \<noteq> i" for j
    proof (rule map_cong [OF refl])
      fix m assume m: "m \<in> set (msg_first (qs ! j))"
      have pos: "0 \<le> msg_spot m'" "nat (msg_spot m') < length (msg_map s)"
        if "m' \<in> set (msg_first q)" "q \<in> set qs" for m' q
        using that store by (auto simp: store_ok_def queue_ok_def spot_ok_def)
      have "msg_spot m \<notin> set (spots (qs ! i))"
        using spots_apart [OF _ il j m] store by (auto simp: store_ok_def)
      then have "\<not> (\<exists>m'\<in>set (msg_first (qs ! i)). nat (msg_spot m') = nat (msg_spot m))"
        using pos(1) [of _ "qs ! i"] pos(1) [of m "qs ! j"] m il j(1)
        by (auto simp: spots_def eq_nat_nat_iff dest: sym)
      then show "msg_content mp m = msg_content (msg_map s) m"
        using pos(2) [of m "qs ! j"] m j(1) by (simp add: msg_content_def mp_def fold_free_nth)
    qed
    have "contents t j = ((contents s)(i := [])) j" for j
      using m1 qs other [of j] by (cases "j = i") (simp_all add: contents_def t_def f_def)
    then have "contents t = (contents s)(i := [])" by blast
    then show ?thesis using t inv' m1 qs il e1
      by (simp add: msg_removed_def) (simp add: t_def f_def upd_queue_def queue_at_def)
  qed
qed

lemma umsgctl_ends:
  assumes c: "msg_conf_ok conf" and inv: "msg_inv conf s" and up: "0 \<le> qid \<longrightarrow> msqs s \<noteq> None"
    and e: "u_error s = E_NONE" and b: "\<forall>u g m b. mq_set buf = Some (u, g, m, b) \<longrightarrow> b \<le> 65535"
    and r: "umsgctl conf now qid cmd buf s = (out, r)"
  shows "msg_ends (\<lambda>v t. quiet_msg conf s t \<and> (cmd = MSG_RMID \<longrightarrow> v = Some (-1) \<and> u_error t \<noteq> E_NONE) \<or>
    cmd = MSG_RMID \<and> v = Some 0 \<and> msg_removed conf now (nat (qid mod NMSQID conf)) s t) r"
proof -
  define i where "i = nat (qid mod NMSQID conf)"
  have ii: "int i < NMSQID conf" using c by (simp add: i_def msg_conf_ok_def)
  have q0: "quiet_msg conf s s" using inv by (simp add: quiet_msg_def)
  show ?thesis
  proof (cases "qid < 0")
    case True
    then show ?thesis using r q0 by (auto simp: umsgctl_def msg_error_def quiet_msg_error)
  next
    case False
    define bad where "bad \<longleftrightarrow> ip_seq (msg_perm (queue_at s i)) \<noteq> qid \<or> \<not> queue_alive (queue_at s i)"
    obtain stop s1 where g: "(if bad then (if cmd \<noteq> MSG_STAT then (True, s) else case super s of (b, s') \<Rightarrow> (\<not> b, s'))
        else (False, s)) = (stop, s1)" by fastforce
    then have s1: "cmd \<noteq> MSG_STAT \<longrightarrow> s1 = s" "same_kernel s s1"
      using super_result [of s] by (auto split: if_splits prod.splits)
    have q1: "quiet_msg conf s s1" by (rule quiet_msg_same [OF s1(2) inv])
    obtain out2 s2 where g2: "(if cmd = MSG_STAT then msg_stat i buf s1
                   else if cmd = MSG_SET then (NoMsgOut, msg_set i buf s1)
                   else if cmd = MSG_RMID then (NoMsgOut, msg_rmid now i s1)
                   else (NoMsgOut, s1\<lparr>u_error := EINVAL\<rparr>)) = (out2, s2)" by fastforce
    have r2: "r = (if stop then msg_error EINVAL s1 else MsgReturn (if u_error s2 \<noteq> E_NONE then -1 else 0) s2)"
    proof -
      have F: "(qid < 0) = False" "(msqs s = None) = False" using False up by simp_all
      have "(out, r) = (if stop then (NoMsgOut, msg_error EINVAL s1)
          else (out2, MsgReturn (if u_error s2 \<noteq> E_NONE then -1 else 0) s2))"
        unfolding r [symmetric] umsgctl_def Let_def i_def [symmetric] F bad_def [symmetric] if_False g prod.case g2
        by (cases stop) simp_all
      then show ?thesis by (simp split: if_splits)
    qed
    show ?thesis
    proof (cases stop)
      case True
      then show ?thesis using r2 q1 by (auto simp: msg_error_def quiet_msg_error)
    next
      case go: False
      consider (stat) "cmd = MSG_STAT" | (rmid) "cmd = MSG_RMID" | (other) "cmd \<noteq> MSG_STAT" "cmd \<noteq> MSG_RMID" by blast
      then show ?thesis
      proof cases
        case stat
        obtain l s3 where l: "ipc_lack_perm (msg_perm (queue_at s1 i)) IRUGO s1 = (l, s3)" by fastforce
        have "same_kernel s1 s3" using ipc_lack_perm_same [of s1 "msg_perm (queue_at s1 i)" IRUGO] l by simp
        then have "quiet_msg conf s s3" using quiet_msg_same [OF same_kernel_trans inv] s1(2) by blast
        then have "quiet_msg conf s s2" using g2 stat l by (cases l) (auto simp: msg_stat_def quiet_msg_error split: if_splits)
        then show ?thesis using r2 go stat by simp
      next
        case rmid
        then have "s2 = msg_rmid now i s" using g2 s1 by simp
        moreover have m: "msqs s \<noteq> None" using up False by simp
        note rr = msg_rmid_result [OF c inv m ii, of now]
        ultimately have "quiet_msg conf s s2 \<and> u_error s2 = EPERM \<or> msg_removed conf now i s s2 \<and> u_error s2 = E_NONE"
          using rr e by simp
        then show ?thesis unfolding i_def [symmetric] r2 using go rmid by auto
      next
        case other
        then have "quiet_msg conf s s2"
          using g2 s1 q0 msg_set_quiet [OF inv b, where i = i] by (auto simp: quiet_msg_error split: if_splits)
        then show ?thesis using r2 go other by simp
      qed
    qed
  qed
qed

section \<open>The properties\<close>

definition demo_mconf :: msg_conf where
  "demo_mconf = \<lparr>NMSQID = 2, NMSG = 2, NMSC = 8\<rparr>"

definition demo_queue :: "msg list \<Rightarrow> int \<Rightarrow> msqid_ds" where
  "demo_queue ms bytes =
     \<lparr>msg_perm = \<lparr>ip_uid = 5, ip_gid = 5, ip_cuid = 5, ip_cgid = 5, ip_mode = 33152, ip_seq = 0, ip_key = 7\<rparr>,
      msg_first = ms, msg_last = (if ms = [] then None else Some (msg_spot (last ms))), msg_cbytes = bytes,
      msg_qnum = int (length ms), msg_qbytes = 8, msg_lspid = 0, msg_lrpid = 0, msg_stime = 0, msg_rtime = 0,
      msg_ctime = 1\<rparr>"

definition demo_muser :: "int \<Rightarrow> cred" where
  "demo_muser u = \<lparr>cr_ref = 1, cr_ngroups = 0, cr_uid = u, cr_gid = 5, cr_ruid = u, cr_rgid = 5,
     cr_suid = u, cr_sgid = 5, cr_groups = 0\<rparr>"

definition demo_msgs :: "msqid_ds list option \<Rightarrow> map_entry list \<Rightarrow> msg_state" where
  "demo_msgs qs mp =
     \<lparr>u_error = E_NONE, u_asu = False, p_credp = 1, cred_mem = [1 \<mapsto> demo_muser 5], groups_mem = Map.empty,
      kallocs = [Some 0, Some 0, Some 0, Some 0, Some 0], msqs = qs, msg_gate = (\<lambda>_. False), msg_map = mp,
      NMSQB = 8, msg_wakeups = []\<rparr>"

text \<open>Queue 0 holds a message of type 3 and one of type 2; queue 1 is free.\<close>

definition demo_two :: msg_state where
  "demo_two = demo_msgs
     (Some [demo_queue [\<lparr>msg_type = 3, msg_ts = 2, msg_spot = 1\<rparr>, \<lparr>msg_type = 2, msg_ts = 3, msg_spot = 0\<rparr>] 5,
            fresh_queue 1 8 1]) [Text [7, 8, 9], Text [1, 2], NoText, NoText]"

definition demo_none :: msg_state where
  "demo_none = demo_msgs (Some [demo_queue [] 0, fresh_queue 1 8 1]) [NoText, NoText, NoText, NoText]"

lemmas demo_msg_defs = demo_mconf_def demo_queue_def demo_muser_def demo_msgs_def demo_two_def demo_none_def
  fresh_queue_def

lemma demo_mconf_ok: "msg_conf_ok demo_mconf"
  by (simp add: msg_conf_ok_def demo_mconf_def)

lemma demo_two_inv: "msg_inv demo_mconf demo_two"
  by (simp add: msg_inv_def msg_store_def store_ok_def queue_ok_def spot_ok_def all_spots_def spots_def
      queue_alive_def demo_msg_defs eval_nat_numeral All_less_Suc uwrap16_def)

lemma demo_none_inv: "msg_inv demo_mconf demo_none"
  by (simp add: msg_inv_def msg_store_def store_ok_def queue_ok_def all_spots_def spots_def
      queue_alive_def demo_msg_defs eval_nat_numeral All_less_Suc uwrap16_def)







text \<open>
  C11. Receiving: a \<open>msgrcv\<close> that succeeds takes the first message for type 0, the first of the
  type for a positive type, and for a negative one the first among those of the lowest type up to
  its absolute value; it delivers the type and the text, cut off at \<open>sz\<close> bytes only with
  \<open>MSG_NOERROR\<close>, returns the number of bytes, and removes that message and nothing else. A call that
  fails delivers nothing and, if it did not sleep, leaves all contents alone.
\<close>

theorem msgrcv_takes:
  assumes "msg_conf_ok conf" "msg_inv conf s" "rely (\<lambda>t. msg_inv conf t \<and> msqs t \<noteq> None) env"
    "- 2147483648 < ty" "ty \<le> 2147483647"
    and i: "i = nat (qid mod NMSQID conf)"
    and r: "umsgrcv conf now pid qid ok sz ty flg env s = (out, MsgReturn v t)"
  shows "(\<exists>c k. (env = [] \<longrightarrow> c = contents s) \<and> mq_selects ty (c i) k \<and>
      (v < int (length (snd (c i ! k))) \<longrightarrow> flg AND MSG_NOERROR \<noteq> 0) \<and>
      v = min sz (int (length (snd (c i ! k)))) \<and>
      out = TextOut (fst (c i ! k)) (take (nat v) (snd (c i ! k))) \<and>
      contents t = c(i := take k (c i) @ drop (Suc k) (c i))) \<or>
    v = -1 \<and> out = NoMsgOut \<and> u_error t \<noteq> E_NONE \<and> (env = [] \<longrightarrow> contents t = contents s)"
proof -
  have e: "rely (msg_up conf) env" using assms(3) by (simp add: rely_def msg_up_def)
  from umsgrcv_ends [OF assms(1,2) e r] obtain c k where ck: "env = [] \<longrightarrow> c = contents s"
      "out = NoMsgOut \<and> fails_clean conf c (env = []) (Some v) t \<or>
       (- 2147483648 < ty \<and> ty \<le> 2147483647 \<longrightarrow> mq_selects ty (c i) k) \<and> received conf c i k sz flg out (Some v) t"
    unfolding i by auto
  show ?thesis
  proof (cases "out = NoMsgOut \<and> fails_clean conf c (env = []) (Some v) t")
    case True
    then show ?thesis using ck(1) by (auto simp: fails_clean_def)
  next
    case False
    then have "mq_selects ty (c i) k" "received conf c i k sz flg out (Some v) t" using ck(2) assms(4,5) by auto
    then show ?thesis using ck(1)
      by (intro disjI1 exI [of _ c] exI [of _ k]) (simp add: received_def Let_def remove_nth_def)
  qed
qed

lemma contents_demo_two: "contents demo_two = (\<lambda>_. [])(0 := [(3, [1, 2]), (2, [7, 8, 9])])"
  by (rule ext) (simp add: contents_def demo_msg_defs msg_content_def text_of_def nth_Cons split: nat.split)

theorem msgrcv_takes_witness:
  "\<exists>t. umsgrcv demo_mconf 9 4 0 True 8 (-3) 2048 [] demo_two = (TextOut 2 [7, 8, 9], MsgReturn 3 t) \<and>
     contents t = (\<lambda>_. [])(0 := [(3, [1, 2])])"
proof -
  obtain out v t where r: "umsgrcv demo_mconf 9 4 0 True 8 (-3) 2048 [] demo_two = (out, MsgReturn v t)" "v = 3"
    by (simp add: umsgrcv_def demo_msg_defs ipc_perm_defs queue_at_def cred_at_def PERM_EXTRACT_def lock_queue_def
        rcv_wait.simps rcv_pick_def rcv_deliver_def set_gate_def set_spot_def upd_queue_def msgfree_def Let_def
        queue_alive_def)
  have "(\<exists>c k. c = contents demo_two \<and> mq_selects (-3) (c 0) k \<and>
      v = min 8 (int (length (snd (c 0 ! k)))) \<and>
      out = TextOut (fst (c 0 ! k)) (take (nat v) (snd (c 0 ! k))) \<and>
      contents t = c(0 := take k (c 0) @ drop (Suc k) (c 0)))"
    using msgrcv_takes [OF demo_mconf_ok demo_two_inv _ _ _ refl r(1)] r(2) by (auto simp: demo_mconf_def)
  then obtain k where k: "mq_selects (-3) (contents demo_two 0) k"
      "out = TextOut (fst (contents demo_two 0 ! k)) (take (nat v) (snd (contents demo_two 0 ! k)))"
      "contents t = (contents demo_two)(0 := take k (contents demo_two 0) @ drop (Suc k) (contents demo_two 0))"
    by blast
  have "k = 1" using k(1) by (auto simp: mq_selects_def contents_demo_two All_less_Suc less_Suc_eq)
  then show ?thesis using k r by (simp add: contents_demo_two fun_upd_def) (simp add: fun_eq_iff)
qed

text \<open>
  What is sent to an empty queue is what the next \<open>msgrcv\<close> of type 0 delivers: the type, and as
  much of the text as the receiver has asked for; afterwards all contents are as they were. The ids
  of the queues must be their positions modulo \<open>NMSQID\<close>, since \<open>msgsnd\<close> searches for an id
  and \<open>msgrcv\<close> computes the position from it.
\<close>

theorem msg_roundtrip:
  assumes "msg_conf_ok conf" "msg_inv conf s" "msqs s = Some qs" "mb_peek buf = Some ty" "mb_type buf = Some ty"
    "mb_text buf = Some tx" "0 < sz" "nat sz \<le> length tx" "no_dead qid s"
    and ids: "\<forall>j<length qs. ip_seq (msg_perm (qs ! j)) mod NMSQID conf = int j"
    and i: "i = nat (qid mod NMSQID conf)" "contents s i = []"
    and snd: "umsgsnd conf now pid qid buf sz flg [] s = MsgReturn 0 t"
    and rcv: "umsgrcv conf now' pid' qid ok sz' 0 flg' [] t = (out, MsgReturn v u)" "v \<noteq> -1"
  shows "v = min sz' sz \<and> out = TextOut ty (take (nat v) (take (nat sz) tx)) \<and> contents u = contents s"
proof -
  define j where "j = find_index (\<lambda>q. ip_seq (msg_perm q) = qid) (the (msqs s))"
  have "\<exists>c. c = contents s \<and> msg_ends (\<lambda>v t. fails_clean conf c True v t \<or> sent conf c j buf sz v t) (MsgReturn 0 t)"
    using umsgsnd_ends [OF assms(1,2), of buf sz qid "[]" now pid flg] assms(3-9) snd unfolding j_def by auto
  then have s: "sent conf (contents s) j buf sz (Some 0) t" by (auto simp: fails_clean_def)
  have len: "length qs = nat (NMSQID conf)"
    using assms(2,3) by (simp add: msg_inv_def msg_store_def store_ok_def)
  have "j < length qs"
  proof (rule ccontr)
    assume "\<not> j < length qs"
    then have "int j \<ge> NMSQID conf" using len by simp
    then show False using snd assms(3) by (simp add: umsgsnd_def Let_def j_def msg_error_def)
  qed
  then have "ip_seq (msg_perm (qs ! j)) = qid"
    using find_index_found [of "\<lambda>q. ip_seq (msg_perm q) = qid" qs] assms(3) by (simp add: j_def)
  then have ji: "j = i" using ids \<open>j < length qs\<close> i(1) by auto
  then have ct: "contents t = (contents s)(i := [(ty, take (nat sz) tx)])" and inv: "msg_inv conf t"
    using s i(2) assms(5,6) by (auto simp: sent_def)
  obtain k where k: "mq_selects 0 (contents t i) k" "received conf (contents t) i k sz' flg' out (Some v) u"
    using umsgrcv_ends [OF assms(1) inv _ rcv(1)] rcv(2) unfolding i(1) by (auto simp: fails_clean_def)
  then have "k = 0" by (simp add: mq_selects_def)
  then show ?thesis using k(2) ct assms(7,8) i(2)
    by (simp add: received_def Let_def remove_nth_def) (simp add: fun_upd_idem)
qed

theorem msg_roundtrip_witness:
  "\<exists>t u. umsgsnd demo_mconf 9 4 0 \<lparr>mb_peek = Some 6, mb_type = Some 6, mb_text = Some [1, 2, 3]\<rparr> 2 0 [] demo_none
      = MsgReturn 0 t \<and>
    umsgrcv demo_mconf 9 5 0 True 8 0 0 [] t = (TextOut 6 [1, 2], MsgReturn 2 u) \<and> contents u = contents demo_none"
proof -
  let ?buf = "\<lparr>mb_peek = Some 6, mb_type = Some 6, mb_text = Some [1, 2, 3 :: int]\<rparr>"
  note defs = umsgsnd_def umsgrcv_def demo_msg_defs ipc_perm_defs queue_at_def cred_at_def PERM_EXTRACT_def
    lock_queue_def snd_wait.simps snd_deliver_def kalloc_def kalloc_panics_def set_gate_def set_spot_def
    upd_queue_def Let_def eval_nat_numeral queue_alive_def rcv_wait.simps rcv_pick_def rcv_deliver_def
    msgfree_def
  obtain t out u where r: "umsgsnd demo_mconf 9 4 0 ?buf 2 0 [] demo_none = MsgReturn 0 t"
      "umsgrcv demo_mconf 9 5 0 True 8 0 0 [] t = (out, MsgReturn 2 u)"
    by (simp add: defs)
  have qs: "msqs demo_none = Some (the (msqs demo_none))" by (simp add: demo_msg_defs)
  have ids: "\<forall>j<length (the (msqs demo_none)). ip_seq (msg_perm (the (msqs demo_none) ! j)) mod NMSQID demo_mconf = int j"
    by (auto simp: demo_msg_defs less_Suc_eq)
  have "2 = min 8 (2 :: int) \<and> out = TextOut 6 (take (nat 2) (take (nat 2) [1, 2, 3])) \<and> contents u = contents demo_none"
    by (rule msg_roundtrip [OF demo_mconf_ok demo_none_inv qs _ _ _ _ _ _ ids refl _ r])
      (simp_all add: demo_msg_defs no_dead_def queue_alive_def contents_def)
  then show ?thesis using r by (simp add: eval_nat_numeral)
qed

text \<open>
  \<open>msgctl\<close> changes the contents of no queue, but for a successful \<open>IPC_RMID\<close>, which empties the
  queue named, frees the places of its texts, makes the queue free and moves its id on by 50; and no
  command wakes the processes that sleep on the queue, not even \<open>IPC_RMID\<close>, which also
  forgets (with the mode) that there are any.
\<close>

theorem msgctl_removes:
  assumes "msg_conf_ok conf" "msg_inv conf s" "0 \<le> qid \<longrightarrow> msqs s \<noteq> None" "u_error s = E_NONE"
    "\<forall>u g m b. mq_set buf = Some (u, g, m, b) \<longrightarrow> b \<le> 65535"
    and i: "i = nat (qid mod NMSQID conf)"
    and r: "umsgctl conf now qid cmd buf s = (out, MsgReturn v t)"
  shows "msg_inv conf t \<and> msg_wakeups t = msg_wakeups s \<and>
    (if cmd = MSG_RMID \<and> v \<noteq> -1
     then contents t = (contents s)(i := []) \<and> ip_mode (msg_perm (queue_at t i)) = 0 \<and>
       ip_seq (msg_perm (queue_at t i)) = uwrap16 (ip_seq (msg_perm (queue_at s i)) + 50)
     else contents t = contents s)"
  using umsgctl_ends [OF assms(1-5) r] unfolding i by (auto simp: quiet_msg_def msg_removed_def)

theorem msgctl_removes_witness:
  "\<exists>t. umsgctl demo_mconf 9 0 MSG_RMID \<lparr>mq_set = None, mq_writable = True\<rparr> demo_two = (NoMsgOut, MsgReturn 0 t) \<and>
     contents t = (\<lambda>_. []) \<and> ip_seq (msg_perm (queue_at t 0)) = 50"
proof -
  let ?buf = "\<lparr>mq_set = None, mq_writable = True\<rparr>"
  obtain t where r: "umsgctl demo_mconf 9 0 MSG_RMID ?buf demo_two = (NoMsgOut, MsgReturn 0 t)"
    by (simp add: umsgctl_def msg_rmid_def demo_msg_defs ipc_perm_defs queue_at_def cred_at_def Let_def
        fold_msgfree upd_queue_def queue_alive_def)
  have "contents t = (contents demo_two)(0 := []) \<and>
      ip_seq (msg_perm (queue_at t 0)) = uwrap16 (ip_seq (msg_perm (queue_at demo_two 0)) + 50)"
    using msgctl_removes [OF demo_mconf_ok demo_two_inv _ _ _ refl r] by (simp add: demo_msg_defs)
  moreover have "(contents demo_two)(0 := []) = (\<lambda>_. [])" by (rule ext) (simp add: contents_demo_two)
  moreover have "ip_seq (msg_perm (queue_at demo_two 0)) = 0" by (simp add: queue_at_def demo_msg_defs)
  ultimately show ?thesis using r by simp
qed

lemma scan_fresh:
  "msg_scan key k (map (fresh_queue now b) js) (Some (0, now)) = (None, Some (0, now))"
  by (induction js arbitrary: k) (simp_all add: queue_alive_def fresh_queue_def)

text \<open>
  The first \<open>msgget\<close> does not clear the message map. If the memory it got held no zero word,
  then the first message sent to the new queue is refused with \<open>ENOSPC\<close> although the queue is empty,
  and since the gate is not unlocked on that path, every later \<open>msgrcv\<close> on the queue waits for ever,
  also with \<open>IPC_NOWAIT\<close>.
\<close>

theorem uncleared_map_locks_queue:
  assumes c: "msg_conf_ok conf" and s: "msqs s = None" "kallocs s = Some a # Some b # Some d # rest" "u_error s = E_NONE"
    and old: "\<forall>i. old i"
    and m: "mb_peek buf = Some ty" "1 \<le> ty" "0 < sz" "sz \<le> NMSC conf" "sz \<le> NMSQB s" "NMSQB s \<le> 65535"
  shows "\<exists>s1 s2. umsgget conf now old key (IPC_CREAT OR 384) s = MsgReturn 0 s1 \<and> contents s1 0 = [] \<and>
    umsgsnd conf now pid 0 buf sz flg [] s1 = MsgReturn (-1) s2 \<and> u_error s2 = ENOSPC \<and>
    umsgrcv conf now pid' 0 ok sz' typ' flg' env s2 = (NoMsgOut, MsgStuck s2)"
proof -
  define n where "n = nat (NMSQID conf)"
  define k where "k = nat (NMSQID conf * NMSG conf)"
  have n: "0 < n" "int n = NMSQID conf" "int k = NMSQID conf * NMSG conf"
    using c by (simp_all add: n_def k_def msg_conf_ok_def)
  define perm where "perm = \<lparr>ip_uid = cr_uid (cred_at s (p_credp s)), ip_gid = cr_gid (cred_at s (p_credp s)),
      ip_cuid = cr_uid (cred_at s (p_credp s)), ip_cgid = cr_gid (cred_at s (p_credp s)),
      ip_mode = 33152, ip_seq = 0, ip_key = key\<rparr>"
  define q where "q = (fresh_queue now (NMSQB s) 0)\<lparr>msg_perm := perm\<rparr>"
  define qs where "qs = (map (fresh_queue now (NMSQB s)) [0..<n])[0 := q]"
  define s1 where "s1 = s\<lparr>kallocs := rest, msqs := Some qs, msg_gate := (\<lambda>_. False), msg_map := replicate k Stale\<rparr>"
  have up: "[0..<n] = 0 # [Suc 0..<n]" using n(1) by (simp add: upt_conv_Cons)
  have sc: "msg_scan key 0 (map (fresh_queue now (NMSQB s)) [0..<n]) None = (None, Some (0, now))"
    unfolding up using scan_fresh [of key "Suc 0" now "NMSQB s" "[Suc 0..<n]"]
    by (simp add: queue_alive_def fresh_queue_def)
  have init: "msginit conf now old s =
      (0, s\<lparr>kallocs := rest, msqs := Some (map (fresh_queue now (NMSQB s)) [0..<n]), msg_gate := (\<lambda>_. False),
            msg_map := replicate k Stale\<rparr>)"
    using s(2) old by (simp add: msginit_def kalloc_def n_def k_def map_replicate_const)
  have get: "umsgget conf now old key (IPC_CREAT OR 384) s = MsgReturn 0 s1"
    using s(1) n(1) unfolding umsgget_def
    by (simp add: init sc Let_def upd_queue_def ipc_perm_init_def cred_at_def s1_def qs_def q_def perm_def
        queue_at_def fresh_queue_def uwrap16_def upd_conv_take_nth_drop)
  have q0: "queue_at s1 0 = q" "the (msqs s1) = qs" "qs \<noteq> []" "hd qs = q"
    using n(1) by (auto simp: queue_at_def s1_def qs_def hd_conv_nth)
  then have f0: "find_index (\<lambda>q. ip_seq (msg_perm q) = 0) qs = 0"
    by (cases qs) (simp_all add: q_def perm_def)
  have lack: "ipc_lack_perm (msg_perm q) w t = (False, t)"
    if "cred_at t (p_credp t) = cred_at s (p_credp s)" "w = IRUGO \<or> w = IWUGO" for t :: "'a msg_state_scheme" and w
    using that by (auto simp: ipc_perm_defs q_def perm_def PERM_EXTRACT_def Let_def)
  have full: "find_index (\<lambda>e. e = NoText) (msg_map s1) = k"
    using find_index_none [of "\<lambda>e. e = NoText" "replicate k Stale"] by (simp add: s1_def)
  have s1: "msqs s1 = Some qs" "NMSQB s1 = NMSQB s" "msg_gate s1 = (\<lambda>_. False)" "cred_at s1 (p_credp s1) = cred_at s (p_credp s)"
    by (simp_all add: s1_def cred_at_def)
  have qf: "msg_qnum q = 0" "msg_cbytes q = 0" "msg_qbytes q = NMSQB s" "msg_first q = []" "ip_seq (msg_perm q) = 0"
      "queue_alive q"
    using m by (simp_all add: q_def fresh_queue_def perm_def queue_alive_def)
  define s2 where "s2 = (set_gate True 0 s1)\<lparr>u_error := ENOSPC\<rparr>"
  have lock: "lock_queue 0 s1 = Ready (set_gate True 0 s1)" by (simp add: lock_queue_def s1)
  have N: "0 < NMSQID conf" "0 < NMSG conf" using c by (simp_all add: msg_conf_ok_def)
  have wait: "snd_wait conf 0 0 sz flg [] (set_gate True 0 s1) = Ready (set_gate True 0 s1)"
    using N(2) m by (simp add: snd_wait.simps q0 qf)
  have "snd_deliver conf now pid 0 buf sz (set_gate True 0 s1) = MsgReturn (-1) s2"
    using full n(3) by (simp add: snd_deliver_def msg_error_def s2_def)
  then have snd: "umsgsnd conf now pid 0 buf sz flg [] s1 = MsgReturn (-1) s2"
    using m N(1) by (simp add: umsgsnd_def Let_def f0 s1 q0 lack [OF s1(4)] lock wait)
  have s2: "msqs s2 = Some qs" "queue_at s2 0 = q" "cred_at s2 (p_credp s2) = cred_at s (p_credp s)" "msg_gate s2 0"
    using q0(1) s1 by (simp_all add: s2_def cred_at_def set_gate_def)
  have "lock_queue 0 s2 = Stop (MsgStuck s2)" using s2(4) by (simp add: lock_queue_def)
  then have rcv: "umsgrcv conf now pid' 0 ok sz' typ' flg' env s2 = (NoMsgOut, MsgStuck s2)"
    by (simp add: umsgrcv_def s2(1,2) qf lack [OF s2(3)])
  have "contents s1 0 = []" using q0(3,4) qf by (cases qs) (simp_all add: contents_def s1)
  moreover have "u_error s2 = ENOSPC" by (simp add: s2_def)
  ultimately show ?thesis using get snd rcv by blast
qed

definition demo_fresh :: msg_state where
  "demo_fresh = demo_msgs None []"

theorem uncleared_map_locks_queue_witness:
  "\<exists>s1 s2. umsgget demo_mconf 9 (\<lambda>_. True) 7 (IPC_CREAT OR 384) demo_fresh = MsgReturn 0 s1 \<and>
     umsgsnd demo_mconf 9 4 0 \<lparr>mb_peek = Some 6, mb_type = Some 6, mb_text = Some [1, 2]\<rparr> 2 0 [] s1 = MsgReturn (-1) s2 \<and>
     umsgrcv demo_mconf 9 5 0 True 8 0 IPC_NOWAIT [] s2 = (NoMsgOut, MsgStuck s2)"
  using uncleared_map_locks_queue [OF demo_mconf_ok, of demo_fresh 0 0 0 "[Some 0, Some 0]" "\<lambda>_. True"
      "\<lparr>mb_peek = Some 6, mb_type = Some 6, mb_text = Some [1, 2]\<rparr>" 6 2 9 7 4 0 5 True 8 0 IPC_NOWAIT "[]"]
  by (auto simp: demo_fresh_def demo_msgs_def demo_mconf_def)

definition demo_root :: msg_state where
  "demo_root = (demo_msgs (Some [fresh_queue 1 8 0, fresh_queue 1 8 1]) [NoText, NoText, NoText, NoText])
     \<lparr>cred_mem := [1 \<mapsto> demo_muser 0]\<rparr>"

text \<open>
  \<open>msgsnd\<close> does not check that the queue is in use, so the super-user can send to a free one. The
  next \<open>msgget\<close> that takes that queue keeps the message but sets the counter to 0; when the
  message is received the counter wraps to 65535, and from then on the empty queue refuses every message.
\<close>

theorem dead_queue_message_fills_new_queue:
  "let buf = \<lparr>mb_peek = Some 6, mb_type = Some 6, mb_text = Some [1, 2]\<rparr> in
   \<exists>s1 s2 s3 s4. umsgsnd demo_mconf 9 4 0 buf 2 0 [] demo_root = MsgReturn 0 s1 \<and>
     umsgget demo_mconf 9 (\<lambda>_. False) 7 (IPC_CREAT OR 384) s1 = MsgReturn 0 s2 \<and>
     contents s2 0 = [(6, [1, 2])] \<and> msg_qnum (queue_at s2 0) = 0 \<and>
     umsgrcv demo_mconf 9 5 0 True 8 0 0 [] s2 = (TextOut 6 [1, 2], MsgReturn 2 s3) \<and>
     contents s3 0 = [] \<and> msg_qnum (queue_at s3 0) = 65535 \<and>
     umsgsnd demo_mconf 9 4 0 buf 2 IPC_NOWAIT [] s3 = MsgReturn (-1) s4 \<and> u_error s4 = EAGAIN"
  by (simp add: umsgsnd_def umsgrcv_def umsgget_def demo_root_def demo_msg_defs ipc_perm_defs queue_at_def cred_at_def
    PERM_EXTRACT_def lock_queue_def snd_wait.simps snd_deliver_def kalloc_def kalloc_panics_def set_gate_def
    set_spot_def upd_queue_def Let_def eval_nat_numeral queue_alive_def rcv_wait.simps rcv_pick_def rcv_deliver_def
    msgfree_def ipc_perm_init_def contents_def msg_content_def text_of_def remove_nth_def msg_error_def uwrap16_def)

end
