(* ===== verification/Blocks.thy ===== *)
theory Blocks
  imports File_Descriptors
begin

text \<open>
  Disk blocks and the numbers in them: little-endian shorts and longs, the canonical long of
  \<^verbatim>\<open>canon.h\<close> and \<^verbatim>\<open>i386/k0.s\<close>, the 3-byte disk addresses of \<^verbatim>\<open>i386/md.c\<close>, the
  block of free-block numbers and the super block of \<^verbatim>\<open>sys/filsys.h\<close>, and the mount table. The
  buffer cache is seen through \<open>bread\<close> and \<open>bclaim\<close>: a block that is read has the contents
  last written to it. A buffer that is not released stays locked (\<open>lost_bufs\<close>), and whoever asks for
  that block next waits for ever, which is the result \<open>None\<close> of an operation, as is a wait for a gate
  that was left locked and an array index out of bounds.
\<close>

section \<open>Numbers in blocks\<close>

type_synonym block = "int list"     \<comment> \<open>512 bytes, each from 0 to 255\<close>

abbreviation (input) BSIZE :: nat where "BSIZE \<equiv> 512"

definition le16 :: "int \<Rightarrow> int list" where
  "le16 x = [x mod 256, x div 256 mod 256]"

definition le32 :: "int \<Rightarrow> int list" where
  "le32 x = le16 x @ le16 (x div 65536)"

definition rd16 :: "block \<Rightarrow> nat \<Rightarrow> int" where
  "rd16 bs o' = bs ! o' + 256 * bs ! Suc o'"

definition rd32 :: "block \<Rightarrow> nat \<Rightarrow> int" where
  "rd32 bs o' = wrap32 (rd16 bs o' + 65536 * rd16 bs (o' + 2))"

definition write_at :: "nat \<Rightarrow> int list \<Rightarrow> block \<Rightarrow> block" where
  "write_at o' xs bs = take o' bs @ xs @ drop (o' + length xs) bs"

text \<open>\<open>_canl\<close>: \<open>rol $16,%eax\<close>.\<close>

definition canl :: "int \<Rightarrow> int" where
  "canl x = wrap32 (x div 65536 mod 65536 + 65536 * (x mod 65536))"

lemma wrap32_mod: "wrap32 x mod 4294967296 = x mod 4294967296"
proof -
  have "((x + 2147483648) mod 4294967296 - 2147483648) mod 4294967296 = ((x + 2147483648) - 2147483648) mod 4294967296"
    by (rule mod_diff_left_eq)
  then show ?thesis by (simp add: wrap32_def)
qed

lemma wrap32_cong: "x mod 4294967296 = y mod 4294967296 \<Longrightarrow> wrap32 x = wrap32 y"
  unfolding wrap32_def by (simp only: mod_add_cong [of x _ y])

definition int32 :: "int \<Rightarrow> bool" where
  "int32 x \<longleftrightarrow> - 2147483648 \<le> x \<and> x \<le> 2147483647"

lemma int32_wrap: "int32 x \<Longrightarrow> wrap32 x = x"
  by (simp add: int32_def)

lemma int32_wrap32 [simp]: "int32 (wrap32 x)"
  using wrap32_range by (simp add: int32_def)

lemma int32_canl [simp]: "int32 (canl x)"
  by (simp add: canl_def)

lemma mod_split: "y mod 4294967296 = 65536 * (y div 65536 mod 65536) + y mod (65536 :: int)"
  using zmod_zmult2_eq [of 65536 y 65536] by simp

lemma div_split: "0 \<le> r \<Longrightarrow> r < 65536 \<Longrightarrow> (65536 * q + r) div 65536 = (q :: int)"
  by simp

lemma canl_mod: "canl x mod 4294967296 = 65536 * (x mod 65536) + x div 65536 mod 65536"
proof -
  have "0 \<le> x div 65536 mod 65536" "x div 65536 mod 65536 < 65536" "0 \<le> x mod 65536" "x mod 65536 < 65536"
    by simp_all
  then have "0 \<le> 65536 * (x mod 65536) + x div 65536 mod 65536"
    "65536 * (x mod 65536) + x div 65536 mod 65536 < 4294967296" by linarith+
  then show ?thesis unfolding canl_def wrap32_mod by (simp add: add.commute)
qed

lemma canl_halves: "canl x div 65536 mod 65536 = x mod 65536" "canl x mod 65536 = x div 65536 mod 65536"
proof -
  have r: "0 \<le> canl x mod 65536" "canl x mod 65536 < 65536" "0 \<le> x div 65536 mod 65536"
    "x div 65536 mod 65536 < 65536" by simp_all
  have e: "65536 * (canl x div 65536 mod 65536) + canl x mod 65536 =
      65536 * (x mod 65536) + x div 65536 mod 65536"
    by (rule trans [OF mod_split [symmetric] canl_mod])
  then show "canl x div 65536 mod 65536 = x mod 65536" using r by linarith
  with e show "canl x mod 65536 = x div 65536 mod 65536" by linarith
qed

lemma canl_canl: "canl (canl x) = wrap32 x"
proof -
  have "canl (canl x) = wrap32 (x mod 65536 + 65536 * (x div 65536 mod 65536))"
    unfolding canl_def [of "canl x"] canl_halves by simp
  also have "\<dots> = wrap32 x"
  proof (rule wrap32_cong)
    have "(65536 * (x div 65536 mod 65536) + x mod 65536) mod 4294967296 = x mod 4294967296 mod 4294967296"
      by (simp only: mod_split)
    then show "(x mod 65536 + 65536 * (x div 65536 mod 65536)) mod 4294967296 = x mod 4294967296"
      by (simp add: add.commute)
  qed
  finally show ?thesis .
qed

section \<open>Three-byte addresses\<close>

definition ltol3 :: "int list \<Rightarrow> int list" where
  "ltol3 ls = concat (map (\<lambda>l. [l div 65536 mod 256, l mod 256, l div 256 mod 256]) ls)"

fun l3tol :: "int list \<Rightarrow> nat \<Rightarrow> int list" where
  "l3tol cp 0 = []"
| "l3tol cp (Suc nl) = (65536 * cp ! 0 + cp ! 1 + 256 * cp ! 2) # l3tol (drop 3 cp) nl"

section \<open>Free-block blocks and the super block\<close>

abbreviation (input) NICFREE :: int where "NICFREE \<equiv> 64"
abbreviation (input) NICINOD :: int where "NICINOD \<equiv> 100"

text \<open>
  \<open>struct fblk\<close> as \<open>bfree\<close> fills it: the whole array is copied, then the first \<open>n\<close> entries are
  brought into canonical form. \<open>None\<close> is the runaway loop of \<open>canndaddr\<close> for a negative count.
\<close>

definition canndaddr :: "int list \<Rightarrow> int \<Rightarrow> int list option" where
  "canndaddr dp n = (if n < 0 then None else Some (map canl (take (nat n) dp) @ drop (nat n) dp))"

definition put_fblk :: "int \<Rightarrow> int list \<Rightarrow> block" where
  "put_fblk n free =
     le16 n @ concat (map le32 (the (canndaddr free n))) @ replicate (BSIZE - 258) 0"

definition df_nfree :: "block \<Rightarrow> int" where
  "df_nfree b = wrap16 (rd16 b 0)"

definition df_free :: "block \<Rightarrow> int list" where
  "df_free b = map (\<lambda>i. rd32 b (2 + 4 * i)) [0..<64]"

record filsys =
  s_isize :: int
  s_fsize :: int
  s_nfree :: int
  s_free :: "int list"
  s_ninode :: int
  s_inode :: "int list"
  s_fmod :: int
  s_time :: int
  s_tfree :: int
  s_tinode :: int
  s_m :: int
  s_n :: int
  s_unique :: int

definition cansuper :: "filsys \<Rightarrow> filsys" where
  "cansuper fsp = fsp\<lparr>s_fsize := canl (s_fsize fsp), s_free := map canl (s_free fsp), s_time := canl (s_time fsp),
     s_tfree := canl (s_tfree fsp), s_unique := canl (s_unique fsp)\<rparr>"

section \<open>Mounted file systems\<close>

text \<open>The gates of the two free lists are \<open>m_ilock\<close> and \<open>m_flock\<close>.\<close>

record mount =
  m_ip :: nat
  m_dev :: int
  m_flag :: int
  m_super :: filsys
  m_ilock :: bool
  m_flock :: bool

record fs_state = fd_state +
  mountp :: "mount list"
  disk :: "int \<Rightarrow> int \<Rightarrow> block option"      \<comment> \<open>\<open>None\<close>: the block cannot be read\<close>
  lost_bufs :: "(int \<times> int) list"

definition upd_mount :: "(mount \<Rightarrow> mount) \<Rightarrow> nat \<Rightarrow> 'a fs_state_scheme \<Rightarrow> 'a fs_state_scheme" where
  "upd_mount f k s = s\<lparr>mountp := (mountp s)[k := f (mountp s ! k)]\<rparr>"

text \<open>\<open>getment\<close>: the position in the mount table of a file system that can be written.\<close>

fun find_mount :: "int \<Rightarrow> nat \<Rightarrow> mount list \<Rightarrow> (nat \<times> mount) option" where
  "find_mount dev k [] = None"
| "find_mount dev k (m # ms) = (if m_dev m \<noteq> dev then find_mount dev (k + 1) ms else Some (k, m))"

definition getment :: "int \<Rightarrow> bool \<Rightarrow> 'a fs_state_scheme \<Rightarrow> nat option \<times> 'a fs_state_scheme" where
  "getment dev f s =
     (case find_mount dev 0 (mountp s) of
        None \<Rightarrow> (None, s)
      | Some (k, m) \<Rightarrow>
          if m_flag m AND 1 \<noteq> 0 then (None, if f then s\<lparr>u_error := EROFS\<rparr> else s)
          else (Some k, s))"

section \<open>Buffers\<close>

text \<open>\<open>bread\<close>, synchronous; the outer \<open>None\<close> is waiting for a buffer that was never released.\<close>

definition bread :: "int \<Rightarrow> int \<Rightarrow> 'a fs_state_scheme \<Rightarrow> (block option \<times> 'a fs_state_scheme) option" where
  "bread dev b s =
     (if (dev, b) \<in> set (lost_bufs s) then None
      else case disk s dev b of
             None \<Rightarrow> Some (None, s\<lparr>u_error := EIO\<rparr>)
           | Some blk \<Rightarrow> Some (Some blk, s))"

text \<open>Claiming a buffer, filling it with \<open>blk\<close> and releasing it as modified.\<close>

definition bput :: "int \<Rightarrow> int \<Rightarrow> block \<Rightarrow> 'a fs_state_scheme \<Rightarrow> 'a fs_state_scheme option" where
  "bput dev b blk s =
     (if (dev, b) \<in> set (lost_bufs s) then None
      else Some (s\<lparr>disk := (disk s)(dev := (disk s dev)(b := Some blk))\<rparr>))"

end
