(* ===== verification/Free_Space.thy ===== *)
theory Free_Space
  imports Blocks
begin

text \<open>
  The free lists of a file system, \<^verbatim>\<open>kernel/coh.386/fs2.c\<close>: free blocks are kept in the super
  block's array and, when that is full, in chained blocks; free inode numbers in a second
  array. An operation's result is \<open>None\<close> if it does not return: it waits for a gate or a buffer that
  nobody will release, or runs over the end of an array. Messages to the console are left out.
\<close>

section \<open>Super block access\<close>

definition super_at :: "'a fs_state_scheme \<Rightarrow> nat \<Rightarrow> filsys" where
  "super_at s k = m_super (mountp s ! k)"

definition upd_super :: "(filsys \<Rightarrow> filsys) \<Rightarrow> nat \<Rightarrow> 'a fs_state_scheme \<Rightarrow> 'a fs_state_scheme" where
  "upd_super f k s = upd_mount (\<lambda>m. m\<lparr>m_super := f (m_super m)\<rparr>) k s"

definition set_flock :: "bool \<Rightarrow> nat \<Rightarrow> 'a fs_state_scheme \<Rightarrow> 'a fs_state_scheme" where
  "set_flock b k s = upd_mount (\<lambda>m. m\<lparr>m_flock := b\<rparr>) k s"

definition set_ilock :: "bool \<Rightarrow> nat \<Rightarrow> 'a fs_state_scheme \<Rightarrow> 'a fs_state_scheme" where
  "set_ilock b k s = upd_mount (\<lambda>m. m\<lparr>m_ilock := b\<rparr>) k s"

section \<open>Free inodes\<close>

definition ifree :: "int \<Rightarrow> int \<Rightarrow> 'a fs_state_scheme \<Rightarrow> 'a fs_state_scheme option" where
  "ifree dev ino s =
     (case getment dev True s of
        (None, s1) \<Rightarrow> Some s1
      | (Some k, s1) \<Rightarrow>
          if m_ilock (mountp s1 ! k) \<or> s_ninode (super_at s1 k) < 0 then None
          else Some (upd_super (\<lambda>sb.
              (if s_ninode sb < NICINOD
               then sb\<lparr>s_inode := (s_inode sb)[nat (s_ninode sb) := ino], s_ninode := s_ninode sb + 1\<rparr>
               else sb)\<lparr>s_fmod := 1, s_tinode := uwrap16 (s_tinode sb + 1)\<rparr>) k s1))"

section \<open>Free blocks\<close>

text \<open>
  Inserting a block number into a list in descending order of which the length stays the same:
  the new list, and the number that is left over, or 0 if the new one is there already.
\<close>

fun daddr_add :: "int list \<Rightarrow> int \<Rightarrow> int list \<times> int" where
  "daddr_add [] newblock = ([], newblock)"
| "daddr_add (x # xs) newblock =
     (if newblock = x then (x # xs, 0)
      else if newblock > x then (newblock # butlast (x # xs), last (x # xs))
      else case daddr_add xs newblock of (ys, r) \<Rightarrow> (x # ys, r))"

text \<open>The end of \<open>bfree\<close>: \<open>b\<close> goes into the array, after the array went into \<open>b\<close> if need be.\<close>

definition bfree_put :: "int \<Rightarrow> int \<Rightarrow> nat \<Rightarrow> 'a fs_state_scheme \<Rightarrow> 'a fs_state_scheme option" where
  "bfree_put dev b k s =
     (let sb = super_at s k in
      case (if s_nfree sb = 0 \<or> s_nfree sb = NICFREE
            then map_option (upd_super (\<lambda>sb. sb\<lparr>s_nfree := 0\<rparr>) k) (bput dev b (put_fblk (s_nfree sb) (s_free sb)) s)
            else Some s) of
        None \<Rightarrow> None
      | Some s1 \<Rightarrow>
          Some (set_flock False k (upd_super (\<lambda>sb. sb\<lparr>
              s_free := (s_free sb)[nat (s_nfree sb) := b], s_nfree := s_nfree sb + 1,
              s_tfree := wrap32 (s_tfree sb + 1), s_fmod := 1\<rparr>) k s1)))"

definition bfree :: "bool \<Rightarrow> int \<Rightarrow> int \<Rightarrow> 'a fs_state_scheme \<Rightarrow> 'a fs_state_scheme option" where
  "bfree t_sortblocks dev b s =
     (case getment dev True s of
        (None, s1) \<Rightarrow> Some s1
      | (Some k, s1) \<Rightarrow>
          let sb = super_at s1 k; n = s_nfree sb in
          if b \<ge> s_fsize sb \<or> b < s_isize sb then Some s1
          else if m_flock (mountp s1 ! k) \<or> n < 0 \<or> n > NICFREE then None
          else
            let s2 = set_flock True k s1 in
            if t_sortblocks \<and> n > 0 then
              (case daddr_add (take (nat n - 1) (tl (s_free sb))) b of
                 (list, newblk) \<Rightarrow>
                   if newblk = 0 then Some s2
                   else bfree_put dev newblk k (upd_super (\<lambda>sb. sb\<lparr>
                     s_free := take 1 (s_free sb) @ list @ drop (nat n) (s_free sb)\<rparr>) k s2))
            else bfree_put dev b k s2)"

fun free_each :: "(int \<Rightarrow> 's \<Rightarrow> 's option) \<Rightarrow> int list \<Rightarrow> 's \<Rightarrow> 's option" where
  "free_each f [] s = Some s"
| "free_each f (b # bs) s =
     (if b = 0 then free_each f bs s else case f b s of None \<Rightarrow> None | Some s1 \<Rightarrow> free_each f bs s1)"

abbreviation (input) NBN :: nat where "NBN \<equiv> 128"

definition indirects :: "block \<Rightarrow> int list" where
  "indirects blk = map (\<lambda>i. canl (rd32 blk (4 * i))) [0..<NBN]"

text \<open>The loop goes through the indirect block from its end; \<open>l\<close> is the level.\<close>

fun indfree :: "bool \<Rightarrow> int \<Rightarrow> int \<Rightarrow> nat \<Rightarrow> 'a fs_state_scheme \<Rightarrow> 'a fs_state_scheme option" where
  "indfree srt dev b 0 s = (if b = 0 then Some s else bfree srt dev b s)"
| "indfree srt dev b (Suc l) s =
     (if b = 0 then Some s
      else case bread dev b s of
             None \<Rightarrow> None
           | Some (None, s1) \<Rightarrow> bfree srt dev b s1
           | Some (Some blk, s1) \<Rightarrow>
               (case free_each (\<lambda>b1 s. if l = 0 then bfree srt dev b1 s else indfree srt dev b1 l s)
                       (rev (indirects blk)) s1 of
                  None \<Rightarrow> None
                | Some s2 \<Rightarrow> bfree srt dev b s2))"

definition read_free_block_list ::
  "filsys \<Rightarrow> int \<Rightarrow> int \<Rightarrow> 'a fs_state_scheme \<Rightarrow> (block option \<times> 'a fs_state_scheme) option" where
  "read_free_block_list sb dev b s =
     (if b < s_fsize sb \<and> b \<ge> s_isize sb then bread dev b s else Some (None, s))"

text \<open>
  The array is empty after \<open>b\<close> was taken, so \<open>b\<close> holds the next part of the list. False is a bad
  list; a count above \<open>NICFREE\<close> leaves the buffer locked. (The read-ahead has no effect here.)
\<close>

definition balloc_refill ::
  "int \<Rightarrow> nat \<Rightarrow> int \<Rightarrow> 'a fs_state_scheme \<Rightarrow> (bool \<times> 'a fs_state_scheme) option" where
  "balloc_refill dev k b s =
     (case read_free_block_list (super_at s k) dev b s of
        None \<Rightarrow> None
      | Some (None, s1) \<Rightarrow> Some (False, s1)
      | Some (Some blk, s1) \<Rightarrow>
          let n = df_nfree blk; s2 = upd_super (\<lambda>sb. sb\<lparr>s_nfree := n, s_free := df_free blk\<rparr>) k s1 in
          if n > NICFREE then Some (False, s2\<lparr>lost_bufs := (dev, b) # lost_bufs s2\<rparr>)
          else case canndaddr (df_free blk) n of
                 None \<Rightarrow> None
               | Some free \<Rightarrow> Some (True, upd_super (\<lambda>sb. sb\<lparr>s_free := free\<rparr>) k s2))"

definition balloc_fails :: "nat \<Rightarrow> 'a fs_state_scheme \<Rightarrow> (int \<times> 'a fs_state_scheme) option" where
  "balloc_fails k s =
     Some (0, set_flock False k ((upd_super (\<lambda>sb. sb\<lparr>s_nfree := 0\<rparr>) k s)\<lparr>u_error := ENOSPC\<rparr>))"

definition balloc :: "int \<Rightarrow> 'a fs_state_scheme \<Rightarrow> (int \<times> 'a fs_state_scheme) option" where
  "balloc dev s =
     (case getment dev True s of
        (None, s1) \<Rightarrow> Some (0, s1)
      | (Some k, s1) \<Rightarrow>
          let sb = super_at s1 k; s2 = set_flock True k s1 in
          if m_flock (mountp s1 ! k) then None
          else if s_nfree sb = 0 \<or> s_nfree sb > NICFREE then balloc_fails k s2
          else if s_nfree sb < 0 then None
          else
            let n = s_nfree sb - 1; b = s_free sb ! nat n;
                s3 = upd_super (\<lambda>sb. sb\<lparr>s_fmod := 1, s_nfree := n\<rparr>) k s2
            in if b = 0 then balloc_fails k s3
               else
                 let s4 = upd_super (\<lambda>sb. sb\<lparr>s_free := (s_free sb)[nat n := 0]\<rparr>) k s3 in
                 case (if n = 0 then balloc_refill dev k b s4 else Some (True, s4)) of
                   None \<Rightarrow> None
                 | Some (False, s5) \<Rightarrow> balloc_fails k s5
                 | Some (True, s5) \<Rightarrow>
                     let s6 = upd_super (\<lambda>sb. sb\<lparr>s_tfree := wrap32 (s_tfree sb - 1)\<rparr>) k s5 in
                     if b \<ge> s_fsize sb \<or> b < s_isize sb then balloc_fails k s6
                     else Some (b, set_flock False k s6))"

section \<open>Accounting\<close>

text \<open>\<open>ltoc\<close>: a long as 13 bits of mantissa and 3 bits of exponent, base 8.\<close>

abbreviation (input) MAXMANT :: int where "MAXMANT \<equiv> 8191"

function ltoc_loop :: "int \<Rightarrow> int \<Rightarrow> int \<times> int" where
  "ltoc_loop e l = (if l > MAXMANT then ltoc_loop (e + 1) (l div 8) else (e, l))"
  by pat_completeness auto
termination by (relation "measure (\<lambda>(e, l). nat l)") auto

declare ltoc_loop.simps [simp del]

definition ltoc :: "int \<Rightarrow> int" where
  "ltoc l = (if l < 0 then 0 else case ltoc_loop 0 l of (e, m) \<Rightarrow> uwrap16 ((push_bit 13 e) OR m))"

end
