(* ===== verification/Block_Laws.thy ===== *)
theory Block_Laws
  imports Blocks
begin

text \<open>
  Round trips of the encodings: longs, three-byte addresses, the block of free-block numbers and the
  canonical super block.
\<close>

section \<open>Longs\<close>

lemma split256: "x mod 256 + 256 * (x div 256 mod 256) = x mod (65536 :: int)"
  using zmod_zmult2_eq [of 256 x 256] by simp

lemma wrap32_halves: "wrap32 (x mod 65536 + 65536 * (x div 65536 mod 65536)) = wrap32 x"
proof (rule wrap32_cong)
  have "(65536 * (x div 65536 mod 65536) + x mod 65536) mod 4294967296 = x mod 4294967296 mod 4294967296"
    by (simp only: mod_split)
  then show "(x mod 65536 + 65536 * (x div 65536 mod 65536)) mod 4294967296 = x mod 4294967296"
    by (simp add: add.commute)
qed

lemma length_le32 [simp]: "length (le32 x) = 4"
  by (simp add: le32_def le16_def)

lemma length_longs [simp]: "length (concat (map le32 xs)) = 4 * length xs"
  by (induction xs) simp_all

lemma nth_longs:
  "i < length xs \<Longrightarrow> k < 4 \<Longrightarrow> concat (map le32 xs) ! (4 * i + k) = le32 (xs ! i) ! k"
proof (induction xs arbitrary: i)
  case (Cons x xs)
  show ?case
  proof (cases i)
    case 0
    then show ?thesis using Cons.prems by (simp add: nth_append)
  next
    case (Suc j)
    then have "4 * i + k = 4 + (4 * j + k)" by simp
    then have "concat (map le32 (x # xs)) ! (4 * i + k) = concat (map le32 xs) ! (4 * j + k)"
      using nth_append_length_plus [of "le32 x" "concat (map le32 xs)" "4 * j + k"] by (simp add: add.assoc)
    also have "\<dots> = le32 (xs ! j) ! k" using Cons Suc by simp
    finally show ?thesis using Suc by simp
  qed
qed simp

lemma rd32_longs:
  assumes "i < length xs" "length pre = o'"
  shows "rd32 (pre @ concat (map le32 xs) @ post) (o' + 4 * i) = wrap32 (xs ! i)"
proof -
  have n: "(pre @ concat (map le32 xs) @ post) ! (o' + 4 * i + k) = le32 (xs ! i) ! k" if "k < 4" for k
  proof -
    have "4 * i + k < 4 * length xs" using assms(1) that by simp
    then have "(pre @ concat (map le32 xs) @ post) ! (o' + (4 * i + k)) = concat (map le32 xs) ! (4 * i + k)"
      using assms(2) by (simp add: nth_append)
    then show ?thesis using nth_longs [OF assms(1) that] by (simp add: add.assoc)
  qed
  have "rd32 (pre @ concat (map le32 xs) @ post) (o' + 4 * i) =
      wrap32 ((le32 (xs ! i) ! 0 + 256 * le32 (xs ! i) ! 1) + 65536 * (le32 (xs ! i) ! 2 + 256 * le32 (xs ! i) ! 3))"
    using n [of 0] n [of 1] n [of 2] n [of 3] by (simp add: rd32_def rd16_def numeral_3_eq_3 numeral_2_eq_2)
  also have "\<dots> = wrap32 (xs ! i mod 65536 + 65536 * (xs ! i div 65536 mod 65536))"
    by (simp add: le32_def le16_def split256 numeral_3_eq_3 numeral_2_eq_2)
  finally show ?thesis by (simp add: wrap32_halves)
qed

section \<open>The block of free-block numbers\<close>

lemma put_fblk_roundtrip:
  assumes "0 \<le> n" "n \<le> NICFREE" "length free = 64" "\<forall>b\<in>set free. int32 b"
  shows "df_nfree (put_fblk n free) = n" "canndaddr (df_free (put_fblk n free)) n = Some free"
    "length (put_fblk n free) = BSIZE"
proof -
  define xs where "xs = map canl (take (nat n) free) @ drop (nat n) free"
  have len: "length xs = 64" using assms by (simp add: xs_def)
  have p: "put_fblk n free = le16 n @ concat (map le32 xs) @ replicate (512 - 258) 0"
    using assms by (simp add: put_fblk_def canndaddr_def xs_def)
  show "length (put_fblk n free) = BSIZE" by (simp add: p len le16_def)
  have "rd16 (put_fblk n free) 0 = n"
    using assms by (simp add: p rd16_def le16_def nth_append)
  then show "df_nfree (put_fblk n free) = n" using assms by (simp add: df_nfree_def)
  have x32: "int32 x" if "x \<in> set xs" for x
    using that assms(4) by (auto simp: xs_def dest: in_set_dropD)
  have "df_free (put_fblk n free) = xs"
  proof (rule nth_equalityI)
    show "length (df_free (put_fblk n free)) = length xs" by (simp add: df_free_def len)
    fix i assume i: "i < length (df_free (put_fblk n free))"
    then have "i < length xs" by (simp add: df_free_def len)
    then have "rd32 (put_fblk n free) (2 + 4 * i) = wrap32 (xs ! i)"
      using rd32_longs [of i xs "le16 n" 2] by (simp add: p le16_def)
    also have "\<dots> = xs ! i" using x32 \<open>i < length xs\<close> by (simp add: int32_wrap)
    finally show "df_free (put_fblk n free) ! i = xs ! i" using i by (simp add: df_free_def)
  qed
  moreover have "map canl (take (nat n) xs) @ drop (nat n) xs = free"
  proof -
    have "length (take (nat n) free) = nat n" using assms by simp
    then have "take (nat n) xs = map canl (take (nat n) free)" "drop (nat n) xs = drop (nat n) free"
      by (simp_all add: xs_def)
    moreover have "map canl (map canl (take (nat n) free)) = take (nat n) free"
      using assms(4) by (auto simp: canl_canl int32_wrap intro!: map_idI dest: in_set_takeD)
    ultimately show ?thesis by (metis append_take_drop_id)
  qed
  ultimately show "canndaddr (df_free (put_fblk n free)) n = Some free"
    using assms(1) by (simp add: canndaddr_def)
qed

section \<open>Three-byte addresses and the super block\<close>

lemma ltol3_Cons: "ltol3 (l # ls) = [l div 65536 mod 256, l mod 256, l div 256 mod 256] @ ltol3 ls"
  by (simp add: ltol3_def)

lemma l3tol_ltol3_map: "l3tol (ltol3 ls @ rest) (length ls) = map (\<lambda>l. l mod 16777216) ls"
proof (induction ls)
  case (Cons l ls)
  have "65536 * (l div 65536 mod 256) + l mod 65536 = l mod 16777216"
    using zmod_zmult2_eq [of 256 l 65536] zmod_zmult2_eq [of 65536 l 256] by simp
  moreover have "l mod 256 + 256 * (l div 256 mod 256) = l mod 65536" by (rule split256)
  ultimately have "65536 * (l div 65536 mod 256) + l mod 256 + 256 * (l div 256 mod 256) = l mod 16777216"
    by linarith
  then show ?case using Cons by (simp add: ltol3_Cons numeral_2_eq_2)
qed simp

text \<open>
  Bringing a super block into canonical form twice gives it back: what \<open>msync\<close> writes is what
  the next mount reads. (The fields are longs of 32 bits.)
\<close>

lemma cansuper_twice:
  assumes "int32 (s_fsize fsp)" "\<forall>b\<in>set (s_free fsp). int32 b" "int32 (s_time fsp)" "int32 (s_tfree fsp)"
    "int32 (s_unique fsp)"
  shows "cansuper (cansuper fsp) = fsp"
proof -
  have "map (canl \<circ> canl) (s_free fsp) = s_free fsp"
    using assms(2) by (auto simp: canl_canl int32_wrap intro!: map_idI)
  then show ?thesis using assms by (simp add: cansuper_def canl_canl int32_wrap)
qed

end
