(* ===== verification/Free_Space_Laws.thy ===== *)
theory Free_Space_Laws
  imports Free_Space Block_Laws "HOL-Library.Multiset"
begin

text \<open>
  The free-block list as a list of block numbers in the order of allocation. \<open>chain\<close> relates the
  array of the super block, its count and the blocks on disk to that list; taking the head and
  adding a block are its two operations. \<open>free_ok\<close> is the invariant of a mounted file system.
\<close>

section \<open>The chain\<close>

definition slots_of :: "int \<Rightarrow> int list \<Rightarrow> int list" where
  "slots_of n free = rev (take (nat n - 1) (tl free))"

inductive chain :: "(int \<Rightarrow> block option) \<Rightarrow> int \<Rightarrow> int list \<Rightarrow> int list \<Rightarrow> bool" for d where
  chain_empty: "length free = 64 \<Longrightarrow> chain d 0 free []"
| chain_last: "0 < n \<Longrightarrow> n \<le> NICFREE \<Longrightarrow> length free = 64 \<Longrightarrow> free ! 0 = 0 \<Longrightarrow> chain d n free (slots_of n free)"
| chain_link: "0 < n \<Longrightarrow> n \<le> NICFREE \<Longrightarrow> length free = 64 \<Longrightarrow> free ! 0 \<noteq> 0 \<Longrightarrow> d (free ! 0) = Some blk \<Longrightarrow>
    df_nfree blk \<le> NICFREE \<Longrightarrow> canndaddr (df_free blk) (df_nfree blk) = Some free' \<Longrightarrow>
    chain d (df_nfree blk) free' bs \<Longrightarrow> chain d n free (slots_of n free @ free ! 0 # bs)"

inductive_cases chain_zeroE: "chain d 0 free bs"
inductive_cases chainE: "chain d n free bs"

lemma chain_length: "chain d n free bs \<Longrightarrow> length free = 64 \<and> 0 \<le> n \<and> n \<le> NICFREE"
  by (induction rule: chain.induct) auto

lemma chain_zero: "chain d 0 free bs \<Longrightarrow> bs = []"
  by (erule chain_zeroE) simp_all

lemma chain_disk: "chain d n free bs \<Longrightarrow> (\<And>b. b \<in> set bs \<Longrightarrow> d' b = d b) \<Longrightarrow> chain d' n free bs"
proof (induction rule: chain.induct)
  case (chain_link n free blk free' bs)
  have "d' (free ! 0) = Some blk" using chain_link.prems [of "free ! 0"] chain_link.hyps(5) by simp
  moreover have "chain d' (df_nfree blk) free' bs" using chain_link.IH chain_link.prems by simp
  ultimately show ?case using chain_link.hyps by (intro chain.chain_link) simp_all
qed (auto intro: chain.intros)

lemma slots_take: "take (nat n) free = take (nat n) free' \<Longrightarrow> slots_of n free = slots_of n free'"
proof -
  assume e: "take (nat n) free = take (nat n) free'"
  have "take (nat n - 1) (tl xs) = tl (take (nat n) xs)" for xs :: "int list"
    by (cases xs; cases "nat n") simp_all
  then show ?thesis using e by (simp add: slots_of_def)
qed

lemma chain_take:
  assumes "chain d n free bs" "take (nat n) free = take (nat n) free'" "length free' = 64"
  shows "chain d n free' bs"
proof (cases "n = 0")
  case True
  then show ?thesis using assms chain_zero chain_empty by blast
next
  case False
  then have "0 < n" using chain_length [OF assms(1)] by simp
  then have h: "free' ! 0 = free ! 0" using assms(2) by (metis nth_take zero_less_nat_eq)
  from assms(1) show ?thesis
  proof (cases rule: chain.cases)
    case chain_empty
    then show ?thesis using chain_empty False by simp
  next
    case chain_last
    then show ?thesis using h assms slots_take [OF assms(2)] chain.chain_last [of n free' d] by simp
  next
    case (chain_link blk fr bs')
    then show ?thesis
      using h assms slots_take [OF assms(2)] chain.chain_link [of n free' d blk fr bs'] by simp
  qed
qed

lemma slots_pop:
  assumes "2 \<le> n" "n \<le> 64" "length free = 64"
  shows "slots_of n free = free ! nat (n - 1) # slots_of (n - 1) free"
proof -
  obtain x xs where f: "free = x # xs" using assms(3) by (cases free) auto
  define m where "m = nat n - 2"
  have n: "nat n = Suc (Suc m)" "nat (n - 1) = Suc m" using assms(1) by (simp_all add: m_def nat_diff_distrib)
  have "m < length xs" using assms f n by simp
  then show ?thesis using n by (simp add: slots_of_def f take_Suc_conv_app_nth)
qed

lemma chain_pop:
  assumes "chain d n free bs" "2 \<le> n"
  shows "\<exists>bs'. bs = free ! nat (n - 1) # bs' \<and> chain d (n - 1) free bs'"
proof -
  have len: "length free = 64" "n \<le> 64" using chain_length [OF assms(1)] by simp_all
  note p = slots_pop [OF assms(2) len(2,1)]
  from assms(1) show ?thesis
  proof (cases rule: chain.cases)
    case chain_empty
    then show ?thesis using chain_empty assms(2) by simp
  next
    case chain_last
    then show ?thesis using p chain.chain_last [of "n - 1" free d] assms(2) by simp
  next
    case (chain_link blk fr bs')
    then show ?thesis using p chain.chain_link [of "n - 1" free d blk fr bs'] assms(2) by simp
  qed
qed

lemma slots_push:
  assumes "0 < n" "n < 64" "length free = 64"
  shows "slots_of (n + 1) (free[nat n := b]) = b # slots_of n free"
proof -
  obtain x xs where f: "free = x # xs" using assms(3) by (cases free) auto
  define m where "m = nat n - 1"
  have n: "nat n = Suc m" "nat (n + 1) = Suc (Suc m)" using assms(1) by (simp_all add: m_def)
  have "m < length xs" using assms f n by simp
  then show ?thesis using n by (simp add: slots_of_def f take_Suc_conv_app_nth)
qed

lemma chain_push:
  assumes "chain d n free bs" "0 < n" "n < 64"
  shows "chain d (n + 1) (free[nat n := b]) (b # bs)"
proof -
  have len: "length free = 64" using chain_length [OF assms(1)] by simp
  note p = slots_push [OF assms(2,3) len, of b]
  have h: "free[nat n := b] ! 0 = free ! 0" using assms(2) by simp
  from assms(1) show ?thesis
  proof (cases rule: chain.cases)
    case chain_empty
    then show ?thesis using chain_empty assms(2) by simp
  next
    case chain_last
    then show ?thesis using p h chain.chain_last [of "n + 1" "free[nat n := b]" d] assms(2,3) len by simp
  next
    case (chain_link blk fr bs')
    then show ?thesis
      using p h chain.chain_link [of "n + 1" "free[nat n := b]" d blk fr bs'] assms(2,3) len by simp
  qed
qed

lemma chain_one:
  assumes "chain d 1 free bs"
  shows "free ! 0 = 0 \<and> bs = [] \<or>
    (\<exists>blk fr bs'. free ! 0 \<noteq> 0 \<and> bs = free ! 0 # bs' \<and> d (free ! 0) = Some blk \<and> df_nfree blk \<le> NICFREE \<and>
       canndaddr (df_free blk) (df_nfree blk) = Some fr \<and> chain d (df_nfree blk) fr bs')"
  using assms by (cases rule: chainE) (auto simp: slots_of_def)

text \<open>Writing the array to block \<open>b\<close> and starting a new one with it.\<close>

lemma chain_write:
  assumes "chain d n free bs" "b \<noteq> 0" "b \<notin> set bs" "\<forall>x\<in>set free. int32 x"
    "free' ! 0 = b" "length free' = 64"
  shows "chain (d(b := Some (put_fblk n free))) 1 free' (b # bs)"
proof -
  have l: "length free = 64" "0 \<le> n" "n \<le> NICFREE" using chain_length [OF assms(1)] by simp_all
  note rt = put_fblk_roundtrip [OF l(2,3,1) assms(4)]
  have "chain (d(b := Some (put_fblk n free))) n free bs"
    by (rule chain_disk [OF assms(1)]) (use assms(3) in auto)
  then have "chain (d(b := Some (put_fblk n free))) 1 free' (slots_of 1 free' @ free' ! 0 # bs)"
    using assms rt l by (intro chain.chain_link [where blk = "put_fblk n free" and free' = free]) simp_all
  then show ?thesis using assms(5) by (simp add: slots_of_def)
qed

section \<open>Sorted insertion\<close>

lemma mset_last_butlast: "xs \<noteq> [] \<Longrightarrow> add_mset (last xs) (mset (butlast xs)) = mset xs"
  by (induction xs) (auto simp: add_mset_commute)

lemma daddr_add_result:
  "b \<notin> set xs \<Longrightarrow> daddr_add xs b = (ys, r) \<Longrightarrow>
   mset (r # ys) = mset (b # xs) \<and> length ys = length xs"
proof (induction xs b arbitrary: ys rule: daddr_add.induct)
  case (2 x xs b)
  show ?case
  proof (cases "b > x")
    case True
    then have "ys = b # butlast (x # xs)" "r = last (x # xs)" using 2 by auto
    moreover have "mset (last (x # xs) # butlast (x # xs)) = mset (x # xs)"
      using append_butlast_last_id [of "x # xs"] by (simp add: mset_last_butlast)
    ultimately show ?thesis by simp
  next
    case False
    obtain ys' r' where "daddr_add xs b = (ys', r')" by fastforce
    then show ?thesis using 2 False by (auto split: if_splits)
  qed
qed simp

text \<open>On a list in descending order \<open>daddr_add\<close> keeps the order, and hands back the smallest.\<close>

lemma daddr_add_descending:
  "sorted_wrt (>) xs \<Longrightarrow> b \<notin> set xs \<Longrightarrow> daddr_add xs b = (ys, r) \<Longrightarrow>
   sorted_wrt (>) ys \<and> (\<forall>y\<in>set ys. r < y)"
proof (induction xs b arbitrary: ys rule: daddr_add.induct)
  case (2 x xs b)
  show ?case
  proof (cases "b > x")
    case True
    then have e: "ys = b # butlast (x # xs)" "r = last (x # xs)" using 2 by auto
    have s: "sorted_wrt (>) (butlast (x # xs) @ [last (x # xs)])"
      using "2.prems"(1) by (simp only: append_butlast_last_id list.distinct not_False_eq_True)
    have "y < b" if "y \<in> set (x # xs)" for y using that True "2.prems"(1) by auto
    then have "\<forall>y\<in>set (butlast (x # xs)). y < b" "last (x # xs) < b"
      by (meson in_set_butlastD, metis last_in_set list.distinct(1))
    then show ?thesis using e s by (simp add: sorted_wrt_append)
  next
    case False
    obtain ys' r' where a: "daddr_add xs b = (ys', r')" by fastforce
    have e: "ys = x # ys'" "r = r'" "b < x" using a "2.prems" False by auto
    have i: "sorted_wrt (>) ys' \<and> (\<forall>y\<in>set ys'. r < y)"
      using "2.IH" False "2.prems" a e by auto
    have "set (r # ys') = set (b # xs)"
      using daddr_add_result [of b xs ys' r'] a e "2.prems"(2) by (metis list.set_intros(2) mset_eq_setD)
    then have "r < x" "\<forall>y\<in>set ys'. y < x" using "2.prems"(1) e(3) by auto
    then show ?thesis using i e by simp
  qed
qed simp

lemma daddr_add_there: "sorted_wrt (>) xs \<Longrightarrow> b \<in> set xs \<Longrightarrow> daddr_add xs b = (xs, 0)"
  by (induction xs b rule: daddr_add.induct) auto

end
