(* ===== verification/Free_Space_Invariant.thy ===== *)
theory Free_Space_Invariant
  imports Free_Space_Laws
begin

text \<open>
  \<open>free_ok dev k s bs\<close>: the file system of \<open>dev\<close> is in entry \<open>k\<close> of the mount table and its free
  blocks are \<open>bs\<close>, in the order of allocation. Taking a block and giving one back keep it.
\<close>

definition range_ok :: "filsys \<Rightarrow> int list \<Rightarrow> bool" where
  "range_ok sb bs \<longleftrightarrow> 0 < s_isize sb \<and> int32 (s_fsize sb) \<and> (\<forall>b\<in>set (s_free sb). int32 b) \<and>
     (\<forall>b\<in>set bs. s_isize sb \<le> b \<and> b < s_fsize sb) \<and> distinct bs"

definition free_ok :: "int \<Rightarrow> nat \<Rightarrow> 'a fs_state_scheme \<Rightarrow> int list \<Rightarrow> bool" where
  "free_ok dev k s bs \<longleftrightarrow> getment dev True s = (Some k, s) \<and> \<not> m_flock (mountp s ! k) \<and>
     (\<forall>b. (dev, b) \<notin> set (lost_bufs s)) \<and>
     chain (disk s dev) (s_nfree (super_at s k)) (s_free (super_at s k)) bs \<and>
     range_ok (super_at s k) bs \<and> s_tfree (super_at s k) = int (length bs)"

definition geom :: "'a fs_state_scheme \<Rightarrow> nat \<Rightarrow> int \<times> int" where
  "geom s k = (s_isize (super_at s k), s_fsize (super_at s k))"

section \<open>The mount table\<close>

lemma find_mount_SomeD:
  "find_mount dev i ms = Some (k, m) \<Longrightarrow>
   i \<le> k \<and> k - i < length ms \<and> m = ms ! (k - i) \<and> m_dev m = dev \<and> (\<forall>j<k - i. m_dev (ms ! j) \<noteq> dev)"
proof (induction ms arbitrary: i)
  case (Cons x ms)
  show ?case
  proof (cases "m_dev x = dev")
    case True
    then show ?thesis using Cons.prems by simp
  next
    case False
    then have h: "i + 1 \<le> k" "k - (i + 1) < length ms" "m = ms ! (k - (i + 1))" "m_dev m = dev"
      "\<forall>j<k - (i + 1). m_dev (ms ! j) \<noteq> dev"
      using Cons.prems Cons.IH [of "i + 1"] by auto
    then have "k - i = Suc (k - (i + 1))" by simp
    then show ?thesis using h False by (simp add: All_less_Suc2)
  qed
qed simp

lemma find_mount_nth:
  "j < length ms \<Longrightarrow> m_dev (ms ! j) = dev \<Longrightarrow> \<forall>j'<j. m_dev (ms ! j') \<noteq> dev \<Longrightarrow>
   find_mount dev i ms = Some (i + j, ms ! j)"
proof (induction ms arbitrary: i j)
  case (Cons x ms)
  show ?case
  proof (cases j)
    case 0
    then show ?thesis using Cons.prems by simp
  next
    case (Suc j')
    then have "m_dev x \<noteq> dev" "\<forall>j''<j'. m_dev (ms ! j'') \<noteq> dev" using Cons.prems(3) by (auto simp: All_less_Suc2)
    then show ?thesis using Suc Cons.prems Cons.IH [of j' "i + 1"] by simp
  qed
qed simp

definition same_mount :: "mount \<Rightarrow> mount \<Rightarrow> bool" where
  "same_mount m m' \<longleftrightarrow> m_dev m' = m_dev m \<and> m_flag m' = m_flag m"

lemma getment_SomeD:
  assumes "getment dev f s = (Some k, s')"
  shows "s' = s \<and> k < length (mountp s) \<and> m_dev (mountp s ! k) = dev \<and>
     m_flag (mountp s ! k) AND 1 = 0 \<and> (\<forall>j<k. m_dev (mountp s ! j) \<noteq> dev)"
proof -
  obtain j m where j: "find_mount dev 0 (mountp s) = Some (j, m)"
    using assms by (cases "find_mount dev 0 (mountp s)") (auto simp: getment_def)
  then have "j = k" "s' = s" "m_flag m AND 1 = 0" using assms by (simp_all add: getment_def split: if_splits)
  then show ?thesis using find_mount_SomeD [OF j] by auto
qed

lemma getment_SomeI:
  assumes "k < length (mountp s)" "m_dev (mountp s ! k) = dev" "m_flag (mountp s ! k) AND 1 = 0"
    "\<forall>j<k. m_dev (mountp s ! j) \<noteq> dev"
  shows "getment dev f s = (Some k, s)"
  using assms find_mount_nth [of k "mountp s" dev 0] by (simp add: getment_def)

lemma getment_keep:
  assumes "getment dev f s = (Some k, s)" "mountp s' = (mountp s)[k := m]" "same_mount (mountp s ! k) m"
  shows "getment dev f s' = (Some k, s')"
  using getment_SomeD [OF assms(1)] assms(2,3) by (intro getment_SomeI) (simp_all add: same_mount_def)

section \<open>The invariant\<close>

lemma free_okD:
  assumes "free_ok dev k s bs"
  shows "getment dev True s = (Some k, s)" "k < length (mountp s)" "\<not> m_flock (mountp s ! k)"
    "\<And>b. (dev, b) \<notin> set (lost_bufs s)" "chain (disk s dev) (s_nfree (super_at s k)) (s_free (super_at s k)) bs"
    "range_ok (super_at s k) bs" "s_tfree (super_at s k) = int (length bs)"
    "length (s_free (super_at s k)) = 64" "0 \<le> s_nfree (super_at s k)" "s_nfree (super_at s k) \<le> NICFREE"
  using assms getment_SomeD [of dev True s k s] chain_length unfolding free_ok_def by blast+

lemma free_ok_step:
  assumes "free_ok dev k s bs" "mountp s' = (mountp s)[k := m]" "same_mount (mountp s ! k) m" "\<not> m_flock m"
    "lost_bufs s' = lost_bufs s" "chain (disk s' dev) (s_nfree (m_super m)) (s_free (m_super m)) bs'"
    "range_ok (m_super m) bs'" "s_tfree (m_super m) = int (length bs')"
  shows "free_ok dev k s' bs'"
  using assms getment_keep [OF free_okD(1) [OF assms(1)] assms(2,3)] free_okD [OF assms(1)]
  by (simp add: free_ok_def super_at_def)

lemmas super_upd = super_at_def upd_super_def set_flock_def upd_mount_def same_mount_def

lemma range_ok_room:
  assumes "range_ok sb bs"
  shows "int (length bs) < 2147483648"
proof -
  have "set bs \<subseteq> {s_isize sb..<s_fsize sb}" using assms by (auto simp: range_ok_def)
  then have "card (set bs) \<le> nat (s_fsize sb - s_isize sb)"
    using card_mono [of "{s_isize sb..<s_fsize sb}" "set bs"] by simp
  moreover have "card (set bs) = length bs" using assms distinct_card by (auto simp: range_ok_def)
  moreover have "s_fsize sb \<le> 2147483647" "0 < s_isize sb" using assms by (simp_all add: range_ok_def int32_def)
  ultimately show ?thesis by linarith
qed

lemma range_ok_int32: "range_ok sb bs \<Longrightarrow> b \<in> set bs \<Longrightarrow> int32 b \<and> b \<noteq> 0"
  by (auto simp: range_ok_def int32_def)

lemma range_ok_free:
  "range_ok sb bs \<Longrightarrow> set bs' \<subseteq> set bs \<Longrightarrow> distinct bs' \<Longrightarrow> \<forall>b\<in>set (s_free sb'). int32 b \<Longrightarrow>
   s_isize sb' = s_isize sb \<Longrightarrow> s_fsize sb' = s_fsize sb \<Longrightarrow> range_ok sb' bs'"
  by (auto simp: range_ok_def)

lemma int32_zero_upd: "\<forall>b\<in>set xs. int32 b \<Longrightarrow> \<forall>b\<in>set (xs[i := 0]). int32 b"
  using set_update_subset_insert [of xs i 0] by (auto simp: int32_def)

lemma int32_canndaddr: "canndaddr (df_free blk) n = Some fr \<Longrightarrow> \<forall>b\<in>set fr. int32 b"
proof -
  assume "canndaddr (df_free blk) n = Some fr"
  moreover have "\<forall>b\<in>set (df_free blk). int32 b" by (auto simp: df_free_def rd32_def)
  ultimately show ?thesis using in_set_dropD [of _ "nat n" "df_free blk"] by (auto simp: canndaddr_def split: if_splits)
qed

section \<open>Allocation\<close>

lemma balloc_empty:
  assumes "getment dev True s = (Some k, s)" "\<not> m_flock (mountp s ! k)"
    "s_nfree (super_at s k) = 0 \<or> s_nfree (super_at s k) = 1 \<and> s_free (super_at s k) ! 0 = 0"
  shows "\<exists>fm s'. balloc dev s = Some (0, s') \<and> u_error s' = ENOSPC \<and> disk s' = disk s \<and> lost_bufs s' = lost_bufs s \<and>
    mountp s' = (mountp s)[k := (mountp s ! k)\<lparr>m_super := (super_at s k)\<lparr>s_fmod := fm, s_nfree := 0\<rparr>, m_flock := False\<rparr>]"
proof -
  have k: "k < length (mountp s)" using getment_SomeD [OF assms(1)] by simp
  from assms(3) show ?thesis
  proof
    assume "s_nfree (super_at s k) = 0"
    then show ?thesis using assms(1,2) k
      by (intro exI [where x = "s_fmod (super_at s k)"]) (simp add: balloc_def balloc_fails_def super_upd)
  next
    assume "s_nfree (super_at s k) = 1 \<and> s_free (super_at s k) ! 0 = 0"
    then show ?thesis using assms(1,2) k
      by (intro exI [where x = 1]) (simp add: balloc_def balloc_fails_def super_upd)
  qed
qed

lemma balloc_slot:
  assumes "getment dev True s = (Some k, s)" "\<not> m_flock (mountp s ! k)"
    "2 \<le> s_nfree (super_at s k)" "s_nfree (super_at s k) \<le> NICFREE"
    "b = s_free (super_at s k) ! nat (s_nfree (super_at s k) - 1)"
    "b \<noteq> 0" "s_isize (super_at s k) \<le> b" "b < s_fsize (super_at s k)"
  shows "\<exists>s'. balloc dev s = Some (b, s') \<and> u_error s' = u_error s \<and> disk s' = disk s \<and> lost_bufs s' = lost_bufs s \<and>
    mountp s' = (mountp s)[k := (mountp s ! k)\<lparr>m_super := (super_at s k)\<lparr>s_fmod := 1, s_nfree := s_nfree (super_at s k) - 1,
      s_free := (s_free (super_at s k))[nat (s_nfree (super_at s k) - 1) := 0],
      s_tfree := wrap32 (s_tfree (super_at s k) - 1)\<rparr>, m_flock := False\<rparr>]"
proof -
  have k: "k < length (mountp s)" using getment_SomeD [OF assms(1)] by simp
  show ?thesis using assms k
    by (simp add: balloc_def balloc_fails_def super_upd Let_def)
qed

lemma balloc_link:
  assumes "getment dev True s = (Some k, s)" "\<not> m_flock (mountp s ! k)" "\<forall>b. (dev, b) \<notin> set (lost_bufs s)"
    "s_nfree (super_at s k) = 1" "b = s_free (super_at s k) ! 0" "b \<noteq> 0" "s_isize (super_at s k) \<le> b"
    "b < s_fsize (super_at s k)" "disk s dev b = Some blk" "df_nfree blk \<le> NICFREE"
    "canndaddr (df_free blk) (df_nfree blk) = Some free"
  shows "\<exists>s'. balloc dev s = Some (b, s') \<and> u_error s' = u_error s \<and> disk s' = disk s \<and> lost_bufs s' = lost_bufs s \<and>
    mountp s' = (mountp s)[k := (mountp s ! k)\<lparr>m_super := (super_at s k)\<lparr>s_fmod := 1, s_nfree := df_nfree blk,
      s_free := free, s_tfree := wrap32 (s_tfree (super_at s k) - 1)\<rparr>, m_flock := False\<rparr>]"
proof -
  have k: "k < length (mountp s)" using getment_SomeD [OF assms(1)] by simp
  show ?thesis using assms k
    by (simp add: balloc_def balloc_fails_def balloc_refill_def read_free_block_list_def bread_def super_upd Let_def)
qed

lemma balloc_ok:
  assumes ok: "free_ok dev k s bs"
  shows "\<exists>s'. balloc dev s = Some (case bs of [] \<Rightarrow> 0 | b # _ \<Rightarrow> b, s') \<and> free_ok dev k s' (tl bs) \<and>
    u_error s' = (if bs = [] then ENOSPC else u_error s) \<and> disk s' = disk s \<and> geom s' k = geom s k"
proof -
  note d = free_okD [OF ok]
  define sb where "sb = super_at s k"
  note d' = d [folded sb_def]
  have lost: "\<forall>b. (dev, b) \<notin> set (lost_bufs s)" using d(4) by blast
  have fr: "\<forall>b\<in>set (s_free sb). int32 b" using d'(6) by (simp add: range_ok_def)
  have tf: "wrap32 (s_tfree sb - 1) = int (length (tl bs))" if "bs \<noteq> []"
    using that d'(7) range_ok_room [OF d'(6)] by (subst int32_wrap) (auto simp: int32_def Suc_le_eq)
  consider (empty) "s_nfree sb = 0 \<or> s_nfree sb = 1 \<and> s_free sb ! 0 = 0" | (slot) "2 \<le> s_nfree sb"
    | (link) "s_nfree sb = 1" "s_free sb ! 0 \<noteq> 0" using d'(9) by linarith
  then show ?thesis
  proof cases
    case empty
    then have bs: "bs = []" using d'(5) chain_zero [of "disk s dev"] chain_one [of "disk s dev"] by metis
    obtain fm s' where s': "balloc dev s = Some (0, s')" "u_error s' = ENOSPC" "disk s' = disk s" "lost_bufs s' = lost_bufs s"
      "mountp s' = (mountp s)[k := (mountp s ! k)\<lparr>m_super := sb\<lparr>s_fmod := fm, s_nfree := 0\<rparr>, m_flock := False\<rparr>]"
      using balloc_empty [OF d(1,3) empty [unfolded sb_def]] unfolding sb_def by blast
    have "free_ok dev k s' []"
      using d' by (intro free_ok_step [OF ok s'(5)]) (simp_all add: same_mount_def s'(4) chain_empty range_ok_def bs)
    moreover have "geom s' k = geom s k" using d(2) by (simp add: geom_def super_at_def s'(5)) (simp add: sb_def super_at_def)
    ultimately show ?thesis using s'(1-3) bs by simp
  next
    case slot
    obtain bs' where b: "bs = s_free sb ! nat (s_nfree sb - 1) # bs'" "chain (disk s dev) (s_nfree sb - 1) (s_free sb) bs'"
      using chain_pop [OF d'(5) slot] by blast
    then have r: "s_free sb ! nat (s_nfree sb - 1) \<noteq> 0" "s_isize sb \<le> s_free sb ! nat (s_nfree sb - 1)"
      "s_free sb ! nat (s_nfree sb - 1) < s_fsize sb" using d'(6) by (auto simp: range_ok_def)
    note e = balloc_slot [OF d(1,3) slot [unfolded sb_def] d(10) refl r [unfolded sb_def], folded sb_def]
    obtain s' where s': "balloc dev s = Some (s_free sb ! nat (s_nfree sb - 1), s')" "u_error s' = u_error s"
      "disk s' = disk s" "lost_bufs s' = lost_bufs s"
      "mountp s' = (mountp s)[k := (mountp s ! k)\<lparr>m_super := sb\<lparr>s_fmod := 1, s_nfree := s_nfree sb - 1,
        s_free := (s_free sb)[nat (s_nfree sb - 1) := 0], s_tfree := wrap32 (s_tfree sb - 1)\<rparr>, m_flock := False\<rparr>]"
      using e by blast
    have "free_ok dev k s' bs'"
    proof (rule free_ok_step [OF ok s'(5)])
      show "chain (disk s' dev) (s_nfree (m_super ((mountp s ! k)\<lparr>m_super := sb\<lparr>s_fmod := 1, s_nfree := s_nfree sb - 1,
          s_free := (s_free sb)[nat (s_nfree sb - 1) := 0], s_tfree := wrap32 (s_tfree sb - 1)\<rparr>, m_flock := False\<rparr>)))
        (s_free (m_super ((mountp s ! k)\<lparr>m_super := sb\<lparr>s_fmod := 1, s_nfree := s_nfree sb - 1,
          s_free := (s_free sb)[nat (s_nfree sb - 1) := 0], s_tfree := wrap32 (s_tfree sb - 1)\<rparr>, m_flock := False\<rparr>))) bs'"
        using chain_take [OF b(2), of "(s_free sb)[nat (s_nfree sb - 1) := 0]"] d'(8) s'(3) by simp
    qed (use d' b(1) tf int32_zero_upd [OF fr] in \<open>simp_all add: same_mount_def s'(4) range_ok_def\<close>)
    moreover have "geom s' k = geom s k" using d(2) by (simp add: geom_def super_at_def s'(5)) (simp add: sb_def super_at_def)
    ultimately show ?thesis using s'(1-3) b(1) by simp
  next
    case link
    then obtain blk fr bs' where b: "bs = s_free sb ! 0 # bs'" "disk s dev (s_free sb ! 0) = Some blk" "df_nfree blk \<le> NICFREE"
      "canndaddr (df_free blk) (df_nfree blk) = Some fr" "chain (disk s dev) (df_nfree blk) fr bs'"
      using chain_one [of "disk s dev" "s_free sb" bs] d'(5) by auto
    then have r: "s_isize sb \<le> s_free sb ! 0" "s_free sb ! 0 < s_fsize sb" using d'(6) by (auto simp: range_ok_def)
    note e = balloc_link [OF d(1,3) lost link(1) [unfolded sb_def] refl link(2) [unfolded sb_def] r [unfolded sb_def]
        b(2) [unfolded sb_def] b(3,4), folded sb_def]
    then obtain s' where s': "balloc dev s = Some (s_free sb ! 0, s')" "u_error s' = u_error s"
      "disk s' = disk s" "lost_bufs s' = lost_bufs s"
      "mountp s' = (mountp s)[k := (mountp s ! k)\<lparr>m_super := sb\<lparr>s_fmod := 1, s_nfree := df_nfree blk,
        s_free := fr, s_tfree := wrap32 (s_tfree sb - 1)\<rparr>, m_flock := False\<rparr>]"
      by blast
    have "free_ok dev k s' bs'"
      using d' b tf int32_canndaddr [OF b(4)]
      by (intro free_ok_step [OF ok s'(5)]) (simp_all add: same_mount_def s'(3,4) range_ok_def)
    moreover have "geom s' k = geom s k" using d(2) by (simp add: geom_def super_at_def s'(5)) (simp add: sb_def super_at_def)
    ultimately show ?thesis using s'(1-3) b(1) by simp
  qed
qed

section \<open>Giving a block back\<close>

definition full_or_empty :: "int \<Rightarrow> bool" where
  "full_or_empty n \<longleftrightarrow> n = 0 \<or> n = NICFREE"

lemma chain_put:
  assumes "chain d n free bs" "b \<notin> set bs" "b \<noteq> 0" "\<forall>x\<in>set free. int32 x"
  shows "chain (if full_or_empty n then d(b := Some (put_fblk n free)) else d)
    ((if full_or_empty n then 0 else n) + 1) (free[nat (if full_or_empty n then 0 else n) := b]) (b # bs)"
proof (cases "full_or_empty n")
  case True
  then show ?thesis
    using chain_write [OF assms(1,3,2,4), of "free[0 := b]"] chain_length [OF assms(1)] by simp
next
  case False
  then have "0 < n" "n < 64" using chain_length [OF assms(1)] by (auto simp: full_or_empty_def)
  then show ?thesis using False chain_push [OF assms(1)] by simp
qed

lemma chain_replace:
  assumes "chain d n free bs" "0 < n" "length list = nat n - 1"
  shows "\<exists>bs'. bs = rev (take (nat n - 1) (tl free)) @ bs' \<and>
    chain d n (take 1 free @ list @ drop (nat n) free) (rev list @ bs')"
proof -
  let ?f = "take 1 free @ list @ drop (nat n) free"
  have l: "length free = 64" "n \<le> 64" using chain_length [OF assms(1)] by simp_all
  then obtain x xs where f: "free = x # xs" by (cases free) auto
  have "nat n \<le> 64" "0 < nat n" using l assms(2) by simp_all
  then have len: "length ?f = 64" using l f assms(3) by simp
  have h: "?f ! 0 = free ! 0" and s: "slots_of n ?f = rev list" using f assms(3) by (simp_all add: slots_of_def)
  from assms(1) show ?thesis
  proof (cases rule: chain.cases)
    case chain_empty
    then show ?thesis using assms(2) by simp
  next
    case chain_last
    then show ?thesis using chain.chain_last [of n ?f d] assms(2) l len h s by (simp add: slots_of_def)
  next
    case (chain_link blk fr bs')
    have "chain d n ?f (slots_of n ?f @ ?f ! 0 # bs')"
      using chain_link h len by (intro chain.chain_link [of n ?f d blk fr bs']) simp_all
    then show ?thesis using chain_link s h by (intro exI [of _ "free ! 0 # bs'"]) (simp add: slots_of_def)
  qed
qed

lemma bfree_put_result:
  assumes "k < length (mountp s)" "\<forall>b. (dev, b) \<notin> set (lost_bufs s)"
  shows "\<exists>s'. bfree_put dev b k s = Some s' \<and> u_error s' = u_error s \<and> lost_bufs s' = lost_bufs s \<and>
    disk s' = (if full_or_empty (s_nfree (super_at s k))
      then (disk s)(dev := (disk s dev)(b := Some (put_fblk (s_nfree (super_at s k)) (s_free (super_at s k)))))
      else disk s) \<and>
    mountp s' = (mountp s)[k := (mountp s ! k)\<lparr>m_super := (super_at s k)\<lparr>
      s_free := (s_free (super_at s k))[nat (if full_or_empty (s_nfree (super_at s k)) then 0 else s_nfree (super_at s k)) := b],
      s_nfree := (if full_or_empty (s_nfree (super_at s k)) then 0 else s_nfree (super_at s k)) + 1,
      s_tfree := wrap32 (s_tfree (super_at s k) + 1), s_fmod := 1\<rparr>, m_flock := False\<rparr>]"
  using assms by (simp add: bfree_put_def full_or_empty_def bput_def super_upd Let_def)

definition only_block :: "int \<Rightarrow> int set \<Rightarrow> 'a fs_state_scheme \<Rightarrow> 'a fs_state_scheme \<Rightarrow> bool" where
  "only_block dev B s s' \<longleftrightarrow> (\<forall>dv x. dv \<noteq> dev \<or> x \<notin> B \<longrightarrow> disk s' dv x = disk s dv x)"

lemma only_block_refl [simp]: "only_block dev B s s"
  by (simp add: only_block_def)

lemma only_block_trans:
  "only_block dev B s s' \<Longrightarrow> only_block dev B' s' s'' \<Longrightarrow> B \<subseteq> C \<Longrightarrow> B' \<subseteq> C \<Longrightarrow> only_block dev C s s''"
  unfolding only_block_def by (metis subsetD)

lemma range_ok_Cons:
  "range_ok sb bs \<Longrightarrow> b \<notin> set bs \<Longrightarrow> s_isize sb \<le> b \<Longrightarrow> b < s_fsize sb \<Longrightarrow> range_ok sb (b # bs)"
  by (simp add: range_ok_def)

lemma int32_list_update: "\<forall>b\<in>set xs. int32 b \<Longrightarrow> int32 c \<Longrightarrow> \<forall>b\<in>set (xs[i := c]). int32 b"
  using set_update_subset_insert [of xs i c] by auto

lemma bfree_put_ok:
  assumes ok: "free_ok dev k (set_flock False k s) bs" and b: "b \<notin> set bs" "s_isize (super_at s k) \<le> b" "b < s_fsize (super_at s k)"
  shows "\<exists>s'. bfree_put dev b k s = Some s' \<and> free_ok dev k s' (b # bs) \<and> u_error s' = u_error s \<and>
    only_block dev {b} s s' \<and> geom s' k = geom s k"
proof -
  note d = free_okD [OF ok]
  define sb where "sb = super_at s k"
  define i where "i = (if full_or_empty (s_nfree sb) then 0 else s_nfree sb)"
  have k: "k < length (mountp s)" using d(2) by (simp add: super_upd)
  have sb: "super_at (set_flock False k s) k = sb" using k by (simp add: super_upd sb_def)
  have lost: "\<forall>b. (dev, b) \<notin> set (lost_bufs s)" using d(4) by (simp add: super_upd)
  have dk: "disk (set_flock False k s) = disk s" by (simp add: super_upd)
  note d' = d [unfolded sb dk]
  have r: "range_ok sb (b # bs)" using range_ok_Cons [OF d'(6)] b by (simp add: sb_def)
  then have b32: "int32 b" "b \<noteq> 0" using range_ok_int32 [OF r] by simp_all
  have fr: "\<forall>b\<in>set (s_free sb). int32 b" using d'(6) by (simp add: range_ok_def)
  have tf: "wrap32 (s_tfree sb + 1) = int (length (b # bs))"
    using d'(7) range_ok_room [OF r] by (subst int32_wrap) (auto simp: int32_def)
  obtain s' where s': "bfree_put dev b k s = Some s'" "u_error s' = u_error s" "lost_bufs s' = lost_bufs s"
    "disk s' = (if full_or_empty (s_nfree sb)
      then (disk s)(dev := (disk s dev)(b := Some (put_fblk (s_nfree sb) (s_free sb)))) else disk s)"
    "mountp s' = (mountp s)[k := (mountp s ! k)\<lparr>m_super := sb\<lparr>s_free := (s_free sb)[nat i := b],
      s_nfree := i + 1, s_tfree := wrap32 (s_tfree sb + 1), s_fmod := 1\<rparr>, m_flock := False\<rparr>]"
    using bfree_put_result [OF k lost, of b, folded sb_def, folded i_def] by blast
  have c: "chain (disk s' dev) (i + 1) ((s_free sb)[nat i := b]) (b # bs)"
    using chain_put [OF d'(5) b(1) b32(2) fr] by (cases "full_or_empty (s_nfree sb)") (simp_all add: s'(4) i_def)
  have "free_ok dev k s' (b # bs)"
  proof (rule free_ok_step [OF ok])
    show "mountp s' = (mountp (set_flock False k s))[k := (mountp s ! k)\<lparr>m_super := sb\<lparr>s_free := (s_free sb)[nat i := b],
      s_nfree := i + 1, s_tfree := wrap32 (s_tfree sb + 1), s_fmod := 1\<rparr>, m_flock := False\<rparr>]"
      by (simp add: s'(5) super_upd)
  qed (use k c tf r int32_list_update [OF fr b32(1)] in \<open>simp_all add: super_upd s'(3) range_ok_def\<close>)
  moreover have "only_block dev {b} s s'" by (simp add: only_block_def s'(4))
  moreover have "geom s' k = geom s k" using k by (simp add: geom_def super_at_def s'(5)) (simp add: sb_def super_at_def)
  ultimately show ?thesis using s'(1,2) by blast
qed

lemma flock_same: "\<not> m_flock m \<Longrightarrow> m\<lparr>m_flock := False\<rparr> = m"
  by (cases m) simp

lemma bfree_ok:
  assumes ok: "free_ok dev k s bs" and b: "b \<notin> set bs" "s_isize (super_at s k) \<le> b" "b < s_fsize (super_at s k)"
  shows "\<exists>s' bs'. bfree srt dev b s = Some s' \<and> free_ok dev k s' bs' \<and> mset bs' = add_mset b (mset bs) \<and>
    (\<not> srt \<longrightarrow> bs' = b # bs) \<and> u_error s' = u_error s \<and> only_block dev (set bs') s s' \<and>
    geom s' k = geom s k"
proof -
  note d = free_okD [OF ok]
  define sb where "sb = super_at s k"
  define s2 where "s2 = set_flock True k s"
  note d' = d [folded sb_def]
  have n: "\<not> s_nfree sb < 0" "\<not> s_nfree sb > NICFREE" "\<not> b \<ge> s_fsize sb" "\<not> b < s_isize sb"
    using d'(9,10) b by (simp_all add: sb_def)
  have undo: "set_flock False k s2 = s" using d(2,3) by (simp add: s2_def super_upd flock_same)
  have s2: "super_at s2 k = sb" "u_error s2 = u_error s" "disk s2 = disk s" "k < length (mountp s2)"
    using d(2) by (simp_all add: s2_def super_upd sb_def)
  show ?thesis
  proof (cases "srt \<and> s_nfree sb > 0")
    case False
    then have "\<not> srt \<or> s_nfree sb = 0" using n(1) by auto
    then have e: "bfree srt dev b s = bfree_put dev b k s2"
      using d(1,3) n by (elim disjE) (simp_all add: bfree_def sb_def s2_def Let_def)
    obtain s' where s': "bfree_put dev b k s2 = Some s'" "free_ok dev k s' (b # bs)" "u_error s' = u_error s2"
      "only_block dev {b} s2 s'" "geom s' k = geom s2 k"
      using bfree_put_ok [of dev k s2 bs b] ok b undo s2(1) by (auto simp: sb_def)
    have "only_block dev (set (b # bs)) s s'" using s'(4) s2(3) by (auto simp: only_block_def)
    then show ?thesis using e s' s2(1,2) by (intro exI [of _ s'] exI [of _ "b # bs"]) (simp add: geom_def sb_def)
  next
    case True
    define xs where "xs = take (nat (s_nfree sb) - 1) (tl (s_free sb))"
    obtain list nb where a: "daddr_add xs b = (list, nb)" by fastforce
    have len: "length xs = nat (s_nfree sb) - 1" using d'(8,10) by (simp add: xs_def)
    obtain bs0 where bs0: "bs = rev xs @ bs0"
      using chain_replace [OF d'(5) _ len] True by (auto simp: xs_def)
    then have "b \<notin> set xs" using b(1) by auto
    note r = daddr_add_result [OF this a]
    have fr: "\<forall>x\<in>set (s_free sb). int32 x" using d'(6) by (simp add: range_ok_def)
    define free' where "free' = take 1 (s_free sb) @ list @ drop (nat (s_nfree sb)) (s_free sb)"
    have c: "chain (disk s dev) (s_nfree sb) free' (rev list @ bs0)"
      using chain_replace [OF d'(5), of list] True r len bs0 by (auto simp: free'_def xs_def)
    have m: "mset (nb # rev list @ bs0) = mset (b # bs)" using r bs0 by (simp add: union_commute)
    then have st: "set (nb # rev list @ bs0) = set (b # bs)" using mset_eq_setD by metis
    have rb: "range_ok sb (b # bs)" using range_ok_Cons [OF d'(6)] b by (simp add: sb_def)
    then have dist: "distinct (nb # rev list @ bs0)" using m mset_eq_imp_distinct_iff [OF m] by (simp add: range_ok_def)
    have nb: "s_isize sb \<le> nb" "nb < s_fsize sb" "nb \<noteq> 0"
    proof -
      have "nb \<in> set (b # bs)" using st by (metis list.set_intros(1))
      then show "s_isize sb \<le> nb" "nb < s_fsize sb" "nb \<noteq> 0"
        using rb range_ok_int32 [OF rb] by (auto simp: range_ok_def)
    qed
    have "set list \<subseteq> set (b # bs)" using st by auto
    then have l32: "\<forall>x\<in>set list. int32 x" using range_ok_int32 [OF rb] by blast
    define s3 where "s3 = upd_super (\<lambda>q. q\<lparr>s_free := take 1 (s_free q) @ list @ drop (nat (s_nfree sb)) (s_free q)\<rparr>) k s2"
    have e: "bfree srt dev b s = bfree_put dev nb k s3"
      using d(1,3) n True a nb(3) by (simp add: bfree_def sb_def s2_def s3_def free'_def xs_def Let_def)
    have s3: "super_at s3 k = sb\<lparr>s_free := free'\<rparr>" "u_error s3 = u_error s" "disk s3 = disk s"
      using s2 by (simp_all add: s3_def super_upd free'_def)
    have f32: "\<forall>x\<in>set free'. int32 x"
      using fr l32 in_set_dropD [of _ "nat (s_nfree sb)" "s_free sb"] in_set_takeD [of _ 1 "s_free sb"]
      by (auto simp: free'_def)
    have "length bs = length list + length bs0" using mset_eq_length [OF m] by simp
    then have len3: "int (length bs) = int (length list) + int (length bs0)" by simp
    have ok3: "free_ok dev k (set_flock False k s3) (rev list @ bs0)"
    proof (rule free_ok_step [OF ok])
      show "mountp (set_flock False k s3) = (mountp s)[k := (mountp s ! k)\<lparr>m_super := sb\<lparr>s_free := free'\<rparr>, m_flock := False\<rparr>]"
        using d(2) by (simp add: s3_def s2_def super_upd sb_def free'_def)
    qed (use c rb st dist f32 d'(7) m d(2) len3 in
        \<open>auto simp: s3_def s2_def super_upd range_ok_def sb_def\<close>)
    obtain s' where s': "bfree_put dev nb k s3 = Some s'" "free_ok dev k s' (nb # rev list @ bs0)"
      "u_error s' = u_error s3" "only_block dev {nb} s3 s'" "geom s' k = geom s3 k"
      using bfree_put_ok [OF ok3, of nb] nb dist s3(1) by auto
    have "only_block dev (set (nb # rev list @ bs0)) s s'" using s'(4) s3(3) by (auto simp: only_block_def)
    then show ?thesis using e s' s3(1,2) m True by (intro exI [of _ s'] exI [of _ "nb # rev list @ bs0"]) (simp add: geom_def sb_def)
  qed
qed

end
