(* ===== verification/Free_Space_Properties.thy ===== *)
theory Free_Space_Properties
  imports Free_Space_Invariant
begin

text \<open>
  The properties of the free-block list and of accounting's compressed numbers. The demonstration
  state has one file system of 100 blocks; block 7 holds the second part of its free list.
\<close>

section \<open>A file system\<close>

definition demo_mount :: "int list \<Rightarrow> int \<Rightarrow> int \<Rightarrow> mount" where
  "demo_mount free n t = \<lparr>m_ip = 1, m_dev = 5, m_flag = 0,
     m_super = \<lparr>s_isize = 3, s_fsize = 100, s_nfree = n, s_free = free @ replicate (64 - length free) 0, s_ninode = 0,
       s_inode = [], s_fmod = 0, s_time = 0, s_tfree = t, s_tinode = 0, s_m = 1, s_n = 1, s_unique = 0\<rparr>,
     m_ilock = False, m_flock = False\<rparr>"

definition demo_fs :: "int list \<Rightarrow> int \<Rightarrow> int \<Rightarrow> fs_state" where
  "demo_fs free n t = \<lparr>u_error = E_NONE, u_asu = False, p_credp = 1, cred_mem = Map.empty,
     groups_mem = Map.empty, kallocs = [], freerl = [], i_rl = (\<lambda>_. []), p_prl = (\<lambda>_. None), rl_wakeups = [],
     u_filep = replicate 60 0, other_filep = [], file_mem = Map.empty, mountp = [demo_mount free n t],
     disk = (\<lambda>_. Map.empty)(5 := [7 \<mapsto> put_fblk 2 (0 # 20 # replicate 62 0),
        8 \<mapsto> concat (map le32 (655360 # 720896 # replicate 126 0))]),
     lost_bufs = []\<rparr>"

lemma chain_second: "chain (disk (demo_fs free n t) 5) 2 (0 # 20 # replicate 62 0) [20]"
proof -
  have "slots_of 2 (0 # 20 # replicate 62 0) = [20]" by (simp add: slots_of_def)
  then show ?thesis using chain_last [of 2 "0 # 20 # replicate 62 0" "disk (demo_fs free n t) 5"] by simp
qed

lemma chain_first:
  "chain (disk (demo_fs [7, 12, 9, 6] 4 5) 5) 4 ([7, 12, 9, 6] @ replicate 60 0) [6, 9, 12, 7, 20]"
proof -
  define f :: "int list" where "f = 0 # 20 # replicate 62 0"
  have f: "length f = 64" "\<forall>b\<in>set f. int32 b" by (auto simp: f_def int32_def)
  have b: "disk (demo_fs [7, 12, 9, 6] 4 5) 5 7 = Some (put_fblk 2 f)" by (simp add: demo_fs_def f_def)
  note r = put_fblk_roundtrip [OF _ _ f, of 2]
  have "chain (disk (demo_fs [7, 12, 9, 6] 4 5) 5) 4 ([7, 12, 9, 6] @ replicate 60 0)
      (slots_of 4 ([7, 12, 9, 6] @ replicate 60 0) @ ([7, 12, 9, 6] @ replicate 60 0) ! 0 # [20])"
    using b r chain_second [of "[7, 12, 9, 6]" 4 5]
    by (intro chain_link [where blk = "put_fblk 2 f" and free' = f]) (simp_all add: f_def)
  then show ?thesis by (simp add: slots_of_def)
qed

lemma demo_free_ok: "free_ok 5 0 (demo_fs [7, 12, 9, 6] 4 5) [6, 9, 12, 7, 20]"
proof -
  have "getment 5 True (demo_fs [7, 12, 9, 6] 4 5) = (Some 0, demo_fs [7, 12, 9, 6] 4 5)"
    by (rule getment_SomeI) (simp_all add: demo_fs_def demo_mount_def)
  moreover have "\<not> m_flock (mountp (demo_fs [7, 12, 9, 6] 4 5) ! 0)" "lost_bufs (demo_fs [7, 12, 9, 6] 4 5) = []"
    "s_nfree (super_at (demo_fs [7, 12, 9, 6] 4 5) 0) = 4"
    "s_free (super_at (demo_fs [7, 12, 9, 6] 4 5) 0) = [7, 12, 9, 6] @ replicate 60 0"
    "s_tfree (super_at (demo_fs [7, 12, 9, 6] 4 5) 0) = 5"
    "s_isize (super_at (demo_fs [7, 12, 9, 6] 4 5) 0) = 3" "s_fsize (super_at (demo_fs [7, 12, 9, 6] 4 5) 0) = 100"
    by (simp_all add: demo_fs_def demo_mount_def super_at_def)
  ultimately show ?thesis using chain_first by (simp add: free_ok_def range_ok_def int32_def)
qed

section \<open>Allocation\<close>

text \<open>
  C13. \<open>balloc\<close> refines taking the head of a list: from a file system whose free list is \<open>bs\<close> it
  returns, with the first block of \<open>bs\<close>, and leaves the rest of it free, following the chain on
  disk when the array of the super block runs empty; with no free block it returns 0 with
  \<open>ENOSPC\<close> and the list stays empty. It writes no block.
\<close>

theorem balloc_takes_head:
  assumes "free_ok dev k s bs"
  shows "\<exists>s'. balloc dev s = Some (case bs of [] \<Rightarrow> 0 | b # _ \<Rightarrow> b, s') \<and> free_ok dev k s' (tl bs) \<and>
    u_error s' = (if bs = [] then ENOSPC else u_error s) \<and> disk s' = disk s"
  using balloc_ok [OF assms] by blast

theorem balloc_takes_head_witness:
  "\<exists>s'. balloc 5 (demo_fs [7, 12, 9, 6] 4 5) = Some (6, s') \<and> free_ok 5 0 s' [9, 12, 7, 20]"
  using balloc_takes_head [OF demo_free_ok] by auto

text \<open>
  C14. \<open>bfree\<close> gives a block back, sorted or not: it returns, the block joins the free list, which
  stays well formed, also when the array is full and goes to disk, and the only blocks it writes
  are free ones. Without sorting, the block is the next one to be allocated.
\<close>

theorem bfree_adds:
  assumes "free_ok dev k s bs" "b \<notin> set bs" "s_isize (super_at s k) \<le> b" "b < s_fsize (super_at s k)"
  shows "\<exists>s' bs'. bfree srt dev b s = Some s' \<and> free_ok dev k s' bs' \<and> mset bs' = add_mset b (mset bs) \<and>
    (\<not> srt \<longrightarrow> bs' = b # bs) \<and> u_error s' = u_error s \<and> only_block dev (set bs') s s'"
  using bfree_ok [OF assms] by blast

theorem bfree_adds_witness:
  "\<exists>s' bs'. bfree True 5 8 (demo_fs [7, 12, 9, 6] 4 5) = Some s' \<and> free_ok 5 0 s' bs' \<and>
    mset bs' = mset [8, 6, 9, 12, 7, 20]"
  using bfree_adds [OF demo_free_ok, of 8 True]
  by (auto simp: demo_fs_def demo_mount_def super_at_def)

section \<open>Sequences of operations\<close>

text \<open>The blocks in use; only a block in use is given back.\<close>

inductive fs_step :: "int \<Rightarrow> bool \<Rightarrow> 'a fs_state_scheme \<times> int set \<Rightarrow> 'a fs_state_scheme \<times> int set \<Rightarrow> bool"
  for dev :: int and srt :: bool where
  step_balloc: "balloc dev s = Some (b, s') \<Longrightarrow> fs_step dev srt (s, U) (s', if b = 0 then U else insert b U)"
| step_bfree: "b \<in> U \<Longrightarrow> bfree srt dev b s = Some s' \<Longrightarrow> fs_step dev srt (s, U) (s', U - {b})"

inductive_cases fs_stepE: "fs_step dev srt (s, U) (s', U')"

definition conserved :: "int \<Rightarrow> nat \<Rightarrow> int \<times> int \<Rightarrow> int set \<Rightarrow> 'a fs_state_scheme \<Rightarrow> int set \<Rightarrow> bool" where
  "conserved dev k g B s U \<longleftrightarrow>
     (\<exists>bs. free_ok dev k s bs \<and> set bs \<inter> U = {} \<and> set bs \<union> U = B \<and> geom s k = g) \<and>
     (\<forall>b\<in>B. 0 < fst g \<and> fst g \<le> b \<and> b < snd g)"

lemma fs_step_conserved:
  assumes "fs_step dev srt (s, U) (s', U')" "conserved dev k g B s U"
  shows "conserved dev k g B s' U'"
proof -
  obtain bs where c: "free_ok dev k s bs" "set bs \<inter> U = {}" "set bs \<union> U = B" "geom s k = g"
    and r: "\<forall>b\<in>B. 0 < fst g \<and> fst g \<le> b \<and> b < snd g"
    using assms(2) by (auto simp: conserved_def)
  from assms(1) show ?thesis
  proof (cases rule: fs_step.cases)
    case (step_balloc b)
    obtain s1 where s1: "balloc dev s = Some (case bs of [] \<Rightarrow> 0 | b # _ \<Rightarrow> b, s1)" "free_ok dev k s1 (tl bs)"
      "geom s1 k = geom s k" using balloc_ok [OF c(1)] by blast
    have b: "b = (case bs of [] \<Rightarrow> 0 | b # _ \<Rightarrow> b)" "s' = s1" using s1(1) step_balloc by simp_all
    have "distinct bs" using free_okD(6) [OF c(1)] by (simp add: range_ok_def)
    then have "set (tl bs) \<inter> U' = {} \<and> set (tl bs) \<union> U' = B"
      using c(2,3) r b step_balloc by (cases bs) auto
    then show ?thesis using s1 c(4) r b by (auto simp: conserved_def)
  next
    case (step_bfree b)
    then have b: "b \<notin> set bs" "s_isize (super_at s k) \<le> b" "b < s_fsize (super_at s k)"
      using c r by (auto simp: geom_def)
    obtain s1 bs' where s1: "bfree srt dev b s = Some s1" "free_ok dev k s1 bs'" "mset bs' = add_mset b (mset bs)"
      "geom s1 k = geom s k" using bfree_ok [OF c(1) b] by blast
    have "set bs' = insert b (set bs)" using mset_eq_setD [of bs' "b # bs"] s1(3) by simp
    then have "set bs' \<inter> U' = {}" "set bs' \<union> U' = B" "s' = s1" using step_bfree c(2,3) b(1) s1(1) by auto
    then show ?thesis using s1(2,4) c(4) r unfolding conserved_def by blast
  qed
qed

lemma fs_steps_conserved:
  "(fs_step dev srt)\<^sup>*\<^sup>* x y \<Longrightarrow> conserved dev k g B (fst x) (snd x) \<Longrightarrow> conserved dev k g B (fst y) (snd y)"
proof (induction rule: rtranclp_induct)
  case (step y z)
  then show ?case using fs_step_conserved [of dev srt "fst y" "snd y" "fst z" "snd z"] by simp
qed

lemma conserved_start:
  assumes "free_ok dev k s bs"
  shows "conserved dev k (geom s k) (set bs) s {}"
  using assms free_okD(6) [OF assms] unfolding conserved_def
  by (intro conjI exI [of _ bs]) (auto simp: range_ok_def geom_def)

text \<open>
  C12. No block is handed out twice and none is lost: after any sequence of \<open>balloc\<close> and of \<open>bfree\<close>
  of blocks in use, from a file system with the free blocks \<open>bs0\<close>, the free list and the blocks in
  use are disjoint and make up \<open>bs0\<close>; the next \<open>balloc\<close> returns, with a block not in use, and with 0
  only when all of \<open>bs0\<close> is in use.
\<close>

theorem blocks_conserved:
  assumes "free_ok dev k s0 bs0" "(fs_step dev srt)\<^sup>*\<^sup>* (s0, {}) (s, U)"
  shows "(\<exists>bs. free_ok dev k s bs \<and> set bs \<inter> U = {} \<and> set bs \<union> U = set bs0) \<and>
    (\<exists>b s'. balloc dev s = Some (b, s') \<and> b \<notin> U \<and> (b = 0 \<longleftrightarrow> U = set bs0))"
proof -
  have "conserved dev k (geom s0 k) (set bs0) s U"
    using fs_steps_conserved [OF assms(2), of k] conserved_start [OF assms(1)] by simp
  then obtain bs where c: "free_ok dev k s bs" "set bs \<inter> U = {}" "set bs \<union> U = set bs0"
    by (auto simp: conserved_def)
  have p: "\<forall>b\<in>set bs0. 0 < b" using free_okD(6) [OF assms(1)] by (auto simp: range_ok_def)
  obtain s' where "balloc dev s = Some (case bs of [] \<Rightarrow> 0 | b # _ \<Rightarrow> b, s')" using balloc_ok [OF c(1)] by blast
  moreover have "(case bs of [] \<Rightarrow> 0 | b # _ \<Rightarrow> b) \<notin> U \<and> ((case bs of [] \<Rightarrow> 0 | b # _ \<Rightarrow> b) = 0 \<longleftrightarrow> U = set bs0)"
    using c(2,3) p by (cases bs) auto
  ultimately show ?thesis using c by blast
qed

theorem blocks_conserved_witness:
  "\<exists>s. (fs_step 5 True)\<^sup>*\<^sup>* (demo_fs [7, 12, 9, 6] 4 5, {}) (s, {6}) \<and>
    (\<exists>b s'. balloc 5 s = Some (b, s') \<and> b \<notin> {6} \<and> b \<noteq> 0)"
proof -
  obtain s where "balloc 5 (demo_fs [7, 12, 9, 6] 4 5) = Some (6, s)" using balloc_ok [OF demo_free_ok] by auto
  from step_balloc [OF this, of True "{}"]
  have r: "(fs_step 5 True)\<^sup>*\<^sup>* (demo_fs [7, 12, 9, 6] 4 5, {}) (s, {6})" by simp
  show ?thesis using blocks_conserved [OF demo_free_ok r] r by force
qed

section \<open>Sorted insertion and duplicates\<close>

text \<open>
  On a list of block numbers in descending order, \<open>daddr_add\<close> returns 0 and changes nothing
  exactly when the new number is there (numbers of free blocks are positive); otherwise the list
  stays in descending order, and what it returns is the least of the numbers, none of which is lost.
\<close>

theorem daddr_add_min:
  assumes "sorted_wrt (>) xs" "\<forall>x\<in>set xs. 0 < x" "0 < b" "daddr_add xs b = (ys, r)"
  shows "if b \<in> set xs then r = 0 \<and> ys = xs
    else 0 < r \<and> sorted_wrt (>) ys \<and> (\<forall>y\<in>set ys. r < y) \<and> mset (r # ys) = mset (b # xs)"
proof (cases "b \<in> set xs")
  case True
  then show ?thesis using assms daddr_add_there [of xs b] by simp
next
  case False
  have m: "mset (r # ys) = mset (b # xs)" using daddr_add_result [OF False assms(4)] by simp
  then have "r \<in> set (b # xs)" by (metis list.set_intros(1) mset_eq_setD)
  then have "0 < r" using assms(2,3) by auto
  then show ?thesis using daddr_add_descending [OF assms(1) False assms(4)] False m by simp
qed

theorem daddr_add_min_witness:
  "daddr_add [12, 9, 6] 8 = ([12, 9, 8], 6) \<and> (6 :: int) < 8 \<and> mset [6, 12, 9, 8] = mset [8, 12, 9, 6 :: int]"
  using daddr_add_min [of "[12, 9, 6]" 8 "[12, 9, 8]" 6] by simp

text \<open>
  Freeing a block that is in the array already is noticed only by the sorted insertion, and
  that path returns with the gate of the free list locked: the call returns, and the next \<open>balloc\<close>
  on the file system, or another \<open>bfree\<close> of the block, waits for ever.
\<close>

theorem duplicate_free_locks_list:
  assumes "free_ok dev k s bs" "sorted_wrt (>) (take (nat (s_nfree (super_at s k)) - 1) (tl (s_free (super_at s k))))"
    "b \<in> set (take (nat (s_nfree (super_at s k)) - 1) (tl (s_free (super_at s k))))"
  shows "\<exists>s'. bfree True dev b s = Some s' \<and> u_error s' = u_error s \<and> balloc dev s' = None \<and>
    bfree srt dev b s' = None"
proof -
  note d = free_okD [OF assms(1)]
  let ?sb = "super_at s k"
  have n: "0 < s_nfree ?sb" using assms(3) d(9) by (cases "s_nfree ?sb = 0") auto
  then obtain bs0 where "bs = rev (take (nat (s_nfree ?sb) - 1) (tl (s_free ?sb))) @ bs0"
    using chain_replace [OF d(5), of "take (nat (s_nfree ?sb) - 1) (tl (s_free ?sb))"] d(8,10) by auto
  then have "b \<in> set bs" using assms(3) by simp
  then have b: "s_isize ?sb \<le> b" "b < s_fsize ?sb" using d(6) by (auto simp: range_ok_def)
  define s' where "s' = set_flock True k s"
  have "daddr_add (take (nat (s_nfree ?sb) - 1) (tl (s_free ?sb))) b =
      (take (nat (s_nfree ?sb) - 1) (tl (s_free ?sb)), 0)"
    using daddr_add_there [OF assms(2,3)] .
  then have e: "bfree True dev b s = Some s'" using d n b by (simp add: bfree_def s'_def Let_def)
  have s': "getment dev True s' = (Some k, s')" "m_flock (mountp s' ! k)" "super_at s' k = ?sb"
    using getment_keep [OF d(1), of s' "(mountp s ! k)\<lparr>m_flock := True\<rparr>"] d(2) by (simp_all add: s'_def super_upd)
  then have "balloc dev s' = None" "bfree srt dev b s' = None"
    using b by (simp_all add: balloc_def bfree_def Let_def)
  then show ?thesis using e by (auto simp: s'_def super_upd)
qed

theorem duplicate_free_locks_list_witness:
  "\<exists>s'. bfree True 5 9 (demo_fs [7, 12, 9, 6] 4 5) = Some s' \<and> balloc 5 s' = None"
  using duplicate_free_locks_list [OF demo_free_ok, of 9]
  by (auto simp: demo_fs_def demo_mount_def super_at_def eval_nat_numeral)

section \<open>Indirect blocks\<close>

text \<open>The blocks of a tree with \<open>l\<close> levels of indirect blocks, as it is on disk.\<close>

fun ind_tree :: "(int \<Rightarrow> block option) \<Rightarrow> nat \<Rightarrow> int \<Rightarrow> int list" where
  "ind_tree d 0 b = (if b = 0 then [] else [b])"
| "ind_tree d (Suc l) b =
     (if b = 0 then []
      else b # (case d b of None \<Rightarrow> [] | Some blk \<Rightarrow> concat (map (ind_tree d l) (rev (indirects blk)))))"

definition in_range :: "int \<times> int \<Rightarrow> int \<Rightarrow> bool" where
  "in_range g b \<longleftrightarrow> fst g \<le> b \<and> b < snd g"

definition frees :: "bool \<Rightarrow> int \<Rightarrow> nat \<Rightarrow> int list \<Rightarrow> 'a fs_state_scheme \<Rightarrow> int list \<Rightarrow> 'a fs_state_scheme option \<Rightarrow> bool" where
  "frees srt dev k ts s bs r \<longleftrightarrow>
     (\<exists>s' bs'. r = Some s' \<and> free_ok dev k s' bs' \<and> mset bs' = mset ts + mset bs \<and>
        only_block dev (set bs') s s' \<and> geom s' k = geom s k)"

lemma frees_one:
  assumes "free_ok dev k s bs" "b \<notin> set bs" "in_range (geom s k) b"
  shows "frees srt dev k [b] s bs (bfree srt dev b s)"
  using bfree_ok [OF assms(1,2), of srt] assms(3) unfolding frees_def geom_def in_range_def by fastforce

lemma frees_seq:
  assumes "frees srt dev k ts s bs (Some s1)" 
    "\<And>bs1. free_ok dev k s1 bs1 \<Longrightarrow> mset bs1 = mset ts + mset bs \<Longrightarrow> only_block dev (set bs1) s s1 \<Longrightarrow>
       geom s1 k = geom s k \<Longrightarrow> frees srt dev k ts' s1 bs1 r"
  shows "frees srt dev k (ts @ ts') s bs r"
proof -
  obtain bs1 where f1: "free_ok dev k s1 bs1" "mset bs1 = mset ts + mset bs" "only_block dev (set bs1) s s1"
    "geom s1 k = geom s k" using assms(1) by (auto simp: frees_def)
  obtain s' bs' where f2: "r = Some s'" "free_ok dev k s' bs'" "mset bs' = mset ts' + mset bs1"
    "only_block dev (set bs') s1 s'" "geom s' k = geom s1 k"
    using assms(2) [OF f1] by (auto simp: frees_def)
  have "set bs1 \<subseteq> set bs'" by (metis f2(3) set_mset_mono mset_subset_eq_add_right set_mset_mset)
  then have "only_block dev (set bs') s s'" using only_block_trans [OF f1(3) f2(4)] by simp
  then show ?thesis using f1 f2 by (auto simp: frees_def ac_simps)
qed

lemma frees_Some: "frees srt dev k ts s bs r \<Longrightarrow> \<exists>s1. r = Some s1"
  by (auto simp: frees_def)

lemma ind_tree_cong:
  "(\<And>x. x \<in> set (ind_tree d l b) \<Longrightarrow> d' x = d x) \<Longrightarrow> ind_tree d' l b = ind_tree d l b"
proof (induction l arbitrary: b)
  case (Suc l)
  show ?case
  proof (cases "b = 0")
    case False
    then have e: "d' b = d b" using Suc.prems by simp
    show ?thesis
    proof (cases "d b")
      case (Some blk)
      have "ind_tree d' l b1 = ind_tree d l b1" if "b1 \<in> set (indirects blk)" for b1
        using Suc.prems that Some False by (intro Suc.IH) auto
      then have "map (ind_tree d' l) (rev (indirects blk)) = map (ind_tree d l) (rev (indirects blk))"
        by (intro map_cong) simp_all
      then show ?thesis unfolding ind_tree.simps e Some option.case by (simp only:)
    qed (use e in simp)
  qed simp
qed simp

lemma frees_each:
  assumes step: "\<And>b s bs. free_ok dev k s bs \<Longrightarrow> distinct (ind_tree (disk s dev) l b @ bs) \<Longrightarrow>
      \<forall>x\<in>set (ind_tree (disk s dev) l b). in_range (geom s k) x \<Longrightarrow>
      b \<noteq> 0 \<Longrightarrow> frees srt dev k (ind_tree (disk s dev) l b) s bs (f b s)"
    and zero: "\<And>d. ind_tree d l 0 = []"
  shows "free_ok dev k s bs \<Longrightarrow> distinct (concat (map (ind_tree (disk s dev) l) xs) @ bs) \<Longrightarrow>
    \<forall>x\<in>set (concat (map (ind_tree (disk s dev) l) xs)). in_range (geom s k) x \<Longrightarrow>
    frees srt dev k (concat (map (ind_tree (disk s dev) l) xs)) s bs (free_each f xs s)"
proof (induction xs arbitrary: s bs)
  case Nil
  then show ?case by (auto simp: frees_def)
next
  case (Cons x xs)
  show ?case
  proof (cases "x = 0")
    case True
    then show ?thesis using Cons zero by simp
  next
    case False
    have f1: "frees srt dev k (ind_tree (disk s dev) l x) s bs (f x s)"
      using Cons.prems False by (intro step) auto
    then obtain s1 where s1: "f x s = Some s1" using frees_Some by blast
    have "frees srt dev k (ind_tree (disk s dev) l x @ concat (map (ind_tree (disk s dev) l) xs)) s bs (free_each f xs s1)"
    proof (rule frees_seq [OF f1 [unfolded s1]])
      fix bs1 assume a: "free_ok dev k s1 bs1" "mset bs1 = mset (ind_tree (disk s dev) l x) + mset bs"
        "only_block dev (set bs1) s s1" "geom s1 k = geom s k"
      have st: "set bs1 = set (ind_tree (disk s dev) l x) \<union> set bs"
        by (metis a(2) set_mset_mset set_mset_union)
      have dist: "distinct bs1" using free_okD(6) [OF a(1)] by (simp add: range_ok_def)
      have same: "ind_tree (disk s1 dev) l y = ind_tree (disk s dev) l y" if "y \<in> set xs" for y
      proof (rule ind_tree_cong)
        fix z assume "z \<in> set (ind_tree (disk s dev) l y)"
        then have "z \<notin> set bs1" using Cons.prems(2) that by (auto simp: st)
        then show "disk s1 dev z = disk s dev z" using a(3) by (simp add: only_block_def)
      qed
      then have m: "map (ind_tree (disk s1 dev) l) xs = map (ind_tree (disk s dev) l) xs" by simp
      have "distinct (concat (map (ind_tree (disk s dev) l) xs) @ bs1)"
        using Cons.prems(2) dist by (auto simp: st)
      then show "frees srt dev k (concat (map (ind_tree (disk s dev) l) xs)) s1 bs1 (free_each f xs s1)"
        using Cons.IH [OF a(1)] Cons.prems(3) a(4) by (auto simp: m)
    qed
    then show ?thesis using False s1 by simp
  qed
qed

lemma indfree_frees:
  fixes s :: "'a fs_state_scheme"
  shows "free_ok dev k s bs \<Longrightarrow> distinct (ind_tree (disk s dev) l b @ bs) \<Longrightarrow>
   \<forall>x\<in>set (ind_tree (disk s dev) l b). in_range (geom s k) x \<Longrightarrow>
   frees srt dev k (ind_tree (disk s dev) l b) s bs (indfree srt dev b l s)"
proof (induction l arbitrary: b s bs)
  case 0
  show ?case
  proof (cases "b = 0")
    case True
    then show ?thesis using 0 by (auto simp: frees_def)
  next
    case False
    then show ?thesis using frees_one [OF "0.prems"(1), of b srt] "0.prems" by simp
  qed
next
  case (Suc l)
  show ?case
  proof (cases "b = 0")
    case True
    then show ?thesis using Suc.prems by (auto simp: frees_def)
  next
    case False
    have lost: "(dev, b) \<notin> set (lost_bufs s)" using free_okD(4) [OF Suc.prems(1)] by blast
    show ?thesis
    proof (cases "disk s dev b")
      case None
      define s0 where "s0 = s\<lparr>u_error := EIO\<rparr>"
      have s0: "free_ok dev k s0 bs" "geom s0 k = geom s k" "disk s0 = disk s"
        using free_ok_step [OF Suc.prems(1), of s0 "mountp s ! k"] free_okD [OF Suc.prems(1)]
        by (simp_all add: s0_def same_mount_def super_at_def geom_def)
      have "frees srt dev k [b] s0 bs (bfree srt dev b s0)"
        using Suc.prems False None s0 by (intro frees_one) simp_all
      then show ?thesis using False None lost s0 by (simp add: bread_def s0_def [symmetric] frees_def only_block_def)
    next
      case (Some blk)
      let ?xs = "rev (indirects blk)"
      have t: "ind_tree (disk s dev) (Suc l) b = b # concat (map (ind_tree (disk s dev) l) ?xs)" using False Some by simp
      define f where "f = (\<lambda>b1 (s :: 'a fs_state_scheme). if l = 0 then bfree srt dev b1 s else indfree srt dev b1 l s)"
      have f: "f b1 q = indfree srt dev b1 l q" if "b1 \<noteq> 0" for b1 and q :: "'a fs_state_scheme" using that by (cases l) (simp_all add: f_def)
      have z: "ind_tree d l 0 = []" for d by (cases l) simp_all
      have step: "frees srt dev k (ind_tree (disk q dev) l b1) q bq (f b1 q)"
        if "free_ok dev k q bq" "distinct (ind_tree (disk q dev) l b1 @ bq)"
          "\<forall>x\<in>set (ind_tree (disk q dev) l b1). in_range (geom q k) x" "b1 \<noteq> 0" for b1 and q :: "'a fs_state_scheme" and bq
        using Suc.IH [OF that(1-3)] f [OF that(4)] by simp
      have f1: "frees srt dev k (concat (map (ind_tree (disk s dev) l) ?xs)) s bs (free_each f ?xs s)"
        using frees_each [OF step z] Suc.prems t by auto
      then obtain s1 where s1: "free_each f ?xs s = Some s1" using frees_Some by blast
      have "frees srt dev k (concat (map (ind_tree (disk s dev) l) ?xs) @ [b]) s bs (bfree srt dev b s1)"
      proof (rule frees_seq [OF f1 [unfolded s1]])
        fix bs1 assume a: "free_ok dev k s1 bs1" "mset bs1 = mset (concat (map (ind_tree (disk s dev) l) ?xs)) + mset bs"
          "geom s1 k = geom s k"
        have "set bs1 = set (concat (map (ind_tree (disk s dev) l) ?xs)) \<union> set bs"
          by (metis a(2) set_mset_mset set_mset_union)
        then show "frees srt dev k [b] s1 bs1 (bfree srt dev b s1)"
          using Suc.prems(2,3) a(3) t by (intro frees_one [OF a(1)]) auto
      qed
      moreover have "indfree srt dev b (Suc l) s = bfree srt dev b s1"
        using False Some lost s1 by (simp add: bread_def f_def)
      ultimately show ?thesis by (simp only: t) (simp add: frees_def)
    qed
  qed
qed

text \<open>
  C15. \<open>indfree\<close> frees a tree of indirect blocks exactly: from a consistent free list, when the
  blocks of the tree are distinct, inside the file system and in use, it returns, and the free list has
  grown by the blocks of the tree, although the blocks freed on the way are overwritten by the
  free list; a block that cannot be read counts as a leaf.
\<close>

theorem indfree_frees_tree:
  assumes "free_ok dev k s bs" "distinct (ind_tree (disk s dev) l b @ bs)"
    "\<forall>x\<in>set (ind_tree (disk s dev) l b). s_isize (super_at s k) \<le> x \<and> x < s_fsize (super_at s k)"
  shows "\<exists>s' bs'. indfree srt dev b l s = Some s' \<and> free_ok dev k s' bs' \<and>
    mset bs' = mset (ind_tree (disk s dev) l b) + mset bs \<and> only_block dev (set bs') s s'"
  using indfree_frees [OF assms(1,2), of srt] assms(3) unfolding frees_def in_range_def geom_def by auto

lemma demo_indirect: "indirects (concat (map le32 (655360 # 720896 # replicate 126 0))) = 10 # 11 # replicate 126 0"
proof (rule nth_equalityI)
  fix i assume "i < length (indirects (concat (map le32 (655360 # 720896 # replicate 126 0))))"
  then have i: "i < 128" by (simp add: indirects_def)
  have "rd32 (concat (map le32 (655360 # 720896 # replicate 126 0))) (4 * i) =
      (655360 # 720896 # replicate 126 0) ! i"
    using rd32_longs [of i "655360 # 720896 # replicate 126 0" "[]" 0 "[]"] i
    by (auto simp: nth_Cons wrap32_def split: nat.split)
  then show "indirects (concat (map le32 (655360 # 720896 # replicate 126 0))) ! i = (10 # 11 # replicate 126 0) ! i"
    using i by (auto simp: indirects_def canl_def wrap32_def nth_Cons split: nat.split)
qed (simp add: indirects_def)

lemma demo_tree: "ind_tree (disk (demo_fs [7, 12, 9, 6] 4 5) 5) 1 8 = [8, 11, 10]"
proof -
  define blk where "blk = concat (map le32 (655360 # 720896 # replicate 126 0))"
  have d: "disk (demo_fs [7, 12, 9, 6] 4 5) 5 8 = Some blk" by (simp add: demo_fs_def blk_def)
  have i: "indirects blk = 10 # 11 # replicate 126 0" unfolding blk_def by (rule demo_indirect)
  have "concat (map (ind_tree (disk (demo_fs [7, 12, 9, 6] 4 5) 5) 0) (rev (indirects blk))) = [11, 10]"
    unfolding i by simp
  then show ?thesis using d by (simp only: One_nat_def ind_tree.simps option.case) simp
qed

lemma demo_range:
  "s_isize (super_at (demo_fs f n t) 0) = 3" "s_fsize (super_at (demo_fs f n t) 0) = 100"
  by (simp_all add: super_at_def demo_fs_def demo_mount_def)

theorem indfree_frees_tree_witness:
  "\<exists>s' bs'. indfree False 5 8 1 (demo_fs [7, 12, 9, 6] 4 5) = Some s' \<and> free_ok 5 0 s' bs' \<and>
    mset bs' = mset [6, 9, 12, 7, 20, 8, 11, 10]"
  using indfree_frees_tree [OF demo_free_ok, of 1 8 False]
  by (auto simp: demo_tree demo_range simp del: indfree.simps ind_tree.simps One_nat_def)

section \<open>Accounting\<close>

lemma ltoc_loop_bounds:
  "0 \<le> l \<Longrightarrow> ltoc_loop e l = (e', m) \<Longrightarrow>
   0 \<le> m \<and> m \<le> 8191 \<and> e \<le> e' \<and> m * 8 ^ nat (e' - e) \<le> l \<and> l < (m + 1) * 8 ^ nat (e' - e) \<and>
   (e' \<noteq> e \<longrightarrow> 1024 * 8 ^ nat (e' - e) \<le> l)"
proof (induction e l rule: ltoc_loop.induct)
  case (1 e l)
  show ?case
  proof (cases "l > 8191")
    case False
    then show ?thesis using 1 ltoc_loop.simps [of e l] by simp
  next
    case True
    then have r: "ltoc_loop (e + 1) (l div 8) = (e', m)" using 1(3) ltoc_loop.simps [of e l] by simp
    have "0 \<le> l div 8" using 1(2) by simp
    note h = 1(1) [OF True this r]
    have p: "nat (e' - e) = Suc (nat (e' - (e + 1)))" using h by (simp add: Suc_nat_eq_nat_zadd1 algebra_simps)
    define q :: int where "q = 8 ^ nat (e' - (e + 1))"
    have q: "8 ^ nat (e' - e) = 8 * q" by (simp add: p q_def)
    have d: "8 * (l div 8) \<le> l" "l < 8 * (l div 8) + 8" by simp_all
    have h': "m * q \<le> l div 8" "l div 8 < (m + 1) * q" "e' \<noteq> e + 1 \<longrightarrow> 1024 * q \<le> l div 8"
      using h True by (simp_all add: q_def)
    have "8 * (m * q) \<le> l" "l < 8 * ((m + 1) * q)" using h' d by linarith+
    moreover have "1024 * (8 * q) \<le> l"
    proof (cases "e' = e + 1")
      case True
      then show ?thesis using \<open>l > 8191\<close> by (simp add: q_def)
    next
      case False
      then show ?thesis using h' d by simp
    qed
    ultimately show ?thesis using h True by (simp add: q algebra_simps)
  qed
qed

lemma or_low13: "0 \<le> m \<Longrightarrow> m < 8192 \<Longrightarrow> push_bit 13 e OR m = 8192 * e + (m :: int)"
proof -
  assume m: "0 \<le> m" "m < 8192"
  then have t: "take_bit 13 m = m" by (simp add: take_bit_int_eq_self_iff)
  have "push_bit 13 e AND m = 0"
    by (subst t [symmetric], rule bit_eqI) (auto simp: bit_simps)
  then show ?thesis using disjunctive_add_eq_or [of "push_bit 13 e" m] by (simp add: push_bit_eq_mult)
qed

text \<open>
  \<open>ltoc\<close>: for a long that is not negative, the 13 low bits of the result and its 3 high bits
  are the digits and the exponent of a number that is at most the argument and misses it by less
  than one unit of the last digit; the exponent fits in its 3 bits.
\<close>

theorem ltoc_approximates:
  assumes "0 \<le> l" "l \<le> 2147483647"
  shows "0 \<le> ltoc l \<and> ltoc l < 65536 \<and>
    ltoc l mod 8192 * 8 ^ nat (ltoc l div 8192) \<le> l \<and> l < (ltoc l mod 8192 + 1) * 8 ^ nat (ltoc l div 8192)"
proof -
  obtain e m where r: "ltoc_loop 0 l = (e, m)" by fastforce
  note b = ltoc_loop_bounds [OF assms(1) r]
  have "e < 8"
  proof (rule ccontr)
    assume "\<not> e < 8"
    then have "(8 :: int) ^ 8 \<le> 8 ^ nat e" by (intro power_increasing) simp_all
    moreover have "1024 * 8 ^ nat e \<le> l" using b \<open>\<not> e < 8\<close> by auto
    ultimately show False using assms(2) by simp
  qed
  have "push_bit 13 e OR m = 8192 * e + m"
    using b or_low13 [of m e] by simp
  moreover have "0 \<le> 8192 * e + m" "8192 * e + m < 65536" using b \<open>e < 8\<close> by linarith+
  ultimately have c: "ltoc l = 8192 * e + m" using assms(1) r by (simp add: ltoc_def uwrap16_def)
  have "ltoc l mod 8192 = m" "ltoc l div 8192 = e" using b by (simp_all add: c)
  then show ?thesis using b \<open>8192 * e + m < 65536\<close> \<open>0 \<le> 8192 * e + m\<close> c by simp
qed

theorem ltoc_approximates_witness: "ltoc 100000 mod 8192 * 8 ^ nat (ltoc 100000 div 8192) \<le> 100000"
  using ltoc_approximates [of 100000] by simp

end
