(* ===== verification/Inodes.thy ===== *)
theory Inodes
  imports Free_Space
begin

text \<open>
  Inodes in memory, \<^verbatim>\<open>kernel/coh.386/fs1.c\<close> and \<^verbatim>\<open>sys/inode.h\<close>, and their form on disk,
  \<^verbatim>\<open>sys/ino.h\<close>. The inode table is the addresses 1 to \<open>ninode\<close>. The union of the disk addresses,
  the device number and the pipe's variables is flat: \<open>i_pipe\<close> is the first ten of \<open>i_addr\<close>, the other
  members are fields of their own. The gate of an inode is held over each operation and is left out.
  Console messages are left out.
\<close>

section \<open>Data\<close>

abbreviation (input) IFMT :: int where "IFMT \<equiv> 61440"
abbreviation (input) IFPIPE :: int where "IFPIPE \<equiv> 4096"
abbreviation (input) IFCHR :: int where "IFCHR \<equiv> 8192"
abbreviation (input) IFDIR :: int where "IFDIR \<equiv> 16384"
abbreviation (input) IFBLK :: int where "IFBLK \<equiv> 24576"
abbreviation (input) IFREG :: int where "IFREG \<equiv> 32768"
abbreviation (input) IFACC :: int where "IFACC \<equiv> 1"
abbreviation (input) IFMOD :: int where "IFMOD \<equiv> 2"
abbreviation (input) IFCRT :: int where "IFCRT \<equiv> 4"
abbreviation (input) IFMNT :: int where "IFMNT \<equiv> 8"
abbreviation (input) IFWPROT :: int where "IFWPROT \<equiv> 16"
abbreviation (input) NODEV :: int where "NODEV \<equiv> 65535"
abbreviation (input) BADFIN :: int where "BADFIN \<equiv> 1"
abbreviation (input) ROOTIN :: int where "ROOTIN \<equiv> 2"
abbreviation (input) INODEI :: int where "INODEI \<equiv> 2"
abbreviation (input) INOPB :: int where "INOPB \<equiv> 8"
abbreviation (input) ND :: nat where "ND \<equiv> 10"
abbreviation (input) NADDR :: nat where "NADDR \<equiv> 13"

record inode =
  i_dev :: int
  i_ino :: int
  i_refc :: int
  i_lrt :: int
  i_flag :: int
  i_mode :: int
  i_nlink :: int
  i_uid :: int
  i_gid :: int
  i_size :: int
  i_addr :: "int list"
  i_rdev :: int
  i_pnc :: int
  i_prx :: int
  i_pwx :: int
  i_par :: int
  i_paw :: int
  i_psr :: int
  i_psw :: int
  i_iev :: bool      \<comment> \<open>a process polls for input (\<open>e_procp\<close>)\<close>
  i_oev :: bool
  i_atime :: int
  i_mtime :: int
  i_ctime :: int
  i_lastblock :: int

record ino_state = fs_state +
  inodes :: "nat \<Rightarrow> inode"
  ninode :: nat
  segmq :: "(nat \<times> int) list"       \<comment> \<open>inode and flags of the segments\<close>
  t_time :: int
  t_sortblocks :: bool
  poll_wakes :: "(nat \<times> bool) list"   \<comment> \<open>inodes whose pollers were woken, for input or not\<close>
  pipe_wakes :: "(nat \<times> bool) list"   \<comment> \<open>inodes whose sleepers were woken, the readers or not\<close>
  sigpipes :: nat

definition upd_inode :: "(inode \<Rightarrow> inode) \<Rightarrow> nat \<Rightarrow> 'a ino_state_scheme \<Rightarrow> 'a ino_state_scheme" where
  "upd_inode f p s = s\<lparr>inodes := (inodes s)(p := f (inodes s p))\<rparr>"

definition i_type :: "inode \<Rightarrow> int" where
  "i_type ip = i_mode ip AND IFMT"

section \<open>Times and flags\<close>

definition posix_current_time :: "'a ino_state_scheme \<Rightarrow> int" where
  "posix_current_time s = t_time s"

definition iaccessed :: "nat \<Rightarrow> 'a ino_state_scheme \<Rightarrow> 'a ino_state_scheme" where
  "iaccessed p s =
     (if i_flag (inodes s p) AND IFWPROT \<noteq> 0 then s
      else upd_inode (\<lambda>i. i\<lparr>i_flag := i_flag i OR IFACC, i_atime := posix_current_time s\<rparr>) p s)"

definition imodcreat :: "nat \<Rightarrow> 'a ino_state_scheme \<Rightarrow> 'a ino_state_scheme" where
  "imodcreat p s =
     (if i_flag (inodes s p) AND IFWPROT \<noteq> 0 then s
      else upd_inode (\<lambda>i. i\<lparr>i_flag := i_flag i OR (IFMOD OR IFCRT),
             i_mtime := posix_current_time s, i_ctime := posix_current_time s\<rparr>) p s)"

definition icreated :: "nat \<Rightarrow> 'a ino_state_scheme \<Rightarrow> 'a ino_state_scheme" where
  "icreated p s =
     (if i_flag (inodes s p) AND IFWPROT \<noteq> 0 then s
      else upd_inode (\<lambda>i. i\<lparr>i_flag := i_flag i OR IFCRT, i_ctime := posix_current_time s\<rparr>) p s)"

definition iaccmodcreat :: "nat \<Rightarrow> 'a ino_state_scheme \<Rightarrow> 'a ino_state_scheme" where
  "iaccmodcreat p s =
     (if i_flag (inodes s p) AND IFWPROT \<noteq> 0 then s
      else upd_inode (\<lambda>i. i\<lparr>i_flag := i_flag i OR (IFACC OR IFMOD OR IFCRT), i_atime := posix_current_time s,
             i_mtime := posix_current_time s, i_ctime := posix_current_time s\<rparr>) p s)"

section \<open>Permission\<close>

definition sbusy :: "nat \<Rightarrow> 'a ino_state_scheme \<Rightarrow> bool" where
  "sbusy p s = (\<exists>(ip, fl)\<in>set (segmq s). ip = p \<and> fl AND 12 = 12)"

text \<open>The credential is \<open>c\<close>, with the supplementary groups \<open>groups\<close>.\<close>

definition iaccess :: "nat \<Rightarrow> int \<Rightarrow> cred \<Rightarrow> int list \<Rightarrow> 'a ino_state_scheme \<Rightarrow> bool \<times> 'a ino_state_scheme" where
  "iaccess p request c groups s =
     (let ip = inodes s p;
          textcheck = (\<lambda>s. if request AND IPW \<noteq> 0 \<and> i_refc ip > 1 \<and> sbusy p s
                           then (False, s\<lparr>u_error := ETXTBSY\<rparr>) else (True, s))
      in
      if request AND IPW \<noteq> 0 \<and> i_flag ip AND IFWPROT \<noteq> 0 \<and> (i_type ip = IFPIPE \<or> i_type ip = IFREG)
      then (False, s\<lparr>u_error := EROFS\<rparr>)
      else if drv_priv c then
        let m0 = i_mode ip OR 256 OR 128;
            mode = (if m0 AND 73 \<noteq> 0 then m0 OR 73 else m0)
        in if PERM_EXTRACT mode CRED_OWNER AND request \<noteq> request then (False, s\<lparr>u_error := EACCES\<rparr>)
           else textcheck (s\<lparr>u_asu := True\<rparr>)
      else if PERM_EXTRACT (i_mode ip) (cred_match c groups (i_uid ip) (i_gid ip)) AND request \<noteq> request
      then (False, s\<lparr>u_error := EACCES\<rparr>)
      else textcheck s)"

section \<open>Status\<close>

record stat =
  st_dev :: int
  st_ino :: int
  st_mode :: int
  st_nlink :: int
  st_uid :: int
  st_gid :: int
  st_rdev :: int
  st_size :: int
  st_atime :: int
  st_mtime :: int
  st_ctime :: int

definition istat :: "inode \<Rightarrow> stat" where
  "istat ip =
     (let sb = \<lparr>st_dev = i_dev ip, st_ino = i_ino ip, st_mode = i_mode ip, st_nlink = i_nlink ip, st_uid = i_uid ip,
                st_gid = i_gid ip, st_rdev = NODEV, st_size = i_size ip, st_atime = i_atime ip,
                st_mtime = i_mtime ip, st_ctime = i_ctime ip\<rparr>
      in if i_type ip = IFBLK \<or> i_type ip = IFCHR then sb\<lparr>st_rdev := i_rdev ip, st_size := 0\<rparr>
         else if i_type ip = IFPIPE then sb\<lparr>st_size := i_pnc ip\<rparr>
         else sb)"

section \<open>The inode on disk\<close>

definition iblockn :: "int \<Rightarrow> int" where
  "iblockn ino = INODEI + (ino - 1) div INOPB"

definition iblocko :: "int \<Rightarrow> nat" where
  "iblocko ino = nat ((ino - 1) mod INOPB)"

text \<open>
  The 64 bytes of a \<open>struct dinode\<close>; the members of the union that a type does not use keep the
  \<open>junk\<close> of the stack (40 bytes).
\<close>

definition dinode_area :: "int list \<Rightarrow> inode \<Rightarrow> int list" where
  "dinode_area junk ip =
     (if i_type ip = IFBLK \<or> i_type ip = IFCHR then le16 (i_rdev ip) @ drop 2 junk
      else if i_type ip = IFREG \<or> i_type ip = IFDIR then ltol3 (take NADDR (i_addr ip)) @ drop 39 junk
      else if i_type ip = IFPIPE then
        ltol3 (take ND (i_addr ip)) @ le16 (i_pnc ip) @ le16 (i_prx ip) @ le16 (i_pwx ip) @ drop 36 junk
      else replicate 40 0)"

definition dinode_bytes :: "int list \<Rightarrow> inode \<Rightarrow> int list" where
  "dinode_bytes junk ip =
     le16 (i_mode ip) @ le16 (i_nlink ip) @ le16 (i_uid ip) @ le16 (i_gid ip) @ le32 (canl (i_size ip)) @
     dinode_area junk ip @ le32 (canl (i_atime ip)) @ le32 (canl (i_mtime ip)) @ le32 (canl (i_ctime ip))"

text \<open>\<open>memset\<close> of the union.\<close>

definition clear_union :: "inode \<Rightarrow> inode" where
  "clear_union ip = ip\<lparr>i_addr := replicate NADDR 0, i_rdev := 0, i_pnc := 0, i_prx := 0, i_pwx := 0, i_par := 0,
     i_paw := 0, i_psr := 0, i_psw := 0, i_iev := False, i_oev := False\<rparr>"

definition read_dinode :: "int list \<Rightarrow> inode \<Rightarrow> inode" where
  "read_dinode b ip =
     (let ip1 = clear_union (ip\<lparr>i_mode := rd16 b 0, i_nlink := wrap16 (rd16 b 2), i_uid := rd16 b 4, i_gid := rd16 b 6,
                  i_size := canl (rd32 b 8)\<rparr>);
          ip2 = (if i_type ip1 = IFBLK \<or> i_type ip1 = IFCHR then ip1\<lparr>i_rdev := rd16 b 12\<rparr>
                 else if i_type ip1 = IFREG \<or> i_type ip1 = IFDIR then ip1\<lparr>i_addr := l3tol (drop 12 b) NADDR\<rparr>
                 else if i_type ip1 = IFPIPE then
                   ip1\<lparr>i_addr := l3tol (drop 12 b) ND @ replicate 3 0, i_pnc := wrap16 (rd16 b 42),
                       i_prx := wrap16 (rd16 b 44), i_pwx := wrap16 (rd16 b 46)\<rparr>
                 else ip1)
      in ip2\<lparr>i_atime := canl (rd32 b 52), i_mtime := canl (rd32 b 56), i_ctime := canl (rd32 b 60)\<rparr>)"

end
