(* ===== verification/Inode_Table.thy ===== *)
theory Inode_Table
  imports Inodes
begin

text \<open>
  The inode table and its traffic with the disk, \<^verbatim>\<open>kernel/coh.386/fs1.c\<close>: \<open>inode_find\<close>, \<open>iattach\<close>
  and \<open>idetach\<close>, \<open>icopymd\<close> and \<open>icopydm\<close>, \<open>itruncate\<close>, \<open>isync\<close>. Inode numbers are positive. As in
  \<open>Free_Space\<close> a result is \<open>None\<close> if the operation does not return.
\<close>

section \<open>Truncation\<close>

text \<open>The addresses are freed from the last to the first; \<open>n\<close> counts those that are left.\<close>

primrec truncate_loop :: "int \<Rightarrow> int list \<Rightarrow> nat \<Rightarrow> 'a ino_state_scheme \<Rightarrow> 'a ino_state_scheme option" where
  "truncate_loop dev addr 0 s = Some s"
| "truncate_loop dev addr (Suc n) s =
     (let b = addr ! n in
      if b = 0 then truncate_loop dev addr n s
      else case (if n \<ge> ND then indfree (t_sortblocks s) dev b (1 + n - ND) s else bfree (t_sortblocks s) dev b s) of
             None \<Rightarrow> None
           | Some s1 \<Rightarrow> truncate_loop dev addr n s1)"

definition itruncate :: "nat \<Rightarrow> 'a ino_state_scheme \<Rightarrow> 'a ino_state_scheme option" where
  "itruncate p s =
     (let ip = inodes s p; finish = (\<lambda>s. iaccmodcreat p (upd_inode (\<lambda>i. i\<lparr>i_size := 0\<rparr>) p s)) in
      if i_type ip = IFPIPE then
        map_option (\<lambda>s. finish (upd_inode (\<lambda>i. i\<lparr>i_addr := replicate ND 0 @ drop ND (i_addr i)\<rparr>) p s))
          (truncate_loop (i_dev ip) (i_addr ip) ND (upd_inode (\<lambda>i. i\<lparr>i_pnc := 0, i_prx := 0, i_pwx := 0\<rparr>) p s))
      else if i_type ip = IFDIR \<or> i_type ip = IFREG then
        map_option (\<lambda>s. finish (upd_inode (\<lambda>i. i\<lparr>i_addr := replicate NADDR 0\<rparr>) p s))
          (truncate_loop (i_dev ip) (i_addr ip) NADDR s)
      else Some s)"

section \<open>To disk and back\<close>

definition doomed :: "inode \<Rightarrow> bool" where
  "doomed ip = (i_refc ip = 0 \<and> i_nlink ip = 0 \<and> i_ino ip \<noteq> BADFIN \<and> i_ino ip \<noteq> ROOTIN)"

definition icopymd :: "int list \<Rightarrow> nat \<Rightarrow> 'a ino_state_scheme \<Rightarrow> 'a ino_state_scheme option" where
  "icopymd junk p s =
     (let dev = i_dev (inodes s p); ino = i_ino (inodes s p) in
      if dev = NODEV then Some s
      else case getment dev False s of
        (None, s0) \<Rightarrow> Some s0
      | (Some k, s0) \<Rightarrow>
          case (if doomed (inodes s0 p)
                then map_option (upd_inode (\<lambda>i. clear_union (i\<lparr>i_lrt := 0, i_mode := 0\<rparr>)) p) (itruncate p s0)
                else Some s0) of
            None \<Rightarrow> None
          | Some s1 \<Rightarrow>
              case bread dev (iblockn ino) s1 of
                None \<Rightarrow> None
              | Some (None, s2) \<Rightarrow> Some s2
              | Some (Some blk, s2) \<Rightarrow>
                  case bput dev (iblockn ino) (write_at (64 * iblocko ino) (dinode_bytes junk (inodes s2 p)) blk) s2 of
                    None \<Rightarrow> None
                  | Some s3 \<Rightarrow>
                      let s4 = upd_inode (\<lambda>i. i\<lparr>i_flag := i_flag i AND NOT (IFACC OR IFMOD OR IFCRT)\<rparr>) p s3 in
                      if doomed (inodes s4 p) then ifree dev ino s4 else Some s4)"

text \<open>\<open>icopydm\<close> on an inode outside the table; the first component is false if it cannot be read.\<close>

definition icopydm_rec :: "inode \<Rightarrow> 'a ino_state_scheme \<Rightarrow> ((bool \<times> inode) \<times> 'a ino_state_scheme) option" where
  "icopydm_rec ip s =
     (case getment (i_dev ip) False s of
        (mp, s0) \<Rightarrow>
          let ip0 = ip\<lparr>i_flag := (if mp = None then IFWPROT else 0)\<rparr> in
          case bread (i_dev ip) (iblockn (i_ino ip)) s0 of
            None \<Rightarrow> None
          | Some (None, s1) \<Rightarrow> Some ((False, ip0), s1)
          | Some (Some blk, s1) \<Rightarrow> Some ((True, read_dinode (drop (64 * iblocko (i_ino ip)) blk) ip0), s1))"

definition icopydm :: "nat \<Rightarrow> 'a ino_state_scheme \<Rightarrow> (bool \<times> 'a ino_state_scheme) option" where
  "icopydm p s =
     (case icopydm_rec (inodes s p) s of
        None \<Rightarrow> None
      | Some ((ok, ip), s1) \<Rightarrow>
          let s2 = s1\<lparr>inodes := (inodes s1)(p := ip)\<rparr> in
          Some (ok, if ok then s2\<lparr>i_rl := (i_rl s2)(p := [])\<rparr> else s2))"

section \<open>Finding an inode\<close>

text \<open>Either the inode is in the table, or \<open>free\<close> is the unused one that was referenced least recently.\<close>

primrec inode_scan :: "int \<Rightarrow> int \<Rightarrow> (nat \<Rightarrow> inode) \<Rightarrow> nat list \<Rightarrow> nat \<Rightarrow> nat \<times> nat" where
  "inode_scan dev ino tab [] free = (0, free)"
| "inode_scan dev ino tab (p # ps) free =
     (if i_dev (tab p) = dev \<and> i_ino (tab p) = ino then (p, free)
      else inode_scan dev ino tab ps
             (if i_refc (tab p) = 0 \<and> (free = 0 \<or> i_lrt (tab p) < i_lrt (tab free)) then p else free))"

text \<open>The results are the inode found and, if none was and \<open>inodepp\<close> holds, the one taken into use; 0 is NULL.\<close>

definition inode_find :: "int \<Rightarrow> int \<Rightarrow> bool \<Rightarrow> 'a ino_state_scheme \<Rightarrow> (nat \<times> nat) \<times> 'a ino_state_scheme" where
  "inode_find dev ino inodepp s =
     (case inode_scan dev ino (inodes s) [1..<ninode s + 1] 0 of
        (found, free) \<Rightarrow>
          if found \<noteq> 0 then ((found, 0), s)
          else if \<not> inodepp then ((0, 0), s)
          else if free = 0 then ((0, 0), s)
          else ((0, free), upd_inode (\<lambda>i. i\<lparr>i_dev := dev, i_ino := ino, i_refc := 1, i_lrt := t_time s,
                                         i_lastblock := -1\<rparr>) free s))"

definition inode_clone :: "nat \<Rightarrow> int \<Rightarrow> 'a ino_state_scheme \<Rightarrow> nat \<times> 'a ino_state_scheme" where
  "inode_clone inodep dev s =
     (case inode_find NODEV dev True s of
        ((temp, free), s1) \<Rightarrow>
          if temp \<noteq> 0 then (temp, upd_inode (\<lambda>i. i\<lparr>i_refc := i_refc i + 1\<rparr>) temp s1)
          else if free = 0 then (0, s1)
          else let src = inodes s1 inodep in
               (free, upd_inode (\<lambda>i. i\<lparr>i_flag := IFWPROT, i_rdev := dev, i_size := 0, i_mode := i_mode src,
                  i_nlink := 0, i_uid := i_uid src, i_gid := i_gid src, i_atime := i_atime src, i_mtime := i_mtime src,
                  i_ctime := i_ctime src\<rparr>) free s1))"

text \<open>
  \<open>iattach\<close> follows mounted file systems to their root inodes; \<open>fuel\<close> bounds how many it crosses, and
  \<open>None\<close> is also the endless loop at an inode that is marked as mounted on but in no mount entry.
\<close>

fun mounted_on :: "nat \<Rightarrow> mount list \<Rightarrow> int option" where
  "mounted_on p [] = None"
| "mounted_on p (m # ms) = (if m_ip m = p then Some (m_dev m) else mounted_on p ms)"

primrec iattach :: "nat \<Rightarrow> int \<Rightarrow> int \<Rightarrow> 'a ino_state_scheme \<Rightarrow> (nat \<times> 'a ino_state_scheme) option" where
  "iattach 0 dev ino s = None"
| "iattach (Suc fuel) dev ino s =
     (case inode_find dev ino True s of
        ((ip, fip), s1) \<Rightarrow>
          if ip = 0 then
            if fip = 0 then Some (0, s1\<lparr>u_error := ENFILE\<rparr>)
            else case icopydm fip s1 of
                   None \<Rightarrow> None
                 | Some (True, s2) \<Rightarrow> Some (fip, s2)
                 | Some (False, s2) \<Rightarrow> Some (0, upd_inode (\<lambda>i. i\<lparr>i_ino := 0, i_refc := 0\<rparr>) fip s2)
          else if i_flag (inodes s1 ip) AND IFMNT \<noteq> 0 then
            case mounted_on ip (mountp s1) of
              None \<Rightarrow> None
            | Some dev' \<Rightarrow> iattach fuel dev' ROOTIN s1
          else Some (ip, upd_inode (\<lambda>i. i\<lparr>i_refc := i_refc i + 1, i_lrt := t_time s1\<rparr>) ip s1))"

section \<open>Releasing an inode\<close>

definition idetach :: "int list \<Rightarrow> nat \<Rightarrow> 'a ino_state_scheme \<Rightarrow> 'a ino_state_scheme option" where
  "idetach junk p s =
     (let s1 = upd_inode (\<lambda>i. i\<lparr>i_refc := i_refc i - 1\<rparr>) p s; ip = inodes s1 p in
      if i_refc ip = 0 \<and> (i_flag ip AND (IFACC OR IFMOD OR IFCRT) \<noteq> 0 \<or> i_nlink ip = 0)
      then icopymd junk p s1 else Some s1)"

definition ldetach :: "int list \<Rightarrow> nat \<Rightarrow> 'a ino_state_scheme \<Rightarrow> 'a ino_state_scheme option" where
  "ldetach junk p s = idetach junk p s"

text \<open>From the root of a mounted file system to the inode it is mounted on.\<close>

definition ftoim :: "int list \<Rightarrow> nat \<Rightarrow> 'a ino_state_scheme \<Rightarrow> (nat \<times> 'a ino_state_scheme) option" where
  "ftoim junk p s =
     (case find_mount (i_dev (inodes s p)) 0 (mountp s) of
        None \<Rightarrow> Some (p, s)
      | Some (k, m) \<Rightarrow>
          map_option (\<lambda>s1. (m_ip m, upd_inode (\<lambda>i. i\<lparr>i_refc := i_refc i + 1\<rparr>) (m_ip m) s1)) (idetach junk p s))"

text \<open>The inode of \<open>iucheck\<close> that is not in the table is a local variable, \<open>loc\<close> before.\<close>

definition iucheck :: "inode \<Rightarrow> int \<Rightarrow> int \<Rightarrow> 'a ino_state_scheme \<Rightarrow> (bool \<times> 'a ino_state_scheme) option" where
  "iucheck loc dev ino s =
     (case inode_find dev ino False s of
        ((p, _), s1) \<Rightarrow>
          case (if p \<noteq> 0 then Some ((True, inodes s1 p), s1) else icopydm_rec (loc\<lparr>i_dev := dev, i_ino := ino\<rparr>) s1) of
            None \<Rightarrow> None
          | Some ((False, _), s2) \<Rightarrow> Some (False, s2)
          | Some ((True, ip), s2) \<Rightarrow>
              if i_type ip = IFDIR then (case super s2 of (ok, s3) \<Rightarrow> Some (ok, s3)) else Some (True, s2))"

primrec isync_loop :: "int list \<Rightarrow> int \<Rightarrow> nat list \<Rightarrow> 'a ino_state_scheme \<Rightarrow> 'a ino_state_scheme option" where
  "isync_loop junk dev [] s = Some s"
| "isync_loop junk dev (p # ps) s =
     (let ip = inodes s p in
      if i_refc ip \<noteq> 0 \<and> i_dev ip = dev \<and> i_type ip \<noteq> IFCHR \<and> i_type ip \<noteq> IFPIPE \<and>
         i_flag ip AND (IFACC OR IFMOD OR IFCRT) \<noteq> 0
      then case icopymd junk p s of None \<Rightarrow> None | Some s1 \<Rightarrow> isync_loop junk dev ps s1
      else isync_loop junk dev ps s)"

definition isync :: "int list \<Rightarrow> int \<Rightarrow> 'a ino_state_scheme \<Rightarrow> 'a ino_state_scheme option" where
  "isync junk dev s = isync_loop junk dev [1..<ninode s + 1] s"

end
