(* ===== verification/File_IO.thy ===== *)
theory File_IO
  imports Inode_Table
begin

text \<open>
  Reading and writing the blocks of a file, \<^verbatim>\<open>kernel/coh.386/fs3.c\<close>, with the transfer
  routines of \<^verbatim>\<open>bio.c\<close>. The user's memory was checked by the caller (\<open>useracc\<close>), so a transfer does
  not fail: an \<open>io\<close> holds the bytes a write takes from, and those a read has stored. Read-ahead and the
  choice between synchronous and asynchronous writes have no effect on contents and are left out.
\<close>

section \<open>Transfers\<close>

record io =
  io_ioc :: int
  io_seek :: int
  io_flag :: int
  io_from :: "int list"    \<comment> \<open>the bytes from \<open>vbase\<close> on\<close>
  io_into :: "int list"    \<comment> \<open>the bytes stored up to \<open>vbase\<close>\<close>

definition ioread :: "io \<Rightarrow> nat \<Rightarrow> int list \<times> io" where
  "ioread iop n = (take n (io_from iop), iop\<lparr>io_from := drop n (io_from iop), io_ioc := io_ioc iop - int n\<rparr>)"

definition iowrite :: "io \<Rightarrow> int list \<Rightarrow> io" where
  "iowrite iop v = iop\<lparr>io_into := io_into iop @ v, io_ioc := io_ioc iop - int (length v)\<rparr>"

definition ioclear :: "io \<Rightarrow> nat \<Rightarrow> io" where
  "ioclear iop n = iop\<lparr>io_into := io_into iop @ replicate n 0, io_ioc := io_ioc iop - int n\<rparr>"

definition blockn :: "int \<Rightarrow> int" where
  "blockn n = n div 512"

definition blocko :: "int \<Rightarrow> nat" where
  "blocko n = nat (n mod 512)"

record fio_state = ino_state +
  t_readahead :: int
  t_groupmode :: bool

section \<open>The place of a block\<close>

text \<open>
  The indices on the way to a block, the innermost first, and the number of blocks from it on to the
  end of the same array; \<open>None\<close> is \<open>EFBIG\<close>. \<open>blockofs\<close> is not negative.
\<close>

definition lmap :: "int \<Rightarrow> (nat list \<times> nat) option" where
  "lmap blockofs =
     (if 10 - blockofs > 0 then Some ([nat blockofs], nat (10 - blockofs))
      else
        let b0 = blockofs - 10; n = b0 mod 128; b1 = b0 div 128 in
        if b1 = 0 then Some ([nat n, ND], nat (128 - n))
        else
          let b2 = (b1 - 1) div 128; n1 = (b1 - 1) mod 128 in
          if b2 = 0 then Some ([nat n, nat n1, ND + 1], nat (128 - n))
          else
            let b3 = (b2 - 1) div 128; n2 = (b2 - 1) mod 128 in
            if b3 = 0 then Some ([nat n, nat n1, nat n2, ND + 2], nat (128 - n)) else None)"

definition longs :: "block \<Rightarrow> int list" where
  "longs blk = map (\<lambda>i. rd32 blk (4 * i)) [0..<128]"

text \<open>The way down from the inode; the flag of a leaf says whether its array is that of a buffer.\<close>

datatype walk = WalkError | WalkHole | WalkLeaf bool "int list" nat

fun vmap_walk :: "int \<Rightarrow> bool \<Rightarrow> int list \<Rightarrow> nat list \<Rightarrow> 'a fs_state_scheme \<Rightarrow> (walk \<times> 'a fs_state_scheme) option" where
  "vmap_walk dev buf outlist [] s = None"
| "vmap_walk dev buf outlist [i] s = Some (WalkLeaf buf outlist i, s)"
| "vmap_walk dev buf outlist (i # j # is) s =
     (let b = outlist ! i; block = (if buf then canl b else b) in
      if b = 0 then Some (WalkHole, s)
      else case bread dev block s of
             None \<Rightarrow> None
           | Some (None, s1) \<Rightarrow> Some (WalkError, s1)
           | Some (Some blk, s1) \<Rightarrow> vmap_walk dev True (longs blk) (j # is) s1)"

abbreviation (input) EMPTY_BLOCK :: int where "EMPTY_BLOCK \<equiv> - 1"

definition leaf_block :: "bool \<Rightarrow> int \<Rightarrow> int" where
  "leaf_block buf b = (if b = 0 then EMPTY_BLOCK else if buf then canl b else b)"

text \<open>One round of \<open>vmap\<close>; the outer \<open>None\<close> is not returning, the inner one the result -1.\<close>

definition vmap_part :: "nat \<Rightarrow> int \<Rightarrow> nat \<Rightarrow> 'a ino_state_scheme \<Rightarrow> (int list option \<times> 'a ino_state_scheme) option" where
  "vmap_part p blockofs resid s =
     (case lmap blockofs of
        None \<Rightarrow> Some (None, s\<lparr>u_error := EFBIG\<rparr>)
      | Some (list, n) \<Rightarrow>
          let nblocks = min n resid in
          case vmap_walk (i_dev (inodes s p)) False (i_addr (inodes s p)) (rev list) s of
            None \<Rightarrow> None
          | Some (WalkError, s1) \<Rightarrow> Some (None, s1)
          | Some (WalkHole, s1) \<Rightarrow> Some (Some (replicate nblocks EMPTY_BLOCK), s1)
          | Some (WalkLeaf buf outlist i, s1) \<Rightarrow>
              Some (Some (map (\<lambda>k. leaf_block buf (outlist ! (i + k))) [0..<nblocks]), s1))"

primrec vmap_more :: "nat \<Rightarrow> nat \<Rightarrow> int \<Rightarrow> nat \<Rightarrow> int list \<Rightarrow> 'a fio_state_scheme \<Rightarrow>
    (int list option \<times> 'a fio_state_scheme) option" where
  "vmap_more 0 p blockofs resid acc s = None"
| "vmap_more (Suc fuel) p blockofs resid acc s =
     (case vmap_part p blockofs resid s of
        None \<Rightarrow> None
      | Some (None, s1) \<Rightarrow> Some (None, s1)
      | Some (Some bs, s1) \<Rightarrow>
          if t_groupmode s1 \<and> resid > length bs
          then vmap_more fuel p (blockofs + int (length bs)) (resid - length bs) (acc @ bs) s1
          else Some (Some (acc @ bs), s1))"

text \<open>Every round finds a block, so \<open>count\<close> rounds are enough.\<close>

definition vmap :: "nat \<Rightarrow> int \<Rightarrow> nat \<Rightarrow> 'a fio_state_scheme \<Rightarrow> (int list option \<times> 'a fio_state_scheme) option" where
  "vmap p blockofs count s =
     (if blockofs < 0 then None else vmap_more count p blockofs count [] s)"

section \<open>Reading\<close>

text \<open>The blocks of the next group: \<open>None\<close> in the pair ends the read.\<close>

definition read_group :: "bool \<Rightarrow> nat \<Rightarrow> int \<Rightarrow> int \<Rightarrow> int \<Rightarrow> int \<Rightarrow> 'a fio_state_scheme \<Rightarrow>
    (int list option \<times> 'a fio_state_scheme) option" where
  "read_group blk p lbn res do_readahead maxblk s =
     (let c0 = min (blockn (res + 511) + do_readahead) 24;
          count = (if lbn + c0 \<ge> maxblk then maxblk - lbn else c0)
      in if blk then Some (Some (map (\<lambda>i. lbn + int i) [0..<nat count]), s)
         else vmap p lbn (nat count) s)"

text \<open>
  The loop of \<open>fread\<close>: \<open>grp\<close> holds the blocks from \<open>lbn\<close> on that are known. Each round transfers at
  least one byte, so \<open>res\<close> rounds are enough.
\<close>

primrec fread_loop :: "nat \<Rightarrow> bool \<Rightarrow> int \<Rightarrow> nat \<Rightarrow> int \<Rightarrow> int \<Rightarrow> int list \<Rightarrow> int \<Rightarrow> nat \<Rightarrow> int \<Rightarrow> io \<Rightarrow> 'a fio_state_scheme \<Rightarrow>
    (io \<times> 'a fio_state_scheme) option" where
  "fread_loop 0 blk dev p ra maxblk grp lbn off res iop s = None"
| "fread_loop (Suc fuel) blk dev p ra maxblk grp lbn off res iop s =
     (case (if grp = [] then read_group blk p lbn res ra maxblk s else Some (Some grp, s)) of
        None \<Rightarrow> None
      | Some (None, s1) \<Rightarrow> Some (iop, s1)
      | Some (Some [], s1) \<Rightarrow> None
      | Some (Some (b # bs), s1) \<Rightarrow>
          let count = min (nat res) (512 - off) in
          case (if b = EMPTY_BLOCK then Some (Some (replicate 512 0), s1) else bread dev b s1) of
            None \<Rightarrow> None
          | Some (None, s2) \<Rightarrow> Some (iop, s2)
          | Some (Some v, s2) \<Rightarrow>
              let iop1 = (if b = EMPTY_BLOCK then ioclear iop count else iowrite iop (take count (drop off v))) in
              if u_error s2 \<noteq> E_NONE then Some (iop1, s2)
              else if res - int count > 0
              then fread_loop fuel blk dev p ra maxblk bs (lbn + 1) 0 (res - int count) iop1 s2
              else Some (iop1, upd_inode (\<lambda>i. i\<lparr>i_lastblock := lbn\<rparr>) p s2))"

definition fread :: "nat \<Rightarrow> io \<Rightarrow> 'a fio_state_scheme \<Rightarrow> (io \<times> 'a fio_state_scheme) option" where
  "fread p iop s =
     (let ip = inodes s p; blk = (i_type ip = IFBLK); dev = (if blk then i_rdev ip else i_dev ip);
          lbn = blockn (io_seek iop);
          res = (if blk then io_ioc iop else min (i_size ip - io_seek iop) (io_ioc iop));
          ra = (if lbn = i_lastblock ip + 1 then max 0 (t_readahead s) else 0);
          maxblk = (if blk then 2147483647 else blockn (i_size ip + 511))
      in if \<not> blk \<and> io_seek iop > i_size ip then Some (iop, s)
         else if res = 0 then Some (iop, s)
         else fread_loop (nat res) blk dev p ra maxblk [] lbn (blocko (io_seek iop)) res iop s)"

definition vread :: "nat \<Rightarrow> int \<Rightarrow> 'a fio_state_scheme \<Rightarrow> (block option \<times> 'a fio_state_scheme) option" where
  "vread p blockofs s =
     (case vmap p blockofs 1 s of
        None \<Rightarrow> None
      | Some (None, s1) \<Rightarrow> Some (None, s1)
      | Some (Some bs, s1) \<Rightarrow>
          if hd bs \<noteq> EMPTY_BLOCK then bread (i_dev (inodes s1 p)) (hd bs) s1
          else Some (Some (replicate 512 0), s1))"

section \<open>Writing\<close>

text \<open>
  \<open>aread\<close> from an indirect or leaf block on: \<open>rest\<close> holds the indices that follow. The result is the
  leaf block's number with its contents, which are not known (\<open>None\<close>) if it was only claimed.
\<close>

primrec aread_loop :: "int \<Rightarrow> int \<Rightarrow> bool \<Rightarrow> nat list \<Rightarrow> bool \<Rightarrow> 'a fs_state_scheme \<Rightarrow>
    ((int \<times> block option) option \<times> 'a fs_state_scheme) option" where
  "aread_loop dev block aflag [] claim s =
     (if \<not> aflag \<and> \<not> claim then
        map_option (\<lambda>(r, s1). (map_option (\<lambda>blk. (block, Some blk)) r, s1)) (bread dev block s)
      else if (dev, block) \<in> set (lost_bufs s) then None
      else Some (Some (block, if claim then None else Some (replicate 512 0)), s))"
| "aread_loop dev block aflag (l # rest) claim s =
     (case (if aflag then map_option (\<lambda>s1. (Some (replicate 512 0), s1)) (bput dev block (replicate 512 0) s)
            else bread dev block s) of
        None \<Rightarrow> None
      | Some (None, s1) \<Rightarrow> Some (None, s1)
      | Some (Some blk, s1) \<Rightarrow>
          let next' = canl (longs blk ! l) in
          if next' \<noteq> 0 then aread_loop dev next' False rest claim s1
          else case balloc dev s1 of
                 None \<Rightarrow> None
               | Some (b, s2) \<Rightarrow>
                   if b = 0 then Some (None, s2)
                   else case bread dev block s2 of
                          Some (Some blk', s3) \<Rightarrow>
                            (case bput dev block (write_at (4 * l) (le32 (canl b)) blk') s3 of
                               None \<Rightarrow> None
                             | Some s4 \<Rightarrow> aread_loop dev b True rest claim s4)
                        | _ \<Rightarrow> None)"

definition aread :: "nat \<Rightarrow> int \<Rightarrow> bool \<Rightarrow> 'a ino_state_scheme \<Rightarrow>
    ((int \<times> block option) option \<times> 'a ino_state_scheme) option" where
  "aread p blkofs claim s =
     (if blkofs < 0 then None
      else case lmap blkofs of
        None \<Rightarrow> Some (None, s\<lparr>u_error := EFBIG\<rparr>)
      | Some (list, n) \<Rightarrow>
          let dev = i_dev (inodes s p); l = last list; rest = tl (rev list); block = i_addr (inodes s p) ! l in
          if block \<noteq> 0 then aread_loop dev block False rest claim s
          else case balloc dev s of
                 None \<Rightarrow> None
               | Some (b, s1) \<Rightarrow>
                   if b = 0 then Some (None, s1)
                   else aread_loop dev b True rest claim
                          (upd_inode (\<lambda>i. i\<lparr>i_addr := (i_addr i)[l := b]\<rparr>) p s1))"

text \<open>The block that \<open>fwrite\<close> changes next.\<close>

definition write_block :: "nat \<Rightarrow> int \<Rightarrow> bool \<Rightarrow> 'a ino_state_scheme \<Rightarrow>
    ((int \<times> block option) option \<times> 'a ino_state_scheme) option" where
  "write_block p lbn com s =
     (let ip = inodes s p in
      if i_type ip \<noteq> IFBLK then aread p lbn com s
      else if com then Some (Some (lbn, None), s)
      else map_option (\<lambda>(r, s1). (map_option (\<lambda>blk. (lbn, Some blk)) r, s1)) (bread (i_rdev ip) lbn s))"

primrec fwrite_loop :: "nat \<Rightarrow> nat \<Rightarrow> int \<Rightarrow> nat \<Rightarrow> io \<Rightarrow> 'a ino_state_scheme \<Rightarrow> (io \<times> 'a ino_state_scheme) option" where
  "fwrite_loop 0 p lbn off iop s = (if io_ioc iop > 0 then None else Some (iop, s))"
| "fwrite_loop (Suc fuel) p lbn off iop s =
     (if \<not> io_ioc iop > 0 then Some (iop, s)
      else
        let n = min (nat (io_ioc iop)) (512 - off); com = (off = 0 \<and> n = 512);
            dev = (if i_type (inodes s p) = IFBLK then i_rdev (inodes s p) else i_dev (inodes s p))
        in case write_block p lbn com s of
             None \<Rightarrow> None
           | Some (None, s1) \<Rightarrow> Some (iop, s1)
           | Some (Some (block, old), s1) \<Rightarrow>
               case ioread iop n of
                 (v, iop1) \<Rightarrow>
                   case bput dev block (case old of None \<Rightarrow> v | Some blk \<Rightarrow> write_at off v blk) s1 of
                     None \<Rightarrow> None
                   | Some s2 \<Rightarrow>
                       if u_error s2 \<noteq> E_NONE then Some (iop1, s2)
                       else
                         let seek = io_seek iop + int n in
                         fwrite_loop fuel p (lbn + 1) 0 (iop1\<lparr>io_seek := seek\<rparr>)
                           (if seek > i_size (inodes s2 p) \<and> i_type (inodes s2 p) \<noteq> IFBLK
                            then upd_inode (\<lambda>i. i\<lparr>i_size := seek\<rparr>) p s2 else s2))"

definition fwrite :: "nat \<Rightarrow> io \<Rightarrow> 'a ino_state_scheme \<Rightarrow> (io \<times> 'a ino_state_scheme) option" where
  "fwrite p iop s = fwrite_loop (nat (io_ioc iop)) p (blockn (io_seek iop)) (blocko (io_seek iop)) iop s"

end
