(* ===== verification/Pipes.thy ===== *)
theory Pipes
  imports File_IO
begin

text \<open>
  Pipes, \<^verbatim>\<open>kernel/coh.386/pipe.c\<close>: a ring of \<open>PIPE_MAX\<close> bytes in the first ten blocks of the
  inode, with counters of the readers and writers that are awake and asleep. A sleep takes the next
  entry of \<open>env\<close>: what the others do meanwhile, and whether a signal ends it; with no entry left the
  process sleeps on. Marking buffers clean (\<open>pclean\<close>) has no effect on their contents and is left out.
\<close>

abbreviation (input) PIPE_MAX :: int where "PIPE_MAX \<equiv> 5120"
abbreviation (input) IPNDLY :: int where "IPNDLY \<equiv> 8"
abbreviation (input) IPNONBLOCK :: int where "IPNONBLOCK \<equiv> 256"
abbreviation (input) IONDLY :: int where "IONDLY \<equiv> 8"
abbreviation (input) IONONBLOCK :: int where "IONONBLOCK \<equiv> 16"
abbreviation (input) POLLIN :: int where "POLLIN \<equiv> 1"
abbreviation (input) POLLOUT :: int where "POLLOUT \<equiv> 4"
abbreviation (input) POLLHUP :: int where "POLLHUP \<equiv> 16"

text \<open>\<open>PipeStuck\<close>: a panic, or waiting for a buffer that nobody releases.\<close>

datatype ('r, 's) pipe_result = PipeDone 'r 's | PipeAsleep 's | PipeStuck

section \<open>Counters and wakeups\<close>

definition pclear :: "nat \<Rightarrow> 'a ino_state_scheme \<Rightarrow> 'a ino_state_scheme" where
  "pclear p s = upd_inode (\<lambda>i. i\<lparr>i_pnc := 0, i_prx := 0, i_pwx := 0, i_par := 0, i_paw := 0, i_psr := 0, i_psw := 0,
     i_iev := False, i_oev := False\<rparr>) p s"

text \<open>\<open>pollwake\<close> and \<open>pollopen\<close> on the event of an inode, \<open>inp\<close> for input.\<close>

definition pollwake :: "bool \<Rightarrow> nat \<Rightarrow> 'a ino_state_scheme \<Rightarrow> 'a ino_state_scheme" where
  "pollwake inp p s =
     (if (if inp then i_iev (inodes s p) else i_oev (inodes s p))
      then (upd_inode (\<lambda>i. if inp then i\<lparr>i_iev := False\<rparr> else i\<lparr>i_oev := False\<rparr>) p s)
             \<lparr>poll_wakes := (p, inp) # poll_wakes s\<rparr>
      else s)"

definition pollopen :: "bool \<Rightarrow> nat \<Rightarrow> 'a ino_state_scheme \<Rightarrow> 'a ino_state_scheme" where
  "pollopen inp p s = upd_inode (\<lambda>i. if inp then i\<lparr>i_iev := True\<rparr> else i\<lparr>i_oev := True\<rparr>) p s"

definition no_writers :: "inode \<Rightarrow> bool" where
  "no_writers i = (i_paw i = 0 \<and> i_psw i = 0)"

definition no_readers :: "inode \<Rightarrow> bool" where
  "no_readers i = (i_par i = 0 \<and> i_psr i = 0)"

text \<open>\<open>pwake\<close> with \<open>IFWFW\<close> wakes the readers, which wait for a writer, with \<open>IFWFR\<close> the writers.\<close>

definition wake_sleepers :: "bool \<Rightarrow> nat \<Rightarrow> 'a ino_state_scheme \<Rightarrow> 'a ino_state_scheme" where
  "wake_sleepers rd p s = s\<lparr>pipe_wakes := (p, rd) # pipe_wakes s\<rparr>"

definition pwake_readers :: "nat \<Rightarrow> 'a ino_state_scheme \<Rightarrow> 'a ino_state_scheme" where
  "pwake_readers p s =
     (let s1 = (if i_psr (inodes s p) \<noteq> 0 then wake_sleepers True p s else s) in
      if i_pnc (inodes s p) > 0 \<or> no_writers (inodes s p) then pollwake True p s1 else s1)"

definition pwake_writers :: "nat \<Rightarrow> 'a ino_state_scheme \<Rightarrow> 'a ino_state_scheme" where
  "pwake_writers p s =
     (let s1 = (if i_psw (inodes s p) \<noteq> 0 then wake_sleepers False p s else s) in
      if i_pnc (inodes s p) < PIPE_MAX \<and> \<not> no_readers (inodes s p) then pollwake False p s1 else s1)"

text \<open>\<open>psleep\<close>: a reader (\<open>rd\<close>) or a writer goes to sleep, and what it does when it is woken.\<close>

definition count_in :: "bool \<Rightarrow> int \<Rightarrow> inode \<Rightarrow> inode" where
  "count_in rd d i =
     (if rd then i\<lparr>i_par := wrap16 (i_par i - d), i_psr := wrap16 (i_psr i + d)\<rparr>
      else i\<lparr>i_paw := wrap16 (i_paw i - d), i_psw := wrap16 (i_psw i + d)\<rparr>)"

definition psleep_enter :: "bool \<Rightarrow> nat \<Rightarrow> 'a ino_state_scheme \<Rightarrow> 'a ino_state_scheme" where
  "psleep_enter rd p s = upd_inode (count_in rd 1) p s"

definition psleep_leave :: "bool \<Rightarrow> nat \<Rightarrow> bool \<Rightarrow> 'a ino_state_scheme \<Rightarrow> 'a ino_state_scheme" where
  "psleep_leave rd p sig s =
     (let s1 = upd_inode (count_in rd (-1)) p s in if sig then s1\<lparr>u_error := EINTR\<rparr> else s1)"

definition psleep :: "bool \<Rightarrow> nat \<Rightarrow> ('a ino_state_scheme \<Rightarrow> 'a ino_state_scheme) \<times> bool \<Rightarrow>
    'a ino_state_scheme \<Rightarrow> int \<times> 'a ino_state_scheme" where
  "psleep rd p e s = (if snd e then -1 else 0, psleep_leave rd p (snd e) (fst e (psleep_enter rd p s)))"

section \<open>Opening and closing\<close>

definition add_par :: "int \<Rightarrow> nat \<Rightarrow> 'a ino_state_scheme \<Rightarrow> 'a ino_state_scheme" where
  "add_par d p s = upd_inode (\<lambda>i. i\<lparr>i_par := wrap16 (i_par i + d)\<rparr>) p s"

definition add_paw :: "int \<Rightarrow> nat \<Rightarrow> 'a ino_state_scheme \<Rightarrow> 'a ino_state_scheme" where
  "add_paw d p s = upd_inode (\<lambda>i. i\<lparr>i_paw := wrap16 (i_paw i + d)\<rparr>) p s"

text \<open>The loop of a reader that waits for a writer; the result is false if a signal ended it.\<close>

primrec popen_wait :: "(('a ino_state_scheme \<Rightarrow> 'a ino_state_scheme) \<times> bool) list \<Rightarrow> nat \<Rightarrow> int \<Rightarrow>
    'a ino_state_scheme \<Rightarrow> (bool, 'a ino_state_scheme) pipe_result" where
  "popen_wait [] p mode s =
     (if \<not> no_writers (inodes s p) \<or> mode AND (IPNDLY OR IPNONBLOCK) \<noteq> 0 then PipeDone True s
      else PipeAsleep (psleep_enter True p s))"
| "popen_wait (e # env) p mode s =
     (if \<not> no_writers (inodes s p) \<or> mode AND (IPNDLY OR IPNONBLOCK) \<noteq> 0 then PipeDone True s
      else case psleep True p e s of
             (r, s1) \<Rightarrow> if r < 0 then PipeDone False s1
                       else if i_pnc (inodes s1 p) \<noteq> 0 then PipeDone True s1
                       else popen_wait env p mode s1)"

definition popen :: "(('a ino_state_scheme \<Rightarrow> 'a ino_state_scheme) \<times> bool) list \<Rightarrow> nat \<Rightarrow> int \<Rightarrow>
    'a ino_state_scheme \<Rightarrow> (unit, 'a ino_state_scheme) pipe_result" where
  "popen env p mode s =
     (if mode AND (IPR OR IPW) = IPR then
        case popen_wait env p mode (add_par 1 p s) of
          PipeDone True s1 \<Rightarrow> PipeDone () (pwake_writers p s1)
        | PipeDone False s1 \<Rightarrow> PipeDone () (add_par (-1) p s1)
        | PipeAsleep s1 \<Rightarrow> PipeAsleep s1
        | PipeStuck \<Rightarrow> PipeStuck
      else if mode AND (IPR OR IPW) = IPW then
        let s1 = add_paw 1 p s in
        if no_readers (inodes s1 p) then
          if mode AND (IPNDLY OR IPNONBLOCK) \<noteq> 0 then PipeDone () (add_paw (-1) p (s1\<lparr>u_error := ENXIO\<rparr>))
          else case env of
                 [] \<Rightarrow> PipeAsleep (psleep_enter False p s1)
               | e # _ \<Rightarrow> (case psleep False p e s1 of
                            (r, s2) \<Rightarrow> PipeDone () (if r < 0 then add_paw (-1) p s2 else pwake_readers p s2))
        else PipeDone () (pwake_readers p s1)
      else if mode AND (IPR OR IPW) = IPR OR IPW then
        PipeDone () (pwake_writers p (pwake_readers p (add_paw 1 p (add_par 1 p s))))
      else PipeDone () s)"

definition pclose_reader :: "nat \<Rightarrow> 'a ino_state_scheme \<Rightarrow> 'a ino_state_scheme option" where
  "pclose_reader p s =
     (let s1 = add_par (-1) p s in
      if i_par (inodes s1 p) < 0 then None
      else Some (if no_readers (inodes s1 p) then pollwake False p s1 else s1))"

definition pclose_writer :: "nat \<Rightarrow> 'a ino_state_scheme \<Rightarrow> 'a ino_state_scheme option" where
  "pclose_writer p s =
     (let s1 = add_paw (-1) p s in
      if i_paw (inodes s1 p) < 0 then None
      else Some (if no_writers (inodes s1 p) then pollwake True p s1 else s1))"

text \<open>\<open>None\<close> is the panic when a counter is out of step.\<close>

definition pclose :: "nat \<Rightarrow> int \<Rightarrow> 'a ino_state_scheme \<Rightarrow> 'a ino_state_scheme option" where
  "pclose p mode s =
     (let s1 = pwake_readers p (pwake_writers p s) in
      case (if mode AND IPR \<noteq> 0 then pclose_reader p s1 else Some s1) of
        None \<Rightarrow> None
      | Some s2 \<Rightarrow>
          case (if mode AND IPW \<noteq> 0 then pclose_writer p s2 else Some s2) of
            None \<Rightarrow> None
          | Some s3 \<Rightarrow>
              Some (if no_writers (inodes s3 p) \<and> no_readers (inodes s3 p) then pclear p s3 else s3))"

section \<open>Reading\<close>

text \<open>What a reader does when the pipe is empty.\<close>

datatype pipe_wait = WaitReturn errno | WaitGo | WaitSleep

definition pread_check :: "io \<Rightarrow> inode \<Rightarrow> pipe_wait" where
  "pread_check iop i =
     (if i_pnc i \<noteq> 0 then WaitGo
      else if io_flag iop AND IONDLY \<noteq> 0 then WaitReturn E_NONE
      else if no_writers i then WaitReturn E_NONE
      else if io_flag iop AND IONONBLOCK \<noteq> 0 then WaitReturn EAGAIN
      else WaitSleep)"

definition give_error :: "errno \<Rightarrow> 'a ustate_scheme \<Rightarrow> 'a ustate_scheme" where
  "give_error e s = (if e = E_NONE then s else s\<lparr>u_error := e\<rparr>)"

text \<open>
  The transfer of a reader; every round moves bytes, so \<open>ioc\<close> rounds are enough, unless \<open>fread\<close> moves
  none and sets no error (\<open>None\<close> at the end).
\<close>

definition take_out :: "nat \<Rightarrow> int \<Rightarrow> 'a ino_state_scheme \<Rightarrow> 'a ino_state_scheme" where
  "take_out p n s = upd_inode (\<lambda>i.
     let prx = wrap16 (i_prx i + n); pnc = wrap16 (i_pnc i - n);
         i1 = i\<lparr>i_prx := (if prx = PIPE_MAX then 0 else prx), i_pnc := pnc\<rparr>
     in if pnc = 0 then i1\<lparr>i_prx := 0, i_pwx := 0\<rparr> else i1) p s"

primrec pread_loop :: "nat \<Rightarrow> nat \<Rightarrow> io \<Rightarrow> int \<Rightarrow> 'a fio_state_scheme \<Rightarrow> (io \<times> 'a fio_state_scheme) option" where
  "pread_loop 0 p iop ioc s =
     (if u_error s = E_NONE \<and> ioc > 0 \<and> i_pnc (inodes s p) > 0 then None else Some (iop\<lparr>io_ioc := ioc\<rparr>, s))"
| "pread_loop (Suc fuel) p iop ioc s =
     (if u_error s = E_NONE \<and> ioc > 0 \<and> i_pnc (inodes s p) > 0 then
        let i = inodes s p; n = min (min (PIPE_MAX - i_prx i) ioc) (i_pnc i) in
        case fread p (iop\<lparr>io_ioc := n, io_seek := i_prx i\<rparr>) s of
          None \<Rightarrow> None
        | Some (iop1, s1) \<Rightarrow>
            let m = n - io_ioc iop1 in pread_loop fuel p iop1 (ioc - m) (take_out p m s1)
      else Some (iop\<lparr>io_ioc := ioc\<rparr>, s))"

definition pread_data :: "nat \<Rightarrow> io \<Rightarrow> 'a fio_state_scheme \<Rightarrow> (io, 'a fio_state_scheme) pipe_result" where
  "pread_data p iop s =
     (case pread_loop (nat (io_ioc iop)) p iop (io_ioc iop) s of
        None \<Rightarrow> PipeStuck
      | Some (iop1, s1) \<Rightarrow> PipeDone iop1 (if i_pnc (inodes s1 p) < PIPE_MAX then pwake_writers p s1 else s1))"

primrec pread :: "(('a fio_state_scheme \<Rightarrow> 'a fio_state_scheme) \<times> bool) list \<Rightarrow> nat \<Rightarrow> io \<Rightarrow>
    'a fio_state_scheme \<Rightarrow> (io, 'a fio_state_scheme) pipe_result" where
  "pread [] p iop s =
     (case pread_check iop (inodes s p) of
        WaitReturn e \<Rightarrow> PipeDone iop (give_error e s)
      | WaitGo \<Rightarrow> pread_data p iop s
      | WaitSleep \<Rightarrow> PipeAsleep (psleep_enter True p s))"
| "pread (e # env) p iop s =
     (case pread_check iop (inodes s p) of
        WaitReturn e \<Rightarrow> PipeDone iop (give_error e s)
      | WaitGo \<Rightarrow> pread_data p iop s
      | WaitSleep \<Rightarrow> (case psleep True p e s of
                       (r, s1) \<Rightarrow> if r < 0 then PipeDone iop s1 else pread env p iop s1))"

section \<open>Writing\<close>

text \<open>How much goes into the ring in one go.\<close>

definition pwrite_room :: "int \<Rightarrow> inode \<Rightarrow> int" where
  "pwrite_room ioc i = min (min (PIPE_MAX - i_pwx i) ioc) (PIPE_MAX - i_pnc i)"

definition put_in :: "nat \<Rightarrow> int \<Rightarrow> 'a ino_state_scheme \<Rightarrow> 'a ino_state_scheme" where
  "put_in p n s = upd_inode (\<lambda>i.
     let pwx = wrap16 (i_pwx i + n) in
     i\<lparr>i_pwx := (if pwx = PIPE_MAX then 0 else pwx), i_pnc := wrap16 (i_pnc i + n)\<rparr>) p s"

text \<open>
  The writer's loop; \<open>fuel\<close> bounds the rounds that transfer and those that sleep together, \<open>None\<close>
  inside \<open>PipeStuck\<close>.
\<close>

primrec pwrite_loop :: "nat \<Rightarrow> (('a fio_state_scheme \<Rightarrow> 'a fio_state_scheme) \<times> bool) list \<Rightarrow> nat \<Rightarrow> io \<Rightarrow> int \<Rightarrow>
    'a fio_state_scheme \<Rightarrow> (io, 'a fio_state_scheme) pipe_result" where
  "pwrite_loop 0 env p iop ioc s =
     (if u_error s = E_NONE \<and> ioc > 0 then PipeStuck else PipeDone (iop\<lparr>io_ioc := ioc\<rparr>) s)"
| "pwrite_loop (Suc fuel) env p iop ioc s =
     (if u_error s = E_NONE \<and> ioc > 0 then
        if no_readers (inodes s p)
        then PipeDone (iop\<lparr>io_ioc := ioc\<rparr>) (s\<lparr>u_error := EPIPE, sigpipes := sigpipes s + 1\<rparr>)
        else
          let n = pwrite_room ioc (inodes s p) in
          if n = 0 \<or> (ioc \<le> PIPE_MAX \<and> n \<noteq> ioc) then
            if io_flag iop AND IONDLY \<noteq> 0 then PipeDone (iop\<lparr>io_ioc := ioc\<rparr>) s
            else if io_flag iop AND IONONBLOCK \<noteq> 0 then PipeDone (iop\<lparr>io_ioc := ioc\<rparr>) (s\<lparr>u_error := EAGAIN\<rparr>)
            else case env of
                   [] \<Rightarrow> PipeAsleep (psleep_enter False p s)
                 | e # env' \<Rightarrow>
                     (case psleep False p e s of
                        (r, s1) \<Rightarrow> if r < 0 then PipeDone (iop\<lparr>io_ioc := ioc\<rparr>) s1
                                  else pwrite_loop fuel env' p iop ioc s1)
          else
            case fwrite p (iop\<lparr>io_ioc := n, io_seek := i_pwx (inodes s p)\<rparr>) s of
              None \<Rightarrow> PipeStuck
            | Some (iop1, s1) \<Rightarrow>
                let m = n - io_ioc iop1; s2 = put_in p m s1;
                    s3 = (if i_pnc (inodes s2 p) > 0 then pwake_readers p s2 else s2)
                in pwrite_loop fuel env p iop1 (ioc - m) s3
      else PipeDone (iop\<lparr>io_ioc := ioc\<rparr>) s)"

definition pwrite :: "(('a fio_state_scheme \<Rightarrow> 'a fio_state_scheme) \<times> bool) list \<Rightarrow> nat \<Rightarrow> io \<Rightarrow>
    'a fio_state_scheme \<Rightarrow> (io, 'a fio_state_scheme) pipe_result" where
  "pwrite env p iop s = pwrite_loop (nat (io_ioc iop) + length env) env p iop (io_ioc iop) s"

section \<open>Polling\<close>

definition ppoll :: "nat \<Rightarrow> int \<Rightarrow> int \<Rightarrow> 'a ino_state_scheme \<Rightarrow> int \<times> 'a ino_state_scheme" where
  "ppoll p ev msec s =
     (let i = inodes s p;
          r1 = (if ev AND POLLIN \<noteq> 0
                then (if i_pnc i > 0 then POLLIN else 0) OR (if no_writers i then POLLHUP else 0) else 0);
          s1 = (if ev AND POLLIN \<noteq> 0 \<and> r1 = 0 \<and> msec \<noteq> 0 then pollopen True p s else s);
          r2 = (if ev AND POLLOUT \<noteq> 0
                then r1 OR (if i_pnc i < PIPE_MAX \<and> \<not> no_readers i then POLLOUT else 0) OR
                     (if no_readers i then POLLHUP else 0) else r1);
          s2 = (if ev AND POLLOUT \<noteq> 0 \<and> r2 = 0 \<and> msec \<noteq> 0 then pollopen False p s1 else s1)
      in (r2, s2))"

end
