(* ===== verification/File_Tree.thy ===== *)
theory File_Tree
  imports File_IO Free_Space_Invariant
begin

text \<open>
  The blocks of a file as a tree: a path is the row of indices from the inode down. \<open>entry\<close> looks up the
  block at a path, \<open>leaf_no\<close> numbers the leaves, and \<open>lmap\<close> inverts that numbering. A well-formed tree
  (\<open>tree_ok\<close>) holds every block once and none of the free ones; hanging a cleared block into a hole
  (\<open>graft\<close>) and writing to a leaf keep it.
\<close>

section \<open>Paths\<close>

abbreviation (input) MAXBLOCK :: int where "MAXBLOCK \<equiv> 2113674"

definition depth :: "nat \<Rightarrow> nat" where
  "depth r = (if r < ND then 1 else r - ND + 2)"

definition good :: "nat list \<Rightarrow> bool" where
  "good p \<longleftrightarrow> p \<noteq> [] \<and> hd p < NADDR \<and> (\<forall>i\<in>set (tl p). i < NBN) \<and> length p \<le> depth (hd p)"

definition leaf :: "nat list \<Rightarrow> bool" where
  "leaf p \<longleftrightarrow> good p \<and> length p = depth (hd p)"

lemma good_snoc: "p \<noteq> [] \<Longrightarrow> good (p @ [i]) \<longleftrightarrow> good p \<and> \<not> leaf p \<and> i < NBN"
  by (auto simp: good_def leaf_def)

lemma good_1 [simp]: "good [r] \<longleftrightarrow> r < NADDR"
  by (simp add: good_def depth_def)

lemma good_induct [consumes 1, case_names root step]:
  assumes "good p" "\<And>r. r < NADDR \<Longrightarrow> P [r]"
    "\<And>p i. good p \<Longrightarrow> \<not> leaf p \<Longrightarrow> i < NBN \<Longrightarrow> P p \<Longrightarrow> P (p @ [i])"
  shows "P p"
  using assms(1)
proof (induction p rule: rev_induct)
  case (snoc i p)
  then show ?case using assms(2,3) good_snoc [of p i] by (cases "p = []") auto
qed (simp add: good_def)

text \<open>The number of a leaf: the leaves before its tree, then the digits of its path.\<close>

definition leaf_base :: "nat \<Rightarrow> int" where
  "leaf_base r = (if r < ND then int r else if r = ND then 10 else if r = ND + 1 then 138 else 16522)"

definition leaf_no :: "nat list \<Rightarrow> int" where
  "leaf_no p = leaf_base (hd p) + foldl (\<lambda>acc i. 128 * acc + int i) 0 (tl p)"

lemma depth_simps [simp]:
  "r < 10 \<Longrightarrow> depth r = Suc 0" "depth 10 = 2" "depth 11 = 3" "depth 12 = 4"
  by (simp_all add: depth_def)

lemma leaf_cases:
  assumes "leaf p"
  obtains (direct) r where "p = [r]" "r < ND"
  | (single) i where "p = [10, i]" "i < NBN"
  | (double) j i where "p = [11, j, i]" "j < NBN" "i < NBN"
  | (triple) k j i where "p = [12, k, j, i]" "k < NBN" "j < NBN" "i < NBN"
proof -
  obtain r q where p: "p = r # q" using assms by (cases p) (auto simp: leaf_def good_def)
  then have r: "r < 13" "\<forall>i\<in>set q. i < 128" "Suc (length q) = depth r" using assms by (auto simp: leaf_def good_def)
  then consider "r < 10" | "r = 10" | "r = 11" | "r = 12" by linarith
  then show thesis
  proof cases
    case 1
    then show thesis using direct p r by simp
  next
    case 2
    then obtain i where "q = [i]" using r(3) by (auto simp: length_Suc_conv numeral_2_eq_2)
    then show thesis using single p r 2 by simp
  next
    case 3
    then obtain j i where "q = [j, i]" using r(3) by (auto simp: length_Suc_conv numeral_3_eq_3)
    then show thesis using double p r 3 by simp
  next
    case 4
    then have "length q = Suc (Suc (Suc 0))" using r(3) by simp
    then obtain k j i where "q = [k, j, i]" by (auto simp: length_Suc_conv)
    then show thesis using triple p r 4 by simp
  qed
qed

lemma leaf_simps [simp]:
  "r < 10 \<Longrightarrow> leaf [r]" "i < 128 \<Longrightarrow> leaf [10, i]" "j < 128 \<Longrightarrow> i < 128 \<Longrightarrow> leaf [11, j, i]"
  "k < 128 \<Longrightarrow> j < 128 \<Longrightarrow> i < 128 \<Longrightarrow> leaf [12, k, j, i]"
  by (simp_all add: leaf_def good_def)

section \<open>Block numbers and paths\<close>

lemma lmap_eq:
  assumes "0 \<le> b"
  shows "lmap b =
     (if b < 10 then Some ([nat b], nat (10 - b))
      else if b < 138 then Some ([nat ((b - 10) mod 128), 10], nat (128 - (b - 10) mod 128))
      else if b < 16522 then
        Some ([nat ((b - 10) mod 128), nat ((b - 10) div 128 - 1), 11], nat (128 - (b - 10) mod 128))
      else if b < MAXBLOCK then
        Some ([nat ((b - 10) mod 128), nat (((b - 10) div 128 - 1) mod 128), nat (((b - 10) div 128 - 1) div 128 - 1), 12],
          nat (128 - (b - 10) mod 128))
      else None)"
proof -
  define c where "c = b - 10"
  define e where "e = c div 128 - 1"
  define f where "f = e div 128 - 1"
  have c: "c div 128 = 0 \<longleftrightarrow> b < 138" if "0 \<le> c" using that unfolding c_def by linarith
  have e: "e div 128 = 0 \<longleftrightarrow> b < 16522" if "0 \<le> e" using that unfolding e_def c_def by linarith
  have f: "f div 128 = 0 \<longleftrightarrow> b < MAXBLOCK" if "0 \<le> f" using that unfolding f_def e_def c_def by linarith
  have small: "e < 128 \<and> e mod 128 = e" if "0 \<le> e" "b < 16522" using that unfolding e_def c_def by simp
  have small': "f < 128 \<and> f mod 128 = f" if "0 \<le> f" "b < MAXBLOCK" using that unfolding f_def e_def c_def by simp
  consider "b < 10" | "10 \<le> b" "b < 138" | "138 \<le> b" "b < 16522" | "16522 \<le> b" by linarith
  then show ?thesis
  proof cases
    case 1
    then show ?thesis using assms by (simp add: lmap_def)
  next
    case 2
    then have "0 \<le> c" by (simp add: c_def)
    then show ?thesis using 2 c by (simp add: lmap_def c_def [symmetric] Let_def)
  next
    case 3
    then have "0 \<le> c" "0 \<le> e" by (simp_all add: c_def e_def)
    then show ?thesis using 3 c e small by (simp add: lmap_def c_def [symmetric] e_def [symmetric] Let_def)
  next
    case 4
    then have "0 \<le> c" "0 \<le> e" "0 \<le> f" by (simp_all add: c_def e_def f_def)
    then show ?thesis using 4 c e f small'
      by (simp add: lmap_def c_def [symmetric] e_def [symmetric] f_def [symmetric] Let_def)
  qed
qed

definition path_of :: "int \<Rightarrow> nat list" where
  "path_of b = rev (fst (the (lmap b)))"

lemma lmap_None: "0 \<le> b \<Longrightarrow> lmap b = None \<longleftrightarrow> MAXBLOCK \<le> b"
  by (simp add: lmap_eq)

lemma path_of_leaf:
  assumes "0 \<le> b" "b < MAXBLOCK"
  shows "leaf (path_of b)" "leaf_no (path_of b) = b"
proof -
  define c where "c = b - 10"
  consider "b < 10" | "10 \<le> b" "b < 138" | "138 \<le> b" "b < 16522" | "16522 \<le> b" by linarith
  then have "leaf (path_of b) \<and> leaf_no (path_of b) = b"
  proof cases
    case 1
    then show ?thesis using assms by (simp add: path_of_def lmap_eq leaf_no_def leaf_base_def nat_less_iff)
  next
    case 2
    then have "c mod 128 = c" by (simp add: c_def)
    then show ?thesis using 2 by (simp add: path_of_def lmap_eq c_def [symmetric] leaf_no_def leaf_base_def nat_less_iff) (simp add: c_def)
  next
    case 3
    then have "0 \<le> c div 128 - 1" "c div 128 - 1 < 128" "128 * (c div 128) + c mod 128 = c" by (simp_all add: c_def)
    then show ?thesis using 3
      by (simp add: path_of_def lmap_eq c_def [symmetric] leaf_no_def leaf_base_def nat_less_iff) (simp add: c_def)
  next
    case 4
    define e where "e = c div 128 - 1"
    have h: "0 \<le> e div 128 - 1" "e div 128 - 1 < 128" using 4 assms by (simp_all add: c_def e_def)
    have E: "c div 128 = 128 * (e div 128) + e mod 128 + 1" by (simp add: e_def)
    have "128 * (c div 128) + c mod 128 = c" by simp
    then have "128 * (128 * (e div 128) + e mod 128 + 1) + c mod 128 = b - 10" unfolding E by (simp only: c_def)
    then have "16522 + (16384 * (e div 128 - 1) + 128 * (e mod 128) + c mod 128) = b"
      by (simp only: distrib_left right_diff_distrib)
    then show ?thesis using 4 assms h
      by (simp add: path_of_def lmap_eq c_def [symmetric] e_def [symmetric] leaf_no_def leaf_base_def nat_less_iff)
  qed
  then show "leaf (path_of b)" "leaf_no (path_of b) = b" by simp_all
qed

lemma leaf_no_path:
  assumes "leaf p"
  shows "0 \<le> leaf_no p" "leaf_no p < MAXBLOCK" "path_of (leaf_no p) = p"
proof -
  have "0 \<le> leaf_no p \<and> leaf_no p < MAXBLOCK \<and> path_of (leaf_no p) = p"
    using assms
  proof (cases rule: leaf_cases)
    case direct
    then show ?thesis by (simp add: path_of_def lmap_eq leaf_no_def leaf_base_def)
  next
    case single
    then show ?thesis by (simp add: path_of_def lmap_eq leaf_no_def leaf_base_def)
  next
    case (double j i)
    then have "(int j * 128 + int i + 128) mod 128 = int i" "(int j * 128 + int i + 128) div 128 = int j + 1" by simp_all
    then show ?thesis using double by (simp add: path_of_def lmap_eq leaf_no_def leaf_base_def algebra_simps)
  next
    case (triple k j i)
    have "int k * 16384 + int j * 128 + int i + 16512 = int i + 128 * (int k * 128 + int j + 129)" by simp
    then have "(int k * 16384 + int j * 128 + int i + 16512) mod 128 = int i"
      "(int k * 16384 + int j * 128 + int i + 16512) div 128 - 1 = int k * 128 + int j + 128"
      using triple by (simp_all only: mod_mult_self2 div_mult_self2) simp_all
    moreover have "(int k * 128 + int j + 128) mod 128 = int j" "(int k * 128 + int j + 128) div 128 - 1 = int k"
      using triple by simp_all
    ultimately have "(int k * 16384 + int j * 128 + int i + 16512) mod 128 = int i \<and>
      ((int k * 16384 + int j * 128 + int i + 16512) div 128 - 1) mod 128 = int j \<and>
      ((int k * 16384 + int j * 128 + int i + 16512) div 128 - 1) div 128 - 1 = int k" by simp
    then show ?thesis using triple by (simp add: path_of_def lmap_eq leaf_no_def leaf_base_def algebra_simps)
  qed
  then show "0 \<le> leaf_no p" "leaf_no p < MAXBLOCK" "path_of (leaf_no p) = p" by simp_all
qed

section \<open>The block at a path\<close>

fun entry :: "(int \<Rightarrow> block option) \<Rightarrow> int list \<Rightarrow> nat list \<Rightarrow> int" where
  "entry d xs [] = 0"
| "entry d xs [i] = xs ! i"
| "entry d xs (i # js) = (if xs ! i = 0 then 0 else entry d (indirects (the (d (xs ! i)))) js)"

lemma entry_snoc:
  "p \<noteq> [] \<Longrightarrow> entry d xs (p @ [i]) = (if entry d xs p = 0 then 0 else indirects (the (d (entry d xs p))) ! i)"
proof (induction d xs p rule: entry.induct)
  case (3 d xs a b js)
  then show ?case by (cases js) auto
qed simp_all

lemma length_indirects [simp]: "length (indirects blk) = NBN"
  by (simp add: indirects_def)

text \<open>
  \<open>F\<close> are the free blocks: the blocks of the tree are none of them, can be read, have 512 bytes and are
  at one place each.
\<close>

definition tree_ok :: "(int \<Rightarrow> block option) \<Rightarrow> int list \<Rightarrow> int set \<Rightarrow> bool" where
  "tree_ok d xs F \<longleftrightarrow> length xs = NADDR \<and>
     (\<forall>p. good p \<and> entry d xs p \<noteq> 0 \<longrightarrow> entry d xs p \<notin> F \<and> (\<exists>blk. d (entry d xs p) = Some blk \<and> length blk = BSIZE)) \<and>
     (\<forall>p q. good p \<and> good q \<and> entry d xs p \<noteq> 0 \<and> entry d xs p = entry d xs q \<longrightarrow> p = q)"

lemma tree_okD:
  assumes "tree_ok d xs F" "good p" "entry d xs p \<noteq> 0"
  shows "entry d xs p \<notin> F" "\<exists>blk. d (entry d xs p) = Some blk \<and> length blk = BSIZE"
    "\<And>q. good q \<Longrightarrow> entry d xs q = entry d xs p \<Longrightarrow> q = p"
  using assms unfolding tree_ok_def by metis+

definition hole_block :: block where
  "hole_block = replicate BSIZE 0"

definition file_block :: "(int \<Rightarrow> block option) \<Rightarrow> int list \<Rightarrow> nat list \<Rightarrow> block" where
  "file_block d xs p = (if entry d xs p = 0 then hole_block else the (d (entry d xs p)))"

section \<open>Changing the tree\<close>

lemma canl_0 [simp]: "canl 0 = 0"
  by (simp add: canl_def)

lemma indirects_hole: "i < NBN \<Longrightarrow> indirects hole_block ! i = 0"
  by (simp add: indirects_def hole_block_def rd32_def rd16_def)

lemma rd32_write_at:
  assumes "length blk = BSIZE" "l < NBN" "i < NBN" "int32 x"
  shows "rd32 (write_at (4 * l) (le32 x) blk) (4 * i) = (if i = l then x else rd32 blk (4 * i))"
proof (cases "i = l")
  case True
  have "rd32 (take (4 * l) blk @ concat (map le32 [x]) @ drop (4 * l + 4) blk) (4 * l + 4 * 0) = wrap32 ([x] ! 0)"
    using assms by (intro rd32_longs) simp_all
  then show ?thesis using True assms(4) by (simp add: write_at_def int32_wrap)
next
  case False
  have n: "write_at (4 * l) (le32 x) blk ! (4 * i + k) = blk ! (4 * i + k)" if "k < 4" for k
  proof (cases "i < l")
    case True
    then have "4 * i + k < 4 * l" using that by simp
    then show ?thesis using assms by (simp add: write_at_def nth_append)
  next
    case ge: False
    then have "4 * l + 4 \<le> 4 * i + k" using False by simp
    then obtain m where "4 * i + k = 4 * l + 4 + m" using le_Suc_ex by blast
    then show ?thesis using assms(1,2) by (simp add: write_at_def nth_append)
  qed
  show ?thesis using False n [of 0] n [of 1] n [of 2] n [of 3]
    by (simp add: rd32_def rd16_def eval_nat_numeral)
qed

lemma indirects_write_at:
  assumes "length blk = BSIZE" "l < NBN" "int32 b"
  shows "indirects (write_at (4 * l) (le32 (canl b)) blk) = (indirects blk)[l := b]"
  using assms by (intro nth_equalityI) (auto simp: indirects_def nth_list_update rd32_write_at canl_canl int32_wrap)

lemma length_write_at: "o' + length xs \<le> length blk \<Longrightarrow> length (write_at o' xs blk) = length blk"
  by (simp add: write_at_def)

text \<open>A change of the tree at one path: the entry there becomes \<open>b\<close>, which is cleared, and all others stay.\<close>

definition grafted :: "(int \<Rightarrow> block option) \<Rightarrow> int list \<Rightarrow> nat list \<Rightarrow> int \<Rightarrow> (int \<Rightarrow> block option) \<Rightarrow> int list \<Rightarrow> bool" where
  "grafted d xs g b d' xs' \<longleftrightarrow> (\<forall>p. good p \<longrightarrow> entry d' xs' p = (if p = g then b else entry d xs p)) \<and>
     d' b = Some hole_block \<and>
     (\<forall>p. leaf p \<and> entry d xs p \<noteq> 0 \<longrightarrow> d' (entry d xs p) = d (entry d xs p))"

lemma grafted_ok:
  assumes "tree_ok d xs F" "grafted d xs g b d' xs'" "b \<in> F" "b \<noteq> 0" "good g" "entry d xs g = 0" "length xs' = NADDR"
    "\<forall>p. good p \<and> entry d xs p \<noteq> 0 \<longrightarrow> (\<exists>blk. d' (entry d xs p) = Some blk \<and> length blk = BSIZE)"
  shows "tree_ok d' xs' (F - {b})" "leaf p \<Longrightarrow> file_block d' xs' p = file_block d xs p"
proof -
  have e: "entry d' xs' p = (if p = g then b else entry d xs p)" if "good p" for p
    using assms(2) that by (simp add: grafted_def)
  have ne: "entry d xs p \<noteq> b" if "good p" for p using tree_okD(1) [OF assms(1) that] assms(3,4) by metis
  have hb: "d' b = Some hole_block" using assms(2) by (simp add: grafted_def)
  show "tree_ok d' xs' (F - {b})"
    unfolding tree_ok_def
  proof (intro conjI allI impI)
    fix p assume "good p \<and> entry d' xs' p \<noteq> 0"
    then have h: "good p" "entry d' xs' p \<noteq> 0" by simp_all
    have "entry d' xs' p \<notin> F - {b} \<and> (\<exists>blk. d' (entry d' xs' p) = Some blk \<and> length blk = BSIZE)"
    proof (cases "p = g")
      case True
      then show ?thesis using e [OF h(1)] hb by (simp add: hole_block_def)
    next
      case False
      then have x: "entry d' xs' p = entry d xs p" using e [OF h(1)] by simp
      then have z: "entry d xs p \<noteq> 0" using h(2) by metis
      show ?thesis unfolding x using tree_okD(1) [OF assms(1) h(1) z] assms(8) h(1) z by blast
    qed
    then show "entry d' xs' p \<notin> F - {b}" "\<exists>blk. d' (entry d' xs' p) = Some blk \<and> length blk = BSIZE" by simp_all
  next
    fix p q assume h: "good p \<and> good q \<and> entry d' xs' p \<noteq> 0 \<and> entry d' xs' p = entry d' xs' q"
    then have g: "good p" "good q" "entry d' xs' p \<noteq> 0" "entry d' xs' p = entry d' xs' q" by simp_all
    have inj: "entry d xs p \<noteq> 0 \<Longrightarrow> entry d xs p = entry d xs q \<Longrightarrow> p = q"
      using tree_okD(3) [OF assms(1) g(2), of p] g(1) by metis
    show "p = q"
      using g(3,4) inj ne [OF g(1)] ne [OF g(2)] unfolding e [OF g(1)] e [OF g(2)] by metis
  qed (rule assms(7))
  show "file_block d' xs' p = file_block d xs p" if l: "leaf p"
  proof -
    have "good p" using l by (simp add: leaf_def)
    then show ?thesis using e [of p] hb assms(2,6) l by (auto simp: file_block_def grafted_def assms(4))
  qed
qed

lemma entry_cleared:
  "p \<noteq> [] \<Longrightarrow> entry d xs p = b \<Longrightarrow> d b = Some hole_block \<Longrightarrow> i < NBN \<Longrightarrow> entry d xs (p @ [i]) = 0"
  by (simp add: entry_snoc indirects_hole)

lemma entry_hole: "p \<noteq> [] \<Longrightarrow> entry d xs p = 0 \<Longrightarrow> entry d xs (p @ [i]) = 0"
  by (simp add: entry_snoc)

lemma entry_same:
  "p \<noteq> [] \<Longrightarrow> entry d' xs' p = entry d xs p \<Longrightarrow> d' (entry d xs p) = d (entry d xs p) \<Longrightarrow>
   entry d' xs' (p @ [i]) = entry d xs (p @ [i])"
  by (simp add: entry_snoc)

text \<open>At the inode.\<close>

lemma graft_root:
  assumes "tree_ok d xs F" "r < NADDR" "xs ! r = 0" "b \<in> F" "b \<noteq> 0"
  shows "grafted d xs [r] b (d(b := Some hole_block)) (xs[r := b])"
proof -
  define d' x where "d' = d(b := Some hole_block)" and "x = xs[r := b]"
  have d': "d' b = Some hole_block" "\<And>c. c \<noteq> b \<Longrightarrow> d' c = d c" by (simp_all add: d'_def)
  have len: "length xs = 13" using assms(1) by (simp add: tree_ok_def)
  have ne: "entry d xs p \<noteq> b" if "good p" for p using tree_okD(1) [OF assms(1) that] assms(4,5) by metis
  have "entry d' x p = (if p = [r] then b else entry d xs p)" if "good p" for p
    using that
  proof (induction rule: good_induct)
    case (root r')
    then show ?case using assms(2) len by (auto simp: x_def)
  next
    case (step p i)
    then have pn: "p \<noteq> []" by (auto simp: good_def)
    show ?case
    proof (cases "p = [r]")
      case True
      then have "entry d' x p = b" using step.IH by simp
      then have "entry d' x (p @ [i]) = 0" using d'(1) step.hyps(3) pn by (intro entry_cleared)
      moreover have "entry d xs (p @ [i]) = 0" using True assms(3) by (intro entry_hole [OF pn]) simp
      ultimately show ?thesis using pn by simp
    next
      case False
      then have "entry d' x p = entry d xs p" using step.IH by simp
      then have "entry d' x (p @ [i]) = entry d xs (p @ [i])"
        using ne [OF step.hyps(1)] d'(2) by (intro entry_same [OF pn]) simp_all
      then show ?thesis using pn by simp
    qed
  qed
  then have "grafted d xs [r] b d' x" using ne d' by (simp add: grafted_def leaf_def)
  then show ?thesis by (simp only: d'_def x_def)
qed

text \<open>At an indirect block.\<close>

lemma graft_indirect:
  assumes "tree_ok d xs F" "good q" "\<not> leaf q" "l < NBN" "entry d xs q = B" "B \<noteq> 0" "entry d xs (q @ [l]) = 0"
    "b \<in> F" "b \<noteq> 0" "int32 b" "d B = Some blk"
  shows "grafted d xs (q @ [l]) b (d(B := Some (write_at (4 * l) (le32 (canl b)) blk), b := Some hole_block)) xs"
proof -
  define d' where "d' = d(B := Some (write_at (4 * l) (le32 (canl b)) blk), b := Some hole_block)"
  have ne: "entry d xs p \<noteq> b" if "good p" for p using tree_okD(1) [OF assms(1) that] assms(8,9) by metis
  have uniq: "p = q" if "good p" "entry d xs p = B" for p
    using tree_okD(3) [OF assms(1,2), of p] assms(5,6) that by simp
  have "B \<noteq> b" using ne [OF assms(2)] assms(5) by simp
  then have d': "d' b = Some hole_block" "d' B = Some (write_at (4 * l) (le32 (canl b)) blk)"
    "\<And>c. c \<noteq> b \<Longrightarrow> c \<noteq> B \<Longrightarrow> d' c = d c" by (simp_all add: d'_def)
  have lb: "length blk = BSIZE" using tree_okD(2) [OF assms(1,2)] assms(5,6,11) by auto
  have qn: "q \<noteq> []" using assms(2) by (auto simp: good_def)
  have gq: "good (q @ [l])" using assms(2-4) good_snoc [OF qn] by simp
  have "entry d' xs p = (if p = q @ [l] then b else entry d xs p)" if "good p" for p
    using that
  proof (induction rule: good_induct)
    case (root r)
    then show ?case using qn by auto
  next
    case (step p i)
    then have pn: "p \<noteq> []" by (auto simp: good_def)
    consider (below) "p = q @ [l]" | (at) "p = q" | (off) "p \<noteq> q @ [l]" "p \<noteq> q" by blast
    then show ?case
    proof cases
      case below
      then have "entry d' xs p = b" using step.IH by simp
      then have "entry d' xs (p @ [i]) = 0" using d'(1) step.hyps(3) pn by (intro entry_cleared)
      moreover have "entry d xs (p @ [i]) = 0" using below assms(7) by (intro entry_hole [OF pn]) simp
      ultimately show ?thesis using below by simp
    next
      case at
      have "entry d' xs p = B" using step.IH at assms(5) by simp
      then have "entry d' xs (p @ [i]) = (indirects blk)[l := b] ! i"
        using assms(6) d'(2) indirects_write_at [OF lb assms(4,10)] by (simp add: entry_snoc [OF pn])
      moreover have "entry d xs (p @ [i]) = indirects blk ! i"
        using at assms(5,6,11) qn by (simp add: entry_snoc)
      ultimately show ?thesis using at step.hyps(3) by (simp add: nth_list_update)
    next
      case off
      then have "entry d' xs p = entry d xs p" using step.IH by simp
      moreover have "entry d xs p \<noteq> B" using uniq [OF step.hyps(1)] off by metis
      ultimately have "entry d' xs (p @ [i]) = entry d xs (p @ [i])"
        using ne [OF step.hyps(1)] d'(3) by (intro entry_same [OF pn]) simp_all
      then show ?thesis using off by simp
    qed
  qed
  moreover have "entry d xs p \<noteq> B" if "leaf p" for p using uniq [of p] that assms(3) by (auto simp: leaf_def)
  ultimately have "grafted d xs (q @ [l]) b d' xs" using ne d' by (simp add: grafted_def leaf_def)
  then show ?thesis by (simp only: d'_def)
qed

text \<open>Writing to a leaf.\<close>

lemma write_leaf:
  assumes "tree_ok d xs F" "leaf g" "entry d xs g = b" "b \<noteq> 0" "length new = BSIZE"
  shows "tree_ok (d(b := Some new)) xs F"
    "leaf p \<Longrightarrow> file_block (d(b := Some new)) xs p = (if p = g then new else file_block d xs p)"
    "good p \<Longrightarrow> entry (d(b := Some new)) xs p = entry d xs p"
proof -
  let ?d = "d(b := Some new)"
  have g: "good g" using assms(2) by (simp add: leaf_def)
  have uniq: "p = g" if "good p" "entry d xs p = b" for p
    using tree_okD(3) [OF assms(1) g, of p] assms(3,4) that by simp
  have e: "entry ?d xs p = entry d xs p" if "good p" for p
    using that
  proof (induction rule: good_induct)
    case (step p i)
    then have pn: "p \<noteq> []" by (auto simp: good_def)
    have "entry d xs p \<noteq> b" using uniq [OF step.hyps(1)] step.hyps(2) assms(2) by metis
    then show ?case using step.IH by (intro entry_same [OF pn]) simp_all
  qed simp
  show "good p \<Longrightarrow> entry ?d xs p = entry d xs p" by (rule e)
  show "tree_ok ?d xs F"
    unfolding tree_ok_def
  proof (intro conjI allI impI)
    fix p assume "good p \<and> entry ?d xs p \<noteq> 0"
    then have h: "good p" "entry d xs p \<noteq> 0" using e [of p] by simp_all
    show "entry ?d xs p \<notin> F" unfolding e [OF h(1)] by (rule tree_okD(1) [OF assms(1) h])
    obtain blk where "d (entry d xs p) = Some blk" "length blk = BSIZE" using tree_okD(2) [OF assms(1) h] by blast
    then show "\<exists>blk. ?d (entry ?d xs p) = Some blk \<and> length blk = BSIZE"
      unfolding e [OF h(1)] using assms(5) by (cases "entry d xs p = b") simp_all
  next
    fix p q assume "good p \<and> good q \<and> entry ?d xs p \<noteq> 0 \<and> entry ?d xs p = entry ?d xs q"
    then have g: "good p" "good q" "entry ?d xs p \<noteq> 0" "entry ?d xs p = entry ?d xs q" by blast+
    show "p = q" using g(3,4) tree_okD(3) [OF assms(1) g(2) _ g(1)] unfolding e [OF g(1)] e [OF g(2)] by metis
  qed (use assms(1) in \<open>simp add: tree_ok_def\<close>)
  show "file_block ?d xs p = (if p = g then new else file_block d xs p)" if "leaf p"
  proof -
    have gp: "good p" using that by (simp add: leaf_def)
    show ?thesis
    proof (cases "p = g")
      case True
      then show ?thesis using e [OF gp] assms(3,4) by (simp add: file_block_def)
    next
      case False
      then have "entry d xs p \<noteq> b" using uniq [OF gp] by metis
      then show ?thesis using False unfolding file_block_def e [OF gp] by simp
    qed
  qed
qed

end
