(* ===== verification/File_Reading.thy ===== *)
theory File_Reading
  imports File_Tree
begin

text \<open>
  Reading a file returns its bytes. \<open>file_byte\<close> is the byte at a position, 0 in a hole; \<open>vmap\<close> finds the
  blocks whether it works block by block or in groups, and \<open>fread\<close> delivers the bytes from the position
  on, up to the end of the file.
\<close>

section \<open>Contents\<close>

definition file_byte :: "(int \<Rightarrow> block option) \<Rightarrow> int list \<Rightarrow> int \<Rightarrow> int" where
  "file_byte d xs x = file_block d xs (path_of (x div 512)) ! nat (x mod 512)"

definition file_bytes :: "(int \<Rightarrow> block option) \<Rightarrow> int list \<Rightarrow> int \<Rightarrow> nat \<Rightarrow> int list" where
  "file_bytes d xs x n = map (\<lambda>i. file_byte d xs (x + int i)) [0..<n]"

lemma length_file_bytes [simp]: "length (file_bytes d xs x n) = n"
  by (simp add: file_bytes_def)

lemma map_upt_shift: "map f [m..<m + n] = map (\<lambda>i. f (m + i)) [0..<n]"
  by (induction n) simp_all

lemma file_bytes_append: "file_bytes d xs x m @ file_bytes d xs (x + int m) n = file_bytes d xs x (m + n)"
proof -
  have "map (\<lambda>i. file_byte d xs (x + int i)) [0..<m + n] = map (\<lambda>i. file_byte d xs (x + int i)) [0..<m] @
      map (\<lambda>i. file_byte d xs (x + int i)) [m..<m + n]" using upt_add_eq_append [of 0 m n] by simp
  also have "map (\<lambda>i. file_byte d xs (x + int i)) [m..<m + n] = map (\<lambda>i. file_byte d xs (x + int m + int i)) [0..<n]"
    by (simp only: map_upt_shift of_nat_add add.assoc)
  finally show ?thesis by (simp add: file_bytes_def)
qed

lemma file_bytes_piece:
  assumes "length (file_block d xs (path_of lbn)) = BSIZE" "off + n \<le> 512"
  shows "take n (drop off (file_block d xs (path_of lbn))) = file_bytes d xs (512 * lbn + int off) n"
proof (rule nth_equalityI)
  show "length (take n (drop off (file_block d xs (path_of lbn)))) = length (file_bytes d xs (512 * lbn + int off) n)"
    using assms by simp
  fix i assume "i < length (take n (drop off (file_block d xs (path_of lbn))))"
  then have i: "i < n" "off + i < 512" using assms by simp_all
  have "512 * lbn + int off + int i = (int off + int i) + 512 * lbn" by simp
  then have "(512 * lbn + int off + int i) div 512 = lbn" "(512 * lbn + int off + int i) mod 512 = int off + int i"
    using i(2) by (simp_all only: mod_mult_self2 div_mult_self2) simp_all
  then show "take n (drop off (file_block d xs (path_of lbn))) ! i = file_bytes d xs (512 * lbn + int off) n ! i"
    using i assms by (simp add: file_bytes_def file_byte_def nat_add_distrib)
qed

section \<open>The next leaves\<close>

lemma path_of_next:
  assumes "0 \<le> b" "b < MAXBLOCK" "lmap b = Some (list, n)"
  shows "0 < n" "int n \<le> MAXBLOCK - b" "last (path_of b) + n = (if length (path_of b) = 1 then 10 else 128)"
    "k < n \<Longrightarrow> path_of (b + int k) = butlast (path_of b) @ [last (path_of b) + k]"
proof -
  note l = path_of_leaf [OF assms(1,2)]
  have r: "rev list = path_of b" using assms(3) by (simp add: path_of_def)
  have m: "0 \<le> (b - 10) mod 128" "(b - 10) mod 128 < 128" by simp_all
  have "0 < n \<and> last (path_of b) + n = (if length (path_of b) = 1 then 10 else 128)"
    using assms m unfolding r [symmetric] lmap_eq [OF assms(1)] by (auto split: if_splits simp: nat_add_distrib [symmetric])
  then show n: "0 < n" "last (path_of b) + n = (if length (path_of b) = 1 then 10 else 128)" by simp_all
  have nx: "leaf (butlast (path_of b) @ [last (path_of b) + k]) \<and>
      leaf_no (butlast (path_of b) @ [last (path_of b) + k]) = b + int k" if "k < n" for k
    using l(1)
  proof (cases rule: leaf_cases)
    case direct
    then show ?thesis using n that l(2) by (simp add: leaf_no_def leaf_base_def)
  next
    case single
    then show ?thesis using n that l(2) by (simp add: leaf_no_def)
  next
    case double
    then show ?thesis using n that l(2) by (simp add: leaf_no_def)
  next
    case triple
    then show ?thesis using n that l(2) by (simp add: leaf_no_def)
  qed
  show "path_of (b + int k) = butlast (path_of b) @ [last (path_of b) + k]" if "k < n"
    using nx [OF that] leaf_no_path(3) by metis
  have "b + int (n - 1) < MAXBLOCK" using nx [of "n - 1"] n(1) leaf_no_path(2) by force
  then show "int n \<le> MAXBLOCK - b" using n(1) by linarith
qed

section \<open>Mapping\<close>

definition block_at :: "int \<Rightarrow> int" where
  "block_at e = (if e = 0 then EMPTY_BLOCK else e)"

lemma good_prefix: "good (p @ r) \<Longrightarrow> p \<noteq> [] \<Longrightarrow> good p"
  by (auto simp: good_def)

lemma entry_hole_prefix: "p \<noteq> [] \<Longrightarrow> entry d xs p = 0 \<Longrightarrow> entry d xs (p @ r) = 0"
proof (induction r rule: rev_induct)
  case (snoc i r)
  then show ?case using entry_hole [of "p @ r" d xs i] by simp
qed simp

lemma longs_canl: "k < NBN \<Longrightarrow> canl (longs blk ! k) = indirects blk ! k"
  by (simp add: longs_def indirects_def)

lemma longs_0: "k < NBN \<Longrightarrow> longs blk ! k = 0 \<longleftrightarrow> indirects blk ! k = 0"
proof -
  assume k: "k < NBN"
  have "longs blk ! k = canl (canl (longs blk ! k))" using k by (simp add: longs_def canl_canl rd32_def int32_wrap)
  then show ?thesis using longs_canl [OF k, of blk] by (metis canl_0)
qed

lemma leaf_block_indirect: "k < NBN \<Longrightarrow> leaf_block True (longs blk ! k) = block_at (indirects blk ! k)"
  by (simp add: leaf_block_def block_at_def longs_0 longs_canl)

lemma bread_entry:
  assumes "tree_ok (disk s dev) xs F" "\<forall>b. (dev, b) \<notin> set (lost_bufs s)" "good p" "entry (disk s dev) xs p \<noteq> 0"
  shows "\<exists>blk. bread dev (entry (disk s dev) xs p) s = Some (Some blk, s) \<and> disk s dev (entry (disk s dev) xs p) = Some blk \<and>
    length blk = BSIZE"
  using tree_okD(2) [OF assms(1,3,4)] assms(2) by (auto simp: bread_def)

text \<open>Where the walk ends for the leaves that share the parent \<open>q\<close>.\<close>

definition walk_ok :: "(nat \<Rightarrow> int) \<Rightarrow> nat \<Rightarrow> nat \<Rightarrow> walk \<Rightarrow> bool" where
  "walk_ok e lim i w \<longleftrightarrow>
     (case w of
        WalkError \<Rightarrow> False
      | WalkHole \<Rightarrow> (\<forall>k. e k = 0)
      | WalkLeaf buf out j \<Rightarrow> j = i \<and> (\<forall>k<lim. leaf_block buf (out ! k) = block_at (e k)))"

lemma vmap_walk_indirect:
  fixes s :: "'a fs_state_scheme"
  assumes "tree_ok (disk s dev) xs F" "\<forall>b. (dev, b) \<notin> set (lost_bufs s)"
  shows "good (q @ js) \<Longrightarrow> q \<noteq> [] \<Longrightarrow> js \<noteq> [] \<Longrightarrow> entry (disk s dev) xs q \<noteq> 0 \<Longrightarrow>
    disk s dev (entry (disk s dev) xs q) = Some blk \<Longrightarrow>
    \<exists>w. vmap_walk dev True (longs blk) js s = Some (w, s) \<and>
      walk_ok (\<lambda>k. entry (disk s dev) xs (butlast (q @ js) @ [k])) NBN (last js) w"
proof (induction js arbitrary: q blk rule: induct_list012)
  case (2 i)
  then have "leaf_block True (longs blk ! k) = block_at (entry (disk s dev) xs (q @ [k]))" if "k < NBN" for k
    using that by (simp add: entry_snoc leaf_block_indirect)
  then show ?case by (simp add: walk_ok_def)
next
  case (3 i j js)
  let ?d = "disk s dev"
  have gi: "good (q @ [i])" using good_prefix [of "q @ [i]" "j # js"] 3(3) by simp
  then have i: "i < NBN" using good_snoc [OF 3(4)] by simp
  have e: "entry ?d xs (q @ [i]) = indirects blk ! i" using 3(4,6,7) by (simp add: entry_snoc)
  show ?case
  proof (cases "indirects blk ! i = 0")
    case True
    have "entry ?d xs (butlast (q @ i # j # js) @ [k]) = 0" for k
      using entry_hole_prefix [of "q @ [i]" ?d xs "butlast (j # js) @ [k]"] e True by (simp add: butlast_append)
    then show ?thesis using True i by (simp add: walk_ok_def longs_0)
  next
    case False
    then obtain blk' where b: "bread dev (indirects blk ! i) s = Some (Some blk', s)" "?d (indirects blk ! i) = Some blk'"
      using bread_entry [OF assms gi] e by auto
    have "\<exists>w. vmap_walk dev True (longs blk') (j # js) s = Some (w, s) \<and>
        walk_ok (\<lambda>k. entry ?d xs (butlast ((q @ [i]) @ j # js) @ [k])) NBN (last (j # js)) w"
      by (rule "3.IH"(2)) (use 3(3) e False b in simp_all)
    then show ?thesis using False i b(1) by (simp add: longs_0 longs_canl)
  qed
qed simp

lemma vmap_walk_ok:
  fixes s :: "'a fs_state_scheme"
  assumes "tree_ok (disk s dev) xs F" "\<forall>b. (dev, b) \<notin> set (lost_bufs s)" "leaf p"
  shows "\<exists>w. vmap_walk dev False xs p s = Some (w, s) \<and>
    walk_ok (\<lambda>k. entry (disk s dev) xs (butlast p @ [k])) (if length p = 1 then 10 else NBN) (last p) w"
proof -
  let ?d = "disk s dev"
  obtain i js where p: "p = i # js" using assms(3) by (cases p) (auto simp: leaf_def good_def)
  have gp: "good p" using assms(3) by (simp add: leaf_def)
  show ?thesis
  proof (cases js)
    case Nil
    then show ?thesis using p by (simp add: walk_ok_def leaf_block_def block_at_def)
  next
    case (Cons j js')
    have gi: "good [i]" using good_prefix [of "[i]" js] gp p by simp
    show ?thesis
    proof (cases "xs ! i = 0")
      case True
      have "entry ?d xs (i # butlast js @ [k]) = 0" for k
        using entry_hole_prefix [of "[i]" ?d xs "butlast js @ [k]"] True by simp
      then show ?thesis using True p Cons by (simp add: walk_ok_def)
    next
      case False
      then obtain blk where b: "bread dev (xs ! i) s = Some (Some blk, s)" "?d (xs ! i) = Some blk"
        using bread_entry [OF assms(1,2) gi] by auto
      have "\<exists>w. vmap_walk dev True (longs blk) js s = Some (w, s) \<and>
          walk_ok (\<lambda>k. entry ?d xs (butlast ([i] @ js) @ [k])) NBN (last js) w"
        by (rule vmap_walk_indirect [OF assms(1,2)]) (use gp p Cons False b in simp_all)
      then show ?thesis using False b(1) p Cons by simp
    qed
  qed
qed

lemma vmap_part_ok:
  assumes "tree_ok (disk s dev) xs F" "\<forall>b. (dev, b) \<notin> set (lost_bufs s)" "i_dev (inodes s p) = dev"
    "i_addr (inodes s p) = xs" "0 \<le> b" "b < MAXBLOCK" "0 < resid"
  shows "\<exists>n. vmap_part p b resid s = Some (Some (map (\<lambda>k. block_at (entry (disk s dev) xs (path_of (b + int k)))) [0..<n]), s) \<and>
    0 < n \<and> n \<le> resid"
proof -
  let ?e = "\<lambda>k. entry (disk s dev) xs (butlast (path_of b) @ [k])"
  obtain list n where l: "lmap b = Some (list, n)" using lmap_None [OF assms(5)] assms(6) by (cases "lmap b") auto
  have r: "rev list = path_of b" using l by (simp add: path_of_def)
  note nx = path_of_next [OF assms(5,6) l]
  obtain w where w: "vmap_walk dev False xs (path_of b) s = Some (w, s)"
    "walk_ok ?e (if length (path_of b) = 1 then 10 else NBN) (last (path_of b)) w"
    using vmap_walk_ok [OF assms(1,2) path_of_leaf(1) [OF assms(5,6)]] by blast
  define m where "m = min n resid"
  have e: "entry (disk s dev) xs (path_of (b + int k)) = ?e (last (path_of b) + k)" if "k < m" for k
    using nx(4) [of k] that by (simp add: m_def)
  have lim: "last (path_of b) + k < (if length (path_of b) = 1 then 10 else NBN)" if "k < m" for k
    using nx(3) that by (simp add: m_def)
  have "vmap_part p b resid s = Some (Some (map (\<lambda>k. block_at (entry (disk s dev) xs (path_of (b + int k)))) [0..<m]), s)"
  proof (cases w)
    case WalkHole
    then have "map (\<lambda>k. block_at (entry (disk s dev) xs (path_of (b + int k)))) [0..<m] = replicate m EMPTY_BLOCK"
      using w(2) e by (intro nth_equalityI) (simp_all add: walk_ok_def block_at_def)
    then show ?thesis using WalkHole w(1) assms(3,4) l r by (simp add: vmap_part_def Let_def m_def)
  next
    case (WalkLeaf buf out j)
    then have j: "j = last (path_of b)" and wl: "\<forall>k<(if length (path_of b) = 1 then 10 else NBN). leaf_block buf (out ! k) = block_at (?e k)"
      using w(2) by (simp_all add: walk_ok_def)
    have "map (\<lambda>k. leaf_block buf (out ! (j + k))) [0..<m] =
        map (\<lambda>k. block_at (entry (disk s dev) xs (path_of (b + int k)))) [0..<m]"
    proof (rule map_cong [OF refl])
      fix k assume "k \<in> set [0..<m]"
      then have "k < m" by simp
      then show "leaf_block buf (out ! (j + k)) = block_at (entry (disk s dev) xs (path_of (b + int k)))"
        using wl lim [of k] e [of k] j by simp
    qed
    then show ?thesis using WalkLeaf w(1) assms(3,4) l r by (simp add: vmap_part_def Let_def m_def)
  qed (use w(2) in \<open>simp add: walk_ok_def\<close>)
  then show ?thesis using nx(1) assms(7) by (auto simp: m_def)
qed

definition leaf_blocks :: "(int \<Rightarrow> block option) \<Rightarrow> int list \<Rightarrow> int \<Rightarrow> nat \<Rightarrow> int list" where
  "leaf_blocks d xs b n = map (\<lambda>k. block_at (entry d xs (path_of (b + int k)))) [0..<n]"

lemma length_leaf_blocks [simp]: "length (leaf_blocks d xs b n) = n"
  by (simp add: leaf_blocks_def)

lemma leaf_blocks_append: "leaf_blocks d xs b m @ leaf_blocks d xs (b + int m) n = leaf_blocks d xs b (m + n)"
proof -
  have "map (\<lambda>k. block_at (entry d xs (path_of (b + int m + int k)))) [0..<n] =
      map (\<lambda>k. block_at (entry d xs (path_of (b + int k)))) [m..<m + n]"
    by (simp only: map_upt_shift of_nat_add add.assoc)
  then show ?thesis using upt_add_eq_append [of 0 m n] by (simp add: leaf_blocks_def)
qed

lemma leaf_blocks_Suc: "leaf_blocks d xs b (Suc n) = block_at (entry d xs (path_of b)) # leaf_blocks d xs (b + 1) n"
proof -
  have "leaf_blocks d xs b 1 @ leaf_blocks d xs (b + int 1) n = leaf_blocks d xs b (1 + n)" by (rule leaf_blocks_append)
  then show ?thesis by (simp add: leaf_blocks_def)
qed

lemma vmap_more_ok:
  fixes s :: "'a fio_state_scheme"
  assumes "tree_ok (disk s dev) xs F" "\<forall>b. (dev, b) \<notin> set (lost_bufs s)" "i_dev (inodes s p) = dev"
    "i_addr (inodes s p) = xs"
  shows "0 \<le> b \<Longrightarrow> b + int resid \<le> MAXBLOCK \<Longrightarrow> 0 < resid \<Longrightarrow> resid \<le> fuel \<Longrightarrow>
    \<exists>n. vmap_more fuel p b resid acc s = Some (Some (acc @ leaf_blocks (disk s dev) xs b n), s) \<and> 0 < n \<and> n \<le> resid"
proof (induction fuel arbitrary: b resid acc)
  case (Suc fuel)
  have "b < MAXBLOCK" using Suc.prems by linarith
  then obtain n where n: "vmap_part p b resid s = Some (Some (leaf_blocks (disk s dev) xs b n), s)" "0 < n" "n \<le> resid"
    using vmap_part_ok [OF assms Suc.prems(1) _ Suc.prems(3)] unfolding leaf_blocks_def by blast
  show ?case
  proof (cases "t_groupmode s \<and> resid > n")
    case True
    have "b + int n + int (resid - n) \<le> MAXBLOCK" "0 < resid - n" "resid - n \<le> fuel"
      using Suc.prems n True by auto
    then obtain m where m: "vmap_more fuel p (b + int n) (resid - n) (acc @ leaf_blocks (disk s dev) xs b n) s =
        Some (Some ((acc @ leaf_blocks (disk s dev) xs b n) @ leaf_blocks (disk s dev) xs (b + int n) m), s)" "0 < m" "m \<le> resid - n"
      using Suc.IH [of "b + int n" "resid - n" "acc @ leaf_blocks (disk s dev) xs b n"] Suc.prems(1) by auto
    then have "vmap_more (Suc fuel) p b resid acc s = Some (Some (acc @ leaf_blocks (disk s dev) xs b (n + m)), s)"
      using n True by (simp add: leaf_blocks_append)
    moreover have "0 < n + m" "n + m \<le> resid" using m n by auto
    ultimately show ?thesis by blast
  next
    case False
    then have "vmap_more (Suc fuel) p b resid acc s = Some (Some (acc @ leaf_blocks (disk s dev) xs b n), s)"
      using n(1) by auto
    then show ?thesis using n by blast
  qed
qed simp

lemma vmap_ok:
  fixes s :: "'a fio_state_scheme"
  assumes "tree_ok (disk s dev) xs F" "\<forall>b. (dev, b) \<notin> set (lost_bufs s)" "i_dev (inodes s p) = dev"
    "i_addr (inodes s p) = xs" "0 \<le> b" "b + int m \<le> MAXBLOCK" "0 < m"
  shows "\<exists>n. vmap p b m s = Some (Some (leaf_blocks (disk s dev) xs b n), s) \<and> 0 < n \<and> n \<le> m"
  using vmap_more_ok [OF assms order_refl, of "[]"] assms(5) by (simp add: vmap_def)

section \<open>Reading\<close>

lemma read_group_ok:
  fixes s :: "'a fio_state_scheme"
  assumes "tree_ok (disk s dev) xs F" "\<forall>b. (dev, b) \<notin> set (lost_bufs s)" "i_dev (inodes s p) = dev"
    "i_addr (inodes s p) = xs" "0 \<le> lbn" "lbn < maxblk" "maxblk \<le> MAXBLOCK" "0 < res" "0 \<le> ra"
  shows "\<exists>n. read_group False p lbn res ra maxblk s = Some (Some (leaf_blocks (disk s dev) xs lbn n), s) \<and>
    0 < n \<and> lbn + int n \<le> maxblk"
proof -
  define c0 where "c0 = min (blockn (res + 511) + ra) 24"
  define m where "m = (if lbn + c0 \<ge> maxblk then maxblk - lbn else c0)"
  have "1 \<le> blockn (res + 511)" using assms(8) by (simp add: blockn_def)
  then have "0 < c0" using assms(9) by (simp add: c0_def)
  then have m: "0 < m" "lbn + m \<le> maxblk" using assms(6) by (auto simp: m_def)
  then obtain n where n: "vmap p lbn (nat m) s = Some (Some (leaf_blocks (disk s dev) xs lbn n), s)" "0 < n" "n \<le> nat m"
    using vmap_ok [OF assms(1-5), of "nat m"] assms(7) by auto
  then have "read_group False p lbn res ra maxblk s = Some (Some (leaf_blocks (disk s dev) xs lbn n), s)"
    by (simp add: read_group_def Let_def c0_def [symmetric] m_def [symmetric])
  then show ?thesis using n m by auto
qed

text \<open>One leaf: what is read there, whether it is a hole or a block.\<close>

lemma read_leaf:
  fixes s :: "'a fs_state_scheme"
  assumes "tree_ok (disk s dev) xs F" "\<forall>b. (dev, b) \<notin> set (lost_bufs s)" "0 \<le> lbn" "lbn < MAXBLOCK"
    "\<And>q. good q \<Longrightarrow> entry (disk s dev) xs q \<noteq> EMPTY_BLOCK"
  shows "(if block_at (entry (disk s dev) xs (path_of lbn)) = EMPTY_BLOCK then Some (Some (replicate 512 0), s)
      else bread dev (block_at (entry (disk s dev) xs (path_of lbn))) s) =
    Some (Some (file_block (disk s dev) xs (path_of lbn)), s)"
    "length (file_block (disk s dev) xs (path_of lbn)) = BSIZE"
    "block_at (entry (disk s dev) xs (path_of lbn)) = EMPTY_BLOCK \<longleftrightarrow> entry (disk s dev) xs (path_of lbn) = 0"
proof -
  let ?e = "entry (disk s dev) xs (path_of lbn)"
  have g: "good (path_of lbn)" using path_of_leaf(1) [OF assms(3,4)] by (simp add: leaf_def)
  have n: "?e \<noteq> EMPTY_BLOCK" using assms(5) [OF g] .
  show "block_at ?e = EMPTY_BLOCK \<longleftrightarrow> ?e = 0" using n by (simp add: block_at_def)
  have "?e \<noteq> 0 \<Longrightarrow> \<exists>blk. bread dev ?e s = Some (Some blk, s) \<and> disk s dev ?e = Some blk \<and> length blk = BSIZE"
    by (rule bread_entry [OF assms(1,2) g])
  then show "(if block_at ?e = EMPTY_BLOCK then Some (Some (replicate 512 0), s) else bread dev (block_at ?e) s) =
    Some (Some (file_block (disk s dev) xs (path_of lbn)), s)"
    "length (file_block (disk s dev) xs (path_of lbn)) = BSIZE"
    using n by (auto simp: block_at_def file_block_def hole_block_def)
qed

definition readable :: "'a ino_state_scheme \<Rightarrow> nat \<Rightarrow> int set \<Rightarrow> bool" where
  "readable s p F \<longleftrightarrow> tree_ok (disk s (i_dev (inodes s p))) (i_addr (inodes s p)) F \<and>
     (\<forall>b. (i_dev (inodes s p), b) \<notin> set (lost_bufs s)) \<and>
     (\<forall>q. good q \<longrightarrow> 0 \<le> entry (disk s (i_dev (inodes s p))) (i_addr (inodes s p)) q)"

lemma readable_entry:
  assumes "readable s p F" "good q"
  shows "entry (disk s (i_dev (inodes s p))) (i_addr (inodes s p)) q \<noteq> EMPTY_BLOCK"
proof -
  have "0 \<le> entry (disk s (i_dev (inodes s p))) (i_addr (inodes s p)) q" using assms by (simp add: readable_def)
  then show ?thesis by simp
qed

lemma fread_loop_ok:
  fixes s :: "'a fio_state_scheme"
  assumes r: "readable s p F" and u: "u_error s = E_NONE" and mb: "maxblk \<le> MAXBLOCK" and ra: "0 \<le> ra"
    and d: "d = disk s (i_dev (inodes s p))" and xs: "xs = i_addr (inodes s p)"
  shows "grp = leaf_blocks d xs lbn n \<Longrightarrow> lbn + int n \<le> maxblk \<Longrightarrow> 0 \<le> lbn \<Longrightarrow> off < 512 \<Longrightarrow> 0 < res \<Longrightarrow>
    512 * lbn + int off + res \<le> 512 * maxblk \<Longrightarrow> nat res \<le> fuel \<Longrightarrow>
    \<exists>lb. fread_loop fuel False (i_dev (inodes s p)) p ra maxblk grp lbn off res iop s =
      Some (iop\<lparr>io_ioc := io_ioc iop - res, io_into := io_into iop @ file_bytes d xs (512 * lbn + int off) (nat res)\<rparr>,
            upd_inode (\<lambda>i. i\<lparr>i_lastblock := lb\<rparr>) p s)"
proof (induction fuel arbitrary: grp lbn n off res iop)
  case (Suc fuel)
  let ?dev = "i_dev (inodes s p)"
  have t: "tree_ok (disk s ?dev) xs F" "\<forall>b. (?dev, b) \<notin> set (lost_bufs s)" using r by (simp_all add: readable_def xs)
  have lt: "lbn < maxblk" using Suc.prems(4,5,6) by linarith
  have g: "\<exists>n. (if grp = [] then read_group False p lbn res ra maxblk s else Some (Some grp, s)) =
      Some (Some (leaf_blocks d xs lbn (Suc n)), s) \<and> lbn + int (Suc n) \<le> maxblk"
  proof (cases "grp = []")
    case True
    obtain m where m: "read_group False p lbn res ra maxblk s = Some (Some (leaf_blocks d xs lbn m), s)" "0 < m" "lbn + int m \<le> maxblk"
      using read_group_ok [OF t refl xs [symmetric] Suc.prems(3) lt mb Suc.prems(5) ra] unfolding d by blast
    then obtain m' where "m = Suc m'" by (cases m) auto
    then show ?thesis using m True by auto
  next
    case False
    then obtain m where "n = Suc m" using Suc.prems(1) by (cases n) (auto simp: leaf_blocks_def)
    then show ?thesis using Suc.prems(1,2) False by auto
  qed
  then obtain m where m: "(if grp = [] then read_group False p lbn res ra maxblk s else Some (Some grp, s)) =
      Some (Some (block_at (entry d xs (path_of lbn)) # leaf_blocks d xs (lbn + 1) m), s)" "lbn + 1 + int m \<le> maxblk"
    by (auto simp: leaf_blocks_Suc)
  have lm: "lbn < MAXBLOCK" using lt mb by simp
  have ne: "\<And>q. good q \<Longrightarrow> entry (disk s ?dev) xs q \<noteq> EMPTY_BLOCK" using readable_entry [OF r] by (simp add: xs)
  note rl = read_leaf [OF t Suc.prems(3) lm ne, folded d]
  define k where "k = min (nat res) (512 - off)"
  define v where "v = file_block d xs (path_of lbn)"
  have v: "take k (drop off v) = file_bytes d xs (512 * lbn + int off) k" "length v = 512"
    using file_bytes_piece [of d xs lbn off k] rl(2) Suc.prems(4) by (simp_all add: v_def k_def)
  have hole: "v = replicate 512 0" if "block_at (entry d xs (path_of lbn)) = EMPTY_BLOCK"
    using that rl(3) by (simp add: v_def file_block_def hole_block_def)
  define iop1 where "iop1 = iop\<lparr>io_ioc := io_ioc iop - int k, io_into := io_into iop @ file_bytes d xs (512 * lbn + int off) k\<rparr>"
  have kk: "length (take k (drop off v)) = k" using v by simp
  have io: "(if block_at (entry d xs (path_of lbn)) = EMPTY_BLOCK then ioclear iop k else iowrite iop (take k (drop off v))) = iop1"
  proof (cases "block_at (entry d xs (path_of lbn)) = EMPTY_BLOCK")
    case True
    have "take k (drop off v) = replicate k 0" using hole [OF True] by (simp add: k_def)
    then show ?thesis using True v(1) by (simp add: ioclear_def iop1_def)
  next
    case False
    then show ?thesis using kk v(1) by (simp add: iowrite_def iop1_def)
  qed
  have step: "fread_loop (Suc fuel) False ?dev p ra maxblk grp lbn off res iop s =
      (if res - int k > 0
       then fread_loop fuel False ?dev p ra maxblk (leaf_blocks d xs (lbn + 1) m) (lbn + 1) 0 (res - int k) iop1 s
       else Some (iop1, upd_inode (\<lambda>i. i\<lparr>i_lastblock := lbn\<rparr>) p s))"
    using m(1) rl(1) io u by (simp add: k_def [symmetric] v_def [symmetric] Let_def)
  show ?case
  proof (cases "res - int k > 0")
    case True
    then have k: "int k = 512 - int off" using Suc.prems(4) by (auto simp: k_def)
    have "nat (res - int k) \<le> fuel" using Suc.prems(4,5,7) k by linarith
    moreover have "512 * (lbn + 1) + int 0 + (res - int k) \<le> 512 * maxblk" using Suc.prems(6) k by simp
    ultimately obtain lb where lb: "fread_loop fuel False ?dev p ra maxblk (leaf_blocks d xs (lbn + 1) m) (lbn + 1) 0 (res - int k) iop1 s =
        Some (iop1\<lparr>io_ioc := io_ioc iop1 - (res - int k),
                   io_into := io_into iop1 @ file_bytes d xs (512 * (lbn + 1) + int 0) (nat (res - int k))\<rparr>,
              upd_inode (\<lambda>i. i\<lparr>i_lastblock := lb\<rparr>) p s)"
      using Suc.IH [OF refl m(2) _ _ True, of 0 iop1] Suc.prems(3) by auto
    have "512 * (lbn + 1) + int 0 = 512 * lbn + int off + int k" using k by simp
    then have "file_bytes d xs (512 * lbn + int off) k @ file_bytes d xs (512 * (lbn + 1) + int 0) (nat (res - int k)) =
        file_bytes d xs (512 * lbn + int off) (k + nat (res - int k))"
      using file_bytes_append by metis
    moreover have "k + nat (res - int k) = nat res" using True by linarith
    ultimately show ?thesis using step True lb by (auto simp: iop1_def)
  next
    case False
    then have "k = nat res" by (auto simp: k_def)
    then show ?thesis using step False Suc.prems(5) by (auto simp: iop1_def)
  qed
qed simp

definition bytes_left :: "inode \<Rightarrow> io \<Rightarrow> nat" where
  "bytes_left i iop = nat (min (i_size i - io_seek iop) (io_ioc iop))"

lemma fread_result:
  fixes s :: "'a fio_state_scheme"
  assumes "readable s p F" "u_error s = E_NONE" "i_type (inodes s p) \<noteq> IFBLK" "0 \<le> io_seek iop" "0 \<le> io_ioc iop"
    "i_size (inodes s p) \<le> 512 * MAXBLOCK"
  shows "\<exists>lb. fread p iop s =
    Some (iop\<lparr>io_ioc := io_ioc iop - int (bytes_left (inodes s p) iop),
              io_into := io_into iop @ file_bytes (disk s (i_dev (inodes s p))) (i_addr (inodes s p)) (io_seek iop)
                (bytes_left (inodes s p) iop)\<rparr>,
          upd_inode (\<lambda>i. i\<lparr>i_lastblock := lb\<rparr>) p s)"
proof -
  let ?i = "inodes s p"
  have same: "upd_inode (\<lambda>i. i\<lparr>i_lastblock := i_lastblock ?i\<rparr>) p s = s"
    by (simp add: upd_inode_def)
  consider (past) "io_seek iop > i_size ?i" | (none) "io_seek iop \<le> i_size ?i" "bytes_left ?i iop = 0"
    | (some) "io_seek iop \<le> i_size ?i" "0 < bytes_left ?i iop" by linarith
  then show ?thesis
  proof cases
    case past
    then have "bytes_left ?i iop = 0" by (simp add: bytes_left_def)
    then show ?thesis using past assms(3) same by (intro exI [of _ "i_lastblock ?i"]) (simp add: fread_def file_bytes_def)
  next
    case none
    then have "min (i_size ?i - io_seek iop) (io_ioc iop) = 0" using assms(5) by (simp add: bytes_left_def)
    then show ?thesis using none assms(3) same by (intro exI [of _ "i_lastblock ?i"]) (simp add: fread_def file_bytes_def Let_def)
  next
    case some
    define res where "res = min (i_size ?i - io_seek iop) (io_ioc iop)"
    have res: "0 < res" "nat res = bytes_left ?i iop" using some(2) by (simp_all add: res_def bytes_left_def)
    define ra where "ra = (if blockn (io_seek iop) = i_lastblock ?i + 1 then max 0 (t_readahead s) else 0)"
    have seek: "512 * blockn (io_seek iop) + int (blocko (io_seek iop)) = io_seek iop" "0 \<le> blockn (io_seek iop)"
      "blocko (io_seek iop) < 512" using assms(4) by (simp_all add: blockn_def blocko_def nat_less_iff pos_imp_zdiv_nonneg_iff)
    have mb: "blockn (i_size ?i + 511) \<le> MAXBLOCK" using assms(6) by (simp add: blockn_def)
    have "512 * blockn (io_seek iop) + int (blocko (io_seek iop)) + res \<le> i_size ?i" using seek by (simp add: res_def)
    also have "i_size ?i \<le> 512 * blockn (i_size ?i + 511)" by (simp add: blockn_def)
    finally have e: "512 * blockn (io_seek iop) + int (blocko (io_seek iop)) + res \<le> 512 * blockn (i_size ?i + 511)" .
    have lt: "blockn (io_seek iop) \<le> blockn (i_size ?i + 511)" using e res(1) seek(3) by linarith
    have "0 \<le> ra" by (simp add: ra_def)
    obtain lb where "fread_loop (nat res) False (i_dev ?i) p ra (blockn (i_size ?i + 511)) [] (blockn (io_seek iop))
        (blocko (io_seek iop)) res iop s =
      Some (iop\<lparr>io_ioc := io_ioc iop - res,
              io_into := io_into iop @ file_bytes (disk s (i_dev ?i)) (i_addr ?i) (512 * blockn (io_seek iop) + int (blocko (io_seek iop))) (nat res)\<rparr>,
            upd_inode (\<lambda>i. i\<lparr>i_lastblock := lb\<rparr>) p s)"
      using fread_loop_ok [OF assms(1,2) mb \<open>0 \<le> ra\<close> refl refl, of "[]" "blockn (io_seek iop)" 0
          "blocko (io_seek iop)" res "nat res" iop] lt seek(2,3) res(1) e
      by (auto simp: leaf_blocks_def)
    then show ?thesis using some assms(3) res seek(1)
      by (intro exI [of _ lb]) (simp add: fread_def Let_def res_def [symmetric] ra_def [symmetric])
  qed
qed

end
