(* ===== verification/File_Writing.thy ===== *)
theory File_Writing
  imports File_Reading
begin

text \<open>
  Writing a file. \<open>aread\<close> brings in the leaf that is to be changed, with the missing blocks on the way to
  it taken from the free list; the tree stays well-formed and the contents stay the same (\<open>file_ok\<close>).
  \<open>fwrite\<close> changes the bytes it was given and nothing else, up to the end or until the file system is full.
\<close>

section \<open>Frames\<close>

lemma inodes_more:
  fixes s s' :: "'a ino_state_scheme"
  shows "fs_state.more s' = fs_state.more s \<Longrightarrow> inodes s' = inodes s"
  by (cases s; cases s') simp

lemma balloc_more: "balloc dev s = Some (b, s') \<Longrightarrow> fs_state.more s' = fs_state.more s"
proof -
  have u: "fs_state.more (upd_super f k s) = fs_state.more s" "fs_state.more (set_flock c k s) = fs_state.more s"
    for f k c and s :: "'b fs_state_scheme" by (simp_all add: super_upd)
  have g: "getment dev f s = (r, s') \<Longrightarrow> fs_state.more s' = fs_state.more s" for r f and s s' :: "'b fs_state_scheme"
    by (auto simp: getment_def split: option.splits prod.splits if_splits)
  have "balloc_refill dev k b s = Some (r, s') \<Longrightarrow> fs_state.more s' = fs_state.more s" for k b r and s s' :: "'a fs_state_scheme"
    by (auto simp: balloc_refill_def read_free_block_list_def bread_def Let_def u split: option.splits if_splits)
  then show "balloc dev s = Some (b, s') \<Longrightarrow> fs_state.more s' = fs_state.more s"
    by (fastforce simp: balloc_def balloc_fails_def Let_def u split: option.splits prod.splits if_splits bool.splits dest: g)
qed

lemma bput_ok:
  assumes "free_ok dev k s bs" "b \<notin> set bs"
  shows "\<exists>s'. bput dev b v s = Some s' \<and> free_ok dev k s' bs \<and> disk s' dev = (disk s dev)(b := Some v) \<and>
    fs_state.more s' = fs_state.more s \<and> u_error s' = u_error s"
proof -
  note f = free_okD [OF assms(1)]
  define s' where "s' = s\<lparr>disk := (disk s)(dev := (disk s dev)(b := Some v))\<rparr>"
  have "bput dev b v s = Some s'" using f(4) by (simp add: bput_def s'_def)
  moreover have "free_ok dev k s' bs"
  proof (rule free_ok_step [OF assms(1)])
    show "mountp s' = (mountp s)[k := mountp s ! k]" by (simp add: s'_def)
    show "chain (disk s' dev) (s_nfree (m_super (mountp s ! k))) (s_free (m_super (mountp s ! k))) bs"
      using f(5) assms(2) by (auto intro: chain_disk simp: s'_def super_at_def)
  qed (use f in \<open>simp_all add: same_mount_def super_at_def s'_def\<close>)
  ultimately show ?thesis by (simp add: s'_def)
qed

lemma free_ok_transfer:
  assumes "free_ok dev k s bs" "mountp s' = mountp s" "disk s' dev = disk s dev" "lost_bufs s' = lost_bufs s"
  shows "free_ok dev k s' bs"
  using free_okD [OF assms(1)] assms(2-4) getment_SomeD [of dev True s k s] getment_SomeI [of k s' dev True]
  by (simp add: free_ok_def super_at_def)

section \<open>The tree and the free list\<close>

definition sound :: "(int \<Rightarrow> block option) \<Rightarrow> int list \<Rightarrow> int set \<Rightarrow> bool" where
  "sound d xs F \<longleftrightarrow> tree_ok d xs F \<and> (\<forall>p. good p \<longrightarrow> 0 \<le> entry d xs p)"

definition same_file :: "(int \<Rightarrow> block option) \<Rightarrow> int list \<Rightarrow> (int \<Rightarrow> block option) \<Rightarrow> int list \<Rightarrow> bool" where
  "same_file d xs d' xs' \<longleftrightarrow> (\<forall>p. leaf p \<longrightarrow> file_block d' xs' p = file_block d xs p)"

lemma same_file_refl [simp]: "same_file d xs d xs"
  by (simp add: same_file_def)

lemma same_file_trans: "same_file d xs d' xs' \<Longrightarrow> same_file d' xs' d'' xs'' \<Longrightarrow> same_file d xs d'' xs''"
  by (simp add: same_file_def)

lemma free_block:
  assumes "free_ok dev k s (b # bs)"
  shows "0 < b" "int32 b" "b \<notin> set bs" "set (b # bs) - {b} = set bs"
  using free_okD(6) [OF assms] by (auto simp: range_ok_def int32_def)

text \<open>A file without indirect blocks.\<close>

lemma entry_flat:
  assumes "good p" "\<forall>r. ND \<le> r \<and> r < NADDR \<longrightarrow> xs ! r = 0"
  shows "entry d xs p = (if length p = 1 then xs ! hd p else 0)"
proof -
  obtain r js where p: "p = r # js" using assms(1) by (cases p) (auto simp: good_def)
  show ?thesis
  proof (cases js)
    case (Cons j js')
    then have "ND \<le> r" "r < NADDR" using assms(1) p by (auto simp: good_def depth_def split: if_splits)
    then show ?thesis using assms(2) p Cons by simp
  qed (use p in simp)
qed

lemma sound_flat:
  assumes "length xs = NADDR" "\<forall>r. ND \<le> r \<and> r < NADDR \<longrightarrow> xs ! r = 0"
    "\<forall>r<ND. xs ! r \<noteq> 0 \<longrightarrow> 0 < xs ! r \<and> xs ! r \<notin> F \<and> (\<exists>blk. d (xs ! r) = Some blk \<and> length blk = BSIZE)"
    "\<forall>r<ND. \<forall>r'<ND. xs ! r \<noteq> 0 \<and> xs ! r = xs ! r' \<longrightarrow> r = r'"
  shows "sound d xs F"
proof -
  have e: "length p = 1 \<and> hd p < ND \<and> p = [hd p] \<and> entry d xs p = xs ! hd p" if "good p" "entry d xs p \<noteq> 0" for p
  proof -
    have l: "length p = 1" using entry_flat [OF that(1) assms(2), of d] that(2) by (simp split: if_splits)
    then obtain r where p: "p = [r]" by (auto simp: length_Suc_conv)
    then have "r < NADDR" using that(1) by simp
    then have "r < ND" using that(2) assms(2) p by (metis entry.simps(2) not_le)
    then show ?thesis using p by simp
  qed
  have pos: "0 \<le> entry d xs p" if "good p" for p
    using e [OF that] assms(3) by (cases "entry d xs p = 0") auto
  have "tree_ok d xs F"
    unfolding tree_ok_def
  proof (intro conjI allI impI)
    fix p assume "good p \<and> entry d xs p \<noteq> 0"
    then show "entry d xs p \<notin> F" "\<exists>blk. d (entry d xs p) = Some blk \<and> length blk = BSIZE"
      using e [of p] assms(3) by auto
  next
    fix p q assume h: "good p \<and> good q \<and> entry d xs p \<noteq> 0 \<and> entry d xs p = entry d xs q"
    then have "hd p = hd q" using e [of p] e [of q] assms(4) by metis
    then show "p = q" using h e [of p] e [of q] by metis
  qed (rule assms(1))
  then show ?thesis using pos by (simp add: sound_def)
qed

text \<open>A new block at the inode and at an indirect block.\<close>

lemma sound_root:
  assumes "sound d xs (set (b # bs))" "free_ok dev k s (b # bs)" "r < NADDR" "xs ! r = 0"
    and d': "d' = d(b := Some hole_block)"
  shows "sound d' (xs[r := b]) (set bs)" "same_file d xs d' (xs[r := b])"
    "entry d' (xs[r := b]) [r] = b"
proof -
  note b = free_block [OF assms(2)]
  have t: "tree_ok d xs (set (b # bs))" "length xs = NADDR" using assms(1) by (simp_all add: sound_def tree_ok_def)
  have g: "grafted d xs [r] b d' (xs[r := b])"
    unfolding d' using graft_root [OF t(1) assms(3,4)] b(1) by simp
  have bs: "b \<in> set (b # bs)" "b \<noteq> 0" "good [r]" "entry d xs [r] = 0" "length (xs[r := b]) = NADDR"
    using b(1) assms(3,4) t(2) by simp_all
  have rd: "\<forall>p. good p \<and> entry d xs p \<noteq> 0 \<longrightarrow>
      (\<exists>blk. d' (entry d xs p) = Some blk \<and> length blk = BSIZE)"
    unfolding d' using tree_okD(2) [OF t(1)] by (auto simp: hole_block_def)
  note ok = grafted_ok [OF t(1) g bs rd]
  show "same_file d xs d' (xs[r := b])" unfolding same_file_def using ok(2) by blast
  show "sound d' (xs[r := b]) (set bs)"
    using ok(1) b(1,4) g assms(1) by (simp add: sound_def grafted_def)
  show "entry d' (xs[r := b]) [r] = b" using assms(3) t(2) by simp
qed

lemma sound_indirect:
  assumes "sound d xs (set (b # bs))" "free_ok dev k s (b # bs)" "good q" "\<not> leaf q" "l < NBN" "entry d xs q = B" "B \<noteq> 0"
    "entry d xs (q @ [l]) = 0" "d B = Some blk"
    and d': "d' = d(B := Some (write_at (4 * l) (le32 (canl b)) blk), b := Some hole_block)"
  shows "sound d' xs (set bs)" "same_file d xs d' xs" "entry d' xs (q @ [l]) = b"
proof -
  note b = free_block [OF assms(2)]
  have t: "tree_ok d xs (set (b # bs))" "length xs = NADDR" using assms(1) by (simp_all add: sound_def tree_ok_def)
  have qn: "q \<noteq> []" using assms(3) by (auto simp: good_def)
  have gq: "good (q @ [l])" using assms(3-5) good_snoc [OF qn] by simp
  have g: "grafted d xs (q @ [l]) b d' xs"
    unfolding d' using graft_indirect [OF t(1) assms(3-8) _ _ b(2) assms(9)] b(1) by simp
  have bs: "b \<in> set (b # bs)" "b \<noteq> 0" using b(1) by simp_all
  have lb: "length blk = BSIZE" using tree_okD(2) [OF t(1) assms(3)] assms(6,7,9) by auto
  then have "length (write_at (4 * l) (le32 (canl b)) blk) = BSIZE" using assms(5) by (simp add: length_write_at)
  then have rd: "\<forall>p. good p \<and> entry d xs p \<noteq> 0 \<longrightarrow> (\<exists>blk. d' (entry d xs p) = Some blk \<and> length blk = BSIZE)"
    unfolding d' using tree_okD(2) [OF t(1)] by (auto simp: hole_block_def)
  note ok = grafted_ok [OF t(1) g bs gq assms(8) t(2) rd]
  show "same_file d xs d' xs" unfolding same_file_def using ok(2) by blast
  show "sound d' xs (set bs)"
    using ok(1) b(1,4) g assms(1) by (simp add: sound_def grafted_def)
  show "entry d' xs (q @ [l]) = b" using g gq by (simp add: grafted_def)
qed

section \<open>Bringing in a leaf\<close>

text \<open>
  The result of \<open>aread\<close> for the leaf at path \<open>g\<close>: the free list is exhausted, or a block number with the old
  contents; \<open>d1\<close> is the disk with these in place, which \<open>fwrite\<close> overwrites.
\<close>

definition brought :: "int \<Rightarrow> (int \<Rightarrow> block option) \<Rightarrow> int list \<Rightarrow> bool \<Rightarrow> nat list \<Rightarrow> errno \<Rightarrow> int list \<Rightarrow> int list \<Rightarrow>
    (int \<times> block option) option \<Rightarrow> 'a fs_state_scheme \<Rightarrow> bool" where
  "brought dev d xs claim g e xs' bs' r s' \<longleftrightarrow>
     (case r of
        None \<Rightarrow> u_error s' = ENOSPC \<and> bs' = [] \<and> sound (disk s' dev) xs' {} \<and> same_file d xs (disk s' dev) xs'
      | Some (b, old) \<Rightarrow> u_error s' = e \<and> b \<noteq> 0 \<and>
          old = (if claim then None else Some (file_block d xs g)) \<and>
          (\<exists>d1. (\<forall>c. c \<noteq> b \<longrightarrow> d1 c = disk s' dev c) \<and> sound d1 xs' (set bs') \<and> entry d1 xs' g = b \<and> same_file d xs d1 xs'))"

lemma brought_from:
  "same_file d0 xs0 d xs \<Longrightarrow> leaf g \<Longrightarrow> brought dev d xs claim g e xs' bs' r s' \<Longrightarrow> brought dev d0 xs0 claim g e xs' bs' r s'"
  by (fastforce simp: brought_def same_file_def split: option.splits prod.splits)

lemma aread_loop_ok:
  fixes s :: "'a fs_state_scheme"
  shows "free_ok dev k s bs \<Longrightarrow> d0 = (if aflag then (disk s dev)(block := Some hole_block) else disk s dev) \<Longrightarrow>
    sound d0 xs (set bs) \<Longrightarrow> entry d0 xs q = block \<Longrightarrow> block \<noteq> 0 \<Longrightarrow> q \<noteq> [] \<Longrightarrow> leaf (q @ rest) \<Longrightarrow>
    \<exists>r s' bs'. aread_loop dev block aflag rest claim s = Some (r, s') \<and> free_ok dev k s' bs' \<and> set bs' \<subseteq> set bs \<and>
      fs_state.more s' = fs_state.more s \<and> brought dev d0 xs claim (q @ rest) (u_error s) xs bs' r s'"
proof (induction rest arbitrary: block aflag q s bs d0)
  case Nil
  note f = free_okD [OF Nil.prems(1)]
  have q: "good q" "leaf q" using Nil.prems(7) by (simp_all add: leaf_def)
  have t: "tree_ok d0 xs (set bs)" using Nil.prems(3) by (simp add: sound_def)
  have fb: "file_block d0 xs q = the (d0 block)" using Nil.prems(4,5) by (simp add: file_block_def)
  obtain blk where blk: "d0 block = Some blk" using tree_okD(2) [OF t q(1)] Nil.prems(4,5) by auto
  show ?case
  proof (cases "\<not> aflag \<and> \<not> claim")
    case True
    then have "bread dev block s = Some (Some blk, s)" using blk Nil.prems(2) f(4) by (simp add: bread_def)
    then have "aread_loop dev block aflag [] claim s = Some (Some (block, Some blk), s)" using True by simp
    moreover have "brought dev d0 xs claim (q @ []) (u_error s) xs bs (Some (block, Some blk)) s"
      unfolding brought_def using True Nil.prems(2-5) blk fb by (auto intro!: exI [of _ d0])
    ultimately show ?thesis using Nil.prems(1) by blast
  next
    case False
    have "replicate 512 0 = the (d0 block)" if "\<not> claim" using that False Nil.prems(2) by (simp add: hole_block_def)
    then have "aread_loop dev block aflag [] claim s =
        Some (Some (block, if claim then None else Some (file_block d0 xs q)), s)" using False f(4) fb by auto
    moreover have "\<forall>c. c \<noteq> block \<longrightarrow> d0 c = disk s dev c" using Nil.prems(2) by simp
    then have "brought dev d0 xs claim (q @ []) (u_error s) xs bs (Some (block, if claim then None else Some (file_block d0 xs q))) s"
      unfolding brought_def using Nil.prems(3-5) by (auto intro!: exI [of _ d0])
    ultimately show ?thesis using Nil.prems(1) by blast
  qed
next
  case (Cons l rest)
  let ?g = "q @ l # rest"
  have t: "tree_ok d0 xs (set bs)" using Cons.prems(3) by (simp add: sound_def)
  have gl: "good (q @ [l])" using good_prefix [of "q @ [l]" rest] Cons.prems(7) by (simp add: leaf_def)
  then have q: "good q" "\<not> leaf q" "l < NBN" using good_snoc [OF Cons.prems(6)] by simp_all
  have lf: "leaf ((q @ [l]) @ rest)" using Cons.prems(7) by simp
  have nf: "block \<notin> set bs" using tree_okD(1) [OF t q(1)] Cons.prems(4,5) by simp
  obtain blk where blk: "d0 block = Some blk" using tree_okD(2) [OF t q(1)] Cons.prems(4,5) by auto
  have "\<exists>s1. (if aflag then map_option (\<lambda>s1. (Some (replicate 512 0), s1)) (bput dev block (replicate 512 0) s)
         else bread dev block s) = Some (Some blk, s1) \<and> free_ok dev k s1 bs \<and> disk s1 dev = d0 \<and>
       fs_state.more s1 = fs_state.more s \<and> u_error s1 = u_error s"
  proof (cases aflag)
    case True
    obtain s1 where "bput dev block (replicate 512 0) s = Some s1" "free_ok dev k s1 bs"
      "disk s1 dev = (disk s dev)(block := Some (replicate 512 0))" "fs_state.more s1 = fs_state.more s" "u_error s1 = u_error s"
      using bput_ok [OF Cons.prems(1) nf] by blast
    then show ?thesis using True Cons.prems(2) blk by (auto simp: hole_block_def)
  next
    case False
    then show ?thesis using Cons.prems(1,2) free_okD(4) [OF Cons.prems(1)] blk by (simp add: bread_def)
  qed
  then obtain s1 where s1: "(if aflag then map_option (\<lambda>s1. (Some (replicate 512 0), s1)) (bput dev block (replicate 512 0) s)
         else bread dev block s) = Some (Some blk, s1)" "free_ok dev k s1 bs" "disk s1 dev = d0"
       "fs_state.more s1 = fs_state.more s" "u_error s1 = u_error s" by blast
  have e: "entry d0 xs (q @ [l]) = indirects blk ! l" using Cons.prems(4,5,6) blk by (simp add: entry_snoc)
  show ?case
  proof (cases "indirects blk ! l = 0")
    case False
    obtain r s' bs' where r: "aread_loop dev (indirects blk ! l) False rest claim s1 = Some (r, s')" "free_ok dev k s' bs'"
      "set bs' \<subseteq> set bs" "fs_state.more s' = fs_state.more s1" "brought dev d0 xs claim ((q @ [l]) @ rest) (u_error s1) xs bs' r s'"
      using Cons.IH [OF s1(2) _ Cons.prems(3) e False _ lf, of False] s1(3) by auto
    have "aread_loop dev block aflag (l # rest) claim s = Some (r, s')"
      using s1(1) r(1) False q(3) by (simp add: longs_canl)
    then show ?thesis using r s1(4,5) by auto
  next
    case True
    show ?thesis
    proof (cases bs)
      case Nil
      obtain s2 where s2: "balloc dev s1 = Some (0, s2)" "free_ok dev k s2 []" "u_error s2 = ENOSPC" "disk s2 = disk s1"
        using balloc_ok [OF s1(2)] Nil by auto
      have "aread_loop dev block aflag (l # rest) claim s = Some (None, s2)"
        using s1(1) s2(1) True q(3) by (simp add: longs_canl)
      moreover have "brought dev d0 xs claim ?g (u_error s) xs [] None s2"
        using s2(3,4) s1(3) Cons.prems(3) Nil by (simp add: brought_def)
      ultimately show ?thesis using s2(2) balloc_more [OF s2(1)] s1(4) Nil by auto
    next
      case (Cons b bs1)
      obtain s2 where s2: "balloc dev s1 = Some (b, s2)" "free_ok dev k s2 bs1" "u_error s2 = u_error s1" "disk s2 = disk s1"
        using balloc_ok [OF s1(2)] Cons by auto
      have rd: "bread dev block s2 = Some (Some blk, s2)"
        using free_okD(4) [OF s2(2)] s2(4) s1(3) blk by (simp add: bread_def)
      obtain s4 where s4: "bput dev block (write_at (4 * l) (le32 (canl b)) blk) s2 = Some s4" "free_ok dev k s4 bs1"
        "disk s4 dev = (disk s2 dev)(block := Some (write_at (4 * l) (le32 (canl b)) blk))" "fs_state.more s4 = fs_state.more s2"
        "u_error s4 = u_error s2"
        using bput_ok [OF s2(2), of block] nf Cons by auto
      define d' where "d' = d0(block := Some (write_at (4 * l) (le32 (canl b)) blk), b := Some hole_block)"
      have d4: "d' = (if True then (disk s4 dev)(b := Some hole_block) else disk s4 dev)"
        using s4(3) s2(4) s1(3) by (simp add: d'_def)
      have sb: "sound d0 xs (set (b # bs1))" "free_ok dev k s1 (b # bs1)" using Cons.prems(3) s1(2) Cons by simp_all
      note si = sound_indirect [OF sb q Cons.prems(4,5) _ blk d'_def]
      have z: "entry d0 xs (q @ [l]) = 0" using e True by simp
      have b: "b \<noteq> 0" using free_block [OF sb(2)] by simp
      obtain r s' bs' where r: "aread_loop dev b True rest claim s4 = Some (r, s')" "free_ok dev k s' bs'"
        "set bs' \<subseteq> set bs1" "fs_state.more s' = fs_state.more s4" "brought dev d' xs claim ((q @ [l]) @ rest) (u_error s4) xs bs' r s'"
        using Cons.IH [OF s4(2) d4 si(1,3) b _ lf] z by auto
      have "aread_loop dev block aflag (l # rest) claim s = Some (r, s')"
        using s1(1) s2(1) rd s4(1) r(1) b True q(3) by (simp add: longs_canl)
      moreover have "brought dev d0 xs claim ?g (u_error s) xs bs' r s'"
        using brought_from [OF si(2) [OF z] lf r(5)] s4(5) s2(3) s1(5) by simp
      ultimately show ?thesis using r(2-4) s4(4) balloc_more [OF s2(1)] s1(4) Cons by auto
    qed
  qed
qed

text \<open>The file \<open>p\<close> on the file system with the free blocks \<open>bs\<close>.\<close>

definition file_ok :: "'a ino_state_scheme \<Rightarrow> nat \<Rightarrow> nat \<Rightarrow> int list \<Rightarrow> bool" where
  "file_ok s p k bs \<longleftrightarrow> free_ok (i_dev (inodes s p)) k s bs \<and>
     sound (disk s (i_dev (inodes s p))) (i_addr (inodes s p)) (set bs)"

lemma free_ok_upd_inode [simp]: "free_ok dev k (upd_inode f p s) bs = free_ok dev k s bs"
  by (simp add: free_ok_def upd_inode_def getment_def super_at_def split: option.splits prod.splits)

lemma upd_inode_simps [simp]:
  "disk (upd_inode f p s) = disk s" "u_error (upd_inode f p s) = u_error s" "lost_bufs (upd_inode f p s) = lost_bufs s"
  "inodes (upd_inode f p s) = (inodes s)(p := f (inodes s p))"
  by (simp_all add: upd_inode_def)

lemma path_last: "leaf g \<Longrightarrow> rev list = g \<Longrightarrow> last list = hd g \<and> tl (rev list) = tl g \<and> hd g # tl g = g \<and> hd g < NADDR"
  by (cases g) (auto simp: leaf_def good_def)

lemma aread_ok:
  fixes s :: "'a ino_state_scheme"
  assumes "file_ok s p k bs" "0 \<le> lbn" "lbn < MAXBLOCK" "i_dev (inodes s p) = dev" "i_addr (inodes s p) = xs"
  shows "\<exists>r s' bs' xs'. aread p lbn claim s = Some (r, s') \<and> free_ok dev k s' bs' \<and> set bs' \<subseteq> set bs \<and>
    inodes s' = (inodes s)(p := (inodes s p)\<lparr>i_addr := xs'\<rparr>) \<and>
    brought dev (disk s dev) xs claim (path_of lbn) (u_error s) xs' bs' r s'"
proof -
  obtain list n where l: "lmap lbn = Some (list, n)" using lmap_None [OF assms(2)] assms(3) by (cases "lmap lbn") auto
  define g where "g = path_of lbn"
  have lf: "leaf g" using path_of_leaf(1) [OF assms(2,3)] by (simp add: g_def)
  have "rev list = g" using l by (simp add: g_def path_of_def)
  note h = path_last [OF lf this]
  have fs: "free_ok dev k s bs" "sound (disk s dev) xs (set bs)" using assms(1,4,5) by (simp_all add: file_ok_def)
  have lg: "leaf ([hd g] @ tl g)" using lf h by simp
  have same: "(inodes s)(p := (inodes s p)\<lparr>i_addr := xs\<rparr>) = inodes s" using assms(5) by auto
  have eq: "aread p lbn claim s =
      (if xs ! hd g \<noteq> 0 then aread_loop dev (xs ! hd g) False (tl g) claim s
       else case balloc dev s of
              None \<Rightarrow> None
            | Some (b, s1) \<Rightarrow>
                if b = 0 then Some (None, s1)
                else aread_loop dev b True (tl g) claim (upd_inode (\<lambda>i. i\<lparr>i_addr := (i_addr i)[hd g := b]\<rparr>) p s1))"
    using assms(2,4,5) l h by (simp add: aread_def Let_def split: option.split)
  show ?thesis
  proof (cases "xs ! hd g = 0")
    case False
    obtain r s' bs' where r: "aread_loop dev (xs ! hd g) False (tl g) claim s = Some (r, s')" "free_ok dev k s' bs'"
      "set bs' \<subseteq> set bs" "fs_state.more s' = fs_state.more s" "brought dev (disk s dev) xs claim ([hd g] @ tl g) (u_error s) xs bs' r s'"
      using aread_loop_ok [where aflag = False and claim = claim, OF fs(1) _ fs(2) _ False _ lg] by auto
    have "inodes s' = inodes s" using inodes_more [OF r(4)] .
    moreover have "aread p lbn claim s = Some (r, s')" using eq r(1) False by simp
    ultimately show ?thesis using r(2,3,5) same h unfolding g_def [symmetric] by (metis append_Cons append_Nil)
  next
    case True
    show ?thesis
    proof (cases bs)
      case Nil
      obtain s1 where s1: "balloc dev s = Some (0, s1)" "free_ok dev k s1 []" "u_error s1 = ENOSPC" "disk s1 = disk s"
        using balloc_ok [OF fs(1)] Nil by auto
      have i: "inodes s1 = inodes s" using inodes_more [OF balloc_more [OF s1(1)]] .
      have "aread p lbn claim s = Some (None, s1)" using eq s1(1) True by simp
      moreover have "brought dev (disk s dev) xs claim (path_of lbn) (u_error s) xs [] None s1"
        using s1(3,4) fs(2) Nil by (simp add: brought_def)
      ultimately show ?thesis using s1(2) i same Nil by (metis order_refl)
    next
      case (Cons b bs1)
      obtain s1 where s1: "balloc dev s = Some (b, s1)" "free_ok dev k s1 bs1" "u_error s1 = u_error s" "disk s1 = disk s"
        using balloc_ok [OF fs(1)] Cons by auto
      have i: "inodes s1 = inodes s" using inodes_more [OF balloc_more [OF s1(1)]] .
      define s2 where "s2 = upd_inode (\<lambda>i. i\<lparr>i_addr := (i_addr i)[hd g := b]\<rparr>) p s1"
      have s2: "free_ok dev k s2 bs1" "u_error s2 = u_error s" "disk s2 = disk s"
        "inodes s2 = (inodes s)(p := (inodes s p)\<lparr>i_addr := xs[hd g := b]\<rparr>)"
        using s1 i assms(5) by (simp_all add: s2_def)
      define d' where "d' = (disk s dev)(b := Some hole_block)"
      have fb: "sound (disk s dev) xs (set (b # bs1))" "free_ok dev k s (b # bs1)" "hd g < NADDR" using fs Cons h by simp_all
      note sr = sound_root [OF fb True d'_def]
      have b: "b \<noteq> 0" using free_block(1) [OF fb(2)] by simp
      obtain r s' bs' where r: "aread_loop dev b True (tl g) claim s2 = Some (r, s')" "free_ok dev k s' bs'"
        "set bs' \<subseteq> set bs1" "fs_state.more s' = fs_state.more s2"
        "brought dev d' (xs[hd g := b]) claim ([hd g] @ tl g) (u_error s2) (xs[hd g := b]) bs' r s'"
        using aread_loop_ok [where aflag = True and claim = claim, OF s2(1) _ sr(1,3) b _ lg] s2(3) by (auto simp: d'_def)
      have "inodes s' = (inodes s)(p := (inodes s p)\<lparr>i_addr := xs[hd g := b]\<rparr>)" using inodes_more [OF r(4)] s2(4) by simp
      moreover have "aread p lbn claim s = Some (r, s')" using eq s1(1) r(1) True b by (simp add: s2_def)
      moreover have "brought dev (disk s dev) xs claim (path_of lbn) (u_error s) (xs[hd g := b]) bs' r s'"
        using brought_from [OF sr(2) lf] r(5) h s2(2) by (simp add: g_def)
      moreover have "set bs' \<subseteq> set bs" using r(3) Cons by auto
      ultimately show ?thesis using r(2) by blast
    qed
  qed
qed

section \<open>Changing bytes\<close>

definition kept_bytes :: "'a ino_state_scheme \<Rightarrow> nat \<Rightarrow> int \<Rightarrow> int" where
  "kept_bytes s p x = file_byte (disk s (i_dev (inodes s p))) (i_addr (inodes s p)) x"

text \<open>The bytes of \<open>s'\<close> are those of \<open>s\<close> with \<open>v\<close> at \<open>x\<close>.\<close>

definition bytes_written :: "'a ino_state_scheme \<Rightarrow> nat \<Rightarrow> int \<Rightarrow> int list \<Rightarrow> 'a ino_state_scheme \<Rightarrow> bool" where
  "bytes_written s p x v s' \<longleftrightarrow> (\<forall>y. 0 \<le> y \<and> y < 512 * MAXBLOCK \<longrightarrow>
     kept_bytes s' p y = (if x \<le> y \<and> y < x + int (length v) then v ! nat (y - x) else kept_bytes s p y))"

lemma bytes_written_append:
  assumes "bytes_written s p x v s1" "bytes_written s1 p (x + int (length v)) w s2"
  shows "bytes_written s p x (v @ w) s2"
proof -
  have "nat (y - x) - length v = nat (y - (x + int (length v)))" if "x + int (length v) \<le> y" for y using that by linarith
  moreover have "nat (y - x) < length v \<longleftrightarrow> y < x + int (length v)" if "x \<le> y" for y using that by linarith
  ultimately show ?thesis using assms by (auto simp: bytes_written_def nth_append)
qed

lemma bytes_written_none: "same_file (disk s (i_dev (inodes s p))) (i_addr (inodes s p))
    (disk s' (i_dev (inodes s' p))) (i_addr (inodes s' p)) \<Longrightarrow> bytes_written s p x [] s'"
  using path_of_leaf(1) by (auto simp: bytes_written_def kept_bytes_def file_byte_def same_file_def)

lemma nth_write_at:
  "off + length v \<le> length blk \<Longrightarrow> i < length blk \<Longrightarrow>
   write_at off v blk ! i = (if off \<le> i \<and> i < off + length v then v ! (i - off) else blk ! i)"
  by (auto simp: write_at_def nth_append)

lemma bytes_written_leaf:
  assumes lbn: "0 \<le> lbn" "lbn < MAXBLOCK" "off + length v \<le> 512"
    and blk: "length (file_block d xs (path_of lbn)) = BSIZE"
    and new: "\<And>g. leaf g \<Longrightarrow> file_block d' xs' g =
      (if g = path_of lbn then write_at off v (file_block d xs (path_of lbn)) else file_block d xs g)"
    and y: "0 \<le> y" "y < 512 * MAXBLOCK" and x: "x = 512 * lbn + int off"
  shows "file_byte d' xs' y = (if x \<le> y \<and> y < x + int (length v) then v ! nat (y - x) else file_byte d xs y)"
proof -
  have yb: "0 \<le> y div 512" "y div 512 < MAXBLOCK" "0 \<le> y mod 512" "y mod 512 < 512" "y = 512 * (y div 512) + y mod 512"
    using y by simp_all
  note l = path_of_leaf [OF yb(1,2)]
  show ?thesis
  proof (cases "y div 512 = lbn")
    case False
    then have "path_of (y div 512) \<noteq> path_of lbn" using l(2) path_of_leaf(2) [OF lbn(1,2)] by metis
    moreover have "\<not> (x \<le> y \<and> y < x + int (length v))"
    proof
      assume "x \<le> y \<and> y < x + int (length v)"
      then have "512 * lbn \<le> y \<and> y < 512 * lbn + 512" using x lbn(3) by linarith
      then show False using False by linarith
    qed
    ultimately show ?thesis using new [OF l(1)] by (simp only: file_byte_def if_False)
  next
    case True
    define i where "i = nat (y mod 512)"
    have i: "i < 512" "y = 512 * lbn + int i" using yb True by (simp_all add: i_def nat_less_iff)
    have "file_byte d' xs' y = write_at off v (file_block d xs (path_of lbn)) ! i"
      using new [OF l(1)] True by (simp add: file_byte_def i_def)
    also have "\<dots> = (if off \<le> i \<and> i < off + length v then v ! (i - off) else file_block d xs (path_of lbn) ! i)"
      by (rule nth_write_at) (use blk lbn(3) i(1) in simp_all)
    also have "\<dots> = (if x \<le> y \<and> y < x + int (length v) then v ! nat (y - x) else file_byte d xs y)"
      using i(2) x True by (auto simp: file_byte_def i_def [symmetric] nat_diff_distrib)
    finally show ?thesis .
  qed
qed

end
