(* ===== verification/Inode_Access.thy ===== *)
theory Inode_Access
  imports Pipes
begin

text \<open>
  Opening, closing, reading and writing through an inode, \<^verbatim>\<open>kernel/coh.386/fs3.c\<close>, the device
  switch, \<^verbatim>\<open>bio.c\<close>, the null device, \<^verbatim>\<open>null.c\<close>, and the read and write system calls,
  \<^verbatim>\<open>sys3.c\<close>. The configured drivers are the argument \<open>drvl\<close>, by major number and by whether the device is
  opened as a block device; what the entry points do besides is theirs. An operation on a pipe may sleep:
  \<open>env\<close> is what happens meanwhile, as in \<open>Pipes\<close>.
\<close>

section \<open>Devices\<close>

abbreviation (input) DFBLK :: int where "DFBLK \<equiv> 1"
abbreviation (input) DFCHR :: int where "DFCHR \<equiv> 2"
abbreviation (input) IPCLONE :: int where "IPCLONE \<equiv> 512"

definition major :: "int \<Rightarrow> int" where
  "major dev = drop_bit 8 dev AND 255"

definition minor :: "int \<Rightarrow> int" where
  "minor dev = dev AND 255"

record 's driver =
  c_flag :: int
  c_open :: "(int \<Rightarrow> int \<Rightarrow> int \<Rightarrow> nat \<Rightarrow> 's \<Rightarrow> nat \<times> 's) option"
  c_close :: "(int \<Rightarrow> int \<Rightarrow> int \<Rightarrow> 's \<Rightarrow> 's) option"
  c_read :: "(int \<Rightarrow> io \<Rightarrow> 's \<Rightarrow> io \<times> 's) option"
  c_write :: "(int \<Rightarrow> io \<Rightarrow> 's \<Rightarrow> io \<times> 's) option"

type_synonym 's driver_table = "int \<Rightarrow> bool \<Rightarrow> 's driver option"

definition drvmap :: "'a ustate_scheme driver_table \<Rightarrow> int \<Rightarrow> int \<Rightarrow> 'a ustate_scheme \<Rightarrow>
    'a ustate_scheme driver option \<times> 'a ustate_scheme" where
  "drvmap drvl dev flags s =
     (case drvl (major dev) (flags AND DFBLK \<noteq> 0) of
        None \<Rightarrow> (None, s\<lparr>u_error := ENXIO\<rparr>)
      | Some cp \<Rightarrow> (Some cp, s))"

definition dopen :: "'a ustate_scheme driver_table \<Rightarrow> int \<Rightarrow> int \<Rightarrow> int \<Rightarrow> nat \<Rightarrow> 'a ustate_scheme \<Rightarrow>
    nat \<times> 'a ustate_scheme" where
  "dopen drvl dev mode flags inodep s =
     (let clone = (major dev = 255 \<and> flags AND DFCHR \<noteq> 0);
          mode1 = (if clone then mode OR IPCLONE else mode);
          dev1 = (if clone then push_bit 8 (minor dev) else dev)
      in case drvmap drvl dev1 flags s of
           (None, s1) \<Rightarrow> (0, s1)
         | (Some cp, s1) \<Rightarrow>
             if c_flag cp AND flags = 0 then (0, s1\<lparr>u_error := ENXIO\<rparr>)
             else case c_open cp of
                    None \<Rightarrow> (inodep, s1)
                  | Some f \<Rightarrow> f dev1 mode1 flags inodep s1)"

definition dclose :: "'a ustate_scheme driver_table \<Rightarrow> int \<Rightarrow> int \<Rightarrow> int \<Rightarrow> 'a ustate_scheme \<Rightarrow> 'a ustate_scheme" where
  "dclose drvl dev mode flags s =
     (case drvmap drvl dev flags s of
        (None, s1) \<Rightarrow> s1
      | (Some cp, s1) \<Rightarrow> (case c_close cp of None \<Rightarrow> s1 | Some f \<Rightarrow> f dev mode flags s1))"

definition dread :: "'a ustate_scheme driver_table \<Rightarrow> int \<Rightarrow> io \<Rightarrow> 'a ustate_scheme \<Rightarrow> io \<times> 'a ustate_scheme" where
  "dread drvl dev iop s =
     (case drvmap drvl dev DFCHR s of
        (None, s1) \<Rightarrow> (iop, s1)
      | (Some cp, s1) \<Rightarrow> (case c_read cp of None \<Rightarrow> (iop, s1) | Some f \<Rightarrow> f dev iop s1))"

definition dwrite :: "'a ustate_scheme driver_table \<Rightarrow> int \<Rightarrow> io \<Rightarrow> 'a ustate_scheme \<Rightarrow> io \<times> 'a ustate_scheme" where
  "dwrite drvl dev iop s =
     (case drvmap drvl dev DFCHR s of
        (None, s1) \<Rightarrow> (iop, s1)
      | (Some cp, s1) \<Rightarrow> (case c_write cp of None \<Rightarrow> (iop, s1) | Some f \<Rightarrow> f dev iop s1))"

text \<open>Opening and closing the null device; only its minor number 6 looks at the mode.\<close>

definition nlopen :: "int \<Rightarrow> int \<Rightarrow> 'a ustate_scheme \<Rightarrow> 'a ustate_scheme" where
  "nlopen dev mode s = (if minor dev = 6 \<and> mode AND IPR \<noteq> IPR then s\<lparr>u_error := EACCES\<rparr> else s)"

definition nlclose :: "int \<Rightarrow> int \<Rightarrow> 'a ustate_scheme \<Rightarrow> 'a ustate_scheme" where
  "nlclose dev mode s = s"

text \<open>Reading and writing; the minor numbers other than 0 are memory and clock chips, \<open>rd\<close> and \<open>wr\<close>.\<close>

definition nlread :: "(int \<Rightarrow> io \<Rightarrow> 's \<Rightarrow> io \<times> 's) \<Rightarrow> int \<Rightarrow> io \<Rightarrow> 's \<Rightarrow> io \<times> 's" where
  "nlread rd dev iop s = (if minor dev = 0 then (iop, s) else rd dev iop s)"

definition nlwrite :: "(int \<Rightarrow> io \<Rightarrow> 's \<Rightarrow> io \<times> 's) \<Rightarrow> int \<Rightarrow> io \<Rightarrow> 's \<Rightarrow> io \<times> 's" where
  "nlwrite wr dev iop s = (if minor dev = 0 then (iop\<lparr>io_ioc := 0\<rparr>, s) else wr dev iop s)"

definition nlcon :: "(int \<Rightarrow> io \<Rightarrow> 'a ustate_scheme \<Rightarrow> io \<times> 'a ustate_scheme) \<Rightarrow>
    (int \<Rightarrow> io \<Rightarrow> 'a ustate_scheme \<Rightarrow> io \<times> 'a ustate_scheme) \<Rightarrow> 'a ustate_scheme driver" where
  "nlcon rd wr = \<lparr>c_flag = DFCHR, c_open = Some (\<lambda>dev mode flags ip s. (ip, nlopen dev mode s)),
     c_close = Some (\<lambda>dev mode flags s. nlclose dev mode s), c_read = Some (nlread rd), c_write = Some (nlwrite wr)\<rparr>"

section \<open>Opening and closing\<close>

definition pipe_option :: "('r, 's) pipe_result \<Rightarrow> ('r \<times> 's) option" where
  "pipe_option r = (case r of PipeDone x s \<Rightarrow> Some (x, s) | PipeAsleep _ \<Rightarrow> None | PipeStuck \<Rightarrow> None)"

definition iopen :: "'a fio_state_scheme driver_table \<Rightarrow> (('a fio_state_scheme \<Rightarrow> 'a fio_state_scheme) \<times> bool) list \<Rightarrow>
    nat \<Rightarrow> int \<Rightarrow> 'a fio_state_scheme \<Rightarrow> (nat \<times> 'a fio_state_scheme) option" where
  "iopen drvl env p mode s =
     (let ip = inodes s p in
      if i_type ip = IFCHR \<or> i_type ip = IFBLK
      then Some (dopen drvl (i_rdev ip) mode (if i_type ip = IFCHR then DFCHR else DFBLK) p s)
      else if i_type ip = IFDIR then
        (if mode AND IPW \<noteq> 0 then
           case super s of
             (False, s1) \<Rightarrow> Some (p, s1\<lparr>u_error := EISDIR\<rparr>)
           | (True, s1) \<Rightarrow> Some (p, if mode = IPW then s1\<lparr>u_error := EISDIR\<rparr> else s1)
         else Some (p, s))
      else if i_type ip = IFPIPE then map_option (\<lambda>(_, s1). (p, s1)) (pipe_option (popen env p mode s))
      else Some (p, s))"

definition iclose :: "'a fio_state_scheme driver_table \<Rightarrow> int list \<Rightarrow> nat \<Rightarrow> int \<Rightarrow> 'a fio_state_scheme \<Rightarrow>
    'a fio_state_scheme option" where
  "iclose drvl junk p mode s =
     (let ip = inodes s p in
      case (if i_type ip = IFBLK then Some (dclose drvl (i_rdev ip) mode DFBLK (snd (getment (i_rdev ip) False s)))
            else if i_type ip = IFCHR then Some (dclose drvl (i_rdev ip) mode DFCHR s)
            else if i_type ip = IFPIPE then pclose p mode s
            else Some s) of
        None \<Rightarrow> None
      | Some s1 \<Rightarrow> idetach junk p s1)"

section \<open>Reading and writing\<close>

definition done_or_stuck :: "('r \<times> 's) option \<Rightarrow> ('r, 's) pipe_result" where
  "done_or_stuck r = (case r of None \<Rightarrow> PipeStuck | Some (x, s) \<Rightarrow> PipeDone x s)"

definition iread :: "'a fio_state_scheme driver_table \<Rightarrow> (('a fio_state_scheme \<Rightarrow> 'a fio_state_scheme) \<times> bool) list \<Rightarrow>
    nat \<Rightarrow> io \<Rightarrow> 'a fio_state_scheme \<Rightarrow> (io, 'a fio_state_scheme) pipe_result" where
  "iread drvl env p iop s =
     (let ip = inodes s p in
      if io_ioc iop = 0 then PipeDone iop s
      else if i_type ip = IFCHR then (case dread drvl (i_rdev ip) iop s of (iop1, s1) \<Rightarrow> PipeDone iop1 s1)
      else if i_type ip = IFBLK \<or> i_type ip = IFREG \<or> i_type ip = IFDIR then done_or_stuck (fread p iop s)
      else if i_type ip = IFPIPE then pread env p iop s
      else PipeDone iop (s\<lparr>u_error := ENXIO\<rparr>))"

definition iwrite :: "'a fio_state_scheme driver_table \<Rightarrow> (('a fio_state_scheme \<Rightarrow> 'a fio_state_scheme) \<times> bool) list \<Rightarrow>
    nat \<Rightarrow> io \<Rightarrow> 'a fio_state_scheme \<Rightarrow> (io, 'a fio_state_scheme) pipe_result" where
  "iwrite drvl env p iop s =
     (let s0 = imodcreat p s; ip = inodes s0 p in
      if io_ioc iop = 0 then PipeDone iop s0
      else if i_type ip = IFCHR then (case dwrite drvl (i_rdev ip) iop s0 of (iop1, s1) \<Rightarrow> PipeDone iop1 s1)
      else if i_type ip = IFBLK then done_or_stuck (fwrite p iop s0)
      else if i_type ip = IFREG \<or> i_type ip = IFDIR then
        (case getment (i_dev ip) True s0 of
           (None, s1) \<Rightarrow> PipeDone iop s1
         | (Some _, s1) \<Rightarrow> done_or_stuck (fwrite p iop s1))
      else if i_type ip = IFPIPE then pwrite env p iop s0
      else PipeDone iop (s0\<lparr>u_error := ENXIO\<rparr>))"

section \<open>The system calls\<close>

record sys_state = fio_state +
  u_bpfmax :: int

abbreviation (input) IPAPPEND :: int where "IPAPPEND \<equiv> 16"
abbreviation (input) IPSYNC :: int where "IPSYNC \<equiv> 32"

definition upd_file :: "(fde \<Rightarrow> fde) \<Rightarrow> 32 word \<Rightarrow> 'a fd_state_scheme \<Rightarrow> 'a fd_state_scheme" where
  "upd_file f p s = s\<lparr>file_mem := (file_mem s)(p := map_option f (file_mem s p))\<rparr>"

text \<open>The number of bytes that the limit on file sizes leaves of a write of \<open>n\<close> at \<open>seek\<close>.\<close>

definition limit_write :: "int \<Rightarrow> int \<Rightarrow> int \<Rightarrow> int" where
  "limit_write bpfmax seek n =
     (let maxbyte = wrap32 (bpfmax * 512) in
      if maxbyte \<le> seek then 0 else if n > maxbyte - seek then maxbyte - seek else n)"

text \<open>
  \<open>sysio\<close>: \<open>acc\<close> is the answer of \<open>useracc\<close>, \<open>from\<close> the bytes at the user's address. The result is the
  value returned with the bytes stored.
\<close>

definition sysio :: "'a sys_state_scheme driver_table \<Rightarrow> (('a sys_state_scheme \<Rightarrow> 'a sys_state_scheme) \<times> bool) list \<Rightarrow>
    int list \<Rightarrow> bool \<Rightarrow> nat \<Rightarrow> int list \<Rightarrow> int \<Rightarrow> bool \<Rightarrow> 'a sys_state_scheme \<Rightarrow>
    (int \<times> int list, 'a sys_state_scheme) pipe_result" where
  "sysio drvl env junk acc fd from_bytes n do_write s =
     (let fdp = fd_get fd s; e = the (file_mem s fdp) in
      if fdp = 0 \<or> fd_flag e AND (if do_write then IPW else IPR) = 0 then PipeDone (-1, []) (s\<lparr>u_error := EBADF\<rparr>)
      else if \<not> acc then PipeDone (-1, []) (s\<lparr>u_error := EFAULT\<rparr>)
      else
        let p = fd_ip e; ty = i_type (inodes s p);
            s1 = (if fd_flag e AND IPAPPEND \<noteq> 0 \<and> do_write
                  then upd_file (\<lambda>e. e\<lparr>fd_seek := i_size (inodes s p)\<rparr>) fdp s else s);
            seek = fd_seek (the (file_mem s1 fdp));
            n1 = (if do_write \<and> ty = IFREG then limit_write (u_bpfmax s1) seek n else n);
            iop = \<lparr>io_ioc = n1, io_seek = seek,
                   io_flag = (if fd_flag e AND IPNDLY \<noteq> 0 then IONDLY else 0) OR
                             (if fd_flag e AND IPNONBLOCK \<noteq> 0 then IONONBLOCK else 0),
                   io_from = from_bytes, io_into = []\<rparr>
        in case (if do_write then iwrite drvl env p iop s1 else iread drvl env p iop s1) of
             PipeStuck \<Rightarrow> PipeStuck
           | PipeAsleep s2 \<Rightarrow> PipeAsleep s2
           | PipeDone iop1 s2 \<Rightarrow>
               let s3 = (if do_write then s2 else iaccessed p s2);
                   m = n1 - io_ioc iop1;
                   s4 = upd_file (\<lambda>e. e\<lparr>fd_seek := wrap32 (fd_seek e + m)\<rparr>) fdp s3
               in if ty \<noteq> IFCHR \<and> fd_flag (the (file_mem s4 fdp)) AND IPSYNC \<noteq> 0
                  then (case icopymd junk p s4 of None \<Rightarrow> PipeStuck | Some s5 \<Rightarrow> PipeDone (m, io_into iop1) s5)
                  else PipeDone (m, io_into iop1) s4)"

end
