(* ===== verification/Inode_Laws.thy ===== *)
theory Inode_Laws
  imports Inode_Access File_Descriptor_Laws
begin

text \<open>
  What the inode layer leaves alone. The operations on inodes do not touch the descriptor tables
  and the lists of record locks: \<open>fs1.c\<close>, \<open>fs2.c\<close>, \<open>fs3.c\<close> and \<open>pipe.c\<close> provide the interface that \<open>fd.c\<close>
  relies on (\<open>inode_layer\<close>), given drivers and other processes that do so (\<open>device_layer\<close>).
\<close>

section \<open>The tables\<close>

definition kept :: "'a fd_state_scheme \<Rightarrow> 32 word list \<times> 32 word list list \<times> (32 word \<Rightarrow> fde option) \<times> (nat \<Rightarrow> rlock list)" where
  "kept s = (u_filep s, other_filep s, file_mem s, i_rl s)"

lemma kept_tables: "kept s' = kept s \<Longrightarrow> fd_tables s' = fd_tables s \<and> i_rl s' = i_rl s"
  by (simp add: kept_def fd_tables_def)

lemma kept_updates [simp]:
  "kept (upd_inode f p s) = kept (s :: 'a ino_state_scheme)"
  "kept (upd_mount g k s1) = kept (s1 :: 'b fs_state_scheme)"
  "kept (upd_super h k s1) = kept s1"
  "kept (set_flock c k s1) = kept s1"
  "kept (set_ilock c k s1) = kept s1"
  "kept (iaccmodcreat p s) = kept s"
  by (simp_all add: kept_def upd_inode_def upd_mount_def upd_super_def set_flock_def set_ilock_def iaccmodcreat_def)

lemma kept_fields [simp]:
  "kept (s\<lparr>u_error := e\<rparr>) = kept s"
  "kept (s\<lparr>u_asu := b\<rparr>) = kept s"
  "kept (s1\<lparr>lost_bufs := l\<rparr>) = kept (s1 :: 'b fs_state_scheme)"
  "kept (s1\<lparr>disk := d\<rparr>) = kept s1"
  "kept (s2\<lparr>poll_wakes := w\<rparr>) = kept (s2 :: 'c ino_state_scheme)"
  "kept (s2\<lparr>pipe_wakes := w\<rparr>) = kept s2"
  by (simp_all add: kept_def)

text \<open>\<open>keeps r s\<close>: whatever state the operation returns with, it has kept the tables.\<close>

definition keeps :: "('r \<times> 'a fd_state_scheme) option \<Rightarrow> 'a fd_state_scheme \<Rightarrow> bool" where
  "keeps r s \<longleftrightarrow> (\<forall>x s'. r = Some (x, s') \<longrightarrow> kept s' = kept s)"

definition keeps1 :: "'a fd_state_scheme option \<Rightarrow> 'a fd_state_scheme \<Rightarrow> bool" where
  "keeps1 r s \<longleftrightarrow> (\<forall>s'. r = Some s' \<longrightarrow> kept s' = kept s)"

lemma getment_kept: "kept (snd (getment dev f s)) = kept s"
  by (simp add: getment_def split: option.split prod.split)

lemma getment_kept': "getment dev f s = (k, s') \<Longrightarrow> kept s' = kept s"
  using getment_kept [of dev f s] by simp

lemma bread_kept: "bread dev b s = Some (r, s') \<Longrightarrow> kept s' = kept s"
  by (auto simp: bread_def split: if_splits option.splits)

lemma bput_kept: "bput dev b blk s = Some s' \<Longrightarrow> kept s' = kept s"
  by (auto simp: bput_def split: if_splits)

lemma ifree_kept: "ifree dev ino s = Some s' \<Longrightarrow> kept s' = kept s"
  by (auto simp: ifree_def split: prod.splits option.splits if_splits dest!: getment_kept')

lemma bfree_put_kept: "bfree_put dev b k s = Some s' \<Longrightarrow> kept s' = kept s"
  by (auto simp: bfree_put_def Let_def split: option.splits if_splits dest!: bput_kept)

lemma bfree_kept: "bfree srt dev b s = Some s' \<Longrightarrow> kept s' = kept s"
  by (auto simp: bfree_def Let_def split: prod.splits option.splits if_splits dest!: getment_kept' bfree_put_kept)

lemma free_each_kept:
  assumes "\<And>b s s'. f b s = Some s' \<Longrightarrow> kept s' = kept s"
  shows "free_each f bs s = Some s' \<Longrightarrow> kept s' = kept s"
proof (induction bs arbitrary: s)
  case (Cons b bs)
  show ?case
  proof (cases "b = 0")
    case False
    then obtain s1 where "f b s = Some s1" "free_each f bs s1 = Some s'"
      using Cons.prems by (auto split: option.splits)
    then show ?thesis using Cons.IH assms by metis
  qed (use Cons in simp)
qed simp

lemma indfree_kept:
  fixes s :: "'a fs_state_scheme"
  shows "indfree srt dev b l s = Some s' \<Longrightarrow> kept s' = kept s"
proof (induction l arbitrary: b s s')
  case 0
  then show ?case by (auto split: if_splits dest: bfree_kept)
next
  case (Suc l)
  have f: "(if l = 0 then bfree srt dev b1 s else indfree srt dev b1 l s) = Some s' \<Longrightarrow> kept s' = kept s" for b1 and s s' :: "'a fs_state_scheme"
    using Suc.IH [of b1 s s'] bfree_kept by (cases "l = 0") auto
  have "free_each (\<lambda>b1 s. if l = 0 then bfree srt dev b1 s else indfree srt dev b1 l s) bs s = Some s' \<Longrightarrow> kept s' = kept s"
    for bs and s s' :: "'a fs_state_scheme"
    by (rule free_each_kept [OF f])
  then show ?case
    using Suc.prems
    by (auto split: if_splits option.splits dest!: bread_kept bfree_kept)
qed

lemma truncate_loop_kept: "truncate_loop dev addr n s = Some s' \<Longrightarrow> kept s' = kept s"
proof (induction n arbitrary: s)
  case (Suc n)
  then show ?case by (fastforce simp: Let_def split: if_splits option.splits dest: bfree_kept indfree_kept)
qed simp

lemma itruncate_kept: "itruncate p s = Some s' \<Longrightarrow> kept s' = kept s"
  by (auto simp: itruncate_def Let_def split: if_splits dest!: truncate_loop_kept)

lemma icopymd_kept: "icopymd junk p s = Some s' \<Longrightarrow> kept s' = kept s"
  by (auto simp: icopymd_def Let_def split: if_splits option.splits prod.splits
      dest!: getment_kept' bread_kept bput_kept ifree_kept itruncate_kept)

lemma idetach_kept: "idetach junk p s = Some s' \<Longrightarrow> kept s' = kept s"
  by (auto simp: idetach_def Let_def split: if_splits dest!: icopymd_kept)

section \<open>Pipes\<close>

lemma pollwake_kept [simp]: "kept (pollwake inp p s) = kept s"
  by (simp add: pollwake_def)

lemma pwake_kept [simp]: "kept (pwake_readers p s) = kept s" "kept (pwake_writers p s) = kept s"
  by (simp_all add: pwake_readers_def pwake_writers_def wake_sleepers_def Let_def)

lemma pipe_counts_kept [simp]:
  "kept (pclear p s) = kept s" "kept (add_par d p s) = kept s" "kept (add_paw d p s) = kept s"
  "kept (psleep_enter rd p s) = kept s" "kept (psleep_leave rd p sig s) = kept s"
  by (simp_all add: pclear_def add_par_def add_paw_def psleep_enter_def psleep_leave_def Let_def)

definition quiet :: "(('a fd_state_scheme \<Rightarrow> 'a fd_state_scheme) \<times> bool) list \<Rightarrow> bool" where
  "quiet env \<longleftrightarrow> (\<forall>e\<in>set env. \<forall>s. kept (fst e s) = kept s)"

lemma quiet_simps [simp]: "quiet []" "quiet (e # env) \<longleftrightarrow> (\<forall>s. kept (fst e s) = kept s) \<and> quiet env"
  by (auto simp: quiet_def)

lemma psleep_kept: "\<forall>s. kept (fst e s) = kept s \<Longrightarrow> psleep rd p e s = (r, s') \<Longrightarrow> kept s' = kept s"
  by (auto simp: psleep_def)

lemma popen_wait_kept:
  fixes s :: "'a ino_state_scheme"
  shows "quiet env \<Longrightarrow> popen_wait env p mode s = PipeDone r s' \<Longrightarrow> kept s' = kept s"
proof (induction env arbitrary: s)
  case (Cons e env)
  obtain q s1 where ps: "psleep True p e s = (q, s1)" by (cases "psleep True p e s")
  then have "kept s1 = kept s" using Cons.prems(1) psleep_kept [of e True p s q s1] by simp
  then show ?case using Cons ps by (auto split: if_splits)
qed (auto split: if_splits)

lemma popen_kept:
  fixes s :: "'a ino_state_scheme"
  assumes "quiet env" "popen env p mode s = PipeDone r s'"
  shows "kept s' = kept s"
proof -
  consider (rd) "mode AND 6 = 4" | (wr) "mode AND 6 = 2" | (rw) "mode AND 6 = 6" | (none) "mode AND 6 \<noteq> 4" "mode AND 6 \<noteq> 2" "mode AND 6 \<noteq> 6"
    by blast
  then show ?thesis
  proof cases
    case rd
    then show ?thesis using assms
      by (auto simp: popen_def split: pipe_result.splits bool.splits dest!: popen_wait_kept)
  next
    case wr
    show ?thesis
    proof (cases env)
      case Nil
      then show ?thesis using assms wr by (auto simp: popen_def Let_def split: if_splits)
    next
      case (Cons e env')
      obtain q s1 where ps: "psleep False p e (add_paw 1 p s) = (q, s1)" by (cases "psleep False p e (add_paw 1 p s)")
      then have "kept s1 = kept s" using assms(1) Cons psleep_kept [of e False p "add_paw 1 p s" q s1] by simp
      then show ?thesis using assms wr Cons ps by (auto simp: popen_def Let_def split: if_splits)
    qed
  next
    case rw
    then show ?thesis using assms by (auto simp: popen_def)
  next
    case none
    then show ?thesis using assms by (auto simp: popen_def)
  qed
qed

lemma pclose_kept: "pclose p mode s = Some s' \<Longrightarrow> kept s' = kept s"
  by (auto simp: pclose_def pclose_reader_def pclose_writer_def Let_def split: option.splits if_splits)

section \<open>The interface\<close>

text \<open>Drivers, and the processes that run while a pipe is being opened, leave the tables alone.\<close>

locale device_layer =
  fixes drvl :: "'a fio_state_scheme driver_table"
    and env :: "(('a fio_state_scheme \<Rightarrow> 'a fio_state_scheme) \<times> bool) list"
  assumes open_kept: "drvl m b = Some cp \<Longrightarrow> c_open cp = Some f \<Longrightarrow> f dev mode fl ip s = (ip', s') \<Longrightarrow> kept s' = kept s"
    and close_kept: "drvl m b = Some cp \<Longrightarrow> c_close cp = Some g \<Longrightarrow> kept (g dev mode fl s) = kept s"
    and env_quiet: "quiet env"
begin

lemma dopen_kept: "dopen drvl dev mode fl ip s = (ip', s') \<Longrightarrow> kept s' = kept s"
  by (auto simp: dopen_def drvmap_def Let_def split: option.splits if_splits dest: open_kept)

lemma dclose_kept: "kept (dclose drvl dev mode fl s) = kept s"
  by (auto simp: dclose_def drvmap_def close_kept split: option.splits)

lemma super_kept: "kept (snd (super s)) = kept s"
  by (simp add: super_def)

lemma iopen_kept:
  assumes "iopen drvl env ip mode s = Some (ip', s')"
  shows "kept s' = kept s"
proof -
  obtain b s1 where su: "super s = (b, s1)" by (cases "super s")
  then have k: "kept s1 = kept s" using super_kept [of s] by simp
  show ?thesis
    using assms popen_kept [OF env_quiet] k su
    by (auto simp: iopen_def Let_def pipe_option_def split: if_splits pipe_result.splits bool.splits dest: dopen_kept)
qed

lemma iclose_kept: "iclose drvl junk ip mode s = Some s' \<Longrightarrow> kept s' = kept s"
  using getment_kept [of "i_rdev (inodes s ip)" False s]
  by (auto simp: iclose_def Let_def dclose_kept split: option.splits if_splits
      dest!: idetach_kept pclose_kept)

lemma provides_inode_layer: "inode_layer (iopen drvl env) (idetach junk) (iclose drvl junk)"
  by unfold_locales (auto dest!: iopen_kept idetach_kept iclose_kept kept_tables)

end

sublocale device_layer \<subseteq> inode_layer "iopen drvl env" "idetach junk" "iclose drvl junk" for junk
  by (rule provides_inode_layer)

text \<open>The kernel with the null device, major number 0, as its driver.\<close>

definition null_drvl :: "(int \<Rightarrow> io \<Rightarrow> 'a ustate_scheme \<Rightarrow> io \<times> 'a ustate_scheme) \<Rightarrow>
    (int \<Rightarrow> io \<Rightarrow> 'a ustate_scheme \<Rightarrow> io \<times> 'a ustate_scheme) \<Rightarrow> 'a ustate_scheme driver_table" where
  "null_drvl rd wr = (\<lambda>m b. if m = 0 \<and> \<not> b then Some (nlcon rd wr) else None)"

interpretation nulldev: device_layer "null_drvl rd wr" "[]"
  for rd wr :: "int \<Rightarrow> io \<Rightarrow> 'a fio_state_scheme \<Rightarrow> io \<times> 'a fio_state_scheme"
  by unfold_locales (auto simp: null_drvl_def nlcon_def nlopen_def nlclose_def split: if_splits)

end
