(* ===== verification/File_Descriptor_Properties.thy ===== *)
theory File_Descriptor_Properties
  imports Inode_Laws
begin

text \<open>
  The properties of the file-descriptor tables. Opening and closing go through the inode layer of
  this development, over drivers and other processes that leave the tables alone
  (\<open>device_layer\<close>); the demonstration kernel has the null device only.
\<close>

section \<open>A process with an open file on descriptors 0 and 1\<close>

definition demo_inode :: "int \<Rightarrow> inode" where
  "demo_inode mode = \<lparr>i_dev = 5, i_ino = 9, i_refc = 1, i_lrt = 0, i_flag = 0, i_mode = mode, i_nlink = 1, i_uid = 0,
     i_gid = 0, i_size = 0, i_addr = replicate 13 0, i_rdev = 0, i_pnc = 0, i_prx = 0, i_pwx = 0, i_par = 0, i_paw = 0,
     i_psr = 0, i_psw = 0, i_iev = False, i_oev = False, i_atime = 0, i_mtime = 0, i_ctime = 0, i_lastblock = -1\<rparr>"

definition demo_kernel :: "32 word list \<Rightarrow> (32 word \<Rightarrow> fde option) \<Rightarrow> (nat \<Rightarrow> inode) \<Rightarrow> mount list \<Rightarrow>
    (int \<Rightarrow> int \<Rightarrow> block option) \<Rightarrow> (nat \<Rightarrow> rlock list) \<Rightarrow> fio_state" where
  "demo_kernel fds mem inos mnt dsk locks = \<lparr>u_error = E_NONE, u_asu = False, p_credp = 1, cred_mem = Map.empty,
     groups_mem = Map.empty, kallocs = [], freerl = [], i_rl = locks, p_prl = (\<lambda>_. None), rl_wakeups = [],
     u_filep = fds, other_filep = [], file_mem = mem, mountp = mnt, disk = dsk, lost_bufs = [],
     inodes = inos, ninode = 2, segmq = [], t_time = 0, t_sortblocks = False, poll_wakes = [], pipe_wakes = [],
     sigpipes = 0, t_readahead = 0, t_groupmode = False\<rparr>"

definition demo_proc :: fio_state where
  "demo_proc = demo_kernel (16 # 16 # replicate 58 0)
     [16 \<mapsto> \<lparr>fd_flag = 6, fd_refc = 2, fd_seek = 0, fd_ip = 1\<rparr>] (\<lambda>_. demo_inode 32768) [] (\<lambda>_. Map.empty)
     ((\<lambda>_. [])(1 := [\<lparr>rl_type = 1, rl_start = 0, rl_end = 9, rl_proc = 7\<rparr>, \<lparr>rl_type = 0, rl_start = 30, rl_end = 39, rl_proc = 8\<rparr>]))"

lemma demo_proc_tables [simp]:
  "u_filep demo_proc = 16 # 16 # replicate 58 0" "other_filep demo_proc = []"
  "file_mem demo_proc = [16 \<mapsto> \<lparr>fd_flag = 6, fd_refc = 2, fd_seek = 0, fd_ip = 1\<rparr>]"
  "inodes demo_proc p = demo_inode 32768"
  "i_rl demo_proc = (\<lambda>_. [])(1 := [\<lparr>rl_type = 1, rl_start = 0, rl_end = 9, rl_proc = 7\<rparr>, \<lparr>rl_type = 0, rl_start = 30, rl_end = 39, rl_proc = 8\<rparr>])"
  by (simp_all add: demo_proc_def demo_kernel_def)

lemma demo_proc_refs: "refs demo_proc q = (if q = 16 then 2 else if q = 0 then 58 else 0)"
proof -
  have g: "GET_UNTAGGED_FD 16 = 16" by (simp add: GET_UNTAGGED_FD_def)
  have "count_list (replicate n (0 :: 32 word)) q = (if q = 0 then n else 0)" for n by (induction n) auto
  then show ?thesis by (simp add: refs_def slots_def g)
qed

lemma demo_proc_inv: "fd_inv demo_proc"
proof (rule fd_invI)
  fix t assume "t \<in> set (slots demo_proc)" "t \<noteq> 0"
  then show "GET_UNTAGGED_FD t \<noteq> 0" by (auto simp: slots_def GET_UNTAGGED_FD_def)
qed (auto simp: slots_def NOFILE_def demo_proc_refs split: if_splits)

abbreviation (input) no_io :: "int \<Rightarrow> io \<Rightarrow> fio_state \<Rightarrow> io \<times> fio_state" where
  "no_io \<equiv> \<lambda>dev iop s. (iop, s)"

section \<open>Opening\<close>

text \<open>
  Opening a file is all or nothing. For a regular file the call returns. When it returns, the
  reference counts are exact; either it failed, with an error and the tables as they were, or it
  filled the lowest free slot with a new entry of count 1 for the inode that the inode layer opened.
\<close>

theorem fd_open_all_or_nothing:
  assumes "device_layer drvl env" "fd_inv s" "mem = 0 \<or> mem AND 3 = 0 \<and> file_mem s mem = None"
  shows "(i_type (inodes s ip) = IFREG \<longrightarrow> fd_open (iopen drvl env) (idetach junk) mem ip mode s \<noteq> None) \<and>
    (\<forall>fd s'. fd_open (iopen drvl env) (idetach junk) mem ip mode s = Some (fd, s') \<longrightarrow>
      fd_inv s' \<and>
      (fd = ERROR_FD \<and> u_error s' \<noteq> E_NONE \<and> fd_tables s' = fd_tables s \<or>
       fd < NOFILE \<and> u_filep s ! fd = 0 \<and> (\<forall>i<fd. u_filep s ! i \<noteq> 0) \<and> mem \<noteq> 0 \<and>
       (\<exists>newip. newip \<noteq> 0 \<and> map_option fst (iopen drvl env ip mode (snd (fd_alloc mem s))) = Some newip \<and>
          opened fd mem newip mode s s')))"
proof (intro conjI impI allI)
  note l = device_layer.provides_inode_layer [OF assms(1), of junk]
  fix fd s' assume "fd_open (iopen drvl env) (idetach junk) mem ip mode s = Some (fd, s')"
  note r = inode_layer.fd_open_result [OF l assms(2,3) this]
  then show "fd_inv s'" by blast
  show "fd = ERROR_FD \<and> u_error s' \<noteq> E_NONE \<and> fd_tables s' = fd_tables s \<or>
       fd < NOFILE \<and> u_filep s ! fd = 0 \<and> (\<forall>i<fd. u_filep s ! i \<noteq> 0) \<and> mem \<noteq> 0 \<and>
       (\<exists>newip. newip \<noteq> 0 \<and> map_option fst (iopen drvl env ip mode (snd (fd_alloc mem s))) = Some newip \<and>
          opened fd mem newip mode s s')" using r by blast
next
  assume reg: "i_type (inodes s ip) = IFREG"
  obtain fd s1 where a: "fd_alloc mem s = (fd, s1)" by (cases "fd_alloc mem s")
  then have "inodes s1 = inodes s" by (auto simp: fd_alloc_def Let_def split: if_splits)
  then have "iopen drvl env ip mode s1 = Some (ip, s1)" using reg by (simp add: iopen_def)
  then show "fd_open (iopen drvl env) (idetach junk) mem ip mode s \<noteq> None"
    by (auto simp: fd_open_def a fd_init_def Let_def)
qed

theorem fd_open_all_or_nothing_witness:
  "\<exists>fd s'. fd_open (iopen (null_drvl no_io no_io) []) (idetach []) 32 1 6 demo_proc = Some (fd, s') \<and> fd_inv s'"
proof -
  have "(i_type (inodes demo_proc 1) = IFREG \<longrightarrow>
      fd_open (iopen (null_drvl no_io no_io) []) (idetach []) 32 1 6 demo_proc \<noteq> None) \<and>
    (\<forall>fd s'. fd_open (iopen (null_drvl no_io no_io) []) (idetach []) 32 1 6 demo_proc = Some (fd, s') \<longrightarrow> fd_inv s' \<and>
      (fd = ERROR_FD \<and> u_error s' \<noteq> E_NONE \<and> fd_tables s' = fd_tables demo_proc \<or>
       fd < NOFILE \<and> u_filep demo_proc ! fd = 0 \<and> (\<forall>i<fd. u_filep demo_proc ! i \<noteq> 0) \<and> (32 :: 32 word) \<noteq> 0 \<and>
       (\<exists>newip. newip \<noteq> 0 \<and> map_option fst (iopen (null_drvl no_io no_io) [] 1 6 (snd (fd_alloc 32 demo_proc))) = Some newip \<and>
          opened fd 32 newip 6 demo_proc s')))"
    by (rule fd_open_all_or_nothing [OF nulldev.device_layer_axioms demo_proc_inv]) simp
  moreover have "i_type (inodes demo_proc 1) = IFREG" by (simp add: i_type_def demo_inode_def)
  ultimately show ?thesis by auto
qed

section \<open>Closing\<close>


lemma demo_locks_wf: "\<forall>ip. \<forall>b\<in>set (i_rl demo_proc ip). wf_rlock b"
  by (auto simp: wf_rlock_def)


section \<open>Fork and exit\<close>

lemma fd_dup_all_slots:
  "u_filep (fd_dup_all s) = u_filep s \<and> other_filep (fd_dup_all s) = other_filep s \<and> i_rl (fd_dup_all s) = i_rl s"
proof -
  have fold_keeps: "u_filep (fold f is s) = u_filep s \<and> other_filep (fold f is s) = other_filep s \<and> i_rl (fold f is s) = i_rl s"
    if "\<forall>i s. u_filep (f i s) = u_filep s \<and> other_filep (f i s) = other_filep s \<and> i_rl (f i s) = i_rl s"
    for f :: "nat \<Rightarrow> 'a fd_state_scheme \<Rightarrow> 'a fd_state_scheme" and "is" s
    using that by (induction "is" arbitrary: s) simp_all
  show ?thesis unfolding fd_dup_all_def by (rule fold_keeps) simp
qed

text \<open>
  C18. After \<open>fork\<close> the reference counts are exact for the tables of both processes, and whatever the
  child has open it can close at its exit without waiting: afterwards all slots of the child are free, the
  other processes' tables are untouched and the counts are exact again.
\<close>

theorem fork_then_exit:
  assumes "device_layer drvl env" "fd_inv s" "length (slots s) + NOFILE \<le> 32767"
    "\<forall>ip. \<forall>b\<in>set (i_rl s ip). wf_rlock b"
  shows "fd_inv (fd_dup_all (fork_tables s)) \<and>
    (\<exists>s'. fd_close_all fuel (iclose drvl junk) self (fd_dup_all (fork_tables s)) = Some s' \<and> fd_inv s' \<and>
      other_filep s' = u_filep s # other_filep s \<and> (\<forall>fd<NOFILE. u_filep s' ! fd = 0))"
proof -
  note l = device_layer.provides_inode_layer [OF assms(1), of junk]
  let ?s = "fd_dup_all (fork_tables s)"
  have inv: "fd_inv ?s" by (rule fd_dup_all_fd_inv [OF assms(2,3)])
  have t: "u_filep ?s = u_filep s" "other_filep ?s = u_filep s # other_filep s" "i_rl ?s = i_rl s"
    using fd_dup_all_slots [of "fork_tables s"] by (simp_all add: fork_tables_def)
  have wf: "\<forall>ip. \<forall>b\<in>set (i_rl ?s ip). wf_rlock b" using assms(4) by (simp add: t)
  have "fd_close_from [0..<NOFILE] fuel (iclose drvl junk) self ?s \<noteq> None"
    by (rule inode_layer.fd_close_from_returns [OF l inv wf]) (simp_all add: t lessThan_atLeast0)
  then obtain s' where c: "fd_close_from [0..<NOFILE] fuel (iclose drvl junk) self ?s = Some s'" by blast
  have "fd_inv s' \<and> other_filep s' = other_filep ?s \<and> (\<forall>fd\<in>set [0..<NOFILE]. u_filep s' ! fd = 0)"
    using inode_layer.fd_close_from_result [OF l inv wf c] by (simp add: lessThan_atLeast0)
  then show ?thesis using inv c t(2) by (auto simp: fd_close_all_def)
qed

theorem fork_then_exit_witness:
  "fd_inv (fd_dup_all (fork_tables demo_proc)) \<and>
   (\<exists>s'. fd_close_all 1 (iclose (null_drvl no_io no_io) []) 7 (fd_dup_all (fork_tables demo_proc)) = Some s' \<and> fd_inv s')"
  using fork_then_exit [OF nulldev.device_layer_axioms demo_proc_inv _ demo_locks_wf, of 1 no_io no_io "[]" 7]
  by (auto simp: slots_def NOFILE_def)

text \<open>
  \<open>dup\<close> and \<open>F_DUPFD\<close>: the descriptor that is made is the lowest free one from the requested number
  on and refers to the same entry, whose count grows by one; without a free one the call fails with
  \<open>EMFILE\<close>. The counts stay exact.
\<close>

theorem dup_lowest:
  assumes "fd_inv s" "fd_get old s \<noteq> 0" "fd_dup old base s = (fd, s')"
  shows "fd_inv s' \<and>
    (fd = ERROR_FD \<and> u_error s' = EMFILE \<and> fd_tables s' = fd_tables s \<and> (\<forall>i\<in>{base..<NOFILE}. u_filep s ! i \<noteq> 0) \<or>
     base \<le> fd \<and> fd < NOFILE \<and> u_filep s ! fd = 0 \<and> (\<forall>i\<in>{base..<fd}. u_filep s ! i \<noteq> 0) \<and>
     fd_get fd s' = fd_get old s \<and> fd_get_flags fd s' = 0)"
proof -
  obtain e where e: "fd_get old s AND 3 = 0" using fd_get_entry [OF assms(1,2)] by metis
  have inv: "fd_inv s'" using fd_dup_fd_inv [OF assms(1), of old base] assms(3) by simp
  show ?thesis using fd_dup_result [of base s old]
  proof (elim disjE exE conjE)
    fix fd' assume h: "base \<le> fd'" "fd' < NOFILE" "u_filep s ! fd' = 0" "\<forall>i. base \<le> i \<and> i < fd' \<longrightarrow> u_filep s ! i \<noteq> 0"
      and r: "fd_dup old base s = (if fd_get old s = 0 then (ERROR_FD, s)
          else (fd', bump_refc (fd_get old s) 1
                 (s\<lparr>u_filep := (u_filep s)[fd' := MAKE_TAGGED_FD (fd_get old s) 0]\<rparr>)))"
    have eq: "fd = fd'" "u_filep s' = (u_filep s)[fd' := MAKE_TAGGED_FD (fd_get old s) 0]" using r assms(2,3) by auto
    have "fd' < length (u_filep s)" using fd_invD(1) [OF assms(1)] h(2) by simp
    then have "u_filep s' ! fd' = MAKE_TAGGED_FD (fd_get old s) 0" using eq by simp
    moreover have "MAKE_TAGGED_FD (fd_get old s) 0 \<noteq> 0" using untag_make_0 [OF e] assms(2) untag_0 by metis
    ultimately have "fd_get fd' s' = fd_get old s" "fd_get_flags fd' s' = 0"
      using h(2) assms(2) e untag_make [OF e, of 0] by (simp_all add: fd_get_def fd_get_flags_def)
    then show ?thesis using inv h eq(1) by auto
  next
    assume "\<forall>i. base \<le> i \<and> i < NOFILE \<longrightarrow> u_filep s ! i \<noteq> 0" "fd_dup old base s = (ERROR_FD, s\<lparr>u_error := EMFILE\<rparr>)"
    then show ?thesis using inv assms(3) by (auto simp: fd_tables_def)
  qed
qed

theorem dup_lowest_witness:
  "\<exists>fd s'. fd_dup 0 1 demo_proc = (fd, s') \<and> fd_inv s'"
proof -
  obtain fd s' where r: "fd_dup 0 1 demo_proc = (fd, s')" by (cases "fd_dup 0 1 demo_proc")
  have "fd_get 0 demo_proc \<noteq> 0" by (simp add: fd_get_def NOFILE_def GET_UNTAGGED_FD_def)
  then show ?thesis using dup_lowest [OF demo_proc_inv _ r] r by auto
qed

end
