(* ===== verification/File_Properties.thy ===== *)
theory File_Properties
  imports File_Writing File_Descriptor_Properties Free_Space_Properties
begin

text \<open>
  The contents of files: \<open>lmap\<close> numbers the leaves of the block tree, \<open>fread\<close> returns the bytes of
  the file, \<open>fwrite\<close> changes exactly the bytes it was given, and what was written is what is read.
\<close>

section \<open>One block of a write\<close>

lemma write_at_all: "length v = 512 \<Longrightarrow> length blk = 512 \<Longrightarrow> write_at 0 v blk = v"
  by (simp add: write_at_def)

lemma fwrite_step:
  fixes s :: "'a ino_state_scheme"
  assumes ok: "file_ok s p k bs" and u: "u_error s = E_NONE" and ty: "i_type (inodes s p) \<noteq> IFBLK"
    and dev: "i_dev (inodes s p) = dev" and lbn: "0 \<le> lbn" "lbn < MAXBLOCK"
    and v: "length v = n" "off + n \<le> 512" and com: "com \<longleftrightarrow> off = 0 \<and> n = 512"
  shows "(\<exists>s1. write_block p lbn com s = Some (None, s1) \<and> u_error s1 = ENOSPC \<and> file_ok s1 p k [] \<and>
      (\<exists>xs. inodes s1 = (inodes s)(p := (inodes s p)\<lparr>i_addr := xs\<rparr>)) \<and> bytes_written s p x [] s1) \<or>
    (\<exists>b old s1 s2 bs'. write_block p lbn com s = Some (Some (b, old), s1) \<and>
      bput dev b (case old of None \<Rightarrow> v | Some blk \<Rightarrow> write_at off v blk) s1 = Some s2 \<and> u_error s2 = E_NONE \<and>
      file_ok s2 p k bs' \<and> set bs' \<subseteq> set bs \<and>
      (\<exists>xs. inodes s2 = (inodes s)(p := (inodes s p)\<lparr>i_addr := xs\<rparr>)) \<and>
      bytes_written s p (512 * lbn + int off) v s2)"
proof -
  define xs where "xs = i_addr (inodes s p)"
  define g where "g = path_of lbn"
  have lf: "leaf g" using path_of_leaf(1) [OF lbn] by (simp add: g_def)
  obtain r s1 bs1 xs1 where a: "aread p lbn com s = Some (r, s1)" "free_ok dev k s1 bs1" "set bs1 \<subseteq> set bs"
    "inodes s1 = (inodes s)(p := (inodes s p)\<lparr>i_addr := xs1\<rparr>)" "brought dev (disk s dev) xs com g E_NONE xs1 bs1 r s1"
    using aread_ok [OF ok lbn dev xs_def [symmetric], of com] u unfolding g_def by metis
  have wb: "write_block p lbn com s = Some (r, s1)" using a(1) ty by (simp add: write_block_def)
  have dev1: "i_dev (inodes s1 p) = dev" "i_addr (inodes s1 p) = xs1" using a(4) dev by simp_all
  show ?thesis
  proof (cases r)
    case None
    then have h: "u_error s1 = ENOSPC" "bs1 = []" "sound (disk s1 dev) xs1 {}" "same_file (disk s dev) xs (disk s1 dev) xs1"
      using a(5) by (simp_all add: brought_def)
    have "file_ok s1 p k []" using a(2) h(2,3) dev1 by (simp add: file_ok_def)
    moreover have "bytes_written s p x [] s1" using h(4) dev dev1 by (intro bytes_written_none) (simp add: xs_def)
    ultimately show ?thesis using wb None h(1) a(4) by blast
  next
    case (Some r')
    obtain b old where "r' = (b, old)" by (cases r')
    then obtain d1 where h: "u_error s1 = E_NONE" "b \<noteq> 0" "old = (if com then None else Some (file_block (disk s dev) xs g))"
      "\<forall>c. c \<noteq> b \<longrightarrow> d1 c = disk s1 dev c" "sound d1 xs1 (set bs1)" "entry d1 xs1 g = b" "same_file (disk s dev) xs d1 xs1"
      using a(5) Some by (auto simp: brought_def)
    have t: "tree_ok d1 xs1 (set bs1)" using h(5) by (simp add: sound_def)
    have gg: "good g" using lf by (simp add: leaf_def)
    have nb: "b \<notin> set bs1" using tree_okD(1) [OF t gg] h(2,6) by simp
    have lb: "length (file_block (disk s dev) xs g) = BSIZE"
      using tree_okD(2) [OF t gg] h(2,6,7) lf by (auto simp: same_file_def file_block_def split: if_splits)
    define new where "new = write_at off v (file_block (disk s dev) xs g)"
    have val: "(case old of None \<Rightarrow> v | Some blk \<Rightarrow> write_at off v blk) = new"
      using h(3) com v lb write_at_all [of v] by (auto simp: new_def)
    have ln: "length new = BSIZE" using lb v by (simp add: new_def length_write_at)
    obtain s2 where s2: "bput dev b new s1 = Some s2" "free_ok dev k s2 bs1" "disk s2 dev = (disk s1 dev)(b := Some new)"
      "fs_state.more s2 = fs_state.more s1" "u_error s2 = u_error s1" using bput_ok [OF a(2) nb] by blast
    have i2: "inodes s2 = (inodes s)(p := (inodes s p)\<lparr>i_addr := xs1\<rparr>)" using inodes_more [OF s2(4)] a(4) by simp
    have d2: "disk s2 dev = d1(b := Some new)" unfolding s2(3) using h(4) by auto
    note w = write_leaf [OF t lf h(6,2) ln, folded d2]
    have pos: "0 \<le> entry (disk s2 dev) xs1 q" if "good q" for q
      using w(3) [OF that] h(5) that by (simp add: sound_def)
    have "file_ok s2 p k bs1" using s2(2) w(1) pos i2 dev by (simp add: file_ok_def sound_def)
    moreover have "bytes_written s p (512 * lbn + int off) v s2"
    proof -
      have bl: "file_block (disk s2 dev) xs1 q =
          (if q = path_of lbn then write_at off v (file_block (disk s dev) xs (path_of lbn)) else file_block (disk s dev) xs q)"
        if "leaf q" for q
        using w(2) [OF that] h(7) that lf by (simp add: same_file_def new_def g_def)
      have lo: "off + length v \<le> 512" using v by simp
      show ?thesis unfolding bytes_written_def kept_bytes_def
        using bytes_written_leaf [OF lbn lo lb [unfolded g_def] bl _ _ refl] dev i2 by (simp add: xs_def)
    qed
    ultimately show ?thesis using wb Some \<open>r' = (b, old)\<close> val s2(1,5) h(1) a(3) i2
      by (intro disjI2 exI [of _ b] exI [of _ old] exI [of _ s1] exI [of _ s2] exI [of _ bs1] exI [of _ xs1] conjI) simp_all
  qed
qed

section \<open>The whole write\<close>

definition resized :: "inode \<Rightarrow> int \<Rightarrow> int list \<Rightarrow> inode" where
  "resized i sz xs = i\<lparr>i_addr := xs, i_size := sz\<rparr>"

text \<open>How a write of \<open>m\<close> bytes ended: all were written, or the disk or the file is full.\<close>

definition write_end :: "io \<Rightarrow> nat \<Rightarrow> errno \<Rightarrow> int list \<Rightarrow> bool" where
  "write_end iop m e bs' \<longleftrightarrow>
     int m = max 0 (io_ioc iop) \<and> e = E_NONE \<or>
     int m < io_ioc iop \<and> (e = ENOSPC \<and> bs' = [] \<or> e = EFBIG \<and> 512 * MAXBLOCK \<le> io_seek iop + int m)"

definition written :: "io \<Rightarrow> nat \<Rightarrow> io" where
  "written iop m = iop\<lparr>io_ioc := io_ioc iop - int m, io_seek := io_seek iop + int m, io_from := drop m (io_from iop)\<rparr>"

definition new_size :: "int \<Rightarrow> int \<Rightarrow> nat \<Rightarrow> int" where
  "new_size sz seek m = (if m = 0 then sz else max sz (seek + int m))"

lemma written_0 [simp]: "written iop 0 = iop"
  by (simp add: written_def)

lemma written_add: "written (written iop m) n = written iop (m + n)"
  by (simp add: written_def add.commute)

lemma new_size_add: "0 < m \<Longrightarrow> new_size (new_size sz seek m) (seek + int m) n = new_size sz seek (m + n)"
  by (auto simp: new_size_def)

definition write_result :: "nat \<Rightarrow> nat \<Rightarrow> io \<Rightarrow> 'a ino_state_scheme \<Rightarrow> int list \<Rightarrow> io \<Rightarrow> 'a ino_state_scheme \<Rightarrow> bool" where
  "write_result p k iop s bs iop' s' \<longleftrightarrow>
     (\<exists>m bs'. iop' = written iop m \<and> file_ok s' p k bs' \<and> set bs' \<subseteq> set bs \<and>
        bytes_written s p (io_seek iop) (take m (io_from iop)) s' \<and>
        (\<exists>xs. inodes s' = (inodes s)(p := resized (inodes s p) (new_size (i_size (inodes s p)) (io_seek iop) m) xs)) \<and>
        write_end iop m (u_error s') bs')"

lemma fwrite_loop_ok:
  fixes s :: "'a ino_state_scheme"
  shows "file_ok s p k bs \<Longrightarrow> u_error s = E_NONE \<Longrightarrow> i_type (inodes s p) \<noteq> IFBLK \<Longrightarrow>
    0 \<le> lbn \<Longrightarrow> off < 512 \<Longrightarrow> io_seek iop = 512 * lbn + int off \<Longrightarrow> nat (io_ioc iop) \<le> fuel \<Longrightarrow>
    io_ioc iop \<le> int (length (io_from iop)) \<Longrightarrow>
    \<exists>iop' s'. fwrite_loop fuel p lbn off iop s = Some (iop', s') \<and> write_result p k iop s bs iop' s'"
proof (induction fuel arbitrary: lbn off iop s bs)
  case 0
  have "write_result p k iop s bs iop s"
    unfolding write_result_def
    by (intro exI [of _ 0] exI [of _ bs])
      (use 0 in \<open>auto simp: bytes_written_def write_end_def new_size_def resized_def intro!: exI [of _ "i_addr (inodes s p)"]\<close>)
  then show ?case using 0 by auto
next
  case (Suc fuel)
  have none: "write_result p k iop s bs iop s1"
    if "file_ok s1 p k bs1" "set bs1 \<subseteq> set bs" "bytes_written s p (io_seek iop) [] s1"
      "inodes s1 = (inodes s)(p := (inodes s p)\<lparr>i_addr := xs\<rparr>)" "write_end iop 0 (u_error s1) bs1" for s1 bs1 xs
    unfolding write_result_def
    by (intro exI [of _ 0] exI [of _ bs1]) (use that in \<open>auto simp: new_size_def resized_def intro!: exI [of _ xs]\<close>)
  have self: "file_ok s p k bs" "bytes_written s p x [] s" "inodes s = (inodes s)(p := (inodes s p)\<lparr>i_addr := i_addr (inodes s p)\<rparr>)" for x
    using Suc.prems(1) by (auto simp: bytes_written_def)
  show ?case
  proof (cases "0 < io_ioc iop")
    case False
    then have "write_result p k iop s bs iop s" using none [OF self(1) order_refl self(2,3)] Suc.prems(2) by (simp add: write_end_def)
    then show ?thesis using False by simp
  next
    case pos: True
    define n where "n = min (nat (io_ioc iop)) (512 - off)"
    define com where "com = (off = 0 \<and> n = 512)"
    define v where "v = take n (io_from iop)"
    define dev where "dev = i_dev (inodes s p)"
    have n: "0 < n" "off + n \<le> 512" "int n \<le> io_ioc iop" "n < 512 - off \<longrightarrow> int n = io_ioc iop"
      using pos Suc.prems(5) by (auto simp: n_def)
    have lv: "length v = n" using Suc.prems(8) n(3) by (simp add: v_def)
    show ?thesis
    proof (cases "lbn < MAXBLOCK")
      case False
      then have "aread p lbn com s = Some (None, s\<lparr>u_error := EFBIG\<rparr>)"
        using Suc.prems(4) lmap_None [OF Suc.prems(4)] by (simp add: aread_def)
      then have "write_block p lbn com s = Some (None, s\<lparr>u_error := EFBIG\<rparr>)" using Suc.prems(3) by (simp add: write_block_def)
      then have l: "fwrite_loop (Suc fuel) p lbn off iop s = Some (iop, s\<lparr>u_error := EFBIG\<rparr>)"
        using pos by (simp add: n_def [symmetric] com_def [symmetric] Let_def)
      have "file_ok (s\<lparr>u_error := EFBIG\<rparr>) p k bs"
        using self(1) free_ok_transfer [of _ k s bs "s\<lparr>u_error := EFBIG\<rparr>"] by (simp add: file_ok_def)
      moreover have "bytes_written s p (io_seek iop) [] (s\<lparr>u_error := EFBIG\<rparr>)" by (simp add: bytes_written_def kept_bytes_def)
      moreover have "write_end iop 0 (u_error (s\<lparr>u_error := EFBIG\<rparr>)) bs" using pos False Suc.prems(6) by (simp add: write_end_def)
      ultimately have "write_result p k iop s bs iop (s\<lparr>u_error := EFBIG\<rparr>)"
        using none [of "s\<lparr>u_error := EFBIG\<rparr>" bs "i_addr (inodes s p)"] by simp
      then show ?thesis using l by blast
    next
      case True
      from fwrite_step [OF Suc.prems(1-3) dev_def [symmetric] Suc.prems(4) True lv n(2) com_def, of "io_seek iop"]
      show ?thesis
      proof (elim disjE exE conjE)
        fix s1 xs assume h: "write_block p lbn com s = Some (None, s1)" "u_error s1 = ENOSPC" "file_ok s1 p k []"
          "inodes s1 = (inodes s)(p := (inodes s p)\<lparr>i_addr := xs\<rparr>)" "bytes_written s p (io_seek iop) [] s1"
        have "fwrite_loop (Suc fuel) p lbn off iop s = Some (iop, s1)"
          using pos h(1) by (simp add: n_def [symmetric] com_def [symmetric] Let_def)
        moreover have "write_result p k iop s bs iop s1"
          using none [OF h(3) _ h(5,4)] h(2) pos by (simp add: write_end_def)
        ultimately show ?thesis by blast
      next
        fix b old s1 s2 bs1 xs
        assume h: "write_block p lbn com s = Some (Some (b, old), s1)"
          "bput dev b (case old of None \<Rightarrow> v | Some blk \<Rightarrow> write_at off v blk) s1 = Some s2" "u_error s2 = E_NONE"
          "file_ok s2 p k bs1" "set bs1 \<subseteq> set bs" "inodes s2 = (inodes s)(p := (inodes s p)\<lparr>i_addr := xs\<rparr>)"
          "bytes_written s p (512 * lbn + int off) v s2"
        define seek where "seek = io_seek iop + int n"
        define s3 where "s3 = (if seek > i_size (inodes s2 p) \<and> i_type (inodes s2 p) \<noteq> IFBLK
            then upd_inode (\<lambda>i. i\<lparr>i_size := seek\<rparr>) p s2 else s2)"
        have i2: "i_size (inodes s2 p) = i_size (inodes s p)" "i_type (inodes s2 p) \<noteq> IFBLK"
          using h(6) Suc.prems(3) by (simp_all add: i_type_def)
        have s3: "inodes s3 = (inodes s)(p := resized (inodes s p) (new_size (i_size (inodes s p)) (io_seek iop) n) xs)"
          "disk s3 = disk s2" "u_error s3 = E_NONE"
          using i2 h(3,6) n(1) by (auto simp: s3_def resized_def new_size_def seek_def)
        have ok3: "file_ok s3 p k bs1" using h(4) by (simp add: s3_def file_ok_def)
        have bw: "bytes_written s p (io_seek iop) v s3"
          using h(7) s3 i2 h(6) Suc.prems(6) by (simp add: bytes_written_def kept_bytes_def resized_def)
        define iop1 where "iop1 = written iop n"
        have io: "ioread iop n = (v, iop\<lparr>io_from := drop n (io_from iop), io_ioc := io_ioc iop - int n\<rparr>)"
          by (simp add: ioread_def v_def)
        have w: "iop\<lparr>io_from := drop n (io_from iop), io_ioc := io_ioc iop - int n, io_seek := seek\<rparr> = iop1"
          by (cases iop) (simp add: iop1_def written_def seek_def)
        have step: "fwrite_loop (Suc fuel) p lbn off iop s = fwrite_loop fuel p (lbn + 1) 0 iop1 s3"
          using pos h(1-3) io w Suc.prems(3)
          by (simp add: n_def [symmetric] com_def [symmetric] dev_def [symmetric] Let_def s3_def seek_def [symmetric])
        have iop1: "io_ioc iop1 = io_ioc iop - int n" "io_seek iop1 = io_seek iop + int n" "io_from iop1 = drop n (io_from iop)"
          by (simp_all add: iop1_def written_def)
        show ?thesis
        proof (cases "n < 512 - off")
          case True
          then have z: "\<not> 0 < io_ioc iop1" using n(4) iop1 by simp
          then have "fwrite_loop fuel p (lbn + 1) 0 iop1 s3 = Some (iop1, s3)" by (cases fuel) simp_all
          moreover have "write_result p k iop s bs iop1 s3"
            unfolding write_result_def
            by (intro exI [of _ n] exI [of _ bs1] conjI exI [of _ xs])
              (use ok3 h(5) bw s3 True n(3,4) in \<open>simp_all add: iop1_def v_def write_end_def\<close>)
          ultimately show ?thesis using step by auto
        next
          case False
          then have fl: "int n = 512 - int off" using n(2) by simp
          have seek1: "io_seek iop1 = 512 * (lbn + 1) + int 0" using iop1(2) Suc.prems(6) fl by simp
          have pr: "i_type (inodes s3 p) \<noteq> IFBLK" "0 \<le> lbn + 1" "nat (io_ioc iop1) \<le> fuel" "io_ioc iop1 \<le> int (length (io_from iop1))"
            using s3(1) Suc.prems(3,4,7,8) iop1 n(1,3) by (auto simp: i_type_def resized_def)
          obtain iop' s' where r: "fwrite_loop fuel p (lbn + 1) 0 iop1 s3 = Some (iop', s')" "write_result p k iop1 s3 bs1 iop' s'"
            using Suc.IH [OF ok3 s3(3) pr(1,2) _ seek1 pr(3,4)] by auto
          then obtain m bs' xs' where m: "iop' = written iop1 m" "file_ok s' p k bs'" "set bs' \<subseteq> set bs1"
            "bytes_written s3 p (io_seek iop1) (take m (io_from iop1)) s'"
            "inodes s' = (inodes s3)(p := resized (inodes s3 p) (new_size (i_size (inodes s3 p)) (io_seek iop1) m) xs')"
            "write_end iop1 m (u_error s') bs'"
            by (auto simp: write_result_def)
          have mm: "write_end iop (n + m) (u_error s') bs'" using m(6) n(3) iop1 by (auto simp: write_end_def)
          have lvv: "io_seek iop1 = io_seek iop + int (length v)" using iop1(2) lv by simp
          have "bytes_written s p (io_seek iop) (v @ take m (io_from iop1)) s'"
            using bytes_written_append [OF bw m(4) [unfolded lvv]] .
          then have b2: "bytes_written s p (io_seek iop) (take (n + m) (io_from iop)) s'"
            by (simp add: v_def iop1(3) take_add)
          have "inodes s' = (inodes s)(p := resized (inodes s p) (new_size (i_size (inodes s p)) (io_seek iop) (n + m)) xs')"
            using m(5) s3(1) new_size_add [OF n(1), of "i_size (inodes s p)" "io_seek iop" m] iop1(2) by (simp add: resized_def)
          then have "write_result p k iop s bs iop' s'"
            unfolding write_result_def
            using m(1-3) h(5) b2 mm by (intro exI [of _ "n + m"] exI [of _ bs']) (auto simp: iop1_def written_add)
          then show ?thesis using step r(1) by simp
        qed
      qed
    qed
  qed
qed

lemma fwrite_ok:
  fixes s :: "'a ino_state_scheme"
  assumes "file_ok s p k bs" "u_error s = E_NONE" "i_type (inodes s p) \<noteq> IFBLK" "0 \<le> io_seek iop"
    "io_ioc iop \<le> int (length (io_from iop))"
  shows "\<exists>iop' s'. fwrite p iop s = Some (iop', s') \<and> write_result p k iop s bs iop' s'"
proof -
  have seek: "io_seek iop = 512 * blockn (io_seek iop) + int (blocko (io_seek iop))" "0 \<le> blockn (io_seek iop)"
    "blocko (io_seek iop) < 512" using assms(4) by (simp_all add: blockn_def blocko_def nat_less_iff pos_imp_zdiv_nonneg_iff)
  show ?thesis
    using fwrite_loop_ok [OF assms(1-3) seek(2,3,1) order_refl assms(5)] unfolding fwrite_def by blast
qed

lemma file_ok_readable: "file_ok s p k bs \<Longrightarrow> readable s p (set bs)"
  unfolding file_ok_def readable_def sound_def using free_okD(4) by blast

section \<open>A file to demonstrate with\<close>

text \<open>Block 30 holds the bytes 7, the next block of the file is a hole; block 31 holds a block of the tree.\<close>

definition demo_file :: fio_state where
  "demo_file = demo_kernel (replicate 60 0) Map.empty
     (\<lambda>_. (demo_inode 32768)\<lparr>i_size := 600, i_addr := 30 # replicate 12 0\<rparr>)
     [demo_mount [7, 12, 9, 6] 4 5]
     ((\<lambda>_. Map.empty)(5 := (disk (demo_fs [7, 12, 9, 6] 4 5) 5)(30 \<mapsto> replicate 512 7))) (\<lambda>_. [])"

lemma demo_file_simps [simp]:
  "u_error demo_file = E_NONE" "inodes demo_file p = (demo_inode 32768)\<lparr>i_size := 600, i_addr := 30 # replicate 12 0\<rparr>"
  "lost_bufs demo_file = []" "disk demo_file 5 = (disk (demo_fs [7, 12, 9, 6] 4 5) 5)(30 \<mapsto> replicate 512 7)"
  by (simp_all add: demo_file_def demo_kernel_def)

lemma demo_file_ok: "file_ok demo_file p 0 [6, 9, 12, 7, 20]"
proof -
  let ?s = "demo_fs [7, 12, 9, 6] 4 5"
  obtain s' where "bput 5 30 (replicate 512 7) ?s = Some s'" "free_ok 5 0 s' [6, 9, 12, 7, 20]"
    using bput_ok [OF demo_free_ok, of 30] by auto
  then have "free_ok 5 0 demo_file [6, 9, 12, 7, 20]"
    by (elim free_ok_transfer) (auto simp: bput_def demo_file_def demo_kernel_def demo_fs_def)
  moreover have "sound (disk demo_file 5) (30 # replicate 12 0) {6, 9, 12, 7, 20}"
    by (rule sound_flat) (auto simp: nth_Cons split: nat.splits)
  ultimately show ?thesis by (simp add: file_ok_def demo_inode_def insert_commute)
qed

lemma demo_file_type: "i_type (inodes demo_file p) = IFREG"
  by (simp add: i_type_def demo_inode_def)

section \<open>Properties\<close>

text \<open>
  C21. Block numbers and paths. For a block number below 10 + 128 + 128^2 + 128^3, \<open>lmap\<close> gives the path of
  the leaf with that number, the innermost index first, and the number of leaves up to the end of the same
  array, to which the next numbers lead by counting up the innermost index; a higher number is refused. Every
  leaf of the tree is reached.
\<close>

theorem lmap_numbers_leaves:
  assumes "0 \<le> b"
  shows "(case lmap b of
        None \<Rightarrow> 10 + 128 + 128 ^ 2 + 128 ^ 3 \<le> b
      | Some (list, n) \<Rightarrow> b < 10 + 128 + 128 ^ 2 + 128 ^ 3 \<and> leaf (rev list) \<and> leaf_no (rev list) = b \<and> 0 < n \<and>
          hd list + n = (if length list = 1 then ND else NBN) \<and>
          (\<forall>k<n. lmap (b + int k) = Some (list[0 := hd list + k], n - k))) \<and>
    (\<forall>p. leaf p \<longrightarrow> map_option fst (lmap (leaf_no p)) = Some (rev p))"
proof (intro conjI allI impI)
  fix p assume l: "leaf p"
  then obtain list n where "lmap (leaf_no p) = Some (list, n)"
    using leaf_no_path(1,2) [OF l] lmap_None [of "leaf_no p"] by (cases "lmap (leaf_no p)") auto
  then show "map_option fst (lmap (leaf_no p)) = Some (rev p)"
    using leaf_no_path(3) [OF l] by (auto simp: path_of_def)
next
  show "case lmap b of
        None \<Rightarrow> 10 + 128 + 128 ^ 2 + 128 ^ 3 \<le> b
      | Some (list, n) \<Rightarrow> b < 10 + 128 + 128 ^ 2 + 128 ^ 3 \<and> leaf (rev list) \<and> leaf_no (rev list) = b \<and> 0 < n \<and>
          hd list + n = (if length list = 1 then ND else NBN) \<and>
          (\<forall>k<n. lmap (b + int k) = Some (list[0 := hd list + k], n - k))"
  proof (cases "lmap b")
    case None
    then show ?thesis using lmap_None [OF assms] by simp
  next
    case (Some r)
    then obtain list n where l: "lmap b = Some (list, n)" by (cases r) auto
    then have lt: "b < MAXBLOCK" using lmap_None [OF assms] by auto
    have r: "rev list = path_of b" using l by (simp add: path_of_def)
    note pl = path_of_leaf [OF assms lt]
    note nx = path_of_next [OF assms lt l]
    have ln: "list \<noteq> []" using pl(1) r by (auto simp: leaf_def good_def)
    then have lp: "last (path_of b) = hd list" "length (path_of b) = length list" "butlast (path_of b) = rev (tl list)"
      unfolding r [symmetric] by (simp_all add: last_rev butlast_rev)
    have "lmap (b + int k) = Some (list[0 := hd list + k], n - k)" if "k < n" for k
    proof -
      have lt': "0 \<le> b + int k" "b + int k < MAXBLOCK" using nx(2) that assms by simp_all
      obtain list' n' where l': "lmap (b + int k) = Some (list', n')" using lmap_None [OF lt'(1)] lt'(2) by (cases "lmap (b + int k)") auto
      have "rev list' = rev (tl list) @ [hd list + k]" using nx(4) [OF that] l' lp by (simp add: path_of_def)
      then have e: "list' = (hd list + k) # tl list" by (metis rev.simps(2) rev_rev_ident)
      have "path_of (b + int k) = rev list'" using l' by (simp add: path_of_def)
      then have "hd list + k + n' = (if length list = 1 then 10 else 128)"
        using path_of_next(3) [OF lt' l'] e ln by (simp add: last_rev)
      then have "n' = n - k" using nx(3) lp by (auto split: if_splits)
      then show ?thesis using l' e ln by (cases list) simp_all
    qed
    then show ?thesis using l lt pl nx(1,3) lp r by simp
  qed
qed

theorem lmap_numbers_leaves_witness:
  "lmap 138 = Some ([0, 0, 11], 128) \<and> lmap 141 = Some ([3, 0, 11], 125)"
proof -
  have l: "lmap 138 = Some ([0, 0, 11], 128)" by (simp add: lmap_def)
  then have "\<forall>k<128. lmap (138 + int k) = Some ([k, 0, 11], 128 - k)" using lmap_numbers_leaves [of 138] by simp
  from this [rule_format, of 3] show ?thesis using l by simp
qed

text \<open>
  C22. Reading. On a file that is sound, a read returns the bytes of the file from the position on, as many as
  were asked for or as there are up to its size, and only the record of the last block read changes. Holes
  read as zeros. It does not matter how far the kernel reads ahead or whether it maps blocks in groups.
\<close>

theorem fread_returns_bytes:
  fixes s :: "'a fio_state_scheme"
  assumes "readable s p F" "u_error s = E_NONE" "i_type (inodes s p) \<noteq> IFBLK" "0 \<le> io_seek iop" "0 \<le> io_ioc iop"
    "i_size (inodes s p) \<le> 512 * MAXBLOCK" "n = nat (min (i_size (inodes s p) - io_seek iop) (io_ioc iop))"
  shows "\<exists>lb. fread p iop s =
    Some (iop\<lparr>io_ioc := io_ioc iop - int n,
              io_into := io_into iop @ map (\<lambda>i. kept_bytes s p (io_seek iop + int i)) [0..<n]\<rparr>,
          upd_inode (\<lambda>i. i\<lparr>i_lastblock := lb\<rparr>) p s)"
  using fread_result [OF assms(1-6)] assms(7) by (simp add: bytes_left_def file_bytes_def kept_bytes_def)

text \<open>
  C23. Writing. On a file that is sound, a write returns. It changes the bytes at the position, as many as
  it reports, to those it was given and no other byte of the file; blocks it needs come from the free
  list; the size grows to the end of what was written; the file stays sound and apart from the free list.
  It stops short only when the free list is exhausted (\<open>ENOSPC\<close>) or at the greatest block number (\<open>EFBIG\<close>).
\<close>

theorem fwrite_writes_bytes:
  fixes s :: "'a ino_state_scheme"
  assumes "file_ok s p k bs" "u_error s = E_NONE" "i_type (inodes s p) \<noteq> IFBLK" "0 \<le> io_seek iop"
    "io_ioc iop \<le> int (length (io_from iop))"
  shows "\<exists>iop' s' m bs' xs. fwrite p iop s = Some (iop', s') \<and>
      iop' = iop\<lparr>io_ioc := io_ioc iop - int m, io_seek := io_seek iop + int m, io_from := drop m (io_from iop)\<rparr> \<and>
      (\<forall>x. 0 \<le> x \<and> x < 512 * MAXBLOCK \<longrightarrow> kept_bytes s' p x =
         (if io_seek iop \<le> x \<and> x < io_seek iop + int (length (take m (io_from iop)))
          then take m (io_from iop) ! nat (x - io_seek iop) else kept_bytes s p x)) \<and>
      inodes s' = (inodes s)(p := (inodes s p)\<lparr>i_addr := xs,
         i_size := (if m = 0 then i_size (inodes s p) else max (i_size (inodes s p)) (io_seek iop + int m))\<rparr>) \<and>
      file_ok s' p k bs' \<and> set bs' \<subseteq> set bs \<and>
      (int m = max 0 (io_ioc iop) \<and> u_error s' = E_NONE \<or>
       int m < io_ioc iop \<and> (u_error s' = ENOSPC \<and> bs' = [] \<or>
         u_error s' = EFBIG \<and> 512 * MAXBLOCK \<le> io_seek iop + int m))"
proof -
  obtain iop' s' where r: "fwrite p iop s = Some (iop', s')" "write_result p k iop s bs iop' s'"
    using fwrite_ok [OF assms] by blast
  obtain m bs' xs where m: "iop' = written iop m" "file_ok s' p k bs'" "set bs' \<subseteq> set bs"
    "bytes_written s p (io_seek iop) (take m (io_from iop)) s'"
    "inodes s' = (inodes s)(p := resized (inodes s p) (new_size (i_size (inodes s p)) (io_seek iop) m) xs)"
    "write_end iop m (u_error s') bs'"
    using r(2) unfolding write_result_def by blast
  show ?thesis
    using r(1) m(2,3) m(1) [unfolded written_def] m(4) [unfolded bytes_written_def] m(5) [unfolded resized_def new_size_def]
      m(6) [unfolded write_end_def]
    by (intro exI [of _ iop'] exI [of _ s'] exI [of _ m] exI [of _ bs'] exI [of _ xs] conjI)
qed

theorem fread_returns_bytes_witness:
  "\<exists>iop s'. fread 1 \<lparr>io_ioc = 4, io_seek = 510, io_flag = 0, io_from = [], io_into = []\<rparr> demo_file = Some (iop, s') \<and>
     io_into iop = [7, 7, 0, 0]"
proof -
  let ?iop = "\<lparr>io_ioc = 4, io_seek = 510, io_flag = 0, io_from = [], io_into = []\<rparr>"
  have h: "i_type (inodes demo_file 1) \<noteq> IFBLK" unfolding demo_file_type by simp
  have path: "path_of 0 = [0]" "path_of 1 = [1]" by (simp_all add: path_of_def lmap_def)
  have "kept_bytes demo_file 1 510 = 7" "kept_bytes demo_file 1 511 = 7" "kept_bytes demo_file 1 512 = 0"
    "kept_bytes demo_file 1 513 = 0"
    by (simp_all add: kept_bytes_def file_byte_def path file_block_def hole_block_def demo_inode_def)
  moreover have "[0..<4] = [0, 1, 2, 3]" by (simp add: upt_rec)
  moreover have "\<exists>lb. fread 1 ?iop demo_file =
    Some (?iop\<lparr>io_ioc := io_ioc ?iop - int 4,
              io_into := io_into ?iop @ map (\<lambda>i. kept_bytes demo_file 1 (io_seek ?iop + int i)) [0..<4]\<rparr>,
          upd_inode (\<lambda>i. i\<lparr>i_lastblock := lb\<rparr>) 1 demo_file)"
    by (rule fread_returns_bytes [OF file_ok_readable [OF demo_file_ok] _ h]) simp_all
  ultimately show ?thesis by auto
qed

theorem fwrite_writes_bytes_witness:
  "\<exists>iop' s' bs'. fwrite 1 \<lparr>io_ioc = 3, io_seek = 511, io_flag = 0, io_from = [65, 66, 67], io_into = []\<rparr> demo_file = Some (iop', s') \<and>
     file_ok s' 1 0 bs' \<and> set bs' \<subseteq> {6, 9, 12, 7, 20}"
proof -
  let ?iop = "\<lparr>io_ioc = 3, io_seek = 511, io_flag = 0, io_from = [65, 66, 67], io_into = []\<rparr>"
  have h: "i_type (inodes demo_file 1) \<noteq> IFBLK" unfolding demo_file_type by simp
  obtain iop' s' bs' where "fwrite 1 ?iop demo_file = Some (iop', s')" "file_ok s' 1 0 bs'" "set bs' \<subseteq> set [6, 9, 12, 7, 20]"
    using fwrite_writes_bytes [OF demo_file_ok _ h, of ?iop] by fastforce
  then show ?thesis by auto
qed

text \<open>
  C24. What was written is what is read: after a write that was not cut short, a read of as many bytes at the
  same position returns the bytes that were written, whichever blocks had to be allocated.
\<close>

theorem write_then_read:
  fixes s :: "'a fio_state_scheme"
  assumes "file_ok s p k bs" "u_error s = E_NONE" "i_type (inodes s p) \<noteq> IFBLK" "0 \<le> io_seek iop" "0 \<le> io_ioc iop"
    "io_ioc iop \<le> int (length (io_from iop))" "fwrite p iop s = Some (iop1, s1)" "u_error s1 = E_NONE"
    "io_seek iop + io_ioc iop \<le> 512 * MAXBLOCK" "i_size (inodes s p) \<le> 512 * MAXBLOCK"
    "io_seek iop2 = io_seek iop" "io_ioc iop2 = io_ioc iop"
  shows "\<exists>iop3 s3. fread p iop2 s1 = Some (iop3, s3) \<and> io_ioc iop3 = 0 \<and>
    io_into iop3 = io_into iop2 @ take (nat (io_ioc iop)) (io_from iop)"
proof -
  obtain m bs' xs where m: "iop1 = written iop m" "file_ok s1 p k bs'"
    "bytes_written s p (io_seek iop) (take m (io_from iop)) s1"
    "inodes s1 = (inodes s)(p := resized (inodes s p) (new_size (i_size (inodes s p)) (io_seek iop) m) xs)"
    "write_end iop m (u_error s1) bs'"
    using fwrite_ok [OF assms(1-4,6)] assms(7) unfolding write_result_def by auto
  have mi: "int m = io_ioc iop" using m(5) assms(5,8) by (auto simp: write_end_def)
  have sz: "i_size (inodes s1 p) = new_size (i_size (inodes s p)) (io_seek iop) m" "i_type (inodes s1 p) \<noteq> IFBLK"
    using m(4) assms(3) by (simp_all add: resized_def i_type_def)
  have lim: "i_size (inodes s1 p) \<le> 512 * MAXBLOCK" using sz(1) mi assms(9,10) by (simp add: new_size_def)
  have left: "bytes_left (inodes s1 p) iop2 = m"
    using sz(1) mi assms(11,12) by (auto simp: bytes_left_def new_size_def)
  have len: "length (take m (io_from iop)) = m" using mi assms(6) by simp
  have "map (\<lambda>i. kept_bytes s1 p (io_seek iop + int i)) [0..<m] = take m (io_from iop)"
  proof (rule nth_equalityI)
    fix i assume "i < length (map (\<lambda>i. kept_bytes s1 p (io_seek iop + int i)) [0..<m])"
    then have "i < m" by simp
    moreover have "io_seek iop + int i < 512 * MAXBLOCK" using \<open>i < m\<close> mi assms(9) by linarith
    ultimately have "kept_bytes s1 p (io_seek iop + int i) = take m (io_from iop) ! i"
      using m(3) assms(4) len unfolding bytes_written_def by simp
    then show "map (\<lambda>i. kept_bytes s1 p (io_seek iop + int i)) [0..<m] ! i = take m (io_from iop) ! i"
      using \<open>i < m\<close> by simp
  qed (use len in simp)
  then have fb: "file_bytes (disk s1 (i_dev (inodes s1 p))) (i_addr (inodes s1 p)) (io_seek iop2) m = take m (io_from iop)"
    using assms(11) by (simp add: file_bytes_def kept_bytes_def)
  have "nat (io_ioc iop) = m" using mi by simp
  then show ?thesis
    using fread_result [OF file_ok_readable [OF m(2)] assms(8) sz(2) _ _ lim, of iop2] assms(4,5,11,12) left fb mi by auto
qed

theorem write_then_read_witness:
  "\<exists>iop1 s1 iop3 s3.
     fwrite 1 \<lparr>io_ioc = 2, io_seek = 3, io_flag = 0, io_from = [65, 66], io_into = []\<rparr> demo_file = Some (iop1, s1) \<and>
     fread 1 \<lparr>io_ioc = 2, io_seek = 3, io_flag = 0, io_from = [], io_into = []\<rparr> s1 = Some (iop3, s3) \<and>
     io_into iop3 = [65, 66]"
proof -
  let ?w = "\<lparr>io_ioc = 2, io_seek = 3, io_flag = 0, io_from = [65, 66], io_into = []\<rparr>"
  let ?r = "\<lparr>io_ioc = 2, io_seek = 3, io_flag = 0, io_from = [], io_into = []\<rparr>"
  have h: "i_type (inodes demo_file 1) \<noteq> IFBLK" unfolding demo_file_type by simp
  have "aread 1 0 False demo_file = Some (Some (30, Some (replicate 512 7)), demo_file)"
    by (simp add: aread_def lmap_def bread_def demo_inode_def)
  then have b: "write_block 1 0 False demo_file = Some (Some (30, Some (replicate 512 7)), demo_file)"
    using h by (simp add: write_block_def)
  have "\<exists>iop1 s1. fwrite 1 ?w demo_file = Some (iop1, s1) \<and> u_error s1 = E_NONE"
    using b h by (simp add: fwrite_def blockn_def blocko_def numeral_2_eq_2 ioread_def bput_def Let_def)
  then obtain iop1 s1 where w: "fwrite 1 ?w demo_file = Some (iop1, s1)" "u_error s1 = E_NONE" by blast
  then show ?thesis
    using write_then_read [OF demo_file_ok _ h _ _ _ w, of ?r] w by auto
qed

end
