(* ===== verification/Pipe_Contents.thy ===== *)
theory Pipe_Contents
  imports Pipes File_Properties
begin

text \<open>
  A pipe as a queue of bytes: \<open>pipe_bytes\<close> reads the ring from the reader's offset on. Taking out is
  taking a prefix, putting in is appending; \<open>pipe_ok\<close> is the invariant that makes it so.
\<close>

section \<open>The ring\<close>

definition ring :: "inode \<Rightarrow> bool" where
  "ring i \<longleftrightarrow> 0 \<le> i_pnc i \<and> i_pnc i \<le> PIPE_MAX \<and> 0 \<le> i_prx i \<and> i_prx i < PIPE_MAX \<and> 0 \<le> i_pwx i \<and>
     i_pwx i = (i_prx i + i_pnc i) mod PIPE_MAX \<and> min (i_prx i + i_pnc i) PIPE_MAX \<le> i_size i \<and> i_size i \<le> PIPE_MAX"

definition pipe_bytes :: "'a ino_state_scheme \<Rightarrow> nat \<Rightarrow> int list" where
  "pipe_bytes s p = map (\<lambda>k. kept_bytes s p ((i_prx (inodes s p) + int k) mod PIPE_MAX)) [0..<nat (i_pnc (inodes s p))]"

definition pipe_ok :: "'a ino_state_scheme \<Rightarrow> nat \<Rightarrow> nat \<Rightarrow> int list \<Rightarrow> bool" where
  "pipe_ok s p k bs \<longleftrightarrow> file_ok s p k bs \<and> i_type (inodes s p) = IFPIPE \<and> ring (inodes s p)"

lemma length_pipe_bytes [simp]: "length (pipe_bytes s p) = nat (i_pnc (inodes s p))"
  by (simp add: pipe_bytes_def)

text \<open>What does not change the bytes of the file and the ring does not change the queue.\<close>

definition same_pipe :: "'a ino_state_scheme \<Rightarrow> 'a ino_state_scheme \<Rightarrow> nat \<Rightarrow> bool" where
  "same_pipe s s' p \<longleftrightarrow> mountp s' = mountp s \<and> disk s' = disk s \<and> lost_bufs s' = lost_bufs s \<and>
     i_dev (inodes s' p) = i_dev (inodes s p) \<and> i_addr (inodes s' p) = i_addr (inodes s p) \<and>
     i_mode (inodes s' p) = i_mode (inodes s p) \<and> i_size (inodes s' p) = i_size (inodes s p) \<and>
     i_pnc (inodes s' p) = i_pnc (inodes s p) \<and> i_prx (inodes s' p) = i_prx (inodes s p) \<and>
     i_pwx (inodes s' p) = i_pwx (inodes s p)"

lemma same_pipe:
  assumes "same_pipe s s' p"
  shows "pipe_ok s p k bs \<Longrightarrow> pipe_ok s' p k bs" "pipe_bytes s' p = pipe_bytes s p"
proof -
  note h = assms [unfolded same_pipe_def]
  show "pipe_bytes s' p = pipe_bytes s p" using h by (simp add: pipe_bytes_def kept_bytes_def)
  assume ok: "pipe_ok s p k bs"
  then have "free_ok (i_dev (inodes s p)) k s bs" by (simp add: pipe_ok_def file_ok_def)
  then have "free_ok (i_dev (inodes s p)) k s' bs" by (elim free_ok_transfer) (use h in simp_all)
  then show "pipe_ok s' p k bs" using ok h by (simp add: pipe_ok_def file_ok_def ring_def i_type_def)
qed

lemma same_pipe_refl [simp]: "same_pipe s s p"
  by (simp add: same_pipe_def)

lemma same_pipe_trans: "same_pipe s s1 p \<Longrightarrow> same_pipe s1 s2 p \<Longrightarrow> same_pipe s s2 p"
  by (simp add: same_pipe_def)

lemma same_pipe_pollwake: "same_pipe s (pollwake inp q s) p"
  by (simp add: same_pipe_def pollwake_def upd_inode_def)

lemma same_pipe_wake: "same_pipe s (pwake_readers q s) p" "same_pipe s (pwake_writers q s) p"
proof -
  have w: "same_pipe s (wake_sleepers rd q s) p" for rd by (simp add: same_pipe_def wake_sleepers_def)
  show "same_pipe s (pwake_readers q s) p" "same_pipe s (pwake_writers q s) p"
    using w same_pipe_pollwake same_pipe_trans unfolding pwake_readers_def pwake_writers_def Let_def
    by (auto split: if_splits) blast+
qed

lemma same_pipe_error: "same_pipe s (s\<lparr>u_error := e\<rparr>) p"
  by (simp add: same_pipe_def)

lemma pwake_u_error [simp]: "u_error (pwake_readers p s) = u_error s" "u_error (pwake_writers p s) = u_error s"
  by (simp_all add: pwake_readers_def pwake_writers_def wake_sleepers_def pollwake_def Let_def)

lemma same_pipe_lastblock: "same_pipe s (upd_inode (\<lambda>i. i\<lparr>i_lastblock := lb\<rparr>) p s) p"
  by (simp add: same_pipe_def upd_inode_def)

section \<open>Taking out\<close>

lemma ring_read:
  assumes "ring i" "0 \<le> n" "n \<le> PIPE_MAX - i_prx i" "n \<le> i_pnc i"
  shows "i_prx i + n \<le> i_size i"
  using assms by (auto simp: ring_def)

lemma take_out_bytes:
  assumes "pipe_ok s p k bs" "0 \<le> n" "n \<le> PIPE_MAX - i_prx (inodes s p)" "n \<le> i_pnc (inodes s p)"
  shows "pipe_ok (take_out p n s) p k bs" "pipe_bytes (take_out p n s) p = drop (nat n) (pipe_bytes s p)"
    "i_pnc (inodes (take_out p n s) p) = i_pnc (inodes s p) - n" "u_error (take_out p n s) = u_error s"
proof -
  let ?i = "inodes s p" and ?s = "take_out p n s"
  have r: "ring ?i" using assms(1) by (simp add: pipe_ok_def)
  note b = r [unfolded ring_def]
  have w: "wrap16 (i_prx ?i + n) = i_prx ?i + n" "wrap16 (i_pnc ?i - n) = i_pnc ?i - n" using b assms(2-4) by simp_all
  have i: "inodes ?s p = (let i1 = ?i\<lparr>i_prx := (if i_prx ?i + n = PIPE_MAX then 0 else i_prx ?i + n), i_pnc := i_pnc ?i - n\<rparr>
      in if i_pnc ?i - n = 0 then i1\<lparr>i_prx := 0, i_pwx := 0\<rparr> else i1)"
    using w by (simp add: take_out_def Let_def)
  show pnc: "i_pnc (inodes ?s p) = i_pnc ?i - n" unfolding i by (simp add: Let_def)
  show "u_error ?s = u_error s" by (simp add: take_out_def)
  have same: "disk ?s = disk s" "mountp ?s = mountp s" "lost_bufs ?s = lost_bufs s" "i_dev (inodes ?s p) = i_dev ?i"
    "i_addr (inodes ?s p) = i_addr ?i" "i_mode (inodes ?s p) = i_mode ?i" "i_size (inodes ?s p) = i_size ?i"
    unfolding i by (simp_all add: take_out_def upd_inode_def Let_def)
  have prx: "i_prx (inodes ?s p) = (if i_pnc ?i - n = 0 then 0 else (i_prx ?i + n) mod PIPE_MAX)"
    unfolding i using b assms(2,3) by (auto simp: Let_def)
  have pwx: "i_pwx (inodes ?s p) = (if i_pnc ?i - n = 0 then 0 else i_pwx ?i)" unfolding i by (simp add: Let_def)
  have "ring (inodes ?s p)"
  proof (cases "i_pnc ?i - n = 0")
    case True
    have "0 \<le> min (i_prx ?i + i_pnc ?i) PIPE_MAX" using b by linarith
    then have "0 \<le> i_size ?i" using b by linarith
    then show ?thesis using True b prx pwx pnc same by (simp add: ring_def)
  next
    case False
    have "(i_prx ?i + n) mod PIPE_MAX + (i_pnc ?i - n) \<le> i_prx ?i + i_pnc ?i"
      using b assms(2) zmod_le_nonneg_dividend [of "i_prx ?i + n" PIPE_MAX] by simp
    then have "min ((i_prx ?i + n) mod PIPE_MAX + (i_pnc ?i - n)) PIPE_MAX \<le> min (i_prx ?i + i_pnc ?i) PIPE_MAX"
      by (intro min.mono) simp_all
    moreover have "((i_prx ?i + n) mod PIPE_MAX + (i_pnc ?i - n)) mod PIPE_MAX = i_pwx ?i"
      using b by (simp add: mod_add_left_eq)
    moreover have "min (i_prx ?i + i_pnc ?i) PIPE_MAX \<le> i_size ?i" using b by simp
    ultimately show ?thesis unfolding ring_def prx pwx pnc same using b assms(2,4) False by (auto simp del: min_le_iff_disj)
  qed
  moreover have "free_ok (i_dev ?i) k s bs" using assms(1) by (simp add: pipe_ok_def file_ok_def)
  then have "free_ok (i_dev ?i) k ?s bs" by (elim free_ok_transfer) (use same in simp_all)
  ultimately show "pipe_ok ?s p k bs" using assms(1) same by (simp add: pipe_ok_def file_ok_def i_type_def)
  show "pipe_bytes ?s p = drop (nat n) (pipe_bytes s p)"
  proof (rule nth_equalityI)
    show "length (pipe_bytes ?s p) = length (drop (nat n) (pipe_bytes s p))" using pnc assms(2,4) by (simp add: nat_diff_distrib)
    fix j assume "j < length (pipe_bytes ?s p)"
    then have j: "int j < i_pnc ?i - n" using pnc by simp
    then have "i_prx (inodes ?s p) = (i_prx ?i + n) mod PIPE_MAX" using prx by simp
    then have "(i_prx (inodes ?s p) + int j) mod PIPE_MAX = (i_prx ?i + int (nat n + j)) mod PIPE_MAX"
      using assms(2) by (simp add: mod_add_left_eq add.assoc)
    then show "pipe_bytes ?s p ! j = drop (nat n) (pipe_bytes s p) ! j"
      using j pnc same assms(2,4) by (simp add: pipe_bytes_def kept_bytes_def nat_diff_distrib)
  qed
qed

lemma pread_loop_ok:
  fixes s :: "'a fio_state_scheme"
  shows "pipe_ok s p k bs \<Longrightarrow> u_error s = E_NONE \<Longrightarrow> 0 \<le> ioc \<Longrightarrow> nat ioc \<le> fuel \<Longrightarrow>
    n = nat (min ioc (i_pnc (inodes s p))) \<Longrightarrow>
    \<exists>iop' s'. pread_loop fuel p iop ioc s = Some (iop', s') \<and> io_ioc iop' = ioc - int n \<and>
      io_into iop' = io_into iop @ take n (pipe_bytes s p) \<and> pipe_ok s' p k bs \<and>
      pipe_bytes s' p = drop n (pipe_bytes s p) \<and> u_error s' = E_NONE"
proof (induction fuel arbitrary: iop ioc s n)
  case 0
  then show ?case by (auto simp: pipe_ok_def ring_def)
next
  case (Suc fuel)
  let ?i = "inodes s p"
  have r: "ring ?i" and fok: "file_ok s p k bs" and ty: "i_type ?i \<noteq> IFBLK" using Suc.prems(1) by (simp_all add: pipe_ok_def)
  note b = r [unfolded ring_def]
  show ?case
  proof (cases "ioc > 0 \<and> i_pnc ?i > 0")
    case False
    then have "n = 0" using Suc.prems(3,5) b by auto
    then show ?thesis using False Suc.prems by auto
  next
    case True
    define m where "m = min (min (PIPE_MAX - i_prx ?i) ioc) (i_pnc ?i)"
    have m: "0 < m" "m \<le> PIPE_MAX - i_prx ?i" "m \<le> i_pnc ?i" "m \<le> ioc" using True b by (auto simp: m_def)
    define iop0 where "iop0 = iop\<lparr>io_ioc := m, io_seek := i_prx ?i\<rparr>"
    have "i_prx ?i + m \<le> i_size ?i" using ring_read [OF r _ m(2,3)] m(1) by simp
    then have left: "bytes_left ?i iop0 = nat m" by (simp add: bytes_left_def iop0_def)
    have rd: "readable s p (set bs)" by (rule file_ok_readable [OF fok])
    have io0: "0 \<le> io_seek iop0" "0 \<le> io_ioc iop0" "i_size ?i \<le> 512 * MAXBLOCK" using b m(1) by (simp_all add: iop0_def)
    obtain lb where fr: "fread p iop0 s = Some (iop0\<lparr>io_ioc := 0,
              io_into := io_into iop @ file_bytes (disk s (i_dev ?i)) (i_addr ?i) (i_prx ?i) (nat m)\<rparr>,
          upd_inode (\<lambda>i. i\<lparr>i_lastblock := lb\<rparr>) p s)"
      using fread_result [OF rd Suc.prems(2) ty io0] left m(1) by (auto simp: iop0_def)
    define iop1 where "iop1 = iop0\<lparr>io_ioc := 0, io_into := io_into iop @ file_bytes (disk s (i_dev ?i)) (i_addr ?i) (i_prx ?i) (nat m)\<rparr>"
    define s1 where "s1 = upd_inode (\<lambda>i. i\<lparr>i_lastblock := lb\<rparr>) p s"
    have sp: "same_pipe s s1 p" unfolding s1_def by (rule same_pipe_lastblock)
    have ok1: "pipe_ok s1 p k bs" using same_pipe(1) [OF sp Suc.prems(1)] .
    have i1: "i_prx (inodes s1 p) = i_prx ?i" "i_pnc (inodes s1 p) = i_pnc ?i" using sp by (simp_all add: same_pipe_def)
    note t = take_out_bytes [OF ok1, of m, unfolded i1]
    define s2 where "s2 = take_out p m s1"
    have s2: "pipe_ok s2 p k bs" "pipe_bytes s2 p = drop (nat m) (pipe_bytes s p)" "i_pnc (inodes s2 p) = i_pnc ?i - m"
      "u_error s2 = E_NONE"
      using t m(1-3) same_pipe(2) [OF sp] Suc.prems(2) by (simp_all add: s2_def) (simp add: s1_def)
    have step: "pread_loop (Suc fuel) p iop ioc s = pread_loop fuel p iop1 (ioc - m) s2"
      using True Suc.prems(2) fr by (simp add: m_def [symmetric] iop0_def [symmetric] iop1_def [symmetric] s1_def [symmetric]
          s2_def Let_def) (simp add: iop1_def s2_def)
    have bytes: "file_bytes (disk s (i_dev ?i)) (i_addr ?i) (i_prx ?i) (nat m) = take (nat m) (pipe_bytes s p)"
    proof (rule nth_equalityI)
      fix j assume "j < length (file_bytes (disk s (i_dev ?i)) (i_addr ?i) (i_prx ?i) (nat m))"
      then have "int j < m" "j < nat m" "j < nat (i_pnc ?i)" using m by auto
      moreover have "(i_prx ?i + int j) mod PIPE_MAX = i_prx ?i + int j" using b m(2) \<open>int j < m\<close> by simp
      ultimately show "file_bytes (disk s (i_dev ?i)) (i_addr ?i) (i_prx ?i) (nat m) ! j = take (nat m) (pipe_bytes s p) ! j"
        by (simp add: file_bytes_def pipe_bytes_def kept_bytes_def)
    qed (use m in simp)
    define n' where "n' = nat (min (ioc - m) (i_pnc ?i - m))"
    have n': "n = nat m + n'" using Suc.prems(5) m by (simp add: n'_def nat_add_distrib [symmetric])
    have fu: "nat (ioc - m) \<le> fuel" using m(1,4) Suc.prems(4) by linarith
    obtain iop' s' where ih: "pread_loop fuel p iop1 (ioc - m) s2 = Some (iop', s')" "io_ioc iop' = ioc - m - int n'"
      "io_into iop' = io_into iop1 @ take n' (pipe_bytes s2 p)" "pipe_ok s' p k bs" "pipe_bytes s' p = drop n' (pipe_bytes s2 p)"
      "u_error s' = E_NONE"
      using Suc.IH [OF s2(1,4), of "ioc - m" n' iop1] m(4) fu s2(3) by (auto simp: n'_def)
    have "io_into iop' = io_into iop @ take n (pipe_bytes s p)"
      using ih(3) s2(2) bytes by (simp add: iop1_def n' take_add)
    moreover have "pipe_bytes s' p = drop n (pipe_bytes s p)" using ih(5) s2(2) by (simp add: n' add.commute)
    moreover have "io_ioc iop' = ioc - int n" using ih(2) m(1) by (simp add: n')
    ultimately show ?thesis using step ih by simp
  qed
qed

section \<open>Putting in\<close>

lemma pipe_put_in:
  assumes ok: "pipe_ok s p k bs" and fok: "file_ok s1 p k bs'"
    and bw: "bytes_written s p (i_pwx (inodes s p)) v s1"
    and ino: "inodes s1 p = resized (inodes s p) (new_size (i_size (inodes s p)) (i_pwx (inodes s p)) (length v)) xs"
    and room: "int (length v) \<le> PIPE_MAX - i_pwx (inodes s p)" "int (length v) \<le> PIPE_MAX - i_pnc (inodes s p)"
  shows "pipe_ok (put_in p (int (length v)) s1) p k bs'" "pipe_bytes (put_in p (int (length v)) s1) p = pipe_bytes s p @ v"
    "i_pnc (inodes (put_in p (int (length v)) s1) p) = i_pnc (inodes s p) + int (length v)"
proof -
  let ?i = "inodes s p" and ?s = "put_in p (int (length v)) s1" and ?m = "int (length v)"
  note b = ok [unfolded pipe_ok_def ring_def]
  have i1: "i_dev (inodes s1 p) = i_dev ?i" "i_addr (inodes s1 p) = xs" "i_mode (inodes s1 p) = i_mode ?i" "i_prx (inodes s1 p) = i_prx ?i"
    "i_pwx (inodes s1 p) = i_pwx ?i" "i_pnc (inodes s1 p) = i_pnc ?i" "i_size (inodes s1 p) = new_size (i_size ?i) (i_pwx ?i) (length v)"
    using ino by (simp_all add: resized_def)
  have w: "wrap16 (i_pwx ?i + ?m) = i_pwx ?i + ?m" "wrap16 (i_pnc ?i + ?m) = i_pnc ?i + ?m" using b room by simp_all
  have i: "inodes ?s p = (inodes s1 p)\<lparr>i_pwx := (if i_pwx ?i + ?m = PIPE_MAX then 0 else i_pwx ?i + ?m), i_pnc := i_pnc ?i + ?m\<rparr>"
    using w i1 by (simp add: put_in_def Let_def)
  show pnc: "i_pnc (inodes ?s p) = i_pnc ?i + ?m" unfolding i by simp
  have same: "disk ?s = disk s1" "mountp ?s = mountp s1" "lost_bufs ?s = lost_bufs s1" "i_dev (inodes ?s p) = i_dev ?i"
    "i_addr (inodes ?s p) = xs" "i_mode (inodes ?s p) = i_mode ?i" "i_prx (inodes ?s p) = i_prx ?i"
    "i_size (inodes ?s p) = new_size (i_size ?i) (i_pwx ?i) (length v)"
    unfolding i using i1 by (simp_all add: put_in_def upd_inode_def)
  have pwx: "i_pwx (inodes ?s p) = (i_pwx ?i + ?m) mod PIPE_MAX" unfolding i using b room by auto
  have wrap: "i_prx ?i + i_pnc ?i < PIPE_MAX \<longrightarrow> i_pwx ?i = i_prx ?i + i_pnc ?i" using b by auto
  have pm: "i_pwx ?i = (i_prx ?i + i_pnc ?i) mod PIPE_MAX" using b by simp
  have "i_pwx (inodes ?s p) = (i_prx ?i + (i_pnc ?i + ?m)) mod PIPE_MAX"
    unfolding pwx pm by (simp add: mod_add_left_eq add.assoc)
  moreover have "min (i_prx ?i + (i_pnc ?i + ?m)) PIPE_MAX \<le> new_size (i_size ?i) (i_pwx ?i) (length v)"
  proof (cases "i_prx ?i + i_pnc ?i < PIPE_MAX")
    case True
    then have "i_pwx ?i = i_prx ?i + i_pnc ?i" "i_prx ?i + i_pnc ?i \<le> i_size ?i" using wrap b by simp_all
    then show ?thesis by (auto simp: new_size_def min_def max_def)
  next
    case False
    then have "PIPE_MAX \<le> i_size ?i" using b by simp
    then show ?thesis by (auto simp: new_size_def min_def max_def)
  qed
  moreover have "new_size (i_size ?i) (i_pwx ?i) (length v) \<le> PIPE_MAX" using b room by (auto simp: new_size_def)
  moreover have "0 \<le> i_pwx (inodes ?s p)" unfolding pwx by simp
  ultimately have "ring (inodes ?s p)" unfolding ring_def pnc same using b room by auto
  moreover have "free_ok (i_dev ?i) k s1 bs'" using fok i1(1) by (simp add: file_ok_def)
  then have "free_ok (i_dev ?i) k ?s bs'" by (elim free_ok_transfer) (use same in simp_all)
  ultimately show "pipe_ok ?s p k bs'"
    using fok ok same i1 by (simp add: pipe_ok_def file_ok_def i_type_def)
  have at: "kept_bytes ?s p ((i_prx ?i + int j) mod PIPE_MAX) = (pipe_bytes s p @ v) ! j" if j: "int j < i_pnc ?i + ?m" for j
  proof -
    let ?x = "(i_prx ?i + int j) mod PIPE_MAX"
    have x: "0 \<le> ?x" "?x < PIPE_MAX" by simp_all
    have "kept_bytes ?s p ?x = kept_bytes s1 p ?x" using same i1 by (simp add: kept_bytes_def)
    also have "\<dots> = (if i_pwx ?i \<le> ?x \<and> ?x < i_pwx ?i + ?m then v ! nat (?x - i_pwx ?i) else kept_bytes s p ?x)"
      using bw x unfolding bytes_written_def by simp
    also have "\<dots> = (pipe_bytes s p @ v) ! j"
    proof (cases "int j < i_pnc ?i")
      case True
      have "\<not> (i_pwx ?i \<le> ?x \<and> ?x < i_pwx ?i + ?m)"
      proof
        assume a: "i_pwx ?i \<le> ?x \<and> ?x < i_pwx ?i + ?m"
        define l where "l = ?x - i_pwx ?i"
        have l: "0 \<le> l" "l < ?m" using a by (simp_all add: l_def)
        have "(i_pnc ?i + l - int j) mod PIPE_MAX = ((i_prx ?i + i_pnc ?i) + l - (i_prx ?i + int j)) mod PIPE_MAX"
          by (rule arg_cong [where f = "\<lambda>x. x mod PIPE_MAX"]) simp
        also have "\<dots> = ((i_prx ?i + i_pnc ?i) mod PIPE_MAX + l - (i_prx ?i + int j) mod PIPE_MAX) mod PIPE_MAX"
          by (subst mod_diff_right_eq) (simp only: add_diff_eq [symmetric] mod_add_left_eq)
        also have "\<dots> = 0" unfolding pm [symmetric] by (simp add: l_def)
        finally have "(i_pnc ?i + l - int j) mod PIPE_MAX = 0" .
        moreover have "0 < i_pnc ?i + l - int j" "i_pnc ?i + l - int j < PIPE_MAX" using True l room by simp_all
        ultimately show False by simp
      qed
      then show ?thesis using True by (auto simp: pipe_bytes_def nth_append)
    next
      case False
      define l where "l = j - nat (i_pnc ?i)"
      have l: "j = nat (i_pnc ?i) + l" "int l < ?m" "int j = i_pnc ?i + int l" using False j b by (auto simp: l_def)
      have "?x = (i_pwx ?i + int l) mod PIPE_MAX" unfolding pm l(3) by (simp add: mod_add_left_eq add.assoc)
      then have "?x = i_pwx ?i + int l" using b room(1) l(2) by simp
      then show ?thesis using l by (simp add: nth_append)
    qed
    finally show ?thesis .
  qed
  show "pipe_bytes ?s p = pipe_bytes s p @ v"
  proof (rule nth_equalityI)
    show "length (pipe_bytes ?s p) = length (pipe_bytes s p @ v)" using pnc b by (simp add: nat_add_distrib)
    fix j assume "j < length (pipe_bytes ?s p)"
    then have j: "int j < i_pnc ?i + ?m" "j < nat (i_pnc ?i + ?m)" using pnc by simp_all
    then have "pipe_bytes ?s p ! j = kept_bytes ?s p ((i_prx ?i + int j) mod PIPE_MAX)"
      using pnc same(7) by (simp add: pipe_bytes_def)
    then show "pipe_bytes ?s p ! j = (pipe_bytes s p @ v) ! j" using at [OF j(1)] by simp
  qed
qed

text \<open>How a writer of \<open>ioc\<close> bytes stops after \<open>m\<close> of them, when nobody else runs meanwhile.\<close>

definition final_state :: "('r, 's) pipe_result \<Rightarrow> 's option" where
  "final_state r = (case r of PipeDone x s \<Rightarrow> Some s | PipeAsleep s \<Rightarrow> Some s | PipeStuck \<Rightarrow> None)"

definition put_end :: "int \<Rightarrow> int \<Rightarrow> nat \<Rightarrow> (io, 'a ino_state_scheme) pipe_result \<Rightarrow> bool" where
  "put_end flag ioc m r \<longleftrightarrow>
     (case r of
        PipeDone iop' s' \<Rightarrow> io_ioc iop' = ioc - int m \<and>
          (int m = ioc \<and> u_error s' = E_NONE \<or>
           int m < ioc \<and> (u_error s' = ENOSPC \<or> flag AND IONDLY \<noteq> 0 \<and> u_error s' = E_NONE \<or>
             flag AND IONONBLOCK \<noteq> 0 \<and> u_error s' = EAGAIN))
      | PipeAsleep s' \<Rightarrow> int m < ioc \<and> u_error s' = E_NONE \<and> flag AND IONDLY = 0 \<and> flag AND IONONBLOCK = 0
      | PipeStuck \<Rightarrow> False)"

definition put_result :: "nat \<Rightarrow> nat \<Rightarrow> io \<Rightarrow> int \<Rightarrow> 'a ino_state_scheme \<Rightarrow> nat \<Rightarrow> (io, 'a ino_state_scheme) pipe_result \<Rightarrow> bool" where
  "put_result p k iop ioc s m r \<longleftrightarrow>
     (\<exists>s' bs'. final_state r = Some s' \<and> pipe_ok s' p k bs' \<and> pipe_bytes s' p = pipe_bytes s p @ take m (io_from iop) \<and>
        put_end (io_flag iop) ioc m r \<and> (ioc \<le> PIPE_MAX \<and> u_error s' \<noteq> ENOSPC \<longrightarrow> m = 0 \<or> int m = ioc))"

lemma no_readers_resized [simp]: "no_readers (resized i sz xs) = no_readers i"
  by (simp add: no_readers_def resized_def)

lemma pwake_no_readers [simp]: "no_readers (inodes (pwake_readers p s) p) = no_readers (inodes s p)"
  by (simp add: no_readers_def pwake_readers_def wake_sleepers_def pollwake_def Let_def)

lemma put_in_no_readers [simp]: "no_readers (inodes (put_in p n s) p) = no_readers (inodes s p)"
  by (simp add: no_readers_def put_in_def Let_def)

lemma put_in_u_error [simp]: "u_error (put_in p n s) = u_error s"
  by (simp add: put_in_def)

lemma same_pipe_enter: "same_pipe s (psleep_enter rd p s) p"
  by (simp add: same_pipe_def psleep_enter_def count_in_def upd_inode_def)

lemma psleep_enter_u_error [simp]: "u_error (psleep_enter rd p s) = u_error s"
  by (simp add: psleep_enter_def)

lemma put_result_0:
  assumes "pipe_ok s p k bs" "same_pipe s s' p" "final_state r = Some s'" "put_end (io_flag iop) ioc 0 r"
  shows "put_result p k iop ioc s 0 r"
  unfolding put_result_def using same_pipe [OF assms(2)] assms by auto

text \<open>A transfer of \<open>m\<close> bytes, then \<open>m'\<close> more.\<close>

lemma put_result_more:
  assumes "put_result p k iop1 (ioc - int m) s1 m' r" "pipe_bytes s1 p = pipe_bytes s p @ take m (io_from iop)"
    "io_from iop1 = drop m (io_from iop)" "io_flag iop1 = io_flag iop" "ioc \<le> PIPE_MAX \<longrightarrow> int m = ioc"
  shows "put_result p k iop ioc s (m + m') r"
proof -
  obtain s' bs' where r: "final_state r = Some s'" "pipe_ok s' p k bs'" "pipe_bytes s' p = pipe_bytes s1 p @ take m' (io_from iop1)"
    "put_end (io_flag iop1) (ioc - int m) m' r" "ioc - int m \<le> PIPE_MAX \<and> u_error s' \<noteq> ENOSPC \<longrightarrow> m' = 0 \<or> int m' = ioc - int m"
    using assms(1) unfolding put_result_def by blast
  have "put_end (io_flag iop) ioc (m + m') r"
    using r(4) assms(4) by (auto simp: put_end_def split: pipe_result.splits)
  moreover have "pipe_bytes s' p = pipe_bytes s p @ take (m + m') (io_from iop)"
    using r(3) assms(2,3) by (simp add: take_add)
  moreover have "ioc \<le> PIPE_MAX \<and> u_error s' \<noteq> ENOSPC \<longrightarrow> m + m' = 0 \<or> int (m + m') = ioc" using r(4,5) assms(5) by auto
  ultimately show ?thesis unfolding put_result_def using r(1,2) by blast
qed

lemma pwrite_loop_ok:
  fixes s :: "'a fio_state_scheme"
  shows "pipe_ok s p k bs \<Longrightarrow> u_error s = E_NONE \<Longrightarrow> \<not> no_readers (inodes s p) \<Longrightarrow> 0 \<le> ioc \<Longrightarrow> nat ioc \<le> fuel \<Longrightarrow>
    ioc \<le> int (length (io_from iop)) \<Longrightarrow>
    \<exists>m. put_result p k iop ioc s m (pwrite_loop fuel [] p iop ioc s)"
proof (induction fuel arbitrary: iop ioc s bs)
  case 0
  then have "put_result p k iop ioc s 0 (PipeDone (iop\<lparr>io_ioc := ioc\<rparr>) s)"
    by (intro put_result_0 [OF 0(1) same_pipe_refl]) (simp_all add: final_state_def put_end_def)
  then show ?case using 0 by auto
next
  case (Suc fuel)
  let ?i = "inodes s p"
  note b = Suc.prems(1) [unfolded pipe_ok_def ring_def]
  define n where "n = pwrite_room ioc ?i"
  have n: "0 \<le> n" "n \<le> ioc" "n \<le> PIPE_MAX - i_pwx ?i" "n \<le> PIPE_MAX - i_pnc ?i"
    using b Suc.prems(4) pos_mod_bound [of PIPE_MAX "i_prx ?i + i_pnc ?i"] by (auto simp: n_def pwrite_room_def simp del: pos_mod_bound)
  show ?case
  proof (cases "ioc > 0")
    case False
    then have "put_result p k iop ioc s 0 (PipeDone (iop\<lparr>io_ioc := ioc\<rparr>) s)"
      using Suc.prems by (intro put_result_0 [OF Suc.prems(1) same_pipe_refl]) (simp_all add: final_state_def put_end_def)
    then show ?thesis using False Suc.prems(2) by auto
  next
    case pos: True
    show ?thesis
    proof (cases "n = 0 \<or> (ioc \<le> PIPE_MAX \<and> n \<noteq> ioc)")
      case True
      define r :: "(io, 'a fio_state_scheme) pipe_result" where
        "r = (if io_flag iop AND IONDLY \<noteq> 0 then PipeDone (iop\<lparr>io_ioc := ioc\<rparr>) s
              else if io_flag iop AND IONONBLOCK \<noteq> 0 then PipeDone (iop\<lparr>io_ioc := ioc\<rparr>) (s\<lparr>u_error := EAGAIN\<rparr>)
              else PipeAsleep (psleep_enter False p s))"
      have "pwrite_loop (Suc fuel) [] p iop ioc s = r"
        using pos True Suc.prems(2,3) by (simp add: n_def [symmetric] r_def Let_def)
      moreover have "put_result p k iop ioc s 0 r"
      proof -
        consider (nd) "io_flag iop AND IONDLY \<noteq> 0" | (nb) "io_flag iop AND IONDLY = 0" "io_flag iop AND IONONBLOCK \<noteq> 0"
          | (sl) "io_flag iop AND IONDLY = 0" "io_flag iop AND IONONBLOCK = 0" by blast
        then show ?thesis
        proof cases
          case nd
          then show ?thesis using pos Suc.prems(2)
            by (intro put_result_0 [OF Suc.prems(1) same_pipe_refl]) (simp_all add: r_def final_state_def put_end_def)
        next
          case nb
          then show ?thesis using pos
            by (intro put_result_0 [OF Suc.prems(1) same_pipe_error [of s EAGAIN p]]) (simp_all add: r_def final_state_def put_end_def)
        next
          case sl
          then show ?thesis using pos Suc.prems(2)
            by (intro put_result_0 [OF Suc.prems(1) same_pipe_enter [of s False p]]) (simp_all add: r_def final_state_def put_end_def)
        qed
      qed
      ultimately show ?thesis by auto
    next
      case False
      define iop0 where "iop0 = iop\<lparr>io_ioc := n, io_seek := i_pwx ?i\<rparr>"
      have fok: "file_ok s p k bs" and ty: "i_type ?i \<noteq> IFBLK" using Suc.prems(1) by (simp_all add: pipe_ok_def)
      have io0: "0 \<le> io_seek iop0" "io_ioc iop0 \<le> int (length (io_from iop0))" using b n(2) Suc.prems(6) by (simp_all add: iop0_def)
      obtain iop1 s1 where f: "fwrite p iop0 s = Some (iop1, s1)" "write_result p k iop0 s bs iop1 s1"
        using fwrite_ok [OF fok Suc.prems(2) ty io0] by blast
      then obtain m bs1 xs where m: "iop1 = written iop0 m" "file_ok s1 p k bs1" "bytes_written s p (i_pwx ?i) (take m (io_from iop)) s1"
        "inodes s1 = (inodes s)(p := resized ?i (new_size (i_size ?i) (i_pwx ?i) m) xs)" "write_end iop0 m (u_error s1) bs1"
        unfolding write_result_def by (auto simp: iop0_def)
      have mn: "int m \<le> n" "u_error s1 = E_NONE \<and> int m = n \<or> u_error s1 = ENOSPC"
        using m(5) n b by (auto simp: write_end_def iop0_def)
      define v where "v = take m (io_from iop)"
      have lv: "length v = m" using mn(1) n(2) Suc.prems(6) by (simp add: v_def)
      have ino: "inodes s1 p = resized ?i (new_size (i_size ?i) (i_pwx ?i) (length v)) xs" using m(4) lv by simp
      have room: "int (length v) \<le> PIPE_MAX - i_pwx ?i" "int (length v) \<le> PIPE_MAX - i_pnc ?i" using lv mn(1) n(3,4) by simp_all
      note pi = pipe_put_in [OF Suc.prems(1) m(2) m(3) [folded v_def] ino room, unfolded lv]
      define s2 where "s2 = put_in p (int m) s1"
      define s3 where "s3 = (if i_pnc (inodes s2 p) > 0 then pwake_readers p s2 else s2)"
      have sp: "same_pipe s2 s3 p" using same_pipe_wake(1) [of s2 p p] by (simp add: s3_def)
      have s3: "pipe_ok s3 p k bs1" "pipe_bytes s3 p = pipe_bytes s p @ v" "u_error s3 = u_error s1" "\<not> no_readers (inodes s3 p)"
        using same_pipe [OF sp] pi(1,2) m(4) Suc.prems(3) by (simp_all add: s2_def) (simp_all add: s3_def s2_def)
      have iop1: "io_from iop1 = drop m (io_from iop)" "io_flag iop1 = io_flag iop" "n - io_ioc iop1 = int m"
        using m(1) by (simp_all add: written_def iop0_def)
      have step: "pwrite_loop (Suc fuel) [] p iop ioc s = pwrite_loop fuel [] p iop1 (ioc - int m) s3"
      proof -
        have nz: "(n = 0 \<or> ioc \<le> PIPE_MAX \<and> n \<noteq> ioc) = False" using False by blast
        show ?thesis
          using pos Suc.prems(2,3) f(1) iop1(3)
          by (simp add: n_def [symmetric] iop0_def [symmetric] Let_def nz s2_def s3_def del: de_Morgan_disj)
      qed
      show ?thesis
      proof (cases "u_error s1 = E_NONE")
        case True
        then have mm: "int m = n" "0 < n" using mn(2) False n(1) by auto
        have pr: "0 \<le> ioc - int m" "nat (ioc - int m) \<le> fuel" "ioc - int m \<le> int (length (io_from iop1))"
          using mm n(2) Suc.prems(5,6) iop1(1) by auto
        obtain m' where m': "put_result p k iop1 (ioc - int m) s3 m' (pwrite_loop fuel [] p iop1 (ioc - int m) s3)"
          using Suc.IH [OF s3(1) _ s3(4) pr] s3(3) True by auto
        have "put_result p k iop ioc s (m + m') (pwrite_loop fuel [] p iop1 (ioc - int m) s3)"
          by (rule put_result_more [OF m' _ iop1(1,2)]) (use s3(2) False mm in \<open>auto simp: v_def\<close>)
        then show ?thesis using step by auto
      next
        case er: False
        then have e: "u_error s3 = ENOSPC" using mn(2) s3(3) by auto
        define r where "r = PipeDone (iop1\<lparr>io_ioc := ioc - int m\<rparr>) s3"
        have "pwrite_loop fuel [] p iop1 (ioc - int m) s3 = r" using e by (cases fuel) (simp_all add: r_def)
        moreover have "int m < ioc" using m(5) er n(2) by (auto simp: write_end_def iop0_def)
        then have "put_result p k iop ioc s m r"
          unfolding put_result_def using s3 e by (intro exI [of _ s3] exI [of _ bs1]) (simp add: r_def final_state_def put_end_def v_def)
        ultimately show ?thesis using step by auto
      qed
    qed
  qed
qed

end
