(* ===== verification/Pipe_Properties.thy ===== *)
theory Pipe_Properties
  imports Pipe_Contents
begin

text \<open>
  A pipe is a queue: what is written is appended, what is read is its prefix, and small writes are all or
  nothing. A small write that would cross the end of the ring waits although there is room.
\<close>

section \<open>A pipe to demonstrate with\<close>

text \<open>The ring holds ten bytes at its end; block 30 is its last block.\<close>

definition demo_pipe :: fio_state where
  "demo_pipe = demo_kernel (replicate 60 0) Map.empty
     (\<lambda>_. (demo_inode 4096)\<lparr>i_size := 5100, i_addr := replicate 9 0 @ 30 # replicate 3 0, i_pnc := 10, i_prx := 5090,
        i_pwx := 5100, i_par := 1, i_paw := 1\<rparr>)
     [demo_mount [7, 12, 9, 6] 4 5]
     ((\<lambda>_. Map.empty)(5 := (disk (demo_fs [7, 12, 9, 6] 4 5) 5)(30 \<mapsto> replicate 512 7))) (\<lambda>_. [])"

lemma demo_pipe_simps [simp]:
  "u_error demo_pipe = E_NONE"
  "inodes demo_pipe p = (demo_inode 4096)\<lparr>i_size := 5100, i_addr := replicate 9 0 @ 30 # replicate 3 0, i_pnc := 10,
     i_prx := 5090, i_pwx := 5100, i_par := 1, i_paw := 1\<rparr>"
  "lost_bufs demo_pipe = []" "disk demo_pipe 5 = (disk (demo_fs [7, 12, 9, 6] 4 5) 5)(30 \<mapsto> replicate 512 7)"
  by (simp_all add: demo_pipe_def demo_kernel_def)

lemma demo_pipe_nth: "(replicate 9 0 @ (30 :: int) # replicate 3 0) ! r = (if r = 9 then 30 else 0)" if "r < 13"
  using that by (auto simp: nth_append nth_Cons split: nat.splits)

lemma demo_pipe_ok: "pipe_ok demo_pipe p 0 [6, 9, 12, 7, 20]"
proof -
  let ?s = "demo_fs [7, 12, 9, 6] 4 5"
  obtain s' where "bput 5 30 (replicate 512 7) ?s = Some s'" "free_ok 5 0 s' [6, 9, 12, 7, 20]"
    using bput_ok [OF demo_free_ok, of 30] by auto
  then have "free_ok 5 0 demo_pipe [6, 9, 12, 7, 20]"
    by (elim free_ok_transfer) (auto simp: bput_def demo_pipe_def demo_kernel_def demo_fs_def)
  moreover have "sound (disk demo_pipe 5) (replicate 9 0 @ 30 # replicate 3 0) {6, 9, 12, 7, 20}"
    by (rule sound_flat) (auto simp: demo_pipe_nth split: if_splits)
  ultimately show ?thesis
    by (simp add: pipe_ok_def file_ok_def ring_def i_type_def demo_inode_def insert_commute)
qed

section \<open>Reading\<close>

text \<open>
  C19. Reading takes a prefix. From a pipe that is not empty a read returns at once with the first bytes of the
  queue, as many as it asked for or as there are, and leaves the others in order, wherever in the ring they
  are; no other process has to run.
\<close>

theorem pread_takes_prefix:
  fixes s :: "'a fio_state_scheme"
  assumes "pipe_ok s p k bs" "u_error s = E_NONE" "0 \<le> io_ioc iop" "pipe_bytes s p \<noteq> []"
    "n = min (nat (io_ioc iop)) (length (pipe_bytes s p))"
  shows "\<exists>iop' s'. pread env p iop s = PipeDone iop' s' \<and> io_ioc iop' = io_ioc iop - int n \<and>
    io_into iop' = io_into iop @ take n (pipe_bytes s p) \<and> pipe_bytes s' p = drop n (pipe_bytes s p) \<and>
    pipe_ok s' p k bs \<and> u_error s' = E_NONE"
proof -
  have pnc: "0 < i_pnc (inodes s p)" using assms(4) by (auto simp: pipe_bytes_def)
  then have "pread_check iop (inodes s p) = WaitGo" by (simp add: pread_check_def)
  then have e: "pread env p iop s = pread_data p iop s" by (cases env) simp_all
  have n: "n = nat (min (io_ioc iop) (i_pnc (inodes s p)))" using assms(3,5) pnc by auto
  obtain iop' s' where r: "pread_loop (nat (io_ioc iop)) p iop (io_ioc iop) s = Some (iop', s')"
    "io_ioc iop' = io_ioc iop - int n" "io_into iop' = io_into iop @ take n (pipe_bytes s p)" "pipe_ok s' p k bs"
    "pipe_bytes s' p = drop n (pipe_bytes s p)" "u_error s' = E_NONE"
    using pread_loop_ok [OF assms(1-3) order_refl n, of iop] by blast
  define s2 where "s2 = (if i_pnc (inodes s' p) < PIPE_MAX then pwake_writers p s' else s')"
  have "same_pipe s' s2 p" using same_pipe_wake(2) [of s' p p] by (simp add: s2_def)
  then have "pipe_ok s2 p k bs" "pipe_bytes s2 p = drop n (pipe_bytes s p)" "u_error s2 = E_NONE"
    using same_pipe [of s' s2 p] r(4-6) by (simp_all add: s2_def)
  then show ?thesis using e r(1-3) by (simp add: pread_data_def s2_def)
qed

theorem pread_takes_prefix_witness:
  "\<exists>iop' s'. pread [] 1 \<lparr>io_ioc = 4, io_seek = 0, io_flag = 0, io_from = [], io_into = []\<rparr> demo_pipe = PipeDone iop' s' \<and>
     io_ioc iop' = 0 \<and> length (pipe_bytes s' 1) = 6"
proof -
  have "pipe_bytes demo_pipe 1 \<noteq> []" by (simp add: pipe_bytes_def)
  from pread_takes_prefix [OF demo_pipe_ok _ _ this refl, of "\<lparr>io_ioc = 4, io_seek = 0, io_flag = 0, io_from = [], io_into = []\<rparr>" "[]"]
  obtain iop' s' where r: "pread [] 1 \<lparr>io_ioc = 4, io_seek = 0, io_flag = 0, io_from = [], io_into = []\<rparr> demo_pipe = PipeDone iop' s'"
    "io_ioc iop' = 0" "pipe_bytes s' 1 = drop 4 (pipe_bytes demo_pipe 1)" by auto
  have "length (pipe_bytes demo_pipe 1) = 10" by simp
  then have "length (pipe_bytes s' 1) = 6" using r(3) by (simp del: length_pipe_bytes)
  then show ?thesis using r(1,2) by blast
qed

section \<open>Writing\<close>



text \<open>
  A write of at most \<open>PIPE_MAX\<close> bytes that would cross the end of the ring is refused, with \<open>EAGAIN\<close> for
  \<open>O_NONBLOCK\<close>, or sleeps, although there is room for it and although \<open>poll\<close> reports that the pipe can be
  written; the state but for the error and the counts of sleepers stays as it was.
\<close>

theorem pwrite_waits_at_end_of_ring:
  fixes s :: "'a fio_state_scheme"
  assumes "pipe_ok s p k bs" "u_error s = E_NONE" "\<not> no_readers (inodes s p)"
    "PIPE_MAX - i_pwx (inodes s p) < io_ioc iop" "io_ioc iop \<le> PIPE_MAX - i_pnc (inodes s p)" "io_flag iop AND IONDLY = 0"
  shows "pwrite [] p iop s = (if io_flag iop AND IONONBLOCK \<noteq> 0 then PipeDone iop (s\<lparr>u_error := EAGAIN\<rparr>)
      else PipeAsleep (psleep_enter False p s)) \<and>
    fst (ppoll p POLLOUT msec s) = POLLOUT"
proof -
  let ?i = "inodes s p"
  note b = assms(1) [unfolded pipe_ok_def ring_def]
  have "i_pwx ?i < PIPE_MAX" using b by simp
  then have pos: "0 < io_ioc iop" using assms(4) by linarith
  have n: "pwrite_room (io_ioc iop) ?i = PIPE_MAX - i_pwx ?i" using assms(4,5) by (simp add: pwrite_room_def)
  have le: "io_ioc iop \<le> PIPE_MAX" "PIPE_MAX - i_pwx ?i \<noteq> io_ioc iop" "i_pnc ?i < PIPE_MAX" using assms(4,5) b pos by simp_all
  obtain f where f: "nat (io_ioc iop) = Suc f" using pos by (cases "nat (io_ioc iop)") auto
  have same: "iop\<lparr>io_ioc := io_ioc iop\<rparr> = iop" by (cases iop) simp
  have w: "pwrite [] p iop s = (if io_flag iop AND IONONBLOCK \<noteq> 0 then PipeDone iop (s\<lparr>u_error := EAGAIN\<rparr>)
      else PipeAsleep (psleep_enter False p s))"
    using assms(2,3,6) pos n le f same by (simp add: pwrite_def Let_def)
  have "fst (ppoll p POLLOUT msec s) = POLLOUT" using le(3) assms(3) by (simp add: ppoll_def Let_def)
  then show ?thesis using w by simp
qed

theorem pwrite_waits_at_end_of_ring_witness:
  "pwrite [] 1 \<lparr>io_ioc = 30, io_seek = 0, io_flag = 16, io_from = replicate 30 1, io_into = []\<rparr> demo_pipe =
     PipeDone \<lparr>io_ioc = 30, io_seek = 0, io_flag = 16, io_from = replicate 30 1, io_into = []\<rparr> (demo_pipe\<lparr>u_error := EAGAIN\<rparr>) \<and>
   i_pnc (inodes demo_pipe 1) = 10"
proof -
  have "\<not> no_readers (inodes demo_pipe 1)" by (simp add: no_readers_def)
  from pwrite_waits_at_end_of_ring [OF demo_pipe_ok _ this, of "\<lparr>io_ioc = 30, io_seek = 0, io_flag = 16, io_from = replicate 30 1, io_into = []\<rparr>"]
  show ?thesis by simp
qed

end
