(* ===== verification/Timeouts.thy ===== *)
theory Timeouts
  imports Prelude
begin

text \<open>
  The timeouts of the DDI/DKI, \<^verbatim>\<open>src/kernel/coh.386/lib/ddi_time.c\<close>: a queue of cells in which
  each holds the number of clock ticks after the cell in front of it. Cells that have expired
  stay at the front, before \<^verbatim>\<open>td_first\<close>, until a processor has called their functions. A cell is
  cancelled by taking a ticket: its function is not called once its ticket is above 0.
\<close>

section \<open>The queue\<close>

text \<open>
  The list that \<^verbatim>\<open>td_run\<close> starts, in order, with the address of each cell; \<open>td_nrun\<close> is the number of
  cells in front of \<^verbatim>\<open>td_first\<close>. The functions and their arguments are names; \<open>call\<close> below says
  what a function does. The basic locks that are held and the flag \<^verbatim>\<open>dc_run_timeouts\<close> of each
  processor belong to the state, and so do the requests to run \<^verbatim>\<open>RUN_TIMEOUTS\<close> later, at the next
  interrupt exit of a processor or, after a failure, at its process level.
\<close>

type_synonym tick = "32 word"

record tcell =
  t_addr :: nat
  t_delta :: tick
  t_id :: "32 word"
  t_cpu :: "32 word"
  t_ticket :: "8 word"
  t_ticket_holder :: "8 word"
  t_funcp :: nat
  t_arg :: nat
  t_lockp :: "nat option"
  t_pl :: nat

record timedata =
  td_cells :: "tcell list"
  td_nrun :: nat
  td_id :: "32 word"
  td_held :: "nat \<Rightarrow> bool"
  dc_run_timeouts :: "32 word \<Rightarrow> bool"
  defer_int :: "32 word list"
  defer_proc :: "32 word list"

definition NOCPU :: "32 word" where
  "NOCPU = - 1"

definition cell_at :: "nat \<Rightarrow> (tcell \<Rightarrow> tcell) \<Rightarrow> 'a timedata_scheme \<Rightarrow> 'a timedata_scheme" where
  "cell_at i f s = s\<lparr>td_cells := (td_cells s)[i := f (td_cells s ! i)]\<rparr>"

section \<open>A clock tick\<close>

definition SCHEDULE_TIMEOUT :: "32 word \<Rightarrow> nat \<Rightarrow> 'a timedata_scheme \<Rightarrow> 'a timedata_scheme" where
  "SCHEDULE_TIMEOUT me i s =
    (let s1 = (if t_cpu (td_cells s ! i) = NOCPU then cell_at i (\<lambda>c. c\<lparr>t_cpu := me\<rparr>) s else s);
         cpu = t_cpu (td_cells s1 ! i)
     in if \<not> dc_run_timeouts s1 cpu
        then s1\<lparr>dc_run_timeouts := (dc_run_timeouts s1)(cpu := True), defer_int := defer_int s1 @ [cpu]\<rparr>
        else s1)"

lemma length_cells_SCHEDULE [simp]: "length (td_cells (SCHEDULE_TIMEOUT me i s)) = length (td_cells s)"
  by (simp add: SCHEDULE_TIMEOUT_def Let_def cell_at_def)

text \<open>The loop from the first cell that expires to the last one with no ticks after it.\<close>

function check_loop :: "32 word \<Rightarrow> nat \<Rightarrow> 'a timedata_scheme \<Rightarrow> 'a timedata_scheme" where
  "check_loop me i s =
    (let s1 = SCHEDULE_TIMEOUT me i s
     in if Suc i < length (td_cells s1) \<and> t_delta (td_cells s1 ! Suc i) = 0
        then check_loop me (Suc i) s1
        else s1\<lparr>td_nrun := Suc i\<rparr>)"
  by pat_completeness auto
termination
  by (relation "measure (\<lambda>(me, i, s). length (td_cells s) - i)") auto

declare check_loop.simps [simp del]

definition CHECK_TIMEOUT :: "32 word \<Rightarrow> 'a timedata_scheme \<Rightarrow> 'a timedata_scheme" where
  "CHECK_TIMEOUT me s =
    (if td_nrun s < length (td_cells s)
     then let s1 = cell_at (td_nrun s) (\<lambda>c. c\<lparr>t_delta := t_delta c - 1\<rparr>) s
          in if t_delta (td_cells s1 ! td_nrun s) = 0 then check_loop me (td_nrun s) s1 else s1
     else s)"

section \<open>Scheduling a function\<close>

text \<open>
  One walk of the queue with a candidate id. \<open>Inl\<close>: a cell has this id already, with the ticks as
  the walk has left them; \<open>Inr\<close>: the position before which the cell goes and its ticks.
\<close>

primrec queue_walk :: "32 word \<Rightarrow> tick \<Rightarrow> tcell list \<Rightarrow> tick + nat \<times> tick" where
  "queue_walk tid ticks [] = Inr (0, ticks)"
| "queue_walk tid ticks (scan # cs) =
    (if t_id scan = tid then Inl ticks
     else if ticks < t_delta scan then Inr (0, ticks)
     else (case queue_walk tid (ticks - t_delta scan) cs of
             Inl t \<Rightarrow> Inl t
           | Inr (k, t) \<Rightarrow> Inr (Suc k, t)))"

text \<open>
  The label \<^verbatim>\<open>id_scan\<close>: the id that was found, the next candidate, and the result of the walk. A
  duplicate goes back to the label with the ticks that the walk has already reduced.
\<close>

partial_function (option) id_scan ::
    "32 word \<Rightarrow> tick \<Rightarrow> tcell list \<Rightarrow> (32 word \<times> 32 word \<times> nat \<times> tick) option" where
  "id_scan next ticks cs =
    (let tid = (if next = 0 then 1 else next)
     in case queue_walk tid ticks cs of
          Inl t \<Rightarrow> id_scan (tid + 1) t cs
        | Inr r \<Rightarrow> Some (tid, tid + 1, r))"

text \<open>
  \<open>mem\<close> is the result of \<^verbatim>\<open>kmem_alloc\<close>. The result is the id, 0 when there is no memory.
\<close>

definition QUEUE_TIMEOUT ::
    "nat option \<Rightarrow> nat \<Rightarrow> nat \<Rightarrow> tick \<Rightarrow> nat option \<Rightarrow> 32 word \<Rightarrow> nat \<Rightarrow> 'a timedata_scheme
      \<Rightarrow> ('a timedata_scheme \<times> 32 word) option" where
  "QUEUE_TIMEOUT mem fn arg ticks lockp cpu pl s =
    (case mem of
       None \<Rightarrow> Some (s, 0)
     | Some addr \<Rightarrow>
         (case id_scan (td_id s) (if ticks = 0 then 1 else ticks) (td_cells s) of
            None \<Rightarrow> None
          | Some (tid, next, k, t) \<Rightarrow>
              let timep = \<lparr>t_addr = addr, t_delta = t, t_id = tid, t_cpu = cpu, t_ticket = 0,
                           t_ticket_holder = 0, t_funcp = fn, t_arg = arg, t_lockp = lockp, t_pl = pl\<rparr>;
                  cs = (td_cells s)[k := (td_cells s ! k)\<lparr>t_delta := t_delta (td_cells s ! k) - t\<rparr>]
              in Some (s\<lparr>td_cells := take k cs @ timep # drop k cs, td_id := next,
                         td_nrun := (if k < td_nrun s then td_nrun s + 1 else td_nrun s)\<rparr>, tid)))"

definition ltimeout :: "nat option \<Rightarrow> nat \<Rightarrow> nat \<Rightarrow> tick \<Rightarrow> nat \<Rightarrow> nat \<Rightarrow> 'a timedata_scheme
    \<Rightarrow> ('a timedata_scheme \<times> 32 word) option" where
  "ltimeout mem fn arg ticks lockp pl s = QUEUE_TIMEOUT mem fn arg ticks (Some lockp) NOCPU pl s"

definition itimeout :: "nat option \<Rightarrow> nat \<Rightarrow> nat \<Rightarrow> tick \<Rightarrow> nat \<Rightarrow> 'a timedata_scheme
    \<Rightarrow> ('a timedata_scheme \<times> 32 word) option" where
  "itimeout mem fn arg ticks pl s = QUEUE_TIMEOUT mem fn arg ticks None NOCPU pl s"

section \<open>Cancelling\<close>

primrec index_of :: "('b \<Rightarrow> bool) \<Rightarrow> 'b list \<Rightarrow> nat option" where
  "index_of P [] = None"
| "index_of P (x # xs) = (if P x then Some 0 else map_option Suc (index_of P xs))"

text \<open>
  The second half of \<^verbatim>\<open>untimeout\<close>, run when the ticket's turn has come. The holder of ticket 0 moves
  a cell that is not at the front to the front, its ticks to the cell behind it.
\<close>

definition untimeout_finish :: "nat \<Rightarrow> 8 word \<Rightarrow> 'a timedata_scheme \<Rightarrow> 'a timedata_scheme" where
  "untimeout_finish i ticket s =
    (let scan = td_cells s ! i;
         s1 = (if ticket = 0 \<and> i \<noteq> 0
               then let cs = (if Suc i < length (td_cells s)
                              then (td_cells s)[Suc i := (td_cells s ! Suc i)
                                     \<lparr>t_delta := t_delta (td_cells s ! Suc i) + t_delta scan\<rparr>]
                              else td_cells s)
                    in s\<lparr>td_cells := scan\<lparr>t_delta := 0\<rparr> # take i cs @ drop (Suc i) cs,
                         td_nrun := (if i < td_nrun s then td_nrun s else td_nrun s + 1)\<rparr>
               else s)
     in cell_at (if ticket = 0 then 0 else i) (\<lambda>c. c\<lparr>t_ticket_holder := ticket + 1\<rparr>) s1)"

text \<open>
  \<^verbatim>\<open>untimeout\<close> up to its wait for the function of the cell: \<open>Inr\<close> when it does not wait and has
  finished, \<open>Inl\<close> with the cell and the ticket when it spins, without the lock, until another
  processor has stored the ticket as the holder; then it goes on as \<open>untimeout_resume\<close>.
\<close>

definition untimeout :: "32 word \<Rightarrow> 32 word \<Rightarrow> 'a timedata_scheme
    \<Rightarrow> ('a timedata_scheme \<times> nat \<times> 8 word) + 'a timedata_scheme" where
  "untimeout me tid s =
    (case index_of (\<lambda>c. t_id c = tid) (td_cells s) of
       None \<Rightarrow> Inr s
     | Some i \<Rightarrow>
         let scan = td_cells s ! i; ticket = t_ticket scan;
             s1 = cell_at i (\<lambda>c. c\<lparr>t_ticket := ticket + 1, t_cpu := me\<rparr>) s
         in if ticket \<noteq> t_ticket_holder scan then Inl (s1, t_addr scan, ticket)
            else Inr (untimeout_finish i ticket s1))"

definition untimeout_resume :: "nat \<Rightarrow> 8 word \<Rightarrow> 'a timedata_scheme \<Rightarrow> 'a timedata_scheme option" where
  "untimeout_resume addr ticket s =
    (case index_of (\<lambda>c. t_addr c = addr) (td_cells s) of
       None \<Rightarrow> None
     | Some i \<Rightarrow> if t_ticket_holder (td_cells s ! i) = ticket then Some (untimeout_finish i ticket s)
                 else None)"

section \<open>Calling the functions that are due\<close>

definition lock_busy :: "tcell \<Rightarrow> 'a timedata_scheme \<Rightarrow> bool" where
  "lock_busy c s = (case t_lockp c of None \<Rightarrow> False | Some l \<Rightarrow> td_held s l)"

definition set_lock :: "tcell \<Rightarrow> bool \<Rightarrow> 'a timedata_scheme \<Rightarrow> 'a timedata_scheme" where
  "set_lock c b s = (case t_lockp c of None \<Rightarrow> s | Some l \<Rightarrow> s\<lparr>td_held := (td_held s)(l := b)\<rparr>)"

text \<open>
  The first loop, from the cell at position \<open>i\<close>. \<open>call fn arg\<close> is what the function does to the
  state while the queue is not locked, and what other processors do meanwhile; \<open>None\<close> when it
  does not return. The cell is found again by its address afterwards.
\<close>

partial_function (option) run_loop ::
    "(nat \<Rightarrow> nat \<Rightarrow> 'a timedata_scheme \<Rightarrow> 'a timedata_scheme option) \<Rightarrow> 32 word \<Rightarrow> nat \<Rightarrow> bool
      \<Rightarrow> 'a timedata_scheme \<Rightarrow> (bool \<times> 'a timedata_scheme) option" where
  "run_loop call me i lock_failed s =
    (if i = td_nrun s then Some (lock_failed, s)
     else if length (td_cells s) \<le> i then None
     else let scan = td_cells s ! i
          in if t_cpu scan \<noteq> me then run_loop call me (Suc i) lock_failed s
             else if 0 < t_ticket scan then run_loop call me (Suc i) lock_failed s
             else if lock_busy scan s then run_loop call me (Suc i) True s
             else (case call (t_funcp scan) (t_arg scan)
                          (cell_at i (\<lambda>c. c\<lparr>t_ticket := 1\<rparr>) (set_lock scan True s)) of
                     None \<Rightarrow> None
                   | Some s1 \<Rightarrow>
                       (case index_of (\<lambda>c. t_addr c = t_addr scan) (td_cells s1) of
                          None \<Rightarrow> None
                        | Some j \<Rightarrow>
                            run_loop call me (Suc j) lock_failed
                              (cell_at j (\<lambda>c. c\<lparr>t_ticket_holder := 1\<rparr>) (set_lock scan False s1)))))"

text \<open>The second loop: how many cells are freed, and whether it met a cell that is being deleted.\<close>

primrec reap :: "tcell list \<Rightarrow> nat \<times> bool" where
  "reap [] = (0, False)"
| "reap (scan # cs) =
    (if t_ticket_holder scan \<noteq> t_ticket scan then (0, True)
     else if t_ticket scan = 0 then (0, False)
     else (let (n, b) = reap cs in (Suc n, b)))"

definition RUN_TIMEOUTS ::
    "(nat \<Rightarrow> nat \<Rightarrow> 'a timedata_scheme \<Rightarrow> 'a timedata_scheme option) \<Rightarrow> 32 word \<Rightarrow> 'a timedata_scheme
      \<Rightarrow> 'a timedata_scheme option" where
  "RUN_TIMEOUTS call me s =
    (case run_loop call me 0 False s of
       None \<Rightarrow> None
     | Some (lock_failed, s1) \<Rightarrow>
         let (n, deleting) = reap (take (td_nrun s1) (td_cells s1));
             s2 = s1\<lparr>td_cells := drop n (td_cells s1), td_nrun := td_nrun s1 - n\<rparr>
         in Some (if lock_failed \<or> deleting
                  then s2\<lparr>defer_proc := defer_proc s2 @ [me]\<rparr>
                  else s2\<lparr>dc_run_timeouts := (dc_run_timeouts s2)(me := False)\<rparr>))"

end
