(* ===== verification/Timeout_Laws.thy ===== *)
theory Timeout_Laws
  imports Timeouts
begin

text \<open>
  What the queue of timeouts stands for: the agenda, the list of the functions that are still to
  be called, each with the number of ticks that are left. The well-formedness of the delta queue,
  and how each operation changes the agenda.
\<close>

section \<open>The agenda\<close>

definition total :: "tcell list \<Rightarrow> nat" where
  "total cs = sum_list (map (\<lambda>c. unat (t_delta c)) cs)"

lemma total_simps [simp]:
  "total [] = 0" "total (c # cs) = unat (t_delta c) + total cs" "total (xs @ ys) = total xs + total ys"
  by (simp_all add: total_def)

definition entry :: "tcell \<Rightarrow> nat \<times> 32 word \<times> nat \<times> nat" where
  "entry c = (t_addr c, t_id c, t_funcp c, t_arg c)"

text \<open>The cells without a ticket, with the sum of the deltas up to each of them.\<close>

primrec agenda_of :: "nat \<Rightarrow> tcell list \<Rightarrow> (nat \<times> nat \<times> 32 word \<times> nat \<times> nat) list" where
  "agenda_of e [] = []"
| "agenda_of e (c # cs) =
    (if t_ticket c = 0 then [(e + unat (t_delta c), entry c)] else [])
      @ agenda_of (e + unat (t_delta c)) cs"

definition agenda :: "'a timedata_scheme \<Rightarrow> (nat \<times> nat \<times> 32 word \<times> nat \<times> nat) list" where
  "agenda s = agenda_of 0 (td_cells s)"

text \<open>Entering a function in the agenda: behind all that are to be called at the same tick.\<close>

primrec enter :: "nat \<times> 'b \<Rightarrow> (nat \<times> 'b) list \<Rightarrow> (nat \<times> 'b) list" where
  "enter x [] = [x]"
| "enter x (y # ys) = (if fst y \<le> fst x then y # enter x ys else x # y # ys)"

lemma enter_first: "(\<And>y. y \<in> set ys \<Longrightarrow> fst x < fst y) \<Longrightarrow> enter x ys = x # ys"
  by (cases ys) (simp, fastforce)

lemma set_enter [simp]: "set (enter x ys) = insert x (set ys)"
  by (induction ys) auto

lemma agenda_of_append: "agenda_of e (xs @ ys) = agenda_of e xs @ agenda_of (e + total xs) ys"
  by (induction xs arbitrary: e) (auto simp: add.assoc)

lemma agenda_of_ge: "y \<in> set (agenda_of e cs) \<Longrightarrow> e \<le> fst y"
proof (induction cs arbitrary: e)
  case (Cons c cs)
  then show ?case using add_leD1 by (fastforce split: if_splits)
qed simp

lemma agenda_of_Suc: "agenda_of (Suc e) cs = map (map_prod Suc (\<lambda>k. k)) (agenda_of e cs)"
  by (induction cs arbitrary: e) auto

lemma agenda_of_zero:
  "(\<And>c. c \<in> set cs \<Longrightarrow> t_delta c = 0) \<Longrightarrow>
     agenda_of e cs = map (\<lambda>c. (e, entry c)) (filter (\<lambda>c. t_ticket c = 0) cs)"
  by (induction cs) auto

lemma total_zero: "(\<And>c. c \<in> set cs \<Longrightarrow> t_delta c = 0) \<Longrightarrow> total cs = 0"
  by (induction cs) auto

lemma agenda_of_cong:
  assumes "map t_delta cs = map t_delta cs'" "map t_ticket cs = map t_ticket cs'"
    "map entry cs = map entry cs'"
  shows "agenda_of e cs = agenda_of e cs'"
  using assms
proof (induction cs arbitrary: e cs')
  case (Cons c cs)
  then obtain d ds where cs': "cs' = d # ds" and eq: "t_delta c = t_delta d" "t_ticket c = t_ticket d"
      "entry c = entry d" and tl: "map t_delta cs = map t_delta ds" "map t_ticket cs = map t_ticket ds"
      "map entry cs = map entry ds"
    by (cases cs') auto
  show ?case unfolding cs' agenda_of.simps eq Cons.IH [OF tl] ..
qed simp

section \<open>Well-formedness\<close>

definition timers_ok :: "'a timedata_scheme \<Rightarrow> bool" where
  "timers_ok s \<longleftrightarrow> td_nrun s \<le> length (td_cells s)
     \<and> (\<forall>c\<in>set (take (td_nrun s) (td_cells s)). t_delta c = 0)
     \<and> (td_nrun s < length (td_cells s) \<longrightarrow> 0 < t_delta (td_cells s ! td_nrun s))
     \<and> total (td_cells s) < 2 ^ 32 \<and> distinct (map t_addr (td_cells s))"

lemma timers_okD:
  assumes "timers_ok s"
  shows "td_nrun s \<le> length (td_cells s)"
    and "c \<in> set (take (td_nrun s) (td_cells s)) \<Longrightarrow> t_delta c = 0"
    and "td_nrun s < length (td_cells s) \<Longrightarrow> 0 < t_delta (td_cells s ! td_nrun s)"
    and "total (td_cells s) < 2 ^ 32" and "distinct (map t_addr (td_cells s))"
  using assms by (auto simp: timers_ok_def)

text \<open>The cells in two parts.\<close>

lemma timers_ok_split:
  assumes "timers_ok s"
  obtains (idle) "td_cells s = take (td_nrun s) (td_cells s)" "td_nrun s = length (td_cells s)"
  | (more) c cs where "td_cells s = take (td_nrun s) (td_cells s) @ c # cs"
      "td_nrun s < length (td_cells s)" "td_cells s ! td_nrun s = c" "0 < t_delta c"
      "cs = drop (Suc (td_nrun s)) (td_cells s)"
proof (cases "td_nrun s < length (td_cells s)")
  case True
  then show ?thesis using more id_take_nth_drop [OF True] timers_okD(3) [OF assms True] by blast
next
  case False
  then show ?thesis using idle timers_okD(1) [OF assms] by simp
qed

text \<open>Every cell that is due is on the list of a processor that has been told to call it.\<close>

definition notified :: "'a timedata_scheme \<Rightarrow> bool" where
  "notified s \<longleftrightarrow>
     (\<forall>c\<in>set (take (td_nrun s) (td_cells s)). t_ticket c = 0 \<longrightarrow> dc_run_timeouts s (t_cpu c))
     \<and> (\<forall>cpu. dc_run_timeouts s cpu \<longrightarrow> cpu \<in> set (defer_int s) \<union> set (defer_proc s))"

section \<open>The walk of the queue\<close>

lemma queue_walk_fresh:
  assumes "tid \<notin> t_id ` set cs"
  obtains k t where "queue_walk tid ticks cs = Inr (k, t)"
  using assms
proof (induction cs arbitrary: ticks thesis)
  case (Cons c cs)
  show ?case
  proof (cases "ticks < t_delta c")
    case True
    then have "queue_walk tid ticks (c # cs) = Inr (0, ticks)" using Cons.prems(2) by auto
    then show ?thesis using Cons.prems(1) by blast
  next
    case False
    obtain k t where "queue_walk tid (ticks - t_delta c) cs = Inr (k, t)"
      using Cons.IH Cons.prems(2) by auto
    then have "queue_walk tid ticks (c # cs) = Inr (Suc k, t)" using Cons.prems(2) False by auto
    then show ?thesis using Cons.prems(1) by blast
  qed
qed simp

lemma queue_walk_Inr:
  assumes "queue_walk tid ticks cs = Inr (k, t)"
  shows "k \<le> length cs" and "total (take k cs) + unat t = unat ticks"
    and "k < length cs \<Longrightarrow> t < t_delta (cs ! k)" and "tid \<notin> t_id ` set (take k cs)"
proof -
  have "k \<le> length cs \<and> total (take k cs) + unat t = unat ticks
      \<and> (k < length cs \<longrightarrow> t < t_delta (cs ! k)) \<and> tid \<notin> t_id ` set (take k cs)"
    using assms
  proof (induction cs arbitrary: ticks k)
    case (Cons c cs)
    show ?case
    proof (cases "ticks < t_delta c")
      case True
      with Cons.prems show ?thesis by (auto split: if_splits)
    next
      case False
      with Cons.prems obtain k' where k: "k = Suc k'" "queue_walk tid (ticks - t_delta c) cs = Inr (k', t)"
        and ne: "t_id c \<noteq> tid"
        by (auto split: if_splits sum.splits)
      have "unat (ticks - t_delta c) = unat ticks - unat (t_delta c)" "unat (t_delta c) \<le> unat ticks"
        using False by (simp_all add: unat_sub word_le_nat_alt not_less)
      then show ?thesis using Cons.IH [OF k(2)] ne by (auto simp: k(1))
    qed
  qed simp
  then show "k \<le> length cs" "total (take k cs) + unat t = unat ticks"
    "k < length cs \<Longrightarrow> t < t_delta (cs ! k)" "tid \<notin> t_id ` set (take k cs)" by blast+
qed

text \<open>The list after the insertion, as \<open>QUEUE_TIMEOUT\<close> builds it.\<close>

definition put_cell :: "nat \<Rightarrow> tcell \<Rightarrow> tcell list \<Rightarrow> tcell list" where
  "put_cell k c cs =
    (let cs' = cs[k := (cs ! k)\<lparr>t_delta := t_delta (cs ! k) - t_delta c\<rparr>] in take k cs' @ c # drop k cs')"

lemma put_cell_Suc [simp]: "put_cell (Suc k) c (d # cs) = d # put_cell k c cs"
  by (simp add: put_cell_def Let_def)

lemma put_cell_0 [simp]:
  "put_cell 0 c [] = [c]"
  "put_cell 0 c (d # cs) = c # d\<lparr>t_delta := t_delta d - t_delta c\<rparr> # cs"
  by (simp_all add: put_cell_def Let_def)

lemma entry_delta [simp]: "entry (c\<lparr>t_delta := x\<rparr>) = entry c"
  by (simp add: entry_def)

lemma agenda_put_cell:
  assumes "queue_walk tid ticks cs = Inr (k, t_delta c)" "t_ticket c = 0"
  shows "agenda_of e (put_cell k c cs) = enter (e + unat ticks, entry c) (agenda_of e cs)"
  using assms(1)
proof (induction cs arbitrary: ticks k e)
  case Nil
  then show ?case using assms(2) by simp
next
  case (Cons d cs)
  show ?case
  proof (cases "ticks < t_delta d")
    case True
    with Cons.prems have k: "k = 0" "t_delta c = ticks" by (auto split: if_splits)
    have le: "unat ticks < unat (t_delta d)" using True by (simp add: word_less_nat_alt)
    then have diff: "unat ticks + unat (t_delta d - ticks) = unat (t_delta d)"
      using True by (simp add: unat_sub word_le_nat_alt)
    have "fst y > e + unat ticks" if "y \<in> set (agenda_of e (d # cs))" for y
    proof -
      have "y \<in> set (agenda_of (e + unat (t_delta d)) cs) \<or> fst y = e + unat (t_delta d)"
        using that by (auto split: if_splits)
      then show ?thesis using le agenda_of_ge [of y "e + unat (t_delta d)" cs] by auto
    qed
    then have "enter (e + unat ticks, entry c) (agenda_of e (d # cs))
        = (e + unat ticks, entry c) # agenda_of e (d # cs)"
      by (intro enter_first) simp
    then show ?thesis using assms(2) diff k by (simp add: add.assoc)
  next
    case False
    with Cons.prems obtain k' where k: "k = Suc k'"
        "queue_walk tid (ticks - t_delta d) cs = Inr (k', t_delta c)"
      by (auto split: if_splits sum.splits)
    have "unat (ticks - t_delta d) = unat ticks - unat (t_delta d)" "unat (t_delta d) \<le> unat ticks"
      using False by (simp_all add: unat_sub word_le_nat_alt not_less)
    then show ?thesis using Cons.IH [OF k(2)] by (simp add: k(1))
  qed
qed

lemma total_put_cell:
  assumes "k \<le> length cs" "k < length cs \<Longrightarrow> t_delta c < t_delta (cs ! k)"
  shows "total (put_cell k c cs) = (if k < length cs then total cs else total cs + unat (t_delta c))"
  using assms
proof (induction cs arbitrary: k)
  case (Cons d cs)
  then show ?case
    by (cases k) (auto simp: unat_sub word_le_nat_alt word_less_nat_alt)
qed simp

lemma length_put_cell [simp]: "k \<le> length cs \<Longrightarrow> length (put_cell k c cs) = Suc (length cs)"
  by (simp add: put_cell_def Let_def)

lemma nth_put_cell:
  "k \<le> length cs \<Longrightarrow> i < length cs + 1 \<Longrightarrow> put_cell k c cs ! i =
     (if i < k then cs ! i else if i = k then c
      else if i = Suc k then (cs ! k)\<lparr>t_delta := t_delta (cs ! k) - t_delta c\<rparr> else cs ! (i - 1))"
  by (auto simp: put_cell_def Let_def nth_append nth_Cons min_def nth_list_update split: nat.splits intro!: arg_cong [where f = "nth cs"])

lemma take_put_cell: "n \<le> k \<Longrightarrow> k \<le> length cs \<Longrightarrow> take n (put_cell k c cs) = take n cs"
  by (simp add: put_cell_def Let_def min_def)

lemma map_put_cell:
  assumes "\<And>d x. f (d\<lparr>t_delta := x\<rparr>) = f d" "k \<le> length cs"
  shows "map f (put_cell k c cs) = take k (map f cs) @ f c # drop k (map f cs)"
proof -
  have "map f (cs[k := (cs ! k)\<lparr>t_delta := t_delta (cs ! k) - t_delta c\<rparr>]) = map f cs"
    using assms by (metis list_update_beyond linorder_not_less map_update list_update_id list_update_same_conv nth_map length_map)
  then show ?thesis by (simp add: put_cell_def Let_def flip: take_map drop_map)
qed

section \<open>Scheduling a function\<close>

definition next_id :: "'a timedata_scheme \<Rightarrow> 32 word" where
  "next_id s = (if td_id s = 0 then 1 else td_id s)"

definition new_cell :: "nat \<Rightarrow> tick \<Rightarrow> 32 word \<Rightarrow> 32 word \<Rightarrow> nat \<Rightarrow> nat \<Rightarrow> nat option \<Rightarrow> nat \<Rightarrow> tcell" where
  "new_cell addr t tid cpu fn arg lockp pl =
    \<lparr>t_addr = addr, t_delta = t, t_id = tid, t_cpu = cpu, t_ticket = 0, t_ticket_holder = 0,
     t_funcp = fn, t_arg = arg, t_lockp = lockp, t_pl = pl\<rparr>"

lemma new_cell_simps [simp]:
  "t_addr (new_cell addr t tid cpu fn arg lockp pl) = addr"
  "t_delta (new_cell addr t tid cpu fn arg lockp pl) = t"
  "t_id (new_cell addr t tid cpu fn arg lockp pl) = tid"
  "t_ticket (new_cell addr t tid cpu fn arg lockp pl) = 0"
  "entry (new_cell addr t tid cpu fn arg lockp pl) = (addr, tid, fn, arg)"
  by (simp_all add: new_cell_def entry_def)

text \<open>When no cell has the next id, there is one walk.\<close>

lemma queue_fresh:
  assumes "next_id s \<notin> t_id ` set (td_cells s)"
  obtains k t where "queue_walk (next_id s) (if ticks = 0 then 1 else ticks) (td_cells s) = Inr (k, t)"
    and "QUEUE_TIMEOUT (Some addr) fn arg ticks lockp cpu pl s =
      Some (s\<lparr>td_cells := put_cell k (new_cell addr t (next_id s) cpu fn arg lockp pl) (td_cells s),
              td_id := next_id s + 1, td_nrun := (if k < td_nrun s then td_nrun s + 1 else td_nrun s)\<rparr>,
            next_id s)"
proof -
  obtain k t where walk: "queue_walk (next_id s) (if ticks = 0 then 1 else ticks) (td_cells s) = Inr (k, t)"
    using queue_walk_fresh [OF assms] .
  then have scan: "id_scan (td_id s) (if ticks = 0 then 1 else ticks) (td_cells s)
      = Some (next_id s, next_id s + 1, k, t)"
    by (subst id_scan.simps) (simp add: next_id_def Let_def)
  show ?thesis
    by (rule that [OF walk])
      (simp add: QUEUE_TIMEOUT_def scan Let_def put_cell_def new_cell_def del: One_nat_def)
qed

text \<open>A walk of a well-formed queue passes the cells that are due.\<close>

lemma walk_passes_due:
  assumes "timers_ok s" "queue_walk tid ticks (td_cells s) = Inr (k, t)"
  shows "td_nrun s \<le> k"
proof (rule ccontr)
  assume "\<not> td_nrun s \<le> k"
  then have lt: "k < td_nrun s" "k < length (td_cells s)" using timers_okD(1) [OF assms(1)] by simp_all
  then have "td_cells s ! k \<in> set (take (td_nrun s) (td_cells s))"
    by (auto simp: in_set_conv_nth)
  then show False using timers_okD(2) [OF assms(1)] queue_walk_Inr(3) [OF assms(2) lt(2)] by fastforce
qed

lemma queue_keeps_ok:
  assumes ok: "timers_ok s" "notified s" and fresh: "next_id s \<notin> t_id ` set (td_cells s)"
    and addr: "addr \<notin> t_addr ` set (td_cells s)"
    and q: "QUEUE_TIMEOUT (Some addr) fn arg ticks lockp cpu pl s = Some (s', tid)"
  shows "timers_ok s' \<and> notified s'" and "tid = next_id s"
    and "agenda s' = enter (if ticks = 0 then 1 else unat ticks, addr, tid, fn, arg) (agenda s)"
    and "find (\<lambda>c. t_id c = tid) (td_cells s') = find (\<lambda>c. t_addr c = addr) (td_cells s')"
    and "td_held s' = td_held s" "timedata.more s' = timedata.more s"
proof -
  let ?ticks = "if ticks = 0 then 1 else ticks"
  obtain k t where walk: "queue_walk (next_id s) ?ticks (td_cells s) = Inr (k, t)"
    and res: "QUEUE_TIMEOUT (Some addr) fn arg ticks lockp cpu pl s =
      Some (s\<lparr>td_cells := put_cell k (new_cell addr t (next_id s) cpu fn arg lockp pl) (td_cells s),
              td_id := next_id s + 1, td_nrun := (if k < td_nrun s then td_nrun s + 1 else td_nrun s)\<rparr>,
            next_id s)"
    by (rule queue_fresh [OF fresh])
  from res q have s'0: "s' = s\<lparr>td_cells := put_cell k (new_cell addr t (next_id s) cpu fn arg lockp pl) (td_cells s),
              td_id := next_id s + 1, td_nrun := (if k < td_nrun s then td_nrun s + 1 else td_nrun s)\<rparr>"
    and tid: "tid = next_id s"
    by simp_all
  define c where "c = new_cell addr t (next_id s) cpu fn arg lockp pl"
  have c: "t_delta c = t" "t_ticket c = 0" "t_id c = next_id s" "t_addr c = addr"
    "entry c = (addr, tid, fn, arg)"
    by (simp_all add: c_def tid)
  note w = queue_walk_Inr [OF walk]
  have nk: "td_nrun s \<le> k" by (rule walk_passes_due [OF ok(1) walk])
  have s': "s' = s\<lparr>td_cells := put_cell k c (td_cells s), td_id := next_id s + 1\<rparr>"
    using nk by (simp add: s'0 c_def)
  have take: "take (td_nrun s) (put_cell k c (td_cells s)) = take (td_nrun s) (td_cells s)"
    by (rule take_put_cell [OF nk w(1)])
  have total: "total (put_cell k c (td_cells s)) < 2 ^ 32"
    using total_put_cell [OF w(1), of c] w(3) timers_okD(4) [OF ok(1)] w(1,2) unsigned_less [where w = ?ticks]
    by (auto simp: c(1) split: if_splits)
  have first: "0 < t_delta (put_cell k c (td_cells s) ! td_nrun s)"
  proof (cases "k = td_nrun s")
    case True
    have "total (take k (td_cells s)) = 0"
      using timers_okD(2) [OF ok(1)] by (simp add: True total_zero)
    then have "unat t = unat ?ticks" using w(2) by simp
    then have "t = ?ticks" by (simp only: word_unat_eq_iff)
    then have "0 < t" by (simp add: word_neq_0_conv [symmetric])
    then show ?thesis using w(1) by (simp add: True nth_put_cell c(1))
  next
    case False
    then have "td_nrun s < k" using nk by simp
    then show ?thesis using timers_okD(3) [OF ok(1)] w(1) by (simp add: nth_put_cell)
  qed
  have map_addr: "map t_addr (put_cell k c (td_cells s))
      = take k (map t_addr (td_cells s)) @ addr # drop k (map t_addr (td_cells s))"
    by (subst map_put_cell) (simp_all add: w(1) c(4))
  have dist: "distinct (map t_addr (put_cell k c (td_cells s)))"
    using timers_okD(5) [OF ok(1)] addr
    unfolding map_addr
    by (auto simp: set_take_disj_set_drop_if_distinct dest: in_set_takeD in_set_dropD)
  show "timers_ok s' \<and> notified s'"
    using ok take total first dist timers_okD(1) [OF ok(1)] w(1)
    by (simp add: s' timers_ok_def notified_def)
  show "tid = next_id s" by (rule tid)
  have ticks: "unat ?ticks = (if ticks = 0 then 1 else unat ticks)" by simp
  show "agenda s' = enter (if ticks = 0 then 1 else unat ticks, addr, tid, fn, arg) (agenda s)"
    using agenda_put_cell [of "next_id s" ?ticks "td_cells s" k c 0] walk
    unfolding ticks by (simp add: agenda_def s' c)
  show "td_held s' = td_held s" "timedata.more s' = timedata.more s" by (simp_all add: s')
  have find: "find P (xs @ y # ys) = Some y" if "P y" "\<forall>x\<in>set xs. \<not> P x" for P :: "tcell \<Rightarrow> bool" and xs y ys
    using that by (induction xs) auto
  let ?cs = "(td_cells s)[k := (td_cells s ! k)\<lparr>t_delta := t_delta (td_cells s ! k) - t_delta c\<rparr>]"
  have cs: "td_cells s' = take k (td_cells s) @ c # drop k ?cs"
    by (simp add: s' put_cell_def Let_def)
  have "\<forall>x\<in>set (take k (td_cells s)). t_id x \<noteq> tid"
    "\<forall>x\<in>set (take k (td_cells s)). t_addr x \<noteq> addr"
    using w(4) addr tid by (metis image_eqI) (use addr in \<open>auto dest: in_set_takeD\<close>)
  then have "find (\<lambda>c. t_id c = tid) (td_cells s') = Some c"
    "find (\<lambda>c. t_addr c = addr) (td_cells s') = Some c"
    unfolding cs by (simp_all add: find c(3,4) tid)
  then show "find (\<lambda>c. t_id c = tid) (td_cells s') = find (\<lambda>c. t_addr c = addr) (td_cells s')"
    by simp
qed

section \<open>A clock tick\<close>

definition no_cpu :: "tcell \<Rightarrow> tcell" where
  "no_cpu c = c\<lparr>t_cpu := 0\<rparr>"

lemma no_cpu_simps [simp]:
  "t_delta (no_cpu c) = t_delta c" "t_ticket (no_cpu c) = t_ticket c" "t_addr (no_cpu c) = t_addr c"
  "t_id (no_cpu c) = t_id c" "t_funcp (no_cpu c) = t_funcp c" "t_arg (no_cpu c) = t_arg c"
  "entry (no_cpu c) = entry c" "no_cpu (c\<lparr>t_cpu := x\<rparr>) = no_cpu c"
  by (simp_all add: no_cpu_def entry_def)

lemma map_no_cpu:
  assumes "map no_cpu cs = map no_cpu cs'" "\<And>c. f (no_cpu c) = f c"
  shows "map f cs = map f cs'"
  using arg_cong [OF assms(1), of "map f"] by (simp add: assms(2) comp_def)

text \<open>
  Telling the processor of the cell at position \<open>i\<close>: afterwards its flag is set, a flag that was
  set anew has a request, and only the processors of the cells have changed.
\<close>

definition told :: "'a timedata_scheme \<Rightarrow> 'a timedata_scheme \<Rightarrow> bool" where
  "told s s' \<longleftrightarrow> map no_cpu (td_cells s') = map no_cpu (td_cells s)
     \<and> (\<forall>cpu. dc_run_timeouts s cpu \<longrightarrow> dc_run_timeouts s' cpu)
     \<and> (\<forall>cpu. dc_run_timeouts s' cpu \<longrightarrow> dc_run_timeouts s cpu \<or> cpu \<in> set (defer_int s'))
     \<and> set (defer_int s) \<subseteq> set (defer_int s') \<and> defer_proc s' = defer_proc s
     \<and> td_id s' = td_id s \<and> td_held s' = td_held s \<and> timedata.more s' = timedata.more s"

lemma told_trans: "told s s' \<Longrightarrow> told s' s'' \<Longrightarrow> told s s''"
  unfolding told_def by (simp, blast)

lemma told_refl: "told s s"
  by (simp add: told_def)

lemma told_nrun [simp]: "told s (s'\<lparr>td_nrun := n\<rparr>) \<longleftrightarrow> told s s'"
  by (simp add: told_def)

lemma told_length: "told s s' \<Longrightarrow> length (td_cells s') = length (td_cells s)"
  unfolding told_def by (metis length_map)

lemma told_delta: "told s s' \<Longrightarrow> i < length (td_cells s) \<Longrightarrow> t_delta (td_cells s' ! i) = t_delta (td_cells s ! i)"
  using told_length [of s s'] unfolding told_def by (metis no_cpu_simps(1) nth_map)

lemma SCHEDULE_told:
  assumes "i < length (td_cells s)"
  shows "told s (SCHEDULE_TIMEOUT me i s)"
    and "dc_run_timeouts (SCHEDULE_TIMEOUT me i s) (t_cpu (td_cells (SCHEDULE_TIMEOUT me i s) ! i))"
    and "j \<noteq> i \<Longrightarrow> td_cells (SCHEDULE_TIMEOUT me i s) ! j = td_cells s ! j"
    and "td_nrun (SCHEDULE_TIMEOUT me i s) = td_nrun s"
  using assms
  by (auto simp: SCHEDULE_TIMEOUT_def Let_def cell_at_def told_def map_update
      intro: map_update_same)

text \<open>The loop over the cells that expire together.\<close>

lemma check_loop_spec:
  assumes "i < length (td_cells s)"
  obtains n where "i < n" "n \<le> length (td_cells s)" "td_nrun (check_loop me i s) = n"
    and "told s (check_loop me i s)"
    and "\<And>j. j < i \<Longrightarrow> td_cells (check_loop me i s) ! j = td_cells s ! j"
    and "\<And>j. i < j \<Longrightarrow> j < n \<Longrightarrow> t_delta (td_cells s ! j) = 0"
    and "n < length (td_cells s) \<Longrightarrow> t_delta (td_cells s ! n) \<noteq> 0"
    and "\<And>j. i \<le> j \<Longrightarrow> j < n \<Longrightarrow>
           dc_run_timeouts (check_loop me i s) (t_cpu (td_cells (check_loop me i s) ! j))"
  using assms
proof (induction me i s arbitrary: thesis rule: check_loop.induct)
  case (1 me i s)
  define s1 where "s1 = SCHEDULE_TIMEOUT me i s"
  note s1 = SCHEDULE_told [OF 1(3), where me = me, folded s1_def]
  note delta = told_delta [OF s1(1)]
  show ?case
  proof (cases "Suc i < length (td_cells s1) \<and> t_delta (td_cells s1 ! Suc i) = 0")
    case True
    then have lt: "Suc i < length (td_cells s)" "t_delta (td_cells s ! Suc i) = 0"
      using delta told_length [OF s1(1)] by auto
    have eq: "check_loop me i s = check_loop me (Suc i) s1"
      using True by (subst check_loop.simps) (simp add: s1_def Let_def)
    have "Suc i < length (td_cells s1)" using True by simp
    from 1(1) [OF s1_def True _ this] obtain n where n: "Suc i < n" "n \<le> length (td_cells s1)"
        "td_nrun (check_loop me (Suc i) s1) = n" "told s1 (check_loop me (Suc i) s1)"
        "\<And>j. j < Suc i \<Longrightarrow> td_cells (check_loop me (Suc i) s1) ! j = td_cells s1 ! j"
        "\<And>j. Suc i < j \<Longrightarrow> j < n \<Longrightarrow> t_delta (td_cells s1 ! j) = 0"
        "n < length (td_cells s1) \<Longrightarrow> t_delta (td_cells s1 ! n) \<noteq> 0"
        "\<And>j. Suc i \<le> j \<Longrightarrow> j < n \<Longrightarrow>
           dc_run_timeouts (check_loop me (Suc i) s1) (t_cpu (td_cells (check_loop me (Suc i) s1) ! j))"
      by blast
    note len = told_length [OF s1(1)]
    show ?thesis
    proof (rule 1(2) [of n])
      show "i < n" "n \<le> length (td_cells s)" "td_nrun (check_loop me i s) = n" using n(1,2,3) len eq by auto
      show "told s (check_loop me i s)" unfolding eq by (rule told_trans [OF s1(1) n(4)])
      show "td_cells (check_loop me i s) ! j = td_cells s ! j" if "j < i" for j
        using n(5) [of j] s1(3) [of j] that by (simp add: eq)
      show "t_delta (td_cells s ! j) = 0" if "i < j" "j < n" for j
        using n(6) [of j] delta [of j] that lt(2) n(2) len by (cases "j = Suc i") auto
      show "t_delta (td_cells s ! n) \<noteq> 0" if "n < length (td_cells s)"
        using n(7) delta [OF that] that len by auto
      show "dc_run_timeouts (check_loop me i s) (t_cpu (td_cells (check_loop me i s) ! j))"
        if "i \<le> j" "j < n" for j
      proof (cases "j = i")
        case True
        then show ?thesis using s1(2) n(4) n(5) [of i] unfolding eq told_def by simp
      next
        case False
        then show ?thesis using n(8) [of j] that unfolding eq by simp
      qed
    qed
  next
    case False
    have eq: "check_loop me i s = s1\<lparr>td_nrun := Suc i\<rparr>"
      using False by (subst check_loop.simps) (auto simp: s1_def Let_def)
    show ?thesis
    proof (rule 1(2) [of "Suc i"])
      show "t_delta (td_cells s ! Suc i) \<noteq> 0" if "Suc i < length (td_cells s)"
        using False that delta [OF that] told_length [OF s1(1)] by auto
      show "dc_run_timeouts (check_loop me i s) (t_cpu (td_cells (check_loop me i s) ! j))"
        if "i \<le> j" "j < Suc i" for j
        using s1(2) that by (simp add: eq le_less_Suc_eq)
    qed (use s1 1(3) in \<open>auto simp: eq\<close>)
  qed
qed

lemma told_cells: "told s s' \<Longrightarrow> map no_cpu (td_cells s') = map no_cpu (td_cells s)"
  by (simp add: told_def)

lemma told_total: "told s s' \<Longrightarrow> total (td_cells s') = total (td_cells s)"
  unfolding total_def by (subst map_no_cpu [OF told_cells]) simp_all

lemma told_addrs: "told s s' \<Longrightarrow> map t_addr (td_cells s') = map t_addr (td_cells s)"
  by (rule map_no_cpu [OF told_cells]) simp_all

lemma told_agenda: "told s s' \<Longrightarrow> agenda s' = agenda s"
  unfolding agenda_def by (intro agenda_of_cong map_no_cpu [OF told_cells]) simp_all

lemma map_nth_same: "(\<And>x. f (g x) = f x) \<Longrightarrow> map f (xs[n := g (xs ! n)]) = map f xs"
  by (cases "n < length xs") (simp_all add: map_update map_update_same list_update_beyond)

lemma all_take_nth: "n \<le> length xs \<Longrightarrow> (\<forall>x\<in>set (take n xs). P x) \<longleftrightarrow> (\<forall>j<n. P (xs ! j))"
  by (auto simp: set_conv_nth)

text \<open>One tick less for the first cell that has not expired.\<close>

lemma agenda_tick:
  assumes "timers_ok s" "td_nrun s < length (td_cells s)"
  shows "agenda (cell_at (td_nrun s) (\<lambda>c. c\<lparr>t_delta := t_delta c - 1\<rparr>) s)
    = map (map_prod (\<lambda>e. e - 1) (\<lambda>k. k)) (agenda s)"
    and "total (td_cells (cell_at (td_nrun s) (\<lambda>c. c\<lparr>t_delta := t_delta c - 1\<rparr>) s)) < 2 ^ 32"
proof -
  let ?n = "td_nrun s"
  obtain c cs where cs: "td_cells s = take ?n (td_cells s) @ c # cs" "td_cells s ! ?n = c" "0 < t_delta c"
    by (rule timers_ok_split [OF assms(1)]) (use assms(2) in auto)
  define d where "d = t_delta c - 1"
  let ?c = "c\<lparr>t_delta := d\<rparr>"
  define run where "run = take ?n (td_cells s)"
  have run: "\<And>c. c \<in> set run \<Longrightarrow> t_delta c = 0" "length run = ?n"
    unfolding run_def by (rule timers_okD(2) [OF assms(1)], assumption)
      (simp add: timers_okD(1) [OF assms(1)])
  have cells: "td_cells s = run @ c # cs" unfolding run_def by (rule cs(1))
  define s1 where "s1 = cell_at ?n (\<lambda>c. c\<lparr>t_delta := t_delta c - 1\<rparr>) s"
  have new: "td_cells s1 = run @ ?c # cs"
    unfolding s1_def cell_at_def cells run(2) [symmetric] by (simp add: d_def)
  have "t_delta c \<noteq> 0" using cs(3) by simp
  then have unat: "unat (t_delta c) = Suc (unat d)"
    unfolding d_def by (subst unat_minus_one, assumption) (simp add: unat_gt_0)
  have run0: "total run = 0" by (rule total_zero [OF run(1)])
  have "total (td_cells s1) \<le> total (td_cells s)"
    unfolding new cells using unat by simp
  then show "total (td_cells (cell_at ?n (\<lambda>c. c\<lparr>t_delta := t_delta c - 1\<rparr>) s)) < 2 ^ 32"
    using timers_okD(4) [OF assms(1)] unfolding s1_def [symmetric] by simp
  have "agenda_of 0 (c # cs) = map (map_prod Suc (\<lambda>k. k)) (agenda_of 0 (?c # cs))"
    by (simp add: unat agenda_of_Suc)
  then have "map (map_prod (\<lambda>e. e - 1) (\<lambda>k. k)) (agenda_of 0 (c # cs)) = agenda_of 0 (?c # cs)"
    by (simp add: comp_def map_prod_def case_prod_beta)
  moreover have "map (map_prod (\<lambda>e. e - 1) (\<lambda>k. k)) (agenda_of 0 run) = agenda_of 0 run"
    using agenda_of_zero [OF run(1), where e = 0] by (simp add: comp_def)
  ultimately have "agenda s1 = map (map_prod (\<lambda>e. e - 1) (\<lambda>k. k)) (agenda s)"
    unfolding agenda_def new cells agenda_of_append map_append run0 by (simp only: add_0)
  then show "agenda (cell_at ?n (\<lambda>c. c\<lparr>t_delta := t_delta c - 1\<rparr>) s)
      = map (map_prod (\<lambda>e. e - 1) (\<lambda>k. k)) (agenda s)"
    unfolding s1_def .
qed

lemma CHECK_keeps_ok:
  assumes ok: "timers_ok s" and told: "notified s"
  shows "timers_ok (CHECK_TIMEOUT me s)" and "notified (CHECK_TIMEOUT me s)"
    and "agenda (CHECK_TIMEOUT me s) = map (map_prod (\<lambda>e. e - 1) (\<lambda>k. k)) (agenda s)"
    and "td_held (CHECK_TIMEOUT me s) = td_held s" "timedata.more (CHECK_TIMEOUT me s) = timedata.more s"
    and "map t_id (td_cells (CHECK_TIMEOUT me s)) = map t_id (td_cells s)" "td_id (CHECK_TIMEOUT me s) = td_id s"
proof -
  let ?s' = "CHECK_TIMEOUT me s" and ?n = "td_nrun s"
  define s1 where "s1 = cell_at ?n (\<lambda>c. c\<lparr>t_delta := t_delta c - 1\<rparr>) s"
  have s1: "td_nrun s1 = ?n" "length (td_cells s1) = length (td_cells s)" "td_id s1 = td_id s"
    "td_held s1 = td_held s" "timedata.more s1 = timedata.more s" "dc_run_timeouts s1 = dc_run_timeouts s"
    "defer_int s1 = defer_int s" "defer_proc s1 = defer_proc s"
    "map t_addr (td_cells s1) = map t_addr (td_cells s)" "map t_id (td_cells s1) = map t_id (td_cells s)"
    "\<And>j. j \<noteq> ?n \<Longrightarrow> td_cells s1 ! j = td_cells s ! j"
    by (auto simp: s1_def cell_at_def intro: map_nth_same)
  have zero: "\<forall>j<?n. t_delta (td_cells s ! j) = 0"
    and flag: "\<forall>j<?n. t_ticket (td_cells s ! j) = 0 \<longrightarrow> dc_run_timeouts s (t_cpu (td_cells s ! j))"
    using ok told timers_okD(1) [OF ok] all_take_nth [of ?n "td_cells s"]
    by (auto simp: timers_ok_def notified_def)
  have "timers_ok ?s' \<and> notified ?s' \<and> agenda ?s' = map (map_prod (\<lambda>e. e - 1) (\<lambda>k. k)) (agenda s)
      \<and> td_held ?s' = td_held s \<and> timedata.more ?s' = timedata.more s
      \<and> map t_id (td_cells ?s') = map t_id (td_cells s) \<and> td_id ?s' = td_id s"
  proof (cases "?n < length (td_cells s)")
    case False
    then have "?s' = s" by (simp add: CHECK_TIMEOUT_def)
    moreover have "agenda s = map (map_prod (\<lambda>e. e - 1) (\<lambda>k. k)) (agenda s)"
    proof -
      have "agenda s = map (\<lambda>c. (0, entry c)) (filter (\<lambda>c. t_ticket c = 0) (td_cells s))"
        using timers_okD(1,2) [OF ok] False unfolding agenda_def by (intro agenda_of_zero) simp
      then show ?thesis by (simp add: comp_def)
    qed
    ultimately show ?thesis using ok told by simp
  next
    case True
    note tick = agenda_tick [OF ok True, folded s1_def]
    show ?thesis
    proof (cases "t_delta (td_cells s1 ! ?n) = 0")
      case False
      then have eq: "?s' = s1" using True by (simp add: CHECK_TIMEOUT_def s1_def Let_def)
      have "take ?n (td_cells s1) = take ?n (td_cells s)"
        using s1(2,11) timers_okD(1) [OF ok] by (intro nth_equalityI) auto
      then show ?thesis
        unfolding eq using ok told tick False s1 by (simp add: timers_ok_def notified_def word_neq_0_conv)
    next
      case zero1: True
      have eq: "?s' = check_loop me ?n s1" using True zero1 by (simp add: CHECK_TIMEOUT_def s1_def Let_def)
      have lt: "?n < length (td_cells s1)" using True s1(2) by simp
      obtain n where n: "?n < n" "n \<le> length (td_cells s1)" "td_nrun ?s' = n" "told s1 ?s'"
          "\<And>j. j < ?n \<Longrightarrow> td_cells ?s' ! j = td_cells s1 ! j"
          "\<And>j. ?n < j \<Longrightarrow> j < n \<Longrightarrow> t_delta (td_cells s1 ! j) = 0"
          "n < length (td_cells s1) \<Longrightarrow> t_delta (td_cells s1 ! n) \<noteq> 0"
          "\<And>j. ?n \<le> j \<Longrightarrow> j < n \<Longrightarrow> dc_run_timeouts ?s' (t_cpu (td_cells ?s' ! j))"
        unfolding eq using check_loop_spec [OF lt, where me = me] by blast
      note len = told_length [OF n(4)] and delta = told_delta [OF n(4)]
      have "t_delta (td_cells ?s' ! j) = 0" if "j < n" for j
      proof -
        have "t_delta (td_cells s1 ! j) = 0"
          using that zero1 n(6) [of j] zero s1(11) [of j] by (cases j ?n rule: linorder_cases) auto
        then show ?thesis using delta [of j] that n(2) by simp
      qed
      moreover have "0 < t_delta (td_cells ?s' ! n)" if "n < length (td_cells ?s')"
        using that n(7) delta [of n] len by (simp add: word_neq_0_conv)
      moreover have "total (td_cells ?s') < 2 ^ 32" using told_total [OF n(4)] tick(2) by simp
      moreover have "distinct (map t_addr (td_cells ?s'))"
        using told_addrs [OF n(4)] s1(9) timers_okD(5) [OF ok] by simp
      ultimately have "timers_ok ?s'"
        using n(2,3) len by (simp add: timers_ok_def all_take_nth)
      moreover have "t_ticket (td_cells ?s' ! j) = 0 \<longrightarrow> dc_run_timeouts ?s' (t_cpu (td_cells ?s' ! j))"
        if "j < n" for j
      proof (cases "j < ?n")
        case True
        then show ?thesis using n(4) n(5) [of j] flag s1(6) s1(11) [of j] by (auto simp: told_def)
      next
        case False
        then show ?thesis using n(8) that by simp
      qed
      then have "notified ?s'"
        using n(2,3,4) len told s1(6-8) unfolding notified_def
        by (subst all_take_nth) (auto simp: told_def)
      moreover have "agenda ?s' = map (map_prod (\<lambda>e. e - 1) (\<lambda>k. k)) (agenda s)"
        using told_agenda [OF n(4)] tick(1) by simp
      moreover have "map t_id (td_cells ?s') = map t_id (td_cells s)"
        using n(4) map_no_cpu [of "td_cells ?s'" "td_cells s1" t_id] s1(10) by (simp add: told_def)
      ultimately show ?thesis using n(4) s1 by (simp add: told_def)
    qed
  qed
  then show "timers_ok ?s'" "notified ?s'" "agenda ?s' = map (map_prod (\<lambda>e. e - 1) (\<lambda>k. k)) (agenda s)"
    "td_held ?s' = td_held s" "timedata.more ?s' = timedata.more s"
    "map t_id (td_cells ?s') = map t_id (td_cells s)" "td_id ?s' = td_id s"
    by blast+
qed

section \<open>Cancelling\<close>

lemma index_of_None: "index_of P xs = None \<longleftrightarrow> (\<forall>x\<in>set xs. \<not> P x)"
  by (induction xs) auto

lemma index_of_Some:
  "index_of P xs = Some i \<Longrightarrow> i < length xs \<and> P (xs ! i) \<and> (\<forall>j<i. \<not> P (xs ! j))"
proof (induction xs arbitrary: i)
  case (Cons x xs)
  then show ?case by (cases i) (auto split: if_splits simp: nth_Cons split: nat.splits)
qed simp

lemma index_ofI:
  "i < length xs \<Longrightarrow> P (xs ! i) \<Longrightarrow> (\<And>j. j < i \<Longrightarrow> \<not> P (xs ! j)) \<Longrightarrow> index_of P xs = Some i"
proof (induction xs arbitrary: i)
  case (Cons x xs)
  show ?case
  proof (cases i)
    case 0
    then show ?thesis using Cons.prems by simp
  next
    case (Suc k)
    have "\<not> P x" using Cons.prems(3) [of 0] Suc by simp
    moreover have "index_of P xs = Some k"
    proof (rule Cons.IH)
      show "\<not> P (xs ! j)" if "j < k" for j using Cons.prems(3) [of "Suc j"] that Suc by simp
    qed (use Cons.prems Suc in auto)
    ultimately show ?thesis using Suc by simp
  qed
qed simp

text \<open>The ticks of a cell that leaves go to the cell behind it.\<close>

fun push_delta :: "tick \<Rightarrow> tcell list \<Rightarrow> tcell list" where
  "push_delta d [] = []"
| "push_delta d (c # cs) = c\<lparr>t_delta := t_delta c + d\<rparr> # cs"

lemma push_delta_0 [simp]: "push_delta 0 cs = cs"
  by (cases cs) simp_all

lemma map_push_delta: "(\<And>c x. f (c\<lparr>t_delta := x\<rparr>) = f c) \<Longrightarrow> map f (push_delta d cs) = map f cs"
  by (cases cs) simp_all

lemma push_delta_sum:
  assumes "unat d + total cs < 2 ^ 32"
  shows "agenda_of e (push_delta d cs) = agenda_of (e + unat d) cs"
    and "total (push_delta d cs) \<le> unat d + total cs"
    and "cs \<noteq> [] \<Longrightarrow> unat (t_delta (push_delta d cs ! 0)) = unat d + unat (t_delta (cs ! 0))"
proof -
  have "unat (t_delta c + d) = unat (t_delta c) + unat d" if "cs = c # cs'" for c cs'
    using assms that unat_add_lem [of "t_delta c" d] by simp
  then show "agenda_of e (push_delta d cs) = agenda_of (e + unat d) cs"
    and "total (push_delta d cs) \<le> unat d + total cs"
    and "cs \<noteq> [] \<Longrightarrow> unat (t_delta (push_delta d cs ! 0)) = unat d + unat (t_delta (cs ! 0))"
    by (cases cs; simp add: ac_simps)+
qed

text \<open>Cancelling a cell whose function has neither been called nor cancelled before.\<close>

definition cancelled :: "32 word \<Rightarrow> tcell \<Rightarrow> tcell" where
  "cancelled me c = c\<lparr>t_ticket := 1, t_cpu := me, t_ticket_holder := 1\<rparr>"

lemma cancelled_simps [simp]:
  "t_ticket (cancelled me c) = 1" "t_ticket_holder (cancelled me c) = 1"
  "t_delta (cancelled me c) = t_delta c" "t_addr (cancelled me c) = t_addr c" "t_id (cancelled me c) = t_id c"
  by (simp_all add: cancelled_def)

lemma untimeout_idle:
  assumes cs: "td_cells s = xs @ c # ys" and c: "t_id c = tid" "t_ticket c = 0" "t_ticket_holder c = 0"
    and xs: "tid \<notin> t_id ` set xs"
  shows "untimeout me tid s = Inr (if xs = [] then s\<lparr>td_cells := cancelled me c # ys\<rparr>
    else s\<lparr>td_cells := (cancelled me c)\<lparr>t_delta := 0\<rparr> # xs @ push_delta (t_delta c) ys,
           td_nrun := (if length xs < td_nrun s then td_nrun s else td_nrun s + 1)\<rparr>)"
proof -
  have "index_of (\<lambda>c. t_id c = tid) (td_cells s) = Some (length xs)"
    using xs by (intro index_ofI) (auto simp: cs c nth_append)
  then show ?thesis
    by (cases ys)
      (simp_all add: untimeout_def untimeout_finish_def cell_at_def Let_def cs c nth_append
        cancelled_def list_update_append)
qed

lemma agenda_addr: "y \<in> set (agenda_of e cs) \<Longrightarrow> fst (snd y) \<in> t_addr ` set cs"
  by (induction cs arbitrary: e) (auto simp: entry_def split: if_splits)

lemma agenda_filter_other:
  "a \<notin> t_addr ` set cs \<Longrightarrow> filter (\<lambda>y. fst (snd y) \<noteq> a) (agenda_of e cs) = agenda_of e cs"
  by (rule filter_True) (metis agenda_addr)

lemma untimeout_keeps_ok:
  assumes ok: "timers_ok s" "notified s"
    and cs: "td_cells s = xs @ c # ys" and c: "t_id c = tid" "t_ticket c = 0" "t_ticket_holder c = 0"
    and xs: "tid \<notin> t_id ` set xs"
  obtains s' where "untimeout me tid s = Inr s'" "timers_ok s'" "notified s'"
    "agenda s' = filter (\<lambda>y. fst (snd y) \<noteq> t_addr c) (agenda s)"
    "td_held s' = td_held s" "timedata.more s' = timedata.more s"
proof -
  note un = untimeout_idle [OF cs c xs, of me]
  let ?c = "cancelled me c"
  have addrs: "distinct (map t_addr (xs @ c # ys))" and tot: "total (xs @ c # ys) < 2 ^ 32"
    using timers_okD(4,5) [OF ok(1)] cs by simp_all
  have a: "t_addr c \<notin> t_addr ` set xs" "t_addr c \<notin> t_addr ` set ys" using addrs by auto
  have ag: "filter (\<lambda>y. fst (snd y) \<noteq> t_addr c) (agenda s)
      = agenda_of 0 xs @ agenda_of (total xs + unat (t_delta c)) ys"
    by (simp add: agenda_def cs agenda_of_append agenda_filter_other a c(2) entry_def)
  have n: "td_nrun s \<le> Suc (length xs + length ys)" using timers_okD(1) [OF ok(1)] by (simp add: cs)
  have zero: "\<forall>x\<in>set (take (td_nrun s) (xs @ c # ys)). t_delta x = 0"
    and first: "td_nrun s < length (xs @ c # ys) \<Longrightarrow> 0 < t_delta ((xs @ c # ys) ! td_nrun s)"
    and flag: "\<forall>x\<in>set (take (td_nrun s) (xs @ c # ys)). t_ticket x = 0 \<longrightarrow> dc_run_timeouts s (t_cpu x)"
    using ok unfolding timers_ok_def notified_def cs by blast+
  show thesis
  proof (cases "xs = []")
    case True
    show thesis
    proof (rule that [of "s\<lparr>td_cells := ?c # ys\<rparr>"])
      show "untimeout me tid s = Inr (s\<lparr>td_cells := ?c # ys\<rparr>)" using un True by simp
      show "timers_ok (s\<lparr>td_cells := ?c # ys\<rparr>)"
        using ok(1) True unfolding timers_ok_def
        by (cases "td_nrun s") (auto simp: cs)
      show "notified (s\<lparr>td_cells := ?c # ys\<rparr>)"
        using ok(2) True unfolding notified_def by (cases "td_nrun s") (auto simp: cs)
    qed (use ag True in \<open>simp_all add: agenda_def\<close>)
  next
    case False
    let ?c0 = "?c\<lparr>t_delta := 0\<rparr>" and ?ys = "push_delta (t_delta c) ys"
    let ?n = "if length xs < td_nrun s then td_nrun s else td_nrun s + 1"
    define s' where "s' = s\<lparr>td_cells := ?c0 # xs @ ?ys, td_nrun := ?n\<rparr>"
    have s': "td_cells s' = ?c0 # xs @ ?ys" "td_nrun s' = ?n" by (simp_all add: s'_def)
    have "unat (t_delta c) + total ys < 2 ^ 32" using tot by simp
    note push = push_delta_sum [OF this]
    have map_ys: "map t_addr ?ys = map t_addr ys" by (rule map_push_delta) simp
    have len: "length ?ys = length ys" using arg_cong [OF map_ys, of length] by simp
    have del0: "t_delta c = 0" if "length xs < td_nrun s"
      using zero that by (simp add: take_Cons' min_def)
    have front: "set (take ?n (?c0 # xs @ ?ys)) \<subseteq> insert ?c0 (set (take (td_nrun s) (xs @ c # ys)))"
    proof (cases "length xs < td_nrun s")
      case True
      then show ?thesis
        using del0 by (auto simp: take_Cons' dest: in_set_takeD)
    next
      case le: False
      then show ?thesis by auto
    qed
    have "0 < t_delta (td_cells s' ! ?n)" if lt: "?n < length (td_cells s')"
    proof (cases "td_nrun s < length xs")
      case True
      then show ?thesis using first by (simp add: s' nth_append)
    next
      case False
      show ?thesis
      proof (cases "td_nrun s = length xs")
        case True
        then have "0 < t_delta c" "ys \<noteq> []" using first lt by (auto simp: s' nth_append)
        then have "0 < unat (t_delta (?ys ! 0))" using push(3) by (simp add: word_less_nat_alt)
        then show ?thesis using True by (simp add: s' nth_append word_less_nat_alt)
      next
        case gt: False
        then obtain m where m: "td_nrun s = Suc (length xs + m)"
          using False by (metis less_imp_Suc_add linorder_neqE_nat)
        then show ?thesis using first lt del0 by (simp add: s' nth_append)
      qed
    qed
    moreover have "\<forall>x\<in>set (take ?n (td_cells s')). t_delta x = 0"
      using front zero unfolding s' by auto
    moreover have "total (td_cells s') < 2 ^ 32" using push(2) tot by (simp add: s')
    moreover have "distinct (map t_addr (td_cells s'))"
      using addrs map_ys by (simp add: s')
    moreover have "?n \<le> length (td_cells s')" using n len by (simp add: s')
    ultimately have "timers_ok s'" unfolding timers_ok_def s'(2) by blast
    moreover have "notified s'"
      using flag front ok(2) unfolding notified_def s' by (auto simp: s'_def)
    moreover have "agenda s' = filter (\<lambda>y. fst (snd y) \<noteq> t_addr c) (agenda s)"
      unfolding ag by (simp add: agenda_def s' agenda_of_append push(1))
    ultimately show thesis using that [of s'] un False by (simp add: s'_def)
  qed
qed

section \<open>Calling the functions\<close>

text \<open>
  Functions that return, may schedule further functions but leave those that are scheduled, the
  locks and the requests alone, and are recorded in a log at the end of the state.
\<close>

definition calls_ok ::
    "(nat \<Rightarrow> nat \<Rightarrow> (nat \<times> nat) list timedata_scheme \<Rightarrow> (nat \<times> nat) list timedata_scheme option) \<Rightarrow> bool" where
  "calls_ok call \<longleftrightarrow> (\<forall>f a s. timers_ok s \<longrightarrow> (\<exists>s'. call f a s = Some s' \<and> timers_ok s'
     \<and> td_nrun s' = td_nrun s \<and> take (td_nrun s) (td_cells s') = take (td_nrun s) (td_cells s)
     \<and> td_held s' = td_held s \<and> dc_run_timeouts s' = dc_run_timeouts s
     \<and> defer_int s' = defer_int s \<and> defer_proc s' = defer_proc s \<and> set (agenda s) \<subseteq> set (agenda s')
     \<and> timedata.more s' = timedata.more s @ [(f, a)]))"

definition ready :: "32 word \<Rightarrow> 'a timedata_scheme \<Rightarrow> tcell \<Rightarrow> bool" where
  "ready me s c \<longleftrightarrow> t_cpu c = me \<and> t_ticket c = 0 \<and> \<not> lock_busy c s"

definition ran :: "32 word \<Rightarrow> 'a timedata_scheme \<Rightarrow> tcell \<Rightarrow> tcell" where
  "ran me s c = (if ready me s c then c\<lparr>t_ticket := 1, t_ticket_holder := 1\<rparr> else c)"

definition due :: "'a timedata_scheme \<Rightarrow> tcell list" where
  "due s = take (td_nrun s) (td_cells s)"

lemma cell_at_timers_ok:
  assumes "timers_ok s" "\<And>c. t_delta (f c) = t_delta c" "\<And>c. t_addr (f c) = t_addr c"
  shows "timers_ok (cell_at i f s)"
proof -
  have "map t_delta (td_cells (cell_at i f s)) = map t_delta (td_cells s)"
    "map t_addr (td_cells (cell_at i f s)) = map t_addr (td_cells s)"
    using assms(2,3) by (auto simp: cell_at_def intro: map_nth_same)
  moreover from this(1) have "total (td_cells (cell_at i f s)) = total (td_cells s)"
    unfolding total_def by (metis (mono_tags, lifting) comp_apply list.map_comp map_eq_conv)
  moreover have "\<forall>j<length (td_cells s). t_delta (td_cells (cell_at i f s) ! j) = t_delta (td_cells s ! j)"
    using assms(2) by (auto simp: cell_at_def) (metis nth_list_update nth_list_update_neq)
  ultimately show ?thesis
    using assms(1) all_take_nth [of "td_nrun s" "td_cells s"] all_take_nth [of "td_nrun s" "td_cells (cell_at i f s)"]
    by (auto simp: timers_ok_def cell_at_def)
qed

lemma set_lock_simps [simp]:
  "td_cells (set_lock c b s) = td_cells s" "td_nrun (set_lock c b s) = td_nrun s"
  "dc_run_timeouts (set_lock c b s) = dc_run_timeouts s" "defer_int (set_lock c b s) = defer_int s"
  "defer_proc (set_lock c b s) = defer_proc s" "timedata.more (set_lock c b s) = timedata.more s"
  by (auto simp: set_lock_def split: option.split)

lemma cell_at_simps [simp]:
  "td_nrun (cell_at i f s) = td_nrun s" "td_held (cell_at i f s) = td_held s"
  "dc_run_timeouts (cell_at i f s) = dc_run_timeouts s" "defer_int (cell_at i f s) = defer_int s"
  "defer_proc (cell_at i f s) = defer_proc s" "timedata.more (cell_at i f s) = timedata.more s"
  "length (td_cells (cell_at i f s)) = length (td_cells s)"
  by (simp_all add: cell_at_def)

lemma timers_ok_set_lock [simp]: "timers_ok (set_lock c b s) = timers_ok s"
  by (simp add: timers_ok_def)

lemma take_cell_at: "take n (td_cells (cell_at i f s)) = (take n (td_cells s))[i := f (td_cells s ! i)]"
  by (simp add: cell_at_def take_update_swap)

lemma unlock_held:
  assumes "\<not> lock_busy c s" "td_held s1 = td_held (set_lock c True s)"
  shows "td_held (set_lock c False s1) = td_held s"
  using assms by (cases "t_lockp c") (auto simp: set_lock_def lock_busy_def fun_eq_iff)

lemma agenda_set_lock [simp]: "agenda (set_lock c b s) = agenda s"
  by (simp add: agenda_def)

text \<open>The other entries stay when a cell gets a ticket.\<close>

lemma agenda_cell_at:
  assumes y: "y \<in> set (agenda s)" "fst (snd y) \<noteq> t_addr (td_cells s ! i)"
    and f: "\<And>c. t_delta (f c) = t_delta c"
  shows "y \<in> set (agenda (cell_at i f s))"
proof (cases "i < length (td_cells s)")
  case True
  define xs c ys where "xs = take i (td_cells s)" and "c = td_cells s ! i" and "ys = drop (Suc i) (td_cells s)"
  have cs: "td_cells s = xs @ c # ys" unfolding xs_def c_def ys_def by (rule id_take_nth_drop [OF True])
  have new: "td_cells (cell_at i f s) = xs @ f c # ys"
    using True unfolding cell_at_def xs_def c_def ys_def by (simp add: upd_conv_take_nth_drop)
  have "fst (snd y) \<noteq> t_addr c" using y(2) by (simp add: c_def)
  moreover have "y \<in> set (agenda_of 0 (xs @ c # ys))" using y(1) unfolding agenda_def cs .
  ultimately have "y \<in> set (agenda_of 0 xs) \<union> set (agenda_of (total xs + unat (t_delta c)) ys)"
    by (auto simp: agenda_of_append entry_def split: if_splits)
  then show ?thesis unfolding agenda_def new by (auto simp: agenda_of_append f)
next
  case False
  then show ?thesis using y(1) by (simp add: cell_at_def list_update_beyond)
qed

text \<open>One turn of the loop that calls a function.\<close>

lemma run_step:
  assumes calls: "calls_ok call" and ok: "timers_ok s" and i: "i < td_nrun s"
    and ready: "ready me s (td_cells s ! i)"
  obtains s' where "\<And>b. run_loop call me i b s = run_loop call me (Suc i) b s'"
    "timers_ok s'" "td_nrun s' = td_nrun s" "td_held s' = td_held s"
    "take (td_nrun s) (td_cells s') = (take (td_nrun s) (td_cells s))[i := ran me s (td_cells s ! i)]"
    "dc_run_timeouts s' = dc_run_timeouts s" "defer_int s' = defer_int s" "defer_proc s' = defer_proc s"
    "timedata.more s' = timedata.more s @ [(t_funcp (td_cells s ! i), t_arg (td_cells s ! i))]"
    "\<And>y. y \<in> set (agenda s) \<Longrightarrow> fst (snd y) \<noteq> t_addr (td_cells s ! i) \<Longrightarrow> y \<in> set (agenda s')"
proof -
  let ?c = "td_cells s ! i" and ?n = "td_nrun s"
  define s1 where "s1 = cell_at i (\<lambda>c. c\<lparr>t_ticket := 1\<rparr>) (set_lock ?c True s)"
  have s1: "timers_ok s1" "td_nrun s1 = ?n" "take ?n (td_cells s1) = (take ?n (td_cells s))[i := ?c\<lparr>t_ticket := 1\<rparr>]"
    using ok by (simp_all add: s1_def cell_at_timers_ok take_cell_at)
  obtain s2 where s2: "call (t_funcp ?c) (t_arg ?c) s1 = Some s2" "timers_ok s2" "td_nrun s2 = ?n"
      "take ?n (td_cells s2) = take ?n (td_cells s1)" "td_held s2 = td_held s1"
      "dc_run_timeouts s2 = dc_run_timeouts s1" "defer_int s2 = defer_int s1" "defer_proc s2 = defer_proc s1"
      "timedata.more s2 = timedata.more s1 @ [(t_funcp ?c, t_arg ?c)]" "set (agenda s1) \<subseteq> set (agenda s2)"
    using calls s1(1,2) unfolding calls_ok_def by metis
  have len: "i < length (td_cells s)" "i < length (td_cells s2)"
    using i timers_okD(1) [OF ok] timers_okD(1) [OF s2(2)] s2(3) by auto
  have "td_cells s2 ! i = take ?n (td_cells s2) ! i" using i by simp
  then have at: "td_cells s2 ! i = ?c\<lparr>t_ticket := 1\<rparr>" using i len(1) by (simp add: s2(4) s1(3))
  have "index_of (\<lambda>c. t_addr c = t_addr ?c) (td_cells s2) = Some i"
  proof (rule index_ofI)
    show "t_addr (td_cells s2 ! j) \<noteq> t_addr ?c" if "j < i" for j
    proof -
      have "map t_addr (td_cells s2) ! j \<noteq> map t_addr (td_cells s2) ! i"
        using timers_okD(5) [OF s2(2)] that len(2) by (simp only: nth_eq_iff_index_eq length_map)
      then show ?thesis using that len(2) at by simp
    qed
  qed (use len at in auto)
  then have step: "run_loop call me i b s
      = run_loop call me (Suc i) b (cell_at i (\<lambda>c. c\<lparr>t_ticket_holder := 1\<rparr>) (set_lock ?c False s2))" for b
    using ready i len(1) s2(1) unfolding ready_def
    by (subst run_loop.simps) (simp add: Let_def s1_def)
  have "\<not> lock_busy ?c s" "td_held s2 = td_held (set_lock ?c True s)"
    using ready s2(5) by (simp_all add: ready_def s1_def)
  note held = unlock_held [OF this]
  define s3 where "s3 = cell_at i (\<lambda>c. c\<lparr>t_ticket_holder := 1\<rparr>) (set_lock ?c False s2)"
  have others: "y \<in> set (agenda s3)" if y: "y \<in> set (agenda s)" "fst (snd y) \<noteq> t_addr ?c" for y
  proof -
    have "y \<in> set (agenda s1)" unfolding s1_def by (rule agenda_cell_at) (use y in simp_all)
    then have "y \<in> set (agenda (set_lock ?c False s2))" using s2(10) by auto
    then show ?thesis unfolding s3_def by (rule agenda_cell_at) (use y(2) at in simp_all)
  qed
  show thesis
    by (rule that [OF step [folded s3_def] _ _ _ _ _ _ _ _ others])
      (use ready s2 s1(3) len at held i in \<open>simp_all add: cell_at_timers_ok take_cell_at ran_def s1_def s3_def\<close>)
qed

lemma run_loop_calls:
  assumes calls: "calls_ok call" and ok: "timers_ok s" and i: "i \<le> td_nrun s"
  obtains b' s' where "run_loop call me i b s = Some (b', s')" "timers_ok s'" "td_nrun s' = td_nrun s"
    "td_held s' = td_held s" "due s' = take i (due s) @ map (ran me s) (drop i (due s))"
    "dc_run_timeouts s' = dc_run_timeouts s" "defer_int s' = defer_int s" "defer_proc s' = defer_proc s"
    "timedata.more s' = timedata.more s @ map (\<lambda>c. (t_funcp c, t_arg c)) (filter (ready me s) (drop i (due s)))"
    "b' \<longleftrightarrow> b \<or> (\<exists>c\<in>set (drop i (due s)). t_cpu c = me \<and> t_ticket c = 0 \<and> lock_busy c s)"
    "\<And>y. y \<in> set (agenda s) \<Longrightarrow> fst (snd y) \<notin> t_addr ` set (filter (ready me s) (drop i (due s)))
       \<Longrightarrow> y \<in> set (agenda s')"
  using ok i
proof (induction "td_nrun s - i" arbitrary: i b s thesis)
  case 0
  then have "i = td_nrun s" by simp
  then show ?case
    using 0(3) by (intro 0(2) [of b s]) (subst run_loop.simps, auto simp: due_def)
next
  case (Suc k)
  let ?c = "td_cells s ! i"
  have lt: "i < td_nrun s" "i < length (td_cells s)" using Suc(2) timers_okD(1) [OF Suc(4)] by auto
  have drop: "drop i (due s) = ?c # drop (Suc i) (due s)"
    using lt by (simp add: due_def Cons_nth_drop_Suc [symmetric])
  have take: "take (Suc i) (due s) = take i (due s) @ [?c]"
    using lt by (simp add: due_def take_Suc_conv_app_nth)
  show ?case
  proof (cases "ready me s ?c")
    case True
    obtain s1 where s1: "\<And>b. run_loop call me i b s = run_loop call me (Suc i) b s1"
        "timers_ok s1" "td_nrun s1 = td_nrun s" "td_held s1 = td_held s"
        "take (td_nrun s) (td_cells s1) = (take (td_nrun s) (td_cells s))[i := ran me s ?c]"
        "dc_run_timeouts s1 = dc_run_timeouts s" "defer_int s1 = defer_int s" "defer_proc s1 = defer_proc s"
        "timedata.more s1 = timedata.more s @ [(t_funcp ?c, t_arg ?c)]"
        "\<And>y. y \<in> set (agenda s) \<Longrightarrow> fst (snd y) \<noteq> t_addr ?c \<Longrightarrow> y \<in> set (agenda s1)"
      using run_step [OF calls Suc(4) lt(1) True] by blast
    have due1: "due s1 = (due s)[i := ran me s ?c]" using s1(3,5) by (simp add: due_def)
    have same: "ready me s1 = ready me s" "ran me s1 = ran me s" "\<And>c. lock_busy c s1 = lock_busy c s"
      using s1(4) by (auto simp: ready_def ran_def lock_busy_def fun_eq_iff cong: option.case_cong)
    have d: "drop (Suc i) (due s1) = drop (Suc i) (due s)" "take (Suc i) (due s1) = take i (due s) @ [ran me s ?c]"
      using lt unfolding due1 by (simp_all add: take_Suc_conv_app_nth due_def)
    have "k = td_nrun s1 - Suc i" "Suc i \<le> td_nrun s1" using Suc(2) lt s1(3) by auto
    from Suc(1) [OF this(1) _ s1(2) this(2), of b] obtain b' s' where s': "run_loop call me (Suc i) b s1 = Some (b', s')"
      "timers_ok s'" "td_nrun s' = td_nrun s1" "td_held s' = td_held s1"
      "due s' = take (Suc i) (due s1) @ map (ran me s1) (drop (Suc i) (due s1))"
      "dc_run_timeouts s' = dc_run_timeouts s1" "defer_int s' = defer_int s1" "defer_proc s' = defer_proc s1"
      "timedata.more s' = timedata.more s1 @ map (\<lambda>c. (t_funcp c, t_arg c)) (filter (ready me s1) (drop (Suc i) (due s1)))"
      "b' \<longleftrightarrow> b \<or> (\<exists>c\<in>set (drop (Suc i) (due s1)). t_cpu c = me \<and> t_ticket c = 0 \<and> lock_busy c s1)"
      "\<And>y. y \<in> set (agenda s1) \<Longrightarrow> fst (snd y) \<notin> t_addr ` set (filter (ready me s1) (drop (Suc i) (due s1)))
         \<Longrightarrow> y \<in> set (agenda s')"
      by blast
    show ?thesis
    proof (rule Suc(3) [of b' s'])
      show "run_loop call me i b s = Some (b', s')" using s1(1) s'(1) by simp
      show "b' \<longleftrightarrow> b \<or> (\<exists>c\<in>set (drop i (due s)). t_cpu c = me \<and> t_ticket c = 0 \<and> lock_busy c s)"
        using s'(10) True unfolding drop d same by (auto simp: ready_def)
      show "y \<in> set (agenda s')"
        if "y \<in> set (agenda s)" "fst (snd y) \<notin> t_addr ` set (filter (ready me s) (drop i (due s)))" for y
        using s'(11) [of y] s1(10) [of y] that True unfolding drop d same by simp
    qed (use s' s1 True in \<open>simp_all add: d same drop\<close>)
  next
    case False
    let ?b = "b \<or> (t_cpu ?c = me \<and> t_ticket ?c = 0 \<and> lock_busy ?c s)"
    have step: "run_loop call me i b s = run_loop call me (Suc i) ?b s"
      using False lt unfolding ready_def
      by (subst run_loop.simps) (auto simp: Let_def word_gt_0)
    have "k = td_nrun s - Suc i" "Suc i \<le> td_nrun s" using Suc(2) lt by auto
    from Suc(1) [OF this(1) _ Suc(4) this(2), of ?b] obtain b' s' where s': "run_loop call me (Suc i) ?b s = Some (b', s')"
      "timers_ok s'" "td_nrun s' = td_nrun s" "td_held s' = td_held s"
      "due s' = take (Suc i) (due s) @ map (ran me s) (drop (Suc i) (due s))"
      "dc_run_timeouts s' = dc_run_timeouts s" "defer_int s' = defer_int s" "defer_proc s' = defer_proc s"
      "timedata.more s' = timedata.more s @ map (\<lambda>c. (t_funcp c, t_arg c)) (filter (ready me s) (drop (Suc i) (due s)))"
      "b' \<longleftrightarrow> ?b \<or> (\<exists>c\<in>set (drop (Suc i) (due s)). t_cpu c = me \<and> t_ticket c = 0 \<and> lock_busy c s)"
      "\<And>y. y \<in> set (agenda s) \<Longrightarrow> fst (snd y) \<notin> t_addr ` set (filter (ready me s) (drop (Suc i) (due s)))
         \<Longrightarrow> y \<in> set (agenda s')"
      by blast
    show ?thesis
    proof (rule Suc(3) [of b' s'])
      show "run_loop call me i b s = Some (b', s')" using step s'(1) by simp
      show "due s' = take i (due s) @ map (ran me s) (drop i (due s))"
        using s'(5) False unfolding take drop by (simp add: ran_def)
      show "b' \<longleftrightarrow> b \<or> (\<exists>c\<in>set (drop i (due s)). t_cpu c = me \<and> t_ticket c = 0 \<and> lock_busy c s)"
        using s'(10) unfolding drop by auto
    qed (use s' False in \<open>simp_all add: drop\<close>)
  qed
qed

lemma reap_prefix: "reap cs = (n, b) \<Longrightarrow> n \<le> length cs \<and> (\<forall>c\<in>set (take n cs). t_ticket c \<noteq> 0)"
  by (induction cs arbitrary: n b) (auto split: if_splits prod.splits)

lemma total_drop: "total (drop n cs) \<le> total cs"
  by (metis append_take_drop_id le_add2 total_simps(3))

lemma timers_ok_reap:
  assumes ok: "timers_ok s" and n: "n \<le> td_nrun s"
  shows "timers_ok (s\<lparr>td_cells := drop n (td_cells s), td_nrun := td_nrun s - n\<rparr>)"
proof -
  have eq: "take (td_nrun s - n) (drop n (td_cells s)) = drop n (take (td_nrun s) (td_cells s))"
    by (simp add: drop_take)
  show ?thesis
    using timers_okD [OF ok] n le_less_trans [OF total_drop, of "td_cells s" "2 ^ 32" n]
    unfolding timers_ok_def
    by (auto simp: eq drop_map [symmetric] dest: in_set_dropD)
qed

text \<open>The pass that a processor makes when it takes up its request.\<close>

lemma RUN_keeps_ok:
  assumes calls: "calls_ok call" and ok: "timers_ok s"
    and told: "notified (s\<lparr>defer_int := me # defer_int s\<rparr>)"
  obtains s' where "RUN_TIMEOUTS call me s = Some s'" "timers_ok s'" "notified s'" "td_held s' = td_held s"
    "timedata.more s' = timedata.more s @ map (\<lambda>c. (t_funcp c, t_arg c)) (filter (ready me s) (due s))"
    "filter (\<lambda>c. t_ticket c = 0) (due s') = filter (\<lambda>c. t_ticket c = 0 \<and> \<not> ready me s c) (due s)"
    "\<And>y. y \<in> set (agenda s) \<Longrightarrow> fst (snd y) \<notin> t_addr ` set (filter (ready me s) (due s)) \<Longrightarrow> y \<in> set (agenda s')"
proof -
  obtain b s1 where s1: "run_loop call me 0 False s = Some (b, s1)" "timers_ok s1" "td_nrun s1 = td_nrun s"
      "td_held s1 = td_held s" "due s1 = map (ran me s) (due s)"
      "dc_run_timeouts s1 = dc_run_timeouts s" "defer_int s1 = defer_int s" "defer_proc s1 = defer_proc s"
      "timedata.more s1 = timedata.more s @ map (\<lambda>c. (t_funcp c, t_arg c)) (filter (ready me s) (due s))"
      "b \<longleftrightarrow> (\<exists>c\<in>set (due s). t_cpu c = me \<and> t_ticket c = 0 \<and> lock_busy c s)"
      "\<And>y. y \<in> set (agenda s) \<Longrightarrow> fst (snd y) \<notin> t_addr ` set (filter (ready me s) (due s)) \<Longrightarrow> y \<in> set (agenda s1)"
    by (rule run_loop_calls [OF calls ok, of 0 me False]) auto
  obtain n e where reap: "reap (due s1) = (n, e)" by (cases "reap (due s1)")
  have n: "n \<le> td_nrun s1" "\<forall>c\<in>set (take n (due s1)). t_ticket c \<noteq> 0"
    using reap_prefix [OF reap] by (simp_all add: due_def)
  define s2 where "s2 = s1\<lparr>td_cells := drop n (td_cells s1), td_nrun := td_nrun s1 - n\<rparr>"
  have s2: "timers_ok s2" unfolding s2_def by (rule timers_ok_reap [OF s1(2) n(1)])
  have "agenda s1 = agenda s2"
  proof -
    have prefix: "take n (td_cells s1) = take n (due s1)" using n(1) by (simp add: due_def)
    have zero: "t_delta c = 0" if "c \<in> set (take n (td_cells s1))" for c
      using that prefix timers_okD(2) [OF s1(2)] by (metis due_def in_set_takeD)
    have "agenda s1 = agenda_of 0 (take n (td_cells s1)) @ agenda_of 0 (drop n (td_cells s1))"
      using agenda_of_append [of 0 "take n (td_cells s1)" "drop n (td_cells s1)"] total_zero [OF zero]
      by (simp add: agenda_def)
    moreover have "agenda_of 0 (take n (td_cells s1)) = []"
      using n(2) agenda_of_zero [OF zero, where e = 0] unfolding prefix by simp
    ultimately show ?thesis by (simp add: agenda_def s2_def)
  qed
  then have agenda': "agenda s' = agenda s1" if "td_cells s' = td_cells s2" for s' :: "(nat \<times> nat) list timedata_scheme"
    using that by (simp add: agenda_def)
  have due2: "due s2 = drop n (due s1)" by (simp add: s2_def due_def drop_take)
  define s' where "s' = (if b \<or> e then s2\<lparr>defer_proc := defer_proc s2 @ [me]\<rparr>
                         else s2\<lparr>dc_run_timeouts := (dc_run_timeouts s2)(me := False)\<rparr>)"
  have due': "due s' = due s2" by (simp add: s'_def due_def)
  have run: "RUN_TIMEOUTS call me s = Some s'"
    using reap unfolding due_def by (simp add: RUN_TIMEOUTS_def s1(1) s'_def s2_def)
  have "filter (\<lambda>c. t_ticket c = 0) (due s1)
      = filter (\<lambda>c. t_ticket c = 0) (take n (due s1)) @ filter (\<lambda>c. t_ticket c = 0) (due s')"
    unfolding due' due2 filter_append [symmetric] append_take_drop_id ..
  then have f1: "filter (\<lambda>c. t_ticket c = 0) (due s') = filter (\<lambda>c. t_ticket c = 0) (map (ran me s) (due s))"
    using n(2) s1(5) by simp
  have f2: "filter (\<lambda>c. t_ticket c = 0) (map (ran me s) cs) = filter (\<lambda>c. t_ticket c = 0 \<and> \<not> ready me s c) cs" for cs
    by (induction cs) (auto simp: ran_def)
  have left: "filter (\<lambda>c. t_ticket c = 0) (due s') = filter (\<lambda>c. t_ticket c = 0 \<and> \<not> ready me s c) (due s)"
    using f1 f2 by simp
  have flag: "\<forall>c\<in>set (due s). t_ticket c = 0 \<longrightarrow> dc_run_timeouts s (t_cpu c)"
    and pend: "\<forall>cpu. dc_run_timeouts s cpu \<longrightarrow> cpu \<in> insert me (set (defer_int s)) \<union> set (defer_proc s)"
    using told by (auto simp: notified_def due_def)
  have "dc_run_timeouts s' (t_cpu c)" if "c \<in> set (due s')" "t_ticket c = 0" for c
  proof -
    have "c \<in> set (filter (\<lambda>c. t_ticket c = 0) (due s'))" using that by simp
    then have c: "c \<in> set (due s)" "\<not> ready me s c" unfolding left by simp_all
    then have "dc_run_timeouts s (t_cpu c)" using flag that(2) by blast
    moreover have "b" if "t_cpu c = me"
      using c that \<open>t_ticket c = 0\<close> unfolding s1(10) by (auto simp: ready_def)
    ultimately show ?thesis using s1(6) by (auto simp: s'_def s2_def)
  qed
  moreover have "cpu \<in> set (defer_int s') \<union> set (defer_proc s')" if "dc_run_timeouts s' cpu" for cpu
    using that pend s1(6-8) by (auto simp: s'_def s2_def split: if_splits)
  ultimately have "notified s'" by (simp add: notified_def due_def [symmetric])
  moreover have "timers_ok s'" using s2 by (simp add: s'_def timers_ok_def)
  ultimately have "notified s'" "timers_ok s'" by blast+
  then show thesis
    by (intro that [OF run]) (use s1(4,9,11) left agenda' [of s'] in \<open>auto simp: s'_def s2_def\<close>)
qed

end
