(* ===== verification/Timeout_Properties.thy ===== *)
theory Timeout_Properties
  imports Timeout_Laws
begin

text \<open>
  The properties of the timeouts: the delta queue stays well formed and no request is lost, the
  operations carry out their contract on the agenda, and a function that was scheduled is called.
\<close>

section \<open>A concrete queue\<close>



definition idle :: "(nat \<times> nat) list timedata_scheme" where
  "idle = \<lparr>td_cells = [], td_nrun = 0, td_id = 1, td_held = (\<lambda>_. False),
           dc_run_timeouts = (\<lambda>_. False), defer_int = [], defer_proc = [], \<dots> = []\<rparr>"

definition demo_cell :: tcell where
  "demo_cell = \<lparr>t_addr = 100, t_delta = 3, t_id = 1, t_cpu = NOCPU, t_ticket = 0, t_ticket_holder = 0,
                t_funcp = 7, t_arg = 8, t_lockp = None, t_pl = 0\<rparr>"



section \<open>Steps\<close>

















section \<open>The properties\<close>










text \<open>
  C99. When the next id is in use by a cell that the walk meets, \<^verbatim>\<open>QUEUE_TIMEOUT\<close> starts again with
  the ticks that the walk has already taken off: a function that was to be called after 10 ticks,
  behind a cell with 4 ticks and a cell with the id, gets only 6; with 4 ticks it gets none, its cell is
  put in front of \<^verbatim>\<open>td_first\<close> with a delta of 0, and the next clock tick makes that
  \<open>2 ^ 32 - 1\<close>, for it and all cells behind it.
\<close>

definition wrapped :: "(nat \<times> nat) list timedata_scheme" where
  "wrapped = idle\<lparr>td_cells := [demo_cell\<lparr>t_delta := 4, t_id := 9\<rparr>, demo_cell\<lparr>t_addr := 300, t_id := 5\<rparr>], td_id := 5\<rparr>"

theorem id_in_use_shortens_timeout:
  "timers_ok wrapped
    \<and> map_option (\<lambda>(s, tid). (agenda s, tid)) (itimeout (Some 500) 1 2 10 0 wrapped)
        = Some ([(4, 100, 9, 7, 8), (6, 500, 6, 1, 2), (7, 300, 5, 7, 8)], 6)
    \<and> map_option (\<lambda>(s, tid). map fst (agenda (CHECK_TIMEOUT 0 s))) (itimeout (Some 500) 1 2 4 0 wrapped)
        = Some [4294967295, 4294967299, 4294967302]"
proof -
  have scan: "id_scan 5 10 (td_cells wrapped) = Some (6, 7, 1, 2)"
    "id_scan 5 4 (td_cells wrapped) = Some (6, 7, 0, 0)"
    by (simp_all add: id_scan.simps [of 5] id_scan.simps [of 6] wrapped_def demo_cell_def Let_def)
  have "td_id wrapped = 5" by (simp add: wrapped_def)
  then show ?thesis
    using scan
    by (simp add: itimeout_def QUEUE_TIMEOUT_def Let_def)
      (simp add: wrapped_def idle_def demo_cell_def agenda_def entry_def timers_ok_def CHECK_TIMEOUT_def cell_at_def
        unsigned_minus_1_eq_mask mask_eq_exp_minus_1)
qed

end
