(* ===== verification/Inode_Disk.thy ===== *)
theory Inode_Disk
  imports Inode_Table Block_Laws
begin

text \<open>
  The inode on disk: reading what was written gives the inode back, and writing one inode leaves the
  seven others of its block alone.
\<close>

section \<open>Numbers in a row of bytes\<close>

lemma rd16_le16: "length pre = o' \<Longrightarrow> rd16 (pre @ le16 x @ post) o' = x mod 65536"
  by (simp add: rd16_def le16_def nth_append split256)

lemma rd32_le32: "length pre = o' \<Longrightarrow> rd32 (pre @ le32 x @ post) o' = wrap32 x"
  using rd32_longs [of 0 "[x]" pre o' post] by simp

lemma length_le16 [simp]: "length (le16 x) = 2"
  by (simp add: le16_def)

lemma length_ltol3 [simp]: "length (ltol3 xs) = 3 * length xs"
  by (induction xs) (simp_all add: ltol3_def)

lemma wrap16_mod: "wrap16 (x mod 65536) = wrap16 x"
  unfolding wrap16_def by (simp only: mod_add_left_eq)

section \<open>Round trip\<close>

definition int16 :: "int \<Rightarrow> bool" where
  "int16 x \<longleftrightarrow> - 32768 \<le> x \<and> x \<le> 32767"

definition uint16 :: "int \<Rightarrow> bool" where
  "uint16 x \<longleftrightarrow> 0 \<le> x \<and> x \<le> 65535"

text \<open>
  An inode that fits its form on disk: the fields have the widths of their types, the addresses fit in
  24 bits, and the members of the union that its type does not use are clear, as are the members that
  are not kept on disk.
\<close>

definition fits_disk :: "inode \<Rightarrow> bool" where
  "fits_disk ip \<longleftrightarrow> uint16 (i_mode ip) \<and> int16 (i_nlink ip) \<and> uint16 (i_uid ip) \<and> uint16 (i_gid ip) \<and>
     int32 (i_size ip) \<and> int32 (i_atime ip) \<and> int32 (i_mtime ip) \<and> int32 (i_ctime ip) \<and> uint16 (i_rdev ip) \<and>
     int16 (i_pnc ip) \<and> int16 (i_prx ip) \<and> int16 (i_pwx ip) \<and> length (i_addr ip) = NADDR \<and>
     (\<forall>b\<in>set (i_addr ip). 0 \<le> b \<and> b < 16777216) \<and>
     (i_type ip \<noteq> IFBLK \<and> i_type ip \<noteq> IFCHR \<longrightarrow> i_rdev ip = 0) \<and>
     (i_type ip \<noteq> IFPIPE \<longrightarrow> i_pnc ip = 0 \<and> i_prx ip = 0 \<and> i_pwx ip = 0) \<and>
     (i_type ip = IFPIPE \<longrightarrow> drop ND (i_addr ip) = replicate 3 0) \<and>
     (i_type ip \<noteq> IFREG \<and> i_type ip \<noteq> IFDIR \<and> i_type ip \<noteq> IFPIPE \<longrightarrow> i_addr ip = replicate NADDR 0) \<and>
     i_par ip = 0 \<and> i_paw ip = 0 \<and> i_psr ip = 0 \<and> i_psw ip = 0 \<and> \<not> i_iev ip \<and> \<not> i_oev ip"

text \<open>The inode with the members that are in memory only taken from \<open>q\<close>.\<close>

definition in_core :: "inode \<Rightarrow> inode \<Rightarrow> inode" where
  "in_core q ip = ip\<lparr>i_dev := i_dev q, i_ino := i_ino q, i_refc := i_refc q, i_lrt := i_lrt q, i_flag := i_flag q,
     i_lastblock := i_lastblock q\<rparr>"

lemma length_dinode_area: "length junk = 40 \<Longrightarrow> length (i_addr ip) = NADDR \<Longrightarrow> length (dinode_area junk ip) = 40"
  by (simp add: dinode_area_def)

lemma length_dinode: "length junk = 40 \<Longrightarrow> length (i_addr ip) = NADDR \<Longrightarrow> length (dinode_bytes junk ip) = 64"
  by (simp add: dinode_bytes_def length_dinode_area)

lemma read_fields:
  assumes "length junk = 40" "length (i_addr ip) = NADDR" "b = dinode_bytes junk ip @ rest"
  shows "rd16 b 0 = i_mode ip mod 65536" "rd16 b 2 = i_nlink ip mod 65536" "rd16 b 4 = i_uid ip mod 65536"
    "rd16 b 6 = i_gid ip mod 65536" "rd32 b 8 = wrap32 (canl (i_size ip))"
    "rd32 b 52 = wrap32 (canl (i_atime ip))" "rd32 b 56 = wrap32 (canl (i_mtime ip))"
    "rd32 b 60 = wrap32 (canl (i_ctime ip))" "\<exists>tl. drop 12 b = dinode_area junk ip @ tl"
proof -
  let ?a = "dinode_area junk ip"
  let ?h = "le16 (i_mode ip) @ le16 (i_nlink ip) @ le16 (i_uid ip) @ le16 (i_gid ip)"
  let ?t = "le32 (canl (i_atime ip)) @ le32 (canl (i_mtime ip)) @ le32 (canl (i_ctime ip)) @ rest"
  note l = length_dinode_area [OF assms(1,2)]
  have e: "b = ?h @ le32 (canl (i_size ip)) @ ?a @ ?t" using assms(3) by (simp add: dinode_bytes_def)
  show "rd16 b 0 = i_mode ip mod 65536" using rd16_le16 [of "[]" 0] e by simp
  show "rd16 b 2 = i_nlink ip mod 65536" using rd16_le16 [of "le16 (i_mode ip)" 2] e by simp
  show "rd16 b 4 = i_uid ip mod 65536" using rd16_le16 [of "le16 (i_mode ip) @ le16 (i_nlink ip)" 4] e by simp
  show "rd16 b 6 = i_gid ip mod 65536"
    using rd16_le16 [of "le16 (i_mode ip) @ le16 (i_nlink ip) @ le16 (i_uid ip)" 6] e by simp
  show "rd32 b 8 = wrap32 (canl (i_size ip))" using rd32_le32 [of ?h 8] e by simp
  show "rd32 b 52 = wrap32 (canl (i_atime ip))"
    using rd32_le32 [of "?h @ le32 (canl (i_size ip)) @ ?a" 52] e l by simp
  show "rd32 b 56 = wrap32 (canl (i_mtime ip))"
    using rd32_le32 [of "?h @ le32 (canl (i_size ip)) @ ?a @ le32 (canl (i_atime ip))" 56] e l by simp
  show "rd32 b 60 = wrap32 (canl (i_ctime ip))"
    using rd32_le32 [of "?h @ le32 (canl (i_size ip)) @ ?a @ le32 (canl (i_atime ip)) @ le32 (canl (i_mtime ip))" 60] e l
    by simp
  show "\<exists>tl. drop 12 b = ?a @ tl" using e by simp
qed

lemma canl_wrap_canl: "int32 x \<Longrightarrow> canl (wrap32 (canl x)) = x"
  by (simp add: int32_wrap canl_canl)

lemma mod_uint16: "uint16 x \<Longrightarrow> x mod 65536 = x"
  by (simp add: uint16_def)

lemma wrap16_int16: "int16 x \<Longrightarrow> wrap16 (x mod 65536) = x"
  by (simp add: wrap16_mod int16_def)

lemma read_addr:
  assumes "\<forall>b\<in>set xs. 0 \<le> b \<and> b < 16777216" "length xs = n"
  shows "l3tol (ltol3 xs @ rest) n = xs"
  using assms l3tol_ltol3_map [of xs rest] by (auto intro: map_idI)

text \<open>The members of the union, by type.\<close>

lemma read_area_addr:
  assumes "fits_disk ip" "i_type ip = IFREG \<or> i_type ip = IFDIR"
  shows "l3tol (dinode_area junk ip @ tl') NADDR = i_addr ip"
proof -
  have a: "length (i_addr ip) = NADDR" "\<forall>b\<in>set (i_addr ip). 0 \<le> b \<and> b < 16777216"
    using assms(1) unfolding fits_disk_def by blast+
  have "i_type ip \<noteq> IFBLK" "i_type ip \<noteq> IFCHR" using assms(2) by auto
  then have "dinode_area junk ip = ltol3 (i_addr ip) @ drop 39 junk" using assms(2) a(1) by (simp add: dinode_area_def)
  then show ?thesis using read_addr [OF a(2,1)] by simp
qed

lemma read_area_rdev:
  assumes "fits_disk ip" "i_type ip = IFBLK \<or> i_type ip = IFCHR"
  shows "rd16 (dinode_area junk ip @ tl') 0 = i_rdev ip"
  using assms rd16_le16 [of "[]" 0 "i_rdev ip"] by (auto simp: dinode_area_def fits_disk_def mod_uint16)

lemma read_area_pipe:
  assumes "fits_disk ip" "i_type ip = IFPIPE"
  shows "l3tol (dinode_area junk ip @ tl') ND @ replicate 3 0 = i_addr ip"
    "rd16 (dinode_area junk ip @ tl') 30 = i_pnc ip mod 65536"
    "rd16 (dinode_area junk ip @ tl') 32 = i_prx ip mod 65536"
    "rd16 (dinode_area junk ip @ tl') 34 = i_pwx ip mod 65536"
proof -
  let ?p = "ltol3 (take ND (i_addr ip))"
  have len: "length (i_addr ip) = 13" "drop ND (i_addr ip) = replicate 3 0" using assms by (simp_all add: fits_disk_def)
  have e: "dinode_area junk ip = ?p @ le16 (i_pnc ip) @ le16 (i_prx ip) @ le16 (i_pwx ip) @ drop 36 junk"
    using assms(2) by (simp add: dinode_area_def)
  have "\<forall>b\<in>set (take ND (i_addr ip)). 0 \<le> b \<and> b < 16777216"
    using assms(1) by (auto simp: fits_disk_def dest: in_set_takeD)
  then have "l3tol (dinode_area junk ip @ tl') ND = take ND (i_addr ip)" using len by (simp add: e read_addr)
  then show "l3tol (dinode_area junk ip @ tl') ND @ replicate 3 0 = i_addr ip"
    using len(2) append_take_drop_id [of ND "i_addr ip"] by metis
  show "rd16 (dinode_area junk ip @ tl') 30 = i_pnc ip mod 65536" using rd16_le16 [of ?p 30] len e by simp
  show "rd16 (dinode_area junk ip @ tl') 32 = i_prx ip mod 65536"
    using rd16_le16 [of "?p @ le16 (i_pnc ip)" 32] len e by simp
  show "rd16 (dinode_area junk ip @ tl') 34 = i_pwx ip mod 65536"
    using rd16_le16 [of "?p @ le16 (i_pnc ip) @ le16 (i_prx ip)" 34] len e by simp
qed

lemma rd16_drop: "n \<le> length b \<Longrightarrow> rd16 (drop n b) o' = rd16 b (n + o')"
  by (simp add: rd16_def)

text \<open>
  C16. The inode on disk. What \<open>icopydm\<close> decodes from the 64 bytes that \<open>icopymd\<close> encoded is the inode
  again, for every type, whatever was on the stack (\<open>junk\<close>) and whatever follows in the block; only the
  members that are in memory only come from the inode that is filled. The inode has to fit the widths of its
  fields on disk, with addresses of 24 bits.
\<close>

theorem read_dinode_bytes:
  assumes "fits_disk ip" "length junk = 40"
  shows "read_dinode (dinode_bytes junk ip @ rest) q = in_core q ip"
proof -
  define b where "b = dinode_bytes junk ip @ rest"
  have len: "length (i_addr ip) = NADDR" using assms(1) by (simp add: fits_disk_def)
  note f = read_fields [OF assms(2) len b_def]
  obtain tl' where d: "drop 12 b = dinode_area junk ip @ tl'" using f(9) by blast
  have lb: "12 \<le> length b" using length_dinode [OF assms(2) len] by (simp add: b_def)
  note w = assms(1) [unfolded fits_disk_def]
  have m: "i_mode ip mod 65536 = i_mode ip" using w mod_uint16 by blast
  have r: "rd16 b 12 = rd16 (dinode_area junk ip @ tl') 0" "rd16 b 42 = rd16 (dinode_area junk ip @ tl') 30"
    "rd16 b 44 = rd16 (dinode_area junk ip @ tl') 32" "rd16 b 46 = rd16 (dinode_area junk ip @ tl') 34"
    using rd16_drop [OF lb, of 0] rd16_drop [OF lb, of 30] rd16_drop [OF lb, of 32] rd16_drop [OF lb, of 34] d by simp_all
  have v: "uint16 (i_mode ip)" "int16 (i_nlink ip)" "uint16 (i_uid ip)" "uint16 (i_gid ip)" "int32 (i_size ip)"
    "int32 (i_atime ip)" "int32 (i_mtime ip)" "int32 (i_ctime ip)" "int16 (i_pnc ip)" "int16 (i_prx ip)" "int16 (i_pwx ip)"
    "i_par ip = 0" "i_paw ip = 0" "i_psr ip = 0" "i_psw ip = 0" "\<not> i_iev ip" "\<not> i_oev ip" using w by blast+
  have x: "i_type ip \<noteq> IFPIPE \<Longrightarrow> i_pnc ip = 0 \<and> i_prx ip = 0 \<and> i_pwx ip = 0"
    "i_type ip \<noteq> IFBLK \<and> i_type ip \<noteq> IFCHR \<Longrightarrow> i_rdev ip = 0"
    "i_type ip \<noteq> IFREG \<and> i_type ip \<noteq> IFDIR \<and> i_type ip \<noteq> IFPIPE \<Longrightarrow> i_addr ip = replicate NADDR 0" using w by blast+
  have y: "i_type (clear_union (q\<lparr>i_mode := i_mode ip, i_nlink := n, i_uid := u, i_gid := g, i_size := z\<rparr>)) = i_type ip"
    for n u g z by (simp add: i_type_def clear_union_def)
  define base where "base = clear_union (q\<lparr>i_mode := i_mode ip, i_nlink := i_nlink ip, i_uid := i_uid ip, i_gid := i_gid ip,
      i_size := i_size ip\<rparr>)"
  have ty: "i_type base = i_type ip" using y by (simp add: base_def)
  have n: "wrap16 (rd16 b 2) = i_nlink ip" "rd16 b 4 = i_uid ip" "rd16 b 6 = i_gid ip" "canl (rd32 b 8) = i_size ip"
    "canl (rd32 b 52) = i_atime ip" "canl (rd32 b 56) = i_mtime ip" "canl (rd32 b 60) = i_ctime ip"
    by (simp_all only: f(2-8) wrap16_int16 [OF v(2)] mod_uint16 [OF v(3)] mod_uint16 [OF v(4)] canl_wrap_canl v(5-8))
  have e: "read_dinode b q =
     (if i_type ip = IFBLK \<or> i_type ip = IFCHR then base\<lparr>i_rdev := rd16 b 12\<rparr>
      else if i_type ip = IFREG \<or> i_type ip = IFDIR then base\<lparr>i_addr := l3tol (drop 12 b) NADDR\<rparr>
      else if i_type ip = IFPIPE then
        base\<lparr>i_addr := l3tol (drop 12 b) ND @ replicate 3 0, i_pnc := wrap16 (rd16 b 42),
            i_prx := wrap16 (rd16 b 44), i_pwx := wrap16 (rd16 b 46)\<rparr>
      else base)\<lparr>i_atime := i_atime ip, i_mtime := i_mtime ip, i_ctime := i_ctime ip\<rparr>"
    unfolding read_dinode_def Let_def f(1) m n base_def [symmetric] ty ..
  have eq: "read_dinode b q = in_core q ip"
    if "read_dinode b q = base\<lparr>i_rdev := i_rdev ip, i_addr := i_addr ip, i_pnc := i_pnc ip, i_prx := i_prx ip, i_pwx := i_pwx ip,
          i_atime := i_atime ip, i_mtime := i_mtime ip, i_ctime := i_ctime ip\<rparr>"
    unfolding that in_core_def base_def clear_union_def using v(12-17) by (cases ip, cases q) simp
  have zero: "base = base\<lparr>i_rdev := 0, i_addr := replicate NADDR 0, i_pnc := 0, i_prx := 0, i_pwx := 0\<rparr>"
    by (simp add: base_def clear_union_def)
  note p = wrap16_int16 [OF v(9)] wrap16_int16 [OF v(10)] wrap16_int16 [OF v(11)]
  consider (dev) "i_type ip = IFBLK \<or> i_type ip = IFCHR" | (reg) "i_type ip = IFREG \<or> i_type ip = IFDIR"
    | (pipe) "i_type ip = IFPIPE"
    | (none) "i_type ip \<noteq> IFBLK" "i_type ip \<noteq> IFCHR" "i_type ip \<noteq> IFREG" "i_type ip \<noteq> IFDIR" "i_type ip \<noteq> IFPIPE" by blast
  then have "read_dinode b q = in_core q ip"
  proof cases
    case dev
    then have t: "i_type ip \<noteq> IFPIPE" "i_type ip \<noteq> IFREG" "i_type ip \<noteq> IFDIR" by auto
    have "rd16 b 12 = i_rdev ip" using read_area_rdev [OF assms(1) dev, of junk tl'] r(1) by simp
    then have "read_dinode b q = base\<lparr>i_rdev := i_rdev ip\<rparr>\<lparr>i_atime := i_atime ip, i_mtime := i_mtime ip, i_ctime := i_ctime ip\<rparr>"
      using e dev by simp
    then show ?thesis by (intro eq, subst (asm) zero) (simp add: x(1) [OF t(1)] x(3) t)
  next
    case reg
    then have t: "i_type ip \<noteq> IFPIPE" "i_type ip \<noteq> IFBLK" "i_type ip \<noteq> IFCHR" by auto
    have "read_dinode b q = base\<lparr>i_addr := i_addr ip\<rparr>\<lparr>i_atime := i_atime ip, i_mtime := i_mtime ip, i_ctime := i_ctime ip\<rparr>"
      using e reg t read_area_addr [OF assms(1) reg, of junk tl'] d by simp
    then show ?thesis by (intro eq, subst (asm) zero) (simp add: x(1) [OF t(1)] x(2) t)
  next
    case pipe
    then have t: "i_type ip \<noteq> IFREG" "i_type ip \<noteq> IFDIR" "i_type ip \<noteq> IFBLK" "i_type ip \<noteq> IFCHR" by auto
    have "read_dinode b q = base\<lparr>i_addr := i_addr ip, i_pnc := i_pnc ip, i_prx := i_prx ip, i_pwx := i_pwx ip\<rparr>
        \<lparr>i_atime := i_atime ip, i_mtime := i_mtime ip, i_ctime := i_ctime ip\<rparr>"
      using e pipe t read_area_pipe [OF assms(1) pipe, of junk tl'] d r(2-4) p by simp
    then show ?thesis by (intro eq, subst (asm) zero) (simp add: x(2) t)
  next
    case none
    then have "read_dinode b q = base\<lparr>i_atime := i_atime ip, i_mtime := i_mtime ip, i_ctime := i_ctime ip\<rparr>"
      using e by simp
    then show ?thesis by (intro eq, subst (asm) zero) (simp add: x none)
  qed
  then show ?thesis by (simp add: b_def)
qed

definition disk_inode :: inode where
  "disk_inode = \<lparr>i_dev = 5, i_ino = 9, i_refc = 1, i_lrt = 0, i_flag = 2, i_mode = 33188, i_nlink = 2, i_uid = 101,
     i_gid = 7, i_size = 70000, i_addr = [20, 21, 22, 23, 24, 25, 26, 27, 28, 29, 1193046, 0, 0], i_rdev = 0, i_pnc = 0,
     i_prx = 0, i_pwx = 0, i_par = 0, i_paw = 0, i_psr = 0, i_psw = 0, i_iev = False, i_oev = False,
     i_atime = 800000000, i_mtime = -1, i_ctime = 1, i_lastblock = -1\<rparr>"

theorem read_dinode_bytes_witness:
  "read_dinode (dinode_bytes (replicate 40 90) disk_inode) (disk_inode\<lparr>i_size := 0, i_addr := []\<rparr>) = disk_inode"
proof -
  have ty: "i_type disk_inode = IFREG" by (simp add: i_type_def disk_inode_def)
  have "fits_disk disk_inode"
    unfolding fits_disk_def ty by (simp add: disk_inode_def uint16_def int16_def int32_def)
  from read_dinode_bytes [OF this, of "replicate 40 90" "[]"] show ?thesis
    by (simp add: in_core_def disk_inode_def)
qed

end
