(* ===== verification/Path_Names.thy ===== *)
theory Path_Names
  imports Inode_Access
begin

text \<open>
  Path names and directories, \<^verbatim>\<open>kernel/coh.386/fs1.c\<close>: \<open>file_to_inode\<close> and \<open>ftoi\<close>, \<open>imake\<close> and
  \<open>idirent\<close>; and the inodes they take from the free list, \<open>ialloc\<close> and \<open>bad\<close> of \<^verbatim>\<open>fs2.c\<close>. A path
  is the list of its bytes without the terminating 0, all of which can be read. A result is \<open>None\<close> if
  the operation does not return.
\<close>

section \<open>State\<close>

text \<open>The members of the user area that \<open>file_to_inode\<close> leaves its results in; 0 is NULL.\<close>

record dir_state = sys_state +
  u_cdirn :: int
  u_cdiri :: nat
  u_pdiri :: nat
  u_cdir :: nat
  u_rdir :: nat
  u_umask :: int
  rootdev :: int

abbreviation (input) DIRSIZ :: nat where "DIRSIZ \<equiv> 14"
abbreviation (input) ISVTXT :: int where "ISVTXT \<equiv> 512"
abbreviation (input) SLASH :: int where "SLASH \<equiv> 47"
abbreviation (input) DOT :: int where "DOT \<equiv> 46"

section \<open>Free inodes\<close>

text \<open>
  The list of bad blocks is the file with inode 1. \<open>header\<close> holds the longs that are in memory from
  the buffer's header on, which the code reads in place of the contents of the indirect block.
\<close>

definition bad :: "int list \<Rightarrow> int list \<Rightarrow> int \<Rightarrow> int \<Rightarrow> 'a ino_state_scheme \<Rightarrow> (bool \<times> 'a ino_state_scheme) option" where
  "bad header junk dev b s =
     (case iattach (Suc (length (mountp s))) dev 1 s of
        None \<Rightarrow> None
      | Some (ip, s1) \<Rightarrow>
          if ip = 0 then None
          else
            let n = blockn (i_size (inodes s1 ip)); m = min n (int ND); addr = i_addr (inodes s1 ip)
            in if b \<in> set (take (nat m) addr) then map_option (Pair True) (idetach junk ip s1)
               else case idetach junk ip s1 of
                 None \<Rightarrow> None
               | Some s2 \<Rightarrow>
                   let n1 = n - max 0 m in
                   if n1 = 0 then Some (False, s2)
                   else case bread dev (addr ! ND) s2 of
                          None \<Rightarrow> None
                        | Some (None, s3) \<Rightarrow> Some (False, s3)
                        | Some (Some _, s3) \<Rightarrow>
                            Some (b \<in> set (map canl (take (nat (min n1 128)) header)), s3))"

text \<open>
  Filling the list from the inodes on disk: the numbers in the order they are found, \<open>room\<close> for more.
  First the inodes of one block, then the blocks from \<open>b\<close> to the end of the inodes.
\<close>

primrec free_in_block :: "block \<Rightarrow> nat list \<Rightarrow> int \<Rightarrow> nat \<Rightarrow> int list \<times> int \<times> nat" where
  "free_in_block blk [] ino room = ([], ino, room)"
| "free_in_block blk (k # ks) ino room =
     (if rd16 blk (64 * k) \<noteq> 0 then free_in_block blk ks (ino + 1) room
      else if room = 0 then ([], ino, room)
      else (case free_in_block blk ks (ino + 1) (room - 1) of (inos, r) \<Rightarrow> (ino # inos, r)))"

primrec free_scan :: "int list \<Rightarrow> int list \<Rightarrow> int \<Rightarrow> nat \<Rightarrow> int \<Rightarrow> int \<Rightarrow> nat \<Rightarrow> 'a ino_state_scheme \<Rightarrow>
    (int list \<times> 'a ino_state_scheme) option" where
  "free_scan header junk dev 0 b ino room s = Some ([], s)"
| "free_scan header junk dev (Suc n) b ino room s =
     (case bad header junk dev b s of
        None \<Rightarrow> None
      | Some (True, s1) \<Rightarrow> free_scan header junk dev n (b + 1) (ino + INOPB) room s1
      | Some (False, s1) \<Rightarrow>
          case bread dev b s1 of
            None \<Rightarrow> None
          | Some (None, s2) \<Rightarrow> free_scan header junk dev n (b + 1) (ino + INOPB) room s2
          | Some (Some blk, s2) \<Rightarrow>
              case free_in_block blk [0..<8] ino room of
                (inos, ino1, room1) \<Rightarrow>
                  if room1 = 0 then Some (inos, s2)
                  else map_option (\<lambda>(more, s3). (inos @ more, s3))
                         (free_scan header junk dev n (b + 1) ino1 room1 s2))"

text \<open>
  The list is filled when it is empty; the result is whether there is an inode to take. The gate
  is held meanwhile and released on return.
\<close>

definition fill_inodes :: "int list \<Rightarrow> int list \<Rightarrow> int \<Rightarrow> nat \<Rightarrow> 'a ino_state_scheme \<Rightarrow> (bool \<times> 'a ino_state_scheme) option" where
  "fill_inodes header junk dev k s =
     (if s_ninode (super_at s k) \<noteq> 0 then Some (True, s)
      else case isync junk dev s of
        None \<Rightarrow> None
      | Some s1 \<Rightarrow>
          case free_scan header junk dev (nat (s_isize (super_at s1 k) - INODEI)) INODEI 1 100 s1 of
            None \<Rightarrow> None
          | Some (inos, s2) \<Rightarrow>
              let s3 = upd_super (\<lambda>sb. sb\<lparr>s_inode := inos @ drop (length inos) (s_inode sb),
                                          s_ninode := int (length inos)\<rparr>) k s2
              in if inos = [] then Some (False, (upd_super (\<lambda>sb. sb\<lparr>s_tinode := 0\<rparr>) k s3)\<lparr>u_error := ENOSPC\<rparr>)
                 else Some (True, s3))"

text \<open>Every round takes an inode from the list; \<open>fuel\<close> bounds the rounds that find a busy one.\<close>

primrec ialloc_loop :: "nat \<Rightarrow> int list \<Rightarrow> int list \<Rightarrow> int \<Rightarrow> int \<Rightarrow> cred \<Rightarrow> nat \<Rightarrow> 'a ino_state_scheme \<Rightarrow>
    (nat \<times> 'a ino_state_scheme) option" where
  "ialloc_loop 0 header junk dev mode c k s = None"
| "ialloc_loop (Suc fuel) header junk dev mode c k s =
     (if m_ilock (mountp s ! k) then None
      else case fill_inodes header junk dev k s of
        None \<Rightarrow> None
      | Some (False, s1) \<Rightarrow> Some (0, s1)
      | Some (True, s1) \<Rightarrow>
          let n = s_ninode (super_at s1 k) - 1; ino = s_inode (super_at s1 k) ! nat n;
              s2 = upd_super (\<lambda>sb. sb\<lparr>s_ninode := n, s_tinode := uwrap16 (s_tinode sb - 1), s_fmod := 1\<rparr>) k s1
          in case iattach (Suc (length (mountp s2))) dev ino s2 of
               None \<Rightarrow> None
             | Some (ip, s3) \<Rightarrow>
                 if ip = 0 then Some (0, s3)
                 else if i_mode (inodes s3 ip) \<noteq> 0 then
                   (case idetach junk ip s3 of
                      None \<Rightarrow> None
                    | Some s4 \<Rightarrow>
                        ialloc_loop fuel header junk dev mode c k
                          (upd_super (\<lambda>sb. sb\<lparr>s_tinode := uwrap16 (s_tinode sb + 1), s_fmod := 1\<rparr>) k s4))
                 else Some (ip, upd_inode (\<lambda>i. i\<lparr>i_flag := 0, i_mode := uwrap16 mode, i_nlink := 0,
                                                i_uid := cr_uid c, i_gid := cr_gid c\<rparr>) ip s3))"

definition ialloc :: "nat \<Rightarrow> int list \<Rightarrow> int list \<Rightarrow> int \<Rightarrow> int \<Rightarrow> cred \<Rightarrow> 'a ino_state_scheme \<Rightarrow>
    (nat \<times> 'a ino_state_scheme) option" where
  "ialloc fuel header junk dev mode c s =
     (case getment dev True s of
        (None, s1) \<Rightarrow> Some (0, s1)
      | (Some k, s1) \<Rightarrow> ialloc_loop fuel header junk dev mode c k s1)"

section \<open>Directory entries\<close>

record direct =
  d_ino :: int
  d_name :: "int list"

text \<open>\<open>strncmp\<close> of the library, as far as it says that the strings are equal.\<close>

fun strncmp_eq :: "nat \<Rightarrow> int list \<Rightarrow> int list \<Rightarrow> bool" where
  "strncmp_eq 0 xs ys = True"
| "strncmp_eq (Suc n) xs ys =
     (hd xs = hd ys \<and> (hd xs = 0 \<or> strncmp_eq n (tl xs) (tl ys)))"

definition direct_at :: "block \<Rightarrow> nat \<Rightarrow> direct" where
  "direct_at blk k = \<lparr>d_ino = rd16 blk (16 * k), d_name = take DIRSIZ (drop (16 * k + 2) blk)\<rparr>"

definition direq :: "direct \<Rightarrow> direct \<Rightarrow> bool" where
  "direq dp1 dp2 = (d_ino dp1 \<noteq> 0 \<and> strncmp_eq DIRSIZ (d_name dp1) (d_name dp2))"

text \<open>
  The entries of one block. \<open>len\<close> is what is left of the directory, \<open>cseek\<close> the position of the
  entry, \<open>fseek\<close> that of the first free one. The first component is the inode number that was found.
\<close>

primrec scan_block :: "direct \<Rightarrow> block \<Rightarrow> nat list \<Rightarrow> int \<Rightarrow> int \<Rightarrow> int option \<Rightarrow> int option \<times> int \<times> int \<times> int option" where
  "scan_block dirent blk [] len cseek fseek = (None, len, cseek, fseek)"
| "scan_block dirent blk (k # ks) len cseek fseek =
     (let len1 = len - 16; dp = direct_at blk k in
      if len1 < 0 then (None, len1, cseek, fseek)
      else if d_ino dp = 0 then
        scan_block dirent blk ks len1 (cseek + 16) (if fseek = None then Some cseek else fseek)
      else if direq dp dirent then (Some (d_ino dp), 0, cseek, fseek)
      else scan_block dirent blk ks len1 (cseek + 16) fseek)"

text \<open>
  The blocks of the directory; \<open>fuel\<close> bounds their number. \<open>Inl\<close>: a block cannot be read; else the
  inode number found, the position of its entry and the first free position.
\<close>

primrec scan_dir :: "nat \<Rightarrow> nat \<Rightarrow> direct \<Rightarrow> int \<Rightarrow> int \<Rightarrow> int \<Rightarrow> int option \<Rightarrow> 'a fio_state_scheme \<Rightarrow>
    ((unit + int option \<times> int \<times> int option) \<times> 'a fio_state_scheme) option" where
  "scan_dir 0 cip dirent b len cseek fseek s = (if len > 0 then None else Some (Inr (None, cseek, fseek), s))"
| "scan_dir (Suc fuel) cip dirent b len cseek fseek s =
     (if \<not> len > 0 then Some (Inr (None, cseek, fseek), s)
      else case vread cip b s of
        None \<Rightarrow> None
      | Some (None, s1) \<Rightarrow> Some (Inl (), s1)
      | Some (Some blk, s1) \<Rightarrow>
          case scan_block dirent blk [0..<32] len cseek fseek of
            (Some ino, _, cseek1, fseek1) \<Rightarrow> Some (Inr (Some ino, cseek1, fseek1), s1)
          | (None, len1, cseek1, fseek1) \<Rightarrow> scan_dir fuel cip dirent (b + 1) len1 cseek1 fseek1 s1)"

definition lookup_dir :: "nat \<Rightarrow> direct \<Rightarrow> 'a fio_state_scheme \<Rightarrow>
    ((unit + int option \<times> int \<times> int option) \<times> 'a fio_state_scheme) option" where
  "lookup_dir cip dirent s =
     (let len = i_size (inodes s cip) in scan_dir (nat len) cip dirent 0 len 0 None s)"

section \<open>From a path to an inode\<close>

datatype cookie = For_Reference | For_Create | For_Unlink

definition skip_slashes :: "int list \<Rightarrow> int list" where
  "skip_slashes = dropWhile (\<lambda>c. c = SLASH)"

text \<open>The name of the next component, cut to 14 bytes and filled up with zeros.\<close>

definition pad_name :: "int list \<Rightarrow> int list" where
  "pad_name cs = take DIRSIZ (cs @ replicate DIRSIZ 0)"

definition next_name :: "int list \<Rightarrow> int list \<times> int list" where
  "next_name np = (pad_name (takeWhile (\<lambda>c. c \<noteq> SLASH) np), skip_slashes (dropWhile (\<lambda>c. c \<noteq> SLASH) np))"

text \<open>
  Entering the directory \<open>cip\<close>: the check that it is one and of permission, then, for \<^verbatim>\<open>..\<close> in the
  root of a mounted file system, the step to the directory it is mounted on.
\<close>

definition enter_dir :: "int list \<Rightarrow> bool \<Rightarrow> cred \<Rightarrow> int list \<Rightarrow> nat \<Rightarrow> direct \<Rightarrow> 'a dir_state_scheme \<Rightarrow>
    (nat option \<times> 'a dir_state_scheme) option" where
  "enter_dir junk doRmdir c groups cip dirent s =
     (let s1 = (if i_type (inodes s cip) \<noteq> IFDIR then s\<lparr>u_error := ENOTDIR\<rparr>
                else snd (iaccess cip (if doRmdir then IPW else IPE) c groups s))
      in if u_error s1 \<noteq> E_NONE then map_option (Pair None) (idetach junk cip s1)
         else if i_ino (inodes s1 cip) = ROOTIN \<and> i_dev (inodes s1 cip) \<noteq> rootdev s1
                 \<and> take 3 (d_name dirent) = [DOT, DOT, 0]
         then map_option (\<lambda>(p, s2). (Some p, s2)) (ftoim junk cip s1)
         else Some (Some cip, s1))"

text \<open>
  The loop over the components. \<open>np\<close> starts at one, so it is not empty; \<open>fuel\<close> bounds the number of
  components. The results are the position for the caller's \<open>io_seek\<close>, if one is set, and the entry.
\<close>

primrec walk_path :: "nat \<Rightarrow> int list \<Rightarrow> cookie \<Rightarrow> bool \<Rightarrow> direct \<Rightarrow> cred \<Rightarrow> int list \<Rightarrow> nat \<Rightarrow> int list \<Rightarrow> 'a dir_state_scheme \<Rightarrow>
    ((int option \<times> direct) \<times> 'a dir_state_scheme) option" where
  "walk_path 0 junk t doRmdir dirent0 c groups cip np s = None"
| "walk_path (Suc fuel) junk t doRmdir dirent0 c groups cip np s =
     (case next_name np of
        (name, rest) \<Rightarrow>
          let dirent = dirent0\<lparr>d_name := name\<rparr> in
          case enter_dir junk doRmdir c groups cip dirent s of
            None \<Rightarrow> None
          | Some (None, s1) \<Rightarrow> Some ((None, dirent), s1)
          | Some (Some cip, s1) \<Rightarrow>
              case lookup_dir cip dirent s1 of
                None \<Rightarrow> None
              | Some (Inl (), s2) \<Rightarrow> map_option (Pair (None, dirent)) (idetach junk cip s2)
              | Some (Inr (None, cseek, fseek), s2) \<Rightarrow>
                  if rest = [] \<and> t = For_Create
                  then Some ((Some (case fseek of None \<Rightarrow> cseek | Some f \<Rightarrow> f), dirent), s2\<lparr>u_pdiri := cip\<rparr>)
                  else map_option (Pair (None, dirent)) (idetach junk cip (s2\<lparr>u_error := ENOENT\<rparr>))
              | Some (Inr (Some ino, cseek, fseek), s2) \<Rightarrow>
                  let dev = i_dev (inodes s2 cip) in
                  if rest = [] \<and> t = For_Unlink
                  then Some ((Some cseek, dirent), s2\<lparr>u_cdirn := ino, u_pdiri := cip\<rparr>)
                  else case idetach junk cip s2 of
                    None \<Rightarrow> None
                  | Some s3 \<Rightarrow>
                      case iattach (Suc (length (mountp s3))) dev ino s3 of
                        None \<Rightarrow> None
                      | Some (p, s4) \<Rightarrow>
                          if rest = [] then Some ((None, dirent), s4\<lparr>u_cdiri := p\<rparr>)
                          else if p = 0 then Some ((None, dirent), s4)
                          else walk_path fuel junk t doRmdir dirent c groups p rest s4)"

definition file_to_inode :: "int list \<Rightarrow> int list \<Rightarrow> cookie \<Rightarrow> bool \<Rightarrow> direct \<Rightarrow> cred \<Rightarrow> int list \<Rightarrow> 'a dir_state_scheme \<Rightarrow>
    ((int option \<times> direct) \<times> 'a dir_state_scheme) option" where
  "file_to_inode junk np t doRmdir dirent c groups s =
     (let s1 = s\<lparr>u_cdirn := 0, u_cdiri := 0, u_pdiri := 0\<rparr> in
      if np = [] then Some ((None, dirent), s1\<lparr>u_error := ENOENT\<rparr>)
      else
        let cip = (if hd np \<noteq> SLASH then u_cdir s1 else u_rdir s1); np1 = skip_slashes np;
            s2 = upd_inode (\<lambda>i. i\<lparr>i_refc := i_refc i + 1\<rparr>) cip s1
        in if np1 = [] then
             (if t = For_Reference \<and> u_error s2 = E_NONE then Some ((None, dirent), s2\<lparr>u_cdiri := cip\<rparr>)
              else map_option (Pair (None, dirent))
                     (idetach junk cip (if t = For_Reference then s2 else s2\<lparr>u_error := ENOENT\<rparr>)))
           else walk_path (length np1) junk t doRmdir dirent c groups cip np1 s2)"

definition ftoi :: "int list \<Rightarrow> int list \<Rightarrow> cookie \<Rightarrow> direct \<Rightarrow> cred \<Rightarrow> int list \<Rightarrow> 'a dir_state_scheme \<Rightarrow>
    ((int option \<times> direct) \<times> 'a dir_state_scheme) option" where
  "ftoi junk np t dirent c groups s = file_to_inode junk np t False dirent c groups s"

section \<open>New files\<close>

text \<open>The 16 bytes of the entry are written at \<open>seek\<close> of the parent directory.\<close>

definition direct_bytes :: "direct \<Rightarrow> int list" where
  "direct_bytes dirent = le16 (d_ino dirent) @ d_name dirent"

definition idirent :: "'a dir_state_scheme driver_table \<Rightarrow> int \<Rightarrow> int \<Rightarrow> direct \<Rightarrow> 'a dir_state_scheme \<Rightarrow>
    'a dir_state_scheme option" where
  "idirent drvl ino seek dirent s =
     (case iwrite drvl [] (u_pdiri s)
             \<lparr>io_ioc = 16, io_seek = seek, io_flag = 0, io_from = direct_bytes (dirent\<lparr>d_ino := ino\<rparr>), io_into = []\<rparr> s of
        PipeDone _ s1 \<Rightarrow> Some s1
      | _ \<Rightarrow> None)"

definition imake :: "'a dir_state_scheme driver_table \<Rightarrow> nat \<Rightarrow> int list \<Rightarrow> int list \<Rightarrow> int \<Rightarrow> int \<Rightarrow> int \<Rightarrow> direct \<Rightarrow> cred \<Rightarrow>
    int list \<Rightarrow> 'a dir_state_scheme \<Rightarrow> (nat \<times> 'a dir_state_scheme) option" where
  "imake drvl fuel header junk mode rdev seek dirent c groups s =
     (let mode1 = mode AND NOT (u_umask s);
          det = (\<lambda>(ip, s). map_option (Pair ip) (idetach junk (u_pdiri s) s))
      in if mode1 AND ISVTXT \<noteq> 0 \<and> \<not> drv_priv c then det (0, s)
         else case iaccess (u_pdiri s) IPW c groups s of
           (False, s1) \<Rightarrow> det (0, s1)
         | (True, s1) \<Rightarrow>
             case ialloc fuel header junk (i_dev (inodes s1 (u_pdiri s1))) mode1 c s1 of
               None \<Rightarrow> None
             | Some (ip, s2) \<Rightarrow>
                 if ip = 0 then det (0, s2)
                 else
                   case idirent drvl (i_ino (inodes s2 ip)) seek dirent
                          (upd_inode (\<lambda>i. i\<lparr>i_nlink := 1, i_rdev := rdev\<rparr>) ip s2) of
                     None \<Rightarrow> None
                   | Some s3 \<Rightarrow>
                       case icopymd junk ip (iaccmodcreat ip s3) of
                         None \<Rightarrow> None
                       | Some s4 \<Rightarrow> det (ip, s4))"

end
