(* ===== verification/Directories.thy ===== *)
theory Directories
  imports Path_Names File_Properties
begin

text \<open>
  Directories as lists of entries: what \<open>lookup_dir\<close> finds in the bytes of a directory, and what
  \<open>idirent\<close> makes of them.
\<close>

section \<open>Names\<close>

text \<open>\<open>strncmp\<close> compares the names up to the first 0.\<close>

lemma strncmp_eq_iff:
  "n \<le> length xs \<Longrightarrow> n \<le> length ys \<Longrightarrow>
     strncmp_eq n xs ys \<longleftrightarrow> takeWhile (\<lambda>c. c \<noteq> 0) (take n xs) = takeWhile (\<lambda>c. c \<noteq> 0) (take n ys)"
proof (induction n xs ys rule: strncmp_eq.induct)
  case (2 n xs ys)
  obtain x xs' y ys' where "xs = x # xs'" "ys = y # ys'"
    using 2(2,3) by (cases xs; cases ys) auto
  then show ?case using 2 by auto
qed simp

definition same_name :: "direct \<Rightarrow> direct \<Rightarrow> bool" where
  "same_name e dirent \<longleftrightarrow> d_ino e \<noteq> 0 \<and>
     takeWhile (\<lambda>c. c \<noteq> 0) (d_name e) = takeWhile (\<lambda>c. c \<noteq> 0) (d_name dirent)"

lemma direq_same_name:
  "length (d_name e) = DIRSIZ \<Longrightarrow> length (d_name dirent) = DIRSIZ \<Longrightarrow> direq e dirent \<longleftrightarrow> same_name e dirent"
  using strncmp_eq_iff [of DIRSIZ "d_name e" "d_name dirent"] by (simp add: direq_def same_name_def)

section \<open>The entries of a directory\<close>

definition dir_bytes :: "'a ino_state_scheme \<Rightarrow> nat \<Rightarrow> int list" where
  "dir_bytes s p = file_bytes (disk s (i_dev (inodes s p))) (i_addr (inodes s p)) 0 (nat (i_size (inodes s p)))"

definition dir_entries :: "'a ino_state_scheme \<Rightarrow> nat \<Rightarrow> direct list" where
  "dir_entries s p = map (direct_at (dir_bytes s p)) [0..<nat (i_size (inodes s p)) div 16]"

text \<open>The search through a list of entries.\<close>

primrec search :: "direct \<Rightarrow> direct list \<Rightarrow> int \<Rightarrow> int option \<Rightarrow> int option \<times> int \<times> int option" where
  "search dirent [] cseek fseek = (None, cseek, fseek)"
| "search dirent (e # es) cseek fseek =
     (if d_ino e = 0 then search dirent es (cseek + 16) (if fseek = None then Some cseek else fseek)
      else if direq e dirent then (Some (d_ino e), cseek, fseek)
      else search dirent es (cseek + 16) fseek)"

lemma search_append:
  "search dirent (xs @ ys) cseek fseek =
     (case search dirent xs cseek fseek of
        (Some i, c, f) \<Rightarrow> (Some i, c, f)
      | (None, c, f) \<Rightarrow> search dirent ys c f)"
  by (induction xs arbitrary: cseek fseek) (auto split: option.split)

text \<open>The search in closed form.\<close>

lemma direq_0: "d_ino e = 0 \<Longrightarrow> \<not> direq e dirent"
  by (simp add: direq_def)

lemma search_result:
  "search dirent es cseek fseek =
     (let n = length (takeWhile (\<lambda>e. \<not> direq e dirent) es); f = length (takeWhile (\<lambda>e. d_ino e \<noteq> 0) es)
      in (map_option d_ino (find (\<lambda>e. direq e dirent) es), cseek + 16 * int n,
          if fseek \<noteq> None then fseek else if f < n then Some (cseek + 16 * int f) else None))"
  by (induction es arbitrary: cseek fseek) (auto simp: Let_def direq_0 ring_distribs)

section \<open>Reading a block\<close>

lemma vread_ok:
  fixes s :: "'a fio_state_scheme"
  assumes "readable s p F" "0 \<le> b" "b < MAXBLOCK"
  shows "vread p b s = Some (Some (file_block (disk s (i_dev (inodes s p))) (i_addr (inodes s p)) (path_of b)), s)"
    and "length (file_block (disk s (i_dev (inodes s p))) (i_addr (inodes s p)) (path_of b)) = BSIZE"
proof -
  let ?d = "disk s (i_dev (inodes s p))" and ?xs = "i_addr (inodes s p)"
  have t: "tree_ok ?d ?xs F" "\<forall>b. (i_dev (inodes s p), b) \<notin> set (lost_bufs s)"
    using assms(1) by (simp_all add: readable_def)
  obtain n where "vmap p b 1 s = Some (Some (leaf_blocks ?d ?xs b n), s)" "0 < n" "n \<le> 1"
    using vmap_ok [OF t refl refl assms(2), of 1] assms(3) by auto
  then have v: "vmap p b 1 s = Some (Some [block_at (entry ?d ?xs (path_of b))], s)"
    by (simp add: leaf_blocks_def le_Suc_eq)
  note r = read_leaf [OF t assms(2,3) readable_entry [OF assms(1)]]
  show "length (file_block ?d ?xs (path_of b)) = BSIZE" by (rule r(2))
  show "vread p b s = Some (Some (file_block ?d ?xs (path_of b)), s)"
    using r(1) v by (simp add: vread_def split: if_splits)
qed

section \<open>The scan of a block\<close>

lemma scan_block_search:
  assumes "0 \<le> len"
  shows "scan_block dirent blk ks len cseek fseek =
    (case search dirent (map (direct_at blk) (take (nat (len div 16)) ks)) cseek fseek of
       (Some i, c, f) \<Rightarrow> (Some i, 0, c, f)
     | (None, c, f) \<Rightarrow> (None, len - 16 * int (min (length ks) (nat (len div 16) + 1)), c, f))"
  using assms
proof (induction ks arbitrary: len cseek fseek)
  case (Cons k ks)
  show ?case
  proof (cases "len < 16")
    case True
    then have "len div 16 = 0" using Cons.prems by simp
    then show ?thesis using True by (simp add: Let_def)
  next
    case False
    then have d: "nat (len div 16) = Suc (nat ((len - 16) div 16))" by (simp add: Suc_nat_eq_nat_zadd1)
    have eq: "len - 16 * int (min (length (k # ks)) (Suc (nat ((len - 16) div 16)) + 1))
        = len - 16 - 16 * int (min (length ks) (nat ((len - 16) div 16) + 1))" by simp
    show ?thesis using Cons.IH [of "len - 16"] False unfolding d eq
      by (simp add: Let_def)
  qed
qed simp

text \<open>An entry of the directory is one of its block.\<close>

lemma direct_at_block:
  assumes "length (file_block d xs (path_of b)) = BSIZE" "k < 32" "512 * nat b + 16 * k + 16 \<le> n" "0 \<le> b"
  shows "direct_at (file_bytes d xs 0 n) (32 * nat b + k) = direct_at (file_block d xs (path_of b)) k"
proof -
  let ?blk = "file_block d xs (path_of b)" and ?bs = "file_bytes d xs 0 n"
  have nth: "?bs ! (512 * nat b + i) = ?blk ! i" if "i < 16 * k + 16" for i
  proof -
    have "i < 512" using that assms(2) by linarith
    have "?bs ! (512 * nat b + i) = file_byte d xs (512 * b + int i)"
      using that assms(3,4) by (simp add: file_bytes_def)
    also have "\<dots> = ?blk ! i"
      using \<open>i < 512\<close> by (simp add: file_byte_def)
    finally show ?thesis .
  qed
  have off: "16 * (32 * nat b + k) = 512 * nat b + 16 * k" by simp
  have "take 14 (drop (512 * nat b + 16 * k + 2) ?bs) = take 14 (drop (16 * k + 2) ?blk)"
    using assms(1-3) nth [of "16 * k + 2 + j" for j]
    by (intro nth_equalityI) (auto simp: add.assoc)
  then show ?thesis
    using nth [of "16 * k"] nth [of "16 * k + 1"] unfolding direct_at_def off
    by (simp add: rd16_def add.assoc)
qed

section \<open>The scan of a directory\<close>

definition entry_no :: "'a ino_state_scheme \<Rightarrow> nat \<Rightarrow> nat \<Rightarrow> direct" where
  "entry_no s p k = direct_at (file_block (disk s (i_dev (inodes s p))) (i_addr (inodes s p)) (path_of (int (k div 32)))) (k mod 32)"

lemma dir_entries_no:
  fixes s :: "'a fio_state_scheme"
  assumes "readable s p F" "i_size (inodes s p) \<le> 512 * MAXBLOCK"
  shows "dir_entries s p = map (entry_no s p) [0..<nat (i_size (inodes s p)) div 16]"
proof -
  have "direct_at (dir_bytes s p) k = entry_no s p k" if k: "k < nat (i_size (inodes s p)) div 16" for k
  proof -
    have le: "16 * k + 16 \<le> nat (i_size (inodes s p))"
      using k less_eq_div_iff_mult_less_eq [of 16 "Suc k" "nat (i_size (inodes s p))"] by simp
    have km: "32 * (k div 32) + k mod 32 = k" by simp
    have lt: "int (k div 32) < MAXBLOCK" using assms(2) le km by linarith
    have "512 * nat (int q) + 16 * r = 16 * k" if "32 * q + r = k" for q r using that by simp
    from this [OF km] show ?thesis
      using direct_at_block [OF vread_ok(2) [OF assms(1) _ lt], of "k mod 32" "nat (i_size (inodes s p))"] le
      by (simp add: dir_bytes_def entry_no_def)
  qed
  then show ?thesis by (simp add: dir_entries_def)
qed

lemma scan_dir_done: "len \<le> 0 \<Longrightarrow> scan_dir fuel p dirent b len cseek fseek s = Some (Inr (None, cseek, fseek), s)"
  by (cases fuel) simp_all

lemma scan_dir_search:
  fixes s :: "'a fio_state_scheme"
  assumes r: "readable s p F"
  shows "nat len \<le> fuel \<Longrightarrow> 0 \<le> b \<Longrightarrow> 512 * b + len \<le> 512 * MAXBLOCK \<Longrightarrow>
    scan_dir fuel p dirent b len cseek fseek s =
      Some (Inr (search dirent (map (entry_no s p) [32 * nat b..<32 * nat b + nat (len div 16)]) cseek fseek), s)"
proof (induction fuel arbitrary: b len cseek fseek)
  case 0
  then have "len div 16 \<le> 0" by (simp add: div_nonpos_pos_le0)
  then show ?case using 0 by simp
next
  case (Suc fuel)
  show ?case
  proof (cases "0 < len")
    case False
    then have "len div 16 \<le> 0" by (simp add: div_nonpos_pos_le0)
    then show ?thesis using False by simp
  next
    case True
    have b: "b < MAXBLOCK" using True Suc.prems by linarith
    let ?blk = "file_block (disk s (i_dev (inodes s p))) (i_addr (inodes s p)) (path_of b)"
    define m where "m = min 32 (nat (len div 16))"
    have es: "map (direct_at ?blk) (take (nat (len div 16)) [0..<32]) = map (entry_no s p) [32 * nat b..<32 * nat b + m]"
    proof -
      have "take (nat (len div 16)) [0..<32] = [0..<m]" by (simp add: m_def take_upt min_def)
      moreover have "map (entry_no s p) [32 * nat b..<32 * nat b + m] = map (\<lambda>k. entry_no s p (32 * nat b + k)) [0..<m]"
        by (rule map_upt_shift)
      moreover have "entry_no s p (32 * nat b + k) = direct_at ?blk k" if "k < m" for k
        using that Suc.prems(2) by (simp add: entry_no_def m_def)
      ultimately show ?thesis by simp
    qed
    note scan = scan_block_search [of len dirent ?blk "[0..<32]" cseek fseek, unfolded es]
    show ?thesis
    proof (cases "len < 512")
      case lt: True
      have m: "m = nat (len div 16)" using lt by (simp add: m_def)
      have l16: "len < 16 * int (min 32 (nat (len div 16) + 1))" using lt True by (simp add: min_def) linarith
      have stop: "scan_dir fuel p dirent (b + 1) (len - 16 * int (min 32 (nat (len div 16) + 1))) c f s = Some (Inr (None, c, f), s)" for c f
        by (rule scan_dir_done) (use l16 in linarith)
      show ?thesis
        using True vread_ok(1) [OF r Suc.prems(2) b] scan stop
        by (cases "search dirent (map (entry_no s p) [32 * nat b..<32 * nat b + m]) cseek fseek";
            cases "fst (search dirent (map (entry_no s p) [32 * nat b..<32 * nat b + m]) cseek fseek)")
          (simp_all add: m)
    next
      case False
      have m: "m = 32" using False by (simp add: m_def)
      have mn: "16 * int (min (length [0..<32]) (nat (len div 16) + 1)) = 512" using False by simp
      have split: "[32 * nat b..<32 * nat b + nat (len div 16)]
          = [32 * nat b..<32 * nat b + 32] @ [32 * nat (b + 1)..<32 * nat (b + 1) + nat ((len - 512) div 16)]"
      proof -
        have "len div 16 = 32 + (len - 512) div 16" "0 \<le> (len - 512) div 16" using False by simp_all
        then have "nat (len div 16) = 32 + nat ((len - 512) div 16)" by linarith
        moreover have "32 * nat (b + 1) = 32 * nat b + 32" using Suc.prems(2) by (simp add: nat_add_distrib)
        ultimately show ?thesis
          using upt_add_eq_append [of "32 * nat b" "32 * nat b + 32" "nat ((len - 512) div 16)"]
          by (simp only: add.assoc le_add1)
      qed
      have IH: "scan_dir fuel p dirent (b + 1) (len - 512) c f s =
          Some (Inr (search dirent (map (entry_no s p) [32 * nat (b + 1)..<32 * nat (b + 1) + nat ((len - 512) div 16)]) c f), s)" for c f
        using Suc.prems False by (intro Suc.IH) auto
      show ?thesis
        unfolding split map_append search_append
        using True vread_ok(1) [OF r Suc.prems(2) b] scan [unfolded mn] IH
        by (cases "search dirent (map (entry_no s p) [32 * nat b..<32 * nat b + 32]) cseek fseek";
            cases "fst (search dirent (map (entry_no s p) [32 * nat b..<32 * nat b + 32]) cseek fseek)")
          (simp_all add: m)
    qed
  qed
qed

text \<open>What is found in a directory.\<close>

lemma lookup_dir_search:
  fixes s :: "'a fio_state_scheme"
  assumes "readable s p F" "0 \<le> i_size (inodes s p)" "i_size (inodes s p) \<le> 512 * MAXBLOCK"
  shows "lookup_dir p dirent s = Some (Inr (search dirent (dir_entries s p) 0 None), s)"
  using scan_dir_search [OF assms(1) order_refl, of 0 "i_size (inodes s p)" dirent 0 None] assms(3)
  unfolding dir_entries_no [OF assms(1,3)] lookup_dir_def
  by (simp add: nat_div_distrib [OF assms(2)] Let_def)

end
