(* ===== verification/File_Calls.thy ===== *)
theory File_Calls
  imports Path_Names
begin

text \<open>
  The system calls on files and directories, \<^verbatim>\<open>kernel/coh.386/sys2.c\<close>, \<^verbatim>\<open>sys3.c\<close> and
  \<^verbatim>\<open>sys5.c\<close>, above path names, inodes and file descriptors, and \<open>pmake\<close> of \<^verbatim>\<open>pipe.c\<close>. The
  result is the value of the system call and the state, or \<open>None\<close> if it does not return. The system
  call dispatcher clears the error number before a call. Paths are in readable memory; \<open>acc\<close> is
  whether the other user addresses are. \<open>junk\<close> is the unused part of the inodes written to disk.
\<close>

section \<open>The calling process\<close>

definition self_cred :: "'a cred_state_scheme \<Rightarrow> cred" where
  "self_cred s = cred_at s (p_credp s)"

definition groups_of :: "cred \<Rightarrow> 'a cred_state_scheme \<Rightarrow> int list" where
  "groups_of c s = (case groups_mem s (cr_groups c) of None \<Rightarrow> [] | Some (_, gs) \<Rightarrow> gs)"

definition no_dirent :: direct where
  "no_dirent = \<lparr>d_ino = 0, d_name = replicate DIRSIZ 0\<rparr>"

text \<open>\<open>ftoi\<close> with the credentials of the caller; the flag is whether there was no error.\<close>

definition ftoi_self :: "int list \<Rightarrow> int list \<Rightarrow> cookie \<Rightarrow> 'a dir_state_scheme \<Rightarrow>
    ((bool \<times> int option \<times> direct) \<times> 'a dir_state_scheme) option" where
  "ftoi_self junk np t s =
     map_option (\<lambda>((seek, dir), s1). ((u_error s1 = E_NONE, seek, dir), s1))
       (ftoi junk np t no_dirent (self_cred s) (groups_of (self_cred s) s) s)"

definition self_access :: "nat \<Rightarrow> int \<Rightarrow> 'a dir_state_scheme \<Rightarrow> bool \<times> 'a dir_state_scheme" where
  "self_access p request s = iaccess p request (self_cred s) (groups_of (self_cred s) s) s"

text \<open>Leaving with the result \<open>r\<close> after \<open>idetach\<close>.\<close>

definition leave :: "int list \<Rightarrow> nat \<Rightarrow> int \<Rightarrow> 'a dir_state_scheme \<Rightarrow> (int \<times> 'a dir_state_scheme) option" where
  "leave junk p r s = map_option (Pair r) (idetach junk p s)"

definition iprotected :: "inode \<Rightarrow> bool" where
  "iprotected ip = (i_flag ip AND IFWPROT \<noteq> 0)"

abbreviation (input) NOID :: int where "NOID \<equiv> 65535"     \<comment> \<open>\<open>(uid_t) -1\<close>\<close>
abbreviation (input) ISUID :: int where "ISUID \<equiv> 2048"
abbreviation (input) ISGID :: int where "ISGID \<equiv> 1024"

section \<open>Permission, owner and times\<close>

definition uaccess :: "int list \<Rightarrow> int list \<Rightarrow> int \<Rightarrow> 'a dir_state_scheme \<Rightarrow> (int \<times> 'a dir_state_scheme) option" where
  "uaccess junk np mode s =
     (let fake = cred_fake (self_cred s) (self_cred s); groups = groups_of (self_cred s) s in
      case ftoi junk np For_Reference no_dirent fake groups s of
        None \<Rightarrow> None
      | Some (_, s1) \<Rightarrow>
          if u_error s1 \<noteq> E_NONE then Some (-1, s1)
          else case iaccess (u_cdiri s1) mode fake groups s1 of
                 (ok, s2) \<Rightarrow> leave junk (u_cdiri s2) 0 (if ok then s2 else s2\<lparr>u_error := EACCES\<rparr>))"

text \<open>\<open>setcdir\<close> for the directory pointer that \<open>get\<close> and \<open>put\<close> select.\<close>

definition setcdir :: "int list \<Rightarrow> int list \<Rightarrow> ('a dir_state_scheme \<Rightarrow> nat) \<Rightarrow>
    (nat \<Rightarrow> 'a dir_state_scheme \<Rightarrow> 'a dir_state_scheme) \<Rightarrow> 'a dir_state_scheme \<Rightarrow> (int \<times> 'a dir_state_scheme) option" where
  "setcdir junk np get put s =
     (case ftoi_self junk np For_Reference s of
        None \<Rightarrow> None
      | Some ((ok, _), s1) \<Rightarrow>
          if \<not> ok then Some (-1, s1)
          else if i_type (inodes s1 (u_cdiri s1)) \<noteq> IFDIR then leave junk (u_cdiri s1) (-1) (s1\<lparr>u_error := ENOTDIR\<rparr>)
          else case self_access (u_cdiri s1) IPE s1 of
                 (False, s2) \<Rightarrow> leave junk (u_cdiri s2) (-1) (s2\<lparr>u_error := EACCES\<rparr>)
               | (True, s2) \<Rightarrow> map_option (\<lambda>s3. (0, put (u_cdiri s3) s3)) (ldetach junk (get s2) s2))"

definition uchdir :: "int list \<Rightarrow> int list \<Rightarrow> 'a dir_state_scheme \<Rightarrow> (int \<times> 'a dir_state_scheme) option" where
  "uchdir junk np s = setcdir junk np u_cdir (\<lambda>p s. s\<lparr>u_cdir := p\<rparr>) s"

definition uchroot :: "int list \<Rightarrow> int list \<Rightarrow> 'a dir_state_scheme \<Rightarrow> (int \<times> 'a dir_state_scheme) option" where
  "uchroot junk np s =
     (case super s of
        (True, s1) \<Rightarrow> setcdir junk np u_rdir (\<lambda>p s. s\<lparr>u_rdir := p\<rparr>) s1
      | (False, s1) \<Rightarrow> Some (-1, s1))"

definition chmod_mode :: "cred \<Rightarrow> int \<Rightarrow> int \<Rightarrow> int" where
  "chmod_mode c mode old =
     (let mode1 = (if drv_priv c then mode AND NOT ISVTXT else mode)
      in uwrap16 ((old AND IFMT) OR (mode1 AND NOT IFMT)))"

definition uchmod :: "int list \<Rightarrow> int list \<Rightarrow> int \<Rightarrow> 'a dir_state_scheme \<Rightarrow> (int \<times> 'a dir_state_scheme) option" where
  "uchmod junk np mode s =
     (case ftoi_self junk np For_Reference s of
        None \<Rightarrow> None
      | Some ((ok, _), s1) \<Rightarrow>
          let p = u_cdiri s1 in
          if \<not> ok then Some (-1, s1)
          else if iprotected (inodes s1 p) then leave junk p (-1) (s1\<lparr>u_error := EROFS\<rparr>)
          else case owner (i_uid (inodes s1 p)) s1 of
                 (False, s2) \<Rightarrow> leave junk p 0 s2
               | (True, s2) \<Rightarrow> leave junk p 0
                    (icreated p (upd_inode (\<lambda>i. i\<lparr>i_mode := chmod_mode (self_cred s2) mode (i_mode i)\<rparr>) p s2)))"

text \<open>The group part of \<open>uchown\<close>: whether the change is allowed.\<close>

definition chown_group :: "nat \<Rightarrow> int \<Rightarrow> 'a dir_state_scheme \<Rightarrow> bool \<times> 'a dir_state_scheme" where
  "chown_group p gid s =
     (if gid \<noteq> NOID \<and> i_gid (inodes s p) \<noteq> gid then
        (case super s of
           (True, s1) \<Rightarrow> (True, upd_inode (\<lambda>i. i\<lparr>i_gid := gid\<rparr>) p s1)
         | (False, s1) \<Rightarrow>
             let c = self_cred s1; groups = groups_of c s1 in
             if cred_match c groups (i_uid (inodes s1 p)) NOID \<noteq> CRED_OWNER \<or> cred_match c groups NOID gid \<noteq> CRED_GROUP
             then (False, s1)
             else (True, upd_inode (\<lambda>i. i\<lparr>i_gid := gid\<rparr>) p (s1\<lparr>u_error := E_NONE\<rparr>)))
      else (True, s))"

definition uchown :: "int list \<Rightarrow> int list \<Rightarrow> int \<Rightarrow> int \<Rightarrow> 'a dir_state_scheme \<Rightarrow> (int \<times> 'a dir_state_scheme) option" where
  "uchown junk np uid gid s =
     (case ftoi_self junk np For_Reference s of
        None \<Rightarrow> None
      | Some ((ok, _), s1) \<Rightarrow>
          let p = u_cdiri s1 in
          if \<not> ok then Some (-1, s1)
          else if iprotected (inodes s1 p) then leave junk p (-1) (s1\<lparr>u_error := EROFS\<rparr>)
          else
            case (if uid \<noteq> NOID \<and> i_uid (inodes s1 p) \<noteq> uid
                  then (case super s1 of
                          (False, s2) \<Rightarrow> (False, s2)
                        | (True, s2) \<Rightarrow> (True, upd_inode (\<lambda>i. i\<lparr>i_uid := uid\<rparr>) p s2))
                  else (True, s1)) of
              (False, s2) \<Rightarrow> leave junk p (-1) s2
            | (True, s2) \<Rightarrow>
                case chown_group p gid s2 of
                  (False, s3) \<Rightarrow> leave junk p (-1) s3
                | (True, s3) \<Rightarrow>
                    let s4 = (if drv_priv (self_cred s3) then s3
                              else upd_inode (\<lambda>i. let m = (if uid \<noteq> NOID then i_mode i AND NOT ISUID else i_mode i)
                                                 in i\<lparr>i_mode := (if gid \<noteq> NOID then m AND NOT ISGID else m)\<rparr>) p s3)
                    in leave junk p 0 (icreated p s4))"

text \<open>\<open>tms\<close> is the argument of \<open>utime\<close>, \<open>Some None\<close> if its address is bad.\<close>

definition uutime :: "int list \<Rightarrow> int list \<Rightarrow> (int \<times> int) option option \<Rightarrow> 'a dir_state_scheme \<Rightarrow>
    (int \<times> 'a dir_state_scheme) option" where
  "uutime junk np tms s =
     (case ftoi_self junk np For_Reference s of
        None \<Rightarrow> None
      | Some ((ok, _), s1) \<Rightarrow>
          let p = u_cdiri s1 in
          if \<not> ok then Some (-1, s1)
          else if iprotected (inodes s1 p) then leave junk p (-1) (s1\<lparr>u_error := EROFS\<rparr>)
          else case owner (i_uid (inodes s1 p)) s1 of
                 (False, s2) \<Rightarrow> leave junk p 0 s2
               | (True, s2) \<Rightarrow>
                   let s3 = iaccmodcreat p s2 in
                   leave junk p 0
                     (case tms of
                        None \<Rightarrow> s3
                      | Some None \<Rightarrow> s3\<lparr>u_error := EFAULT\<rparr>
                      | Some (Some (a, m)) \<Rightarrow> upd_inode (\<lambda>i. i\<lparr>i_atime := a, i_mtime := m\<rparr>) p s3))"

definition uumask :: "int \<Rightarrow> 'a dir_state_scheme \<Rightarrow> int \<times> 'a dir_state_scheme" where
  "uumask new s = (u_umask s, s\<lparr>u_umask := new AND 511\<rparr>)"

section \<open>Status\<close>

text \<open>The results are the value of the call and what was copied to the user.\<close>

definition ufstat :: "bool \<Rightarrow> nat \<Rightarrow> 'a dir_state_scheme \<Rightarrow> (int \<times> stat option) \<times> 'a dir_state_scheme" where
  "ufstat acc fd s =
     (let fdp = fd_get fd s in
      if fdp = 0 then ((-1, None), s\<lparr>u_error := EBADF\<rparr>)
      else if \<not> acc then ((-1, None), s\<lparr>u_error := EFAULT\<rparr>)
      else ((0, Some (istat (inodes s (fd_ip (the (file_mem s fdp)))))), s))"

definition ustat :: "int list \<Rightarrow> bool \<Rightarrow> int list \<Rightarrow> 'a dir_state_scheme \<Rightarrow>
    ((int \<times> stat option) \<times> 'a dir_state_scheme) option" where
  "ustat junk acc np s =
     (case ftoi_self junk np For_Reference s of
        None \<Rightarrow> None
      | Some ((ok, _), s1) \<Rightarrow>
          if \<not> ok then Some ((-1, None), s1)
          else let st = istat (inodes s1 (u_cdiri s1)) in
               map_option (\<lambda>s2. if acc then ((0, Some st), s2) else ((-1, None), s2\<lparr>u_error := EFAULT\<rparr>))
                 (idetach junk (u_cdiri s1) s1))"

definition ulseek :: "nat \<Rightarrow> int \<Rightarrow> int \<Rightarrow> 'a dir_state_scheme \<Rightarrow> int \<times> 'a dir_state_scheme" where
  "ulseek fd off whence s =
     (let fdp = fd_get fd s; e = the (file_mem s fdp); ip = inodes s (fd_ip e) in
      if fdp = 0 then (-1, s\<lparr>u_error := EBADF\<rparr>)
      else if i_type ip = IFPIPE then (-1, s\<lparr>u_error := ESPIPE\<rparr>)
      else if whence \<notin> {SEEK_SET, SEEK_CUR, SEEK_END} then (-1, s\<lparr>u_error := EINVAL\<rparr>)
      else
        let off1 = (if whence = SEEK_SET then off
                    else if whence = SEEK_CUR then wrap32 (off + fd_seek e)
                    else wrap32 (off + i_size ip))
        in if off1 < 0 then (-1, s\<lparr>u_error := EINVAL\<rparr>)
           else (off1, upd_file (\<lambda>e. e\<lparr>fd_seek := off1\<rparr>) fdp s))"

end
