(* ===== verification/Directory_Calls.thy ===== *)
theory Directory_Calls
  imports File_Calls
begin

text \<open>
  The system calls that change directories: links, \<^verbatim>\<open>sys2.c\<close>, their removal, \<^verbatim>\<open>sys3.c\<close>, special
  files, \<^verbatim>\<open>sys2.c\<close>, and making and removing directories, \<^verbatim>\<open>sys5.c\<close>. The drivers are an argument
  of \<open>iwrite\<close>, which a directory does not use.
\<close>

section \<open>Links\<close>

text \<open>Giving up the parent directory and the file with the value -1.\<close>

definition give_up :: "int list \<Rightarrow> nat \<Rightarrow> nat \<Rightarrow> 'a dir_state_scheme \<Rightarrow> (int \<times> 'a dir_state_scheme) option" where
  "give_up junk p ip s =
     (case idetach junk p s of
        None \<Rightarrow> None
      | Some s1 \<Rightarrow> map_option (Pair (-1)) (ldetach junk ip s1))"

definition do_link :: "'a dir_state_scheme driver_table \<Rightarrow> int list \<Rightarrow> int list \<Rightarrow> int list \<Rightarrow> bool \<Rightarrow> 'a dir_state_scheme \<Rightarrow>
    (int \<times> 'a dir_state_scheme) option" where
  "do_link drvl junk path1 path2 needperm s =
     (case ftoi_self junk path1 For_Reference s of
        None \<Rightarrow> None
      | Some ((ok, _), s1) \<Rightarrow>
          let ip1 = u_cdiri s1 in
          if \<not> ok then Some (-1, s1)
          else
            case (if i_type (inodes s1 ip1) = IFDIR \<and> needperm then super s1 else (True, s1)) of
              (False, s2) \<Rightarrow> leave junk ip1 (-1) s2
            | (True, s2) \<Rightarrow>
                case ftoi_self junk path2 For_Create s2 of
                  None \<Rightarrow> None
                | Some ((ok2, seek, dir), s3) \<Rightarrow>
                    if \<not> ok2 then map_option (Pair (-1)) (ldetach junk ip1 s3)
                    else if u_cdiri s3 \<noteq> 0 then give_up junk (u_cdiri s3) ip1 (s3\<lparr>u_error := EEXIST\<rparr>)
                    else if i_dev (inodes s3 ip1) \<noteq> i_dev (inodes s3 (u_pdiri s3))
                    then give_up junk (u_pdiri s3) ip1 (s3\<lparr>u_error := EXDEV\<rparr>)
                    else
                      case self_access (u_pdiri s3) IPW s3 of
                        (False, s4) \<Rightarrow> give_up junk (u_pdiri s4) ip1 s4
                      | (True, s4) \<Rightarrow>
                          case idirent drvl (i_ino (inodes s4 ip1)) (the seek) dir s4 of
                            None \<Rightarrow> None
                          | Some s5 \<Rightarrow>
                              case idetach junk (u_pdiri s5) s5 of
                                None \<Rightarrow> None
                              | Some s6 \<Rightarrow>
                                  let s7 = (if u_error s6 = E_NONE
                                            then upd_inode (\<lambda>i. i\<lparr>i_nlink := wrap16 (i_nlink i + 1)\<rparr>) ip1 s6 else s6)
                                  in leave junk ip1 0 (icreated ip1 s7))"

definition ulink :: "'a dir_state_scheme driver_table \<Rightarrow> int list \<Rightarrow> int list \<Rightarrow> int list \<Rightarrow> 'a dir_state_scheme \<Rightarrow>
    (int \<times> 'a dir_state_scheme) option" where
  "ulink drvl junk np1 np2 s = do_link drvl junk np1 np2 True s"

text \<open>The last steps of removing an entry: the inode it referred to loses a link.\<close>

definition drop_link :: "int list \<Rightarrow> int \<Rightarrow> 'a dir_state_scheme \<Rightarrow> (bool \<times> 'a dir_state_scheme) option" where
  "drop_link junk dev s =
     (case iattach (Suc (length (mountp s))) dev (u_cdirn s) s of
        None \<Rightarrow> None
      | Some (ip, s1) \<Rightarrow>
          if ip = 0 then Some (False, s1)
          else map_option (Pair True)
                 (idetach junk ip (icreated ip
                    (upd_inode (\<lambda>i. if i_nlink i > 0 then i\<lparr>i_nlink := i_nlink i - 1\<rparr> else i) ip s1))))"

text \<open>\<open>do_unlink\<close> returns the error number from before the call; \<open>loc\<close> is the local inode of \<open>iucheck\<close>.\<close>

definition do_unlink :: "'a dir_state_scheme driver_table \<Rightarrow> int list \<Rightarrow> inode \<Rightarrow> int list \<Rightarrow> 'a dir_state_scheme \<Rightarrow>
    (errno \<times> 'a dir_state_scheme) option" where
  "do_unlink drvl junk loc path s =
     (let olderror = u_error s; s0 = s\<lparr>u_error := E_NONE\<rparr> in
      case ftoi_self junk path For_Unlink s0 of
        None \<Rightarrow> None
      | Some ((ok, seek, dir), s1) \<Rightarrow>
          if \<not> ok then Some (olderror, s1)
          else case self_access (u_pdiri s1) IPW s1 of
            (False, s2) \<Rightarrow> map_option (Pair olderror) (idetach junk (u_pdiri s2) (s2\<lparr>u_error := EACCES\<rparr>))
          | (True, s2) \<Rightarrow>
              let dev = i_dev (inodes s2 (u_pdiri s2)) in
              case iucheck loc dev (u_cdirn s2) s2 of
                None \<Rightarrow> None
              | Some (False, s3) \<Rightarrow> map_option (Pair olderror) (idetach junk (u_pdiri s3) s3)
              | Some (True, s3) \<Rightarrow>
                  case idirent drvl 0 (the seek) dir s3 of
                    None \<Rightarrow> None
                  | Some s4 \<Rightarrow>
                      case idetach junk (u_pdiri s4) s4 of
                        None \<Rightarrow> None
                      | Some s5 \<Rightarrow>
                          map_option (\<lambda>(found, s6). (if found then olderror else E_NONE, s6)) (drop_link junk dev s5))"

definition uunlink :: "'a dir_state_scheme driver_table \<Rightarrow> int list \<Rightarrow> inode \<Rightarrow> int list \<Rightarrow> 'a dir_state_scheme \<Rightarrow>
    (int \<times> 'a dir_state_scheme) option" where
  "uunlink drvl junk loc np s = map_option (\<lambda>(_, s1). (0, s1)) (do_unlink drvl junk loc np s)"

section \<open>New entries\<close>

definition umknod :: "'a dir_state_scheme driver_table \<Rightarrow> nat \<Rightarrow> int list \<Rightarrow> int list \<Rightarrow> int list \<Rightarrow> int \<Rightarrow> int \<Rightarrow>
    'a dir_state_scheme \<Rightarrow> (int \<times> 'a dir_state_scheme) option" where
  "umknod drvl fuel header junk np mode rdev s =
     (let ty = mode AND IFMT in
      case (if ty \<noteq> IFPIPE then super s else (True, s)) of
        (False, s1) \<Rightarrow> Some (-1, s1)
      | (True, s1) \<Rightarrow>
          case ftoi_self junk np For_Create s1 of
            None \<Rightarrow> None
          | Some ((ok, seek, dir), s2) \<Rightarrow>
              if \<not> ok then Some (-1, s2)
              else if u_cdiri s2 \<noteq> 0 then leave junk (u_cdiri s2) (-1) (s2\<lparr>u_error := EEXIST\<rparr>)
              else case imake drvl fuel header junk mode (if ty \<noteq> IFBLK \<and> ty \<noteq> IFCHR then 0 else rdev) (the seek) dir
                          (self_cred s2) (groups_of (self_cred s2) s2) s2 of
                     None \<Rightarrow> None
                   | Some (ip, s3) \<Rightarrow> if ip = 0 then Some (-1, s3) else leave junk ip 0 s3)"

text \<open>\<open>dmknod\<close> returns the parent directory, or 0.\<close>

definition dmknod :: "'a dir_state_scheme driver_table \<Rightarrow> nat \<Rightarrow> int list \<Rightarrow> int list \<Rightarrow> int list \<Rightarrow> int \<Rightarrow>
    'a dir_state_scheme \<Rightarrow> (nat \<times> 'a dir_state_scheme) option" where
  "dmknod drvl fuel header junk np mode s =
     (case ftoi_self junk np For_Create s of
        None \<Rightarrow> None
      | Some ((ok, seek, dir), s1) \<Rightarrow>
          if \<not> ok then Some (0, s1)
          else if u_cdiri s1 \<noteq> 0 then map_option (Pair 0) (idetach junk (u_cdiri s1) (s1\<lparr>u_error := EEXIST\<rparr>))
          else case imake drvl fuel header junk (mode OR IFDIR) 0 (the seek) dir
                      (self_cred s1) (groups_of (self_cred s1) s1) s1 of
                 None \<Rightarrow> None
               | Some (ip, s2) \<Rightarrow>
                   map_option (\<lambda>s3. (u_pdiri s3, s3)) (if ip \<noteq> 0 then idetach junk ip s2 else Some s2))"

text \<open>
  The parent of a new directory as \<open>umkdir\<close> finds it, the path up to its last slash, and the path of the
  entry that it removes from there when the second link fails.
\<close>

definition parent_path :: "int list \<Rightarrow> int list" where
  "parent_path path =
     (if SLASH \<in> set path then rev (dropWhile (\<lambda>c. c \<noteq> SLASH) (rev path)) else [DOT])"

definition umkdir :: "'a dir_state_scheme driver_table \<Rightarrow> nat \<Rightarrow> int list \<Rightarrow> int list \<Rightarrow> inode \<Rightarrow> bool \<Rightarrow> bool \<Rightarrow> bool \<Rightarrow>
    int list \<Rightarrow> int \<Rightarrow> 'a dir_state_scheme \<Rightarrow> (int \<times> 'a dir_state_scheme) option" where
  "umkdir drvl fuel header junk loc acc mem1 mem2 path mode s =
     (if \<not> acc then Some (-1, s\<lparr>u_error := EFAULT\<rparr>)
      else if \<not> mem1 \<or> \<not> mem2 then Some (-1, s\<lparr>u_error := EAGAIN\<rparr>)
      else if length path \<ge> 253 then Some (-1, s\<lparr>u_error := ENOENT\<rparr>)
      else case dmknod drvl fuel header junk path mode s of
        None \<Rightarrow> None
      | Some (pip, s1) \<Rightarrow>
          if pip = 0 then Some (-1, s1)
          else case do_link drvl junk path (path @ [SLASH, DOT]) False s1 of
            None \<Rightarrow> None
          | Some (_, s2) \<Rightarrow>
              if u_error s2 \<noteq> E_NONE then
                map_option (\<lambda>(e, s3). (-1, s3\<lparr>u_error := e\<rparr>)) (do_unlink drvl junk loc path s2)
              else
                let parent = parent_path path in
                case do_link drvl junk parent (path @ [SLASH, DOT, DOT]) False s2 of
                  None \<Rightarrow> None
                | Some (_, s3) \<Rightarrow>
                    if u_error s3 = E_NONE then Some (0, s3)
                    else case do_unlink drvl junk loc (parent @ [SLASH, DOT]) s3 of
                      None \<Rightarrow> None
                    | Some (e, s4) \<Rightarrow>
                        map_option (\<lambda>(e', s5). (0, s5\<lparr>u_error := e'\<rparr>))
                          (do_unlink drvl junk loc path (s4\<lparr>u_error := e\<rparr>)))"

section \<open>Removing a directory\<close>

text \<open>
  The entries of a block: whether each is free, \<^verbatim>\<open>.\<close> or \<^verbatim>\<open>..\<close>. The loop counts bytes, and passes its count to
  \<open>vread\<close> as the number of a block. A block that cannot be read ends it.
\<close>

definition block_empty :: "block \<Rightarrow> bool" where
  "block_empty blk = (\<forall>k\<in>set [0..<32].
     let cp = drop (16 * k) blk in
     (cp ! 0 = 0 \<and> cp ! 1 = 0) \<or> (cp ! 2 = DOT \<and> (cp ! 3 = 0 \<or> (cp ! 3 = DOT \<and> cp ! 4 = 0))))"

primrec dirempty_loop :: "nat \<Rightarrow> nat \<Rightarrow> int \<Rightarrow> 'a fio_state_scheme \<Rightarrow> (bool \<times> 'a fio_state_scheme) option" where
  "dirempty_loop 0 p n s = (if n < i_size (inodes s p) then None else Some (True, s))"
| "dirempty_loop (Suc fuel) p n s =
     (if \<not> n < i_size (inodes s p) then Some (True, s)
      else case vread p n s of
        None \<Rightarrow> None
      | Some (None, s1) \<Rightarrow> Some (True, s1)
      | Some (Some blk, s1) \<Rightarrow> if block_empty blk then dirempty_loop fuel p (n + 512) s1 else Some (False, s1))"

definition isdirempty :: "nat \<Rightarrow> 'a fio_state_scheme \<Rightarrow> (bool \<times> 'a fio_state_scheme) option" where
  "isdirempty p s = dirempty_loop (nat (i_size (inodes s p))) p 0 s"

definition diucheck :: "inode \<Rightarrow> int \<Rightarrow> int \<Rightarrow> 'a ino_state_scheme \<Rightarrow> (bool \<times> 'a ino_state_scheme) option" where
  "diucheck loc dev ino s =
     (case inode_find dev ino False s of
        ((p, _), s1) \<Rightarrow>
          if p \<noteq> 0 then Some (True, s1)
          else map_option (\<lambda>((ok, _), s2). (ok, s2)) (icopydm_rec (loc\<lparr>i_dev := dev, i_ino := ino\<rparr>) s1))"

definition dunlink :: "'a dir_state_scheme driver_table \<Rightarrow> int list \<Rightarrow> inode \<Rightarrow> int list \<Rightarrow> 'a dir_state_scheme \<Rightarrow>
    'a dir_state_scheme option" where
  "dunlink drvl junk loc np s =
     (case file_to_inode junk np For_Unlink True no_dirent (self_cred s) (groups_of (self_cred s) s) s of
        None \<Rightarrow> None
      | Some ((seek, dir), s1) \<Rightarrow>
          if u_error s1 \<noteq> E_NONE then Some s1
          else case self_access (u_pdiri s1) IPW s1 of
            (False, s2) \<Rightarrow> idetach junk (u_pdiri s2) s2
          | (True, s2) \<Rightarrow>
              let dev = i_dev (inodes s2 (u_pdiri s2)) in
              case diucheck loc dev (u_cdirn s2) s2 of
                None \<Rightarrow> None
              | Some (False, s3) \<Rightarrow> idetach junk (u_pdiri s3) s3
              | Some (True, s3) \<Rightarrow>
                  case idirent drvl 0 (the seek) dir s3 of
                    None \<Rightarrow> None
                  | Some s4 \<Rightarrow>
                      case idetach junk (u_pdiri s4) s4 of
                        None \<Rightarrow> None
                      | Some s5 \<Rightarrow> map_option snd (drop_link junk dev s5))"

definition removedir :: "'a dir_state_scheme driver_table \<Rightarrow> int list \<Rightarrow> inode \<Rightarrow> bool \<Rightarrow> int list \<Rightarrow> 'a dir_state_scheme \<Rightarrow>
    'a dir_state_scheme option" where
  "removedir drvl junk loc mem path s =
     (if \<not> mem then Some (s\<lparr>u_error := ENOSPC\<rparr>)
      else case dunlink drvl junk loc (path @ [SLASH, DOT]) s of
        None \<Rightarrow> None
      | Some s1 \<Rightarrow>
          if u_error s1 \<noteq> E_NONE then Some s1
          else case dunlink drvl junk loc (path @ [SLASH, DOT, DOT]) s1 of
            None \<Rightarrow> None
          | Some s2 \<Rightarrow>
              if u_error s2 \<noteq> E_NONE then Some s2
              else dunlink drvl junk loc path s2)"

definition urmdir :: "'a dir_state_scheme driver_table \<Rightarrow> int list \<Rightarrow> inode \<Rightarrow> bool \<Rightarrow> bool \<Rightarrow> int list \<Rightarrow> 'a dir_state_scheme \<Rightarrow>
    (int \<times> 'a dir_state_scheme) option" where
  "urmdir drvl junk loc acc mem path s =
     (if \<not> acc then Some (-1, s\<lparr>u_error := EFAULT\<rparr>)
      else case ftoi_self junk path For_Reference s of
        None \<Rightarrow> None
      | Some ((ok, _), s1) \<Rightarrow>
          if \<not> ok then Some (-1, s1)
          else if i_type (inodes s1 (u_cdiri s1)) \<noteq> IFDIR then leave junk (u_cdiri s1) (-1) (s1\<lparr>u_error := ENOTDIR\<rparr>)
          else case isdirempty (u_cdiri s1) s1 of
            None \<Rightarrow> None
          | Some (False, s2) \<Rightarrow> leave junk (u_cdiri s2) (-1) (s2\<lparr>u_error := EEXIST\<rparr>)
          | Some (True, s2) \<Rightarrow>
              case idetach junk (u_cdiri s2) s2 of
                None \<Rightarrow> None
              | Some s3 \<Rightarrow> map_option (Pair 0) (removedir drvl junk loc mem path s3))"

end
