(* ===== verification/Open_Calls.thy ===== *)
theory Open_Calls
  imports File_Calls
begin

text \<open>
  Opening, creating and controlling open files, \<^verbatim>\<open>uopen\<close> and \<^verbatim>\<open>upipe\<close> of \<^verbatim>\<open>sys3.c\<close>,
  \<^verbatim>\<open>ucreat\<close>, \<^verbatim>\<open>uclose\<close>, \<^verbatim>\<open>udup\<close> and \<^verbatim>\<open>ufcntl\<close> of \<^verbatim>\<open>sys2.c\<close>, \<^verbatim>\<open>pmake\<close> of \<^verbatim>\<open>pipe.c\<close>.
\<close>

abbreviation (input) O_WRONLY :: int where "O_WRONLY \<equiv> 1"
abbreviation (input) O_RDWR :: int where "O_RDWR \<equiv> 2"
abbreviation (input) O_NDELAY :: int where "O_NDELAY \<equiv> 4"
abbreviation (input) O_APPEND :: int where "O_APPEND \<equiv> 8"
abbreviation (input) O_SYNC :: int where "O_SYNC \<equiv> 16"
abbreviation (input) O_TRACE :: int where "O_TRACE \<equiv> 32"
abbreviation (input) O_NONBLOCK :: int where "O_NONBLOCK \<equiv> 128"
abbreviation (input) O_CREAT :: int where "O_CREAT \<equiv> 256"
abbreviation (input) O_TRUNC :: int where "O_TRUNC \<equiv> 512"
abbreviation (input) O_EXCL :: int where "O_EXCL \<equiv> 1024"
abbreviation (input) O_NOCTTY :: int where "O_NOCTTY \<equiv> 2048"
abbreviation (input) IPNOCTTY :: int where "IPNOCTTY \<equiv> 128"

text \<open>The tracing of an inode, a flag for debugging.\<close>

abbreviation (input) IFTRACE :: int where "IFTRACE \<equiv> 32"

definition itrace :: "nat \<Rightarrow> 'a ino_state_scheme \<Rightarrow> 'a ino_state_scheme" where
  "itrace p s = upd_inode (\<lambda>i. i\<lparr>i_flag := i_flag i OR IFTRACE\<rparr>) p s"

definition iuntrace :: "nat \<Rightarrow> 'a ino_state_scheme \<Rightarrow> 'a ino_state_scheme" where
  "iuntrace p s = upd_inode (\<lambda>i. i\<lparr>i_flag := i_flag i AND NOT IFTRACE\<rparr>) p s"

definition itraced :: "inode \<Rightarrow> bool" where
  "itraced ip = (i_flag ip AND IFTRACE \<noteq> 0)"

section \<open>Opening\<close>

text \<open>The switch on the access mode; \<open>None\<close> for a bad one.\<close>

definition access_mode :: "int \<Rightarrow> int option" where
  "access_mode oflag =
     (if oflag AND 3 = 0 then Some IPR else if oflag AND 3 = O_WRONLY then Some IPW
      else if oflag AND 3 = O_RDWR then Some (IPR OR IPW) else None)"

definition open_flags :: "int \<Rightarrow> int \<Rightarrow> int" where
  "open_flags oflag f =
     (f OR (if oflag AND O_NDELAY \<noteq> 0 then IPNDLY else 0)
        OR (if oflag AND O_NONBLOCK \<noteq> 0 then IPNONBLOCK else 0)
        OR (if oflag AND O_APPEND \<noteq> 0 then IPAPPEND else 0)
        OR (if oflag AND O_SYNC \<noteq> 0 then IPSYNC else 0)
        OR (if oflag AND O_NOCTTY \<noteq> 0 then IPNOCTTY else 0))"

text \<open>The inode to open and whether it was created; no inode if \<open>uopen\<close> goes to \<open>done\<close>.\<close>

definition open_inode :: "'a dir_state_scheme driver_table \<Rightarrow> nat \<Rightarrow> int list \<Rightarrow> int list \<Rightarrow> int list \<Rightarrow> int \<Rightarrow> int \<Rightarrow>
    'a dir_state_scheme \<Rightarrow> ((nat \<times> bool) option \<times> 'a dir_state_scheme) option" where
  "open_inode drvl fuel header junk np oflag mode s =
     (if oflag AND O_CREAT \<noteq> 0 then
        case ftoi_self junk np For_Create s of
          None \<Rightarrow> None
        | Some ((ok, seek, dir), s1) \<Rightarrow>
            let ip = u_cdiri s1 in
            if \<not> ok then Some (None, s1)
            else if ip = 0 then
              map_option (\<lambda>(ip, s2). (if ip = 0 then None else Some (ip, True), s2))
                (imake drvl fuel header junk ((mode AND NOT IFMT) OR IFREG) 0 (the seek) dir
                   (self_cred s1) (groups_of (self_cred s1) s1) s1)
            else if oflag AND O_EXCL \<noteq> 0
            then map_option (\<lambda>s2. (None, s2\<lparr>u_error := EEXIST\<rparr>)) (idetach junk ip s1)
            else if i_type (inodes s1 ip) = IFBLK \<or> i_type (inodes s1 ip) = IFCHR then Some (Some (ip, False), s1)
            else if i_type (inodes s1 ip) = IFDIR
            then map_option (\<lambda>s2. (None, s2\<lparr>u_error := EISDIR\<rparr>)) (idetach junk ip s1)
            else
              case getment (i_dev (inodes s1 ip)) True s1 of
                (None, s2) \<Rightarrow> map_option (\<lambda>s3. (None, s3\<lparr>u_error := EROFS\<rparr>)) (idetach junk ip s2)
              | (Some _, s2) \<Rightarrow> Some (Some (ip, False), s2)
      else
        map_option (\<lambda>((ok, _), s1). (if ok then Some (u_cdiri s1, False) else None, s1))
          (ftoi_self junk np For_Reference s))"

text \<open>The label \<open>done\<close>.\<close>

definition open_done :: "nat \<Rightarrow> 'a dir_state_scheme \<Rightarrow> int \<times> 'a dir_state_scheme" where
  "open_done fd s = (case fd_finish fd s of (r, s1) \<Rightarrow> (if r = ERROR_FD then -1 else int r, s1))"

text \<open>The truncation at the end of \<open>uopen\<close>.\<close>

definition open_trunc :: "int list \<Rightarrow> nat \<Rightarrow> int \<Rightarrow> bool \<Rightarrow> 'a dir_state_scheme \<Rightarrow> 'a dir_state_scheme option" where
  "open_trunc junk ip oflag cflag s =
     (if oflag AND O_TRUNC \<noteq> 0 \<and> i_mode (inodes s ip) AND IFPIPE \<noteq> IFPIPE \<and> \<not> cflag then
        (case self_access ip IPW s of
           (True, s1) \<Rightarrow> itruncate ip s1
         | (False, s1) \<Rightarrow> idetach junk ip s1)
      else Some s)"

text \<open>\<open>mem\<close> is the result of \<open>kmem_alloc\<close> in \<open>fd_alloc\<close>; \<open>env\<close> what happens while \<open>popen\<close> sleeps.\<close>

definition uopen :: "'a dir_state_scheme driver_table \<Rightarrow> (('a dir_state_scheme \<Rightarrow> 'a dir_state_scheme) \<times> bool) list \<Rightarrow>
    nat \<Rightarrow> int list \<Rightarrow> int list \<Rightarrow> 32 word \<Rightarrow> int list \<Rightarrow> int \<Rightarrow> int \<Rightarrow> 'a dir_state_scheme \<Rightarrow>
    (int \<times> 'a dir_state_scheme) option" where
  "uopen drvl env fuel header junk mem np oflag mode s =
     (case fd_alloc mem s of
        (fd, s1) \<Rightarrow>
          if fd = ERROR_FD then Some (-1, s1)
          else case access_mode oflag of
            None \<Rightarrow> Some (open_done fd (s1\<lparr>u_error := EINVAL\<rparr>))
          | Some f \<Rightarrow>
              case open_inode drvl fuel header junk np oflag mode s1 of
                None \<Rightarrow> None
              | Some (None, s2) \<Rightarrow> Some (open_done fd s2)
              | Some (Some (ip, cflag), s2) \<Rightarrow>
                  case (if cflag then (True, s2) else self_access ip f s2) of
                    (False, s3) \<Rightarrow> map_option (open_done fd) (idetach junk ip s3)
                  | (True, s3) \<Rightarrow>
                      case fd_init (iopen drvl env) (idetach junk) fd ip (open_flags oflag f)
                             (if oflag AND O_TRACE \<noteq> 0 then itrace ip s3 else s3) of
                        None \<Rightarrow> None
                      | Some (r, s4) \<Rightarrow>
                          if r < 0 then map_option (open_done fd) (idetach junk ip s4)
                          else map_option (open_done fd)
                                 (open_trunc junk (fd_ip (the (file_mem s4 (fd_get fd s4)))) oflag cflag s4))"

definition ucreat :: "'a dir_state_scheme driver_table \<Rightarrow> (('a dir_state_scheme \<Rightarrow> 'a dir_state_scheme) \<times> bool) list \<Rightarrow>
    nat \<Rightarrow> int list \<Rightarrow> int list \<Rightarrow> 32 word \<Rightarrow> int list \<Rightarrow> int \<Rightarrow> 'a dir_state_scheme \<Rightarrow>
    (int \<times> 'a dir_state_scheme) option" where
  "ucreat drvl env fuel header junk mem np mode s =
     uopen drvl env fuel header junk mem np (O_WRONLY OR O_CREAT OR O_TRUNC) mode s"

section \<open>Controlling\<close>

definition udup :: "nat \<Rightarrow> 'a fd_state_scheme \<Rightarrow> int \<times> 'a fd_state_scheme" where
  "udup ofd s = (case fd_dup ofd 0 s of (r, s1) \<Rightarrow> (if r = ERROR_FD then -1 else int r, s1))"

definition uclose :: "'a dir_state_scheme driver_table \<Rightarrow> nat \<Rightarrow> int list \<Rightarrow> nat \<Rightarrow> nat \<Rightarrow> 'a dir_state_scheme \<Rightarrow>
    (int \<times> 'a dir_state_scheme) option" where
  "uclose drvl fuel junk self fd s = map_option (Pair 0) (fd_close fuel (iclose drvl junk) self fd s)"

text \<open>The commands with their arguments; \<open>None\<close> is a structure at a bad address.\<close>

datatype fcntl_cmd =
    F_DUPFD nat | F_SETFL int | F_GETFL | F_LOCK lock_cmd "flock option" bool | F_GETFD | F_SETFD int | F_OTHER

definition set_file_flags :: "int \<Rightarrow> int \<Rightarrow> int" where
  "set_file_flags arg flags =
     ((flags AND NOT (IPNDLY OR IPAPPEND OR IPNONBLOCK))
        OR (if arg AND O_NDELAY \<noteq> 0 then IPNDLY else 0)
        OR (if arg AND O_APPEND \<noteq> 0 then IPAPPEND else 0)
        OR (if arg AND O_NONBLOCK \<noteq> 0 then IPNONBLOCK else 0))"

definition get_file_flags :: "int \<Rightarrow> bool \<Rightarrow> int" where
  "get_file_flags flags traced =
     ((if flags AND (IPR OR IPW) = IPR then 0 else if flags AND (IPR OR IPW) = IPW then O_WRONLY else O_RDWR)
        OR (if flags AND IPNDLY \<noteq> 0 then O_NDELAY else 0)
        OR (if flags AND IPAPPEND \<noteq> 0 then O_APPEND else 0)
        OR (if flags AND IPNONBLOCK \<noteq> 0 then O_NONBLOCK else 0)
        OR (if traced then O_TRACE else 0))"

text \<open>The result of a lock command, with what is copied to the user; the flag of \<open>F_LOCK\<close> is whether it can be.\<close>

definition lock_result :: "lock_cmd \<Rightarrow> bool \<Rightarrow> flock \<times> 'a dir_state_scheme lock_outcome \<Rightarrow>
    flock option \<times> 'a dir_state_scheme lock_outcome" where
  "lock_result cmd acc r =
     (case r of
        (sfl, Returned v s) \<Rightarrow>
          if v \<noteq> 0 then (None, Returned (-1) s)
          else if cmd = F_GETLK then (if acc then (Some sfl, Returned 0 s) else (None, Returned (-1) (s\<lparr>u_error := EFAULT\<rparr>)))
          else (None, Returned 0 s)
      | (_, out) \<Rightarrow> (None, out))"

definition ufcntl :: "nat \<Rightarrow> (('a dir_state_scheme \<Rightarrow> 'a dir_state_scheme) \<times> bool) list \<Rightarrow> nat \<Rightarrow> nat \<Rightarrow> fcntl_cmd \<Rightarrow>
    'a dir_state_scheme \<Rightarrow> flock option \<times> 'a dir_state_scheme lock_outcome" where
  "ufcntl fuel env self fd cmd s =
     (let fdp = fd_get fd s; e = the (file_mem s fdp) in
      if fdp = 0 then (None, Returned (-1) (s\<lparr>u_error := EBADF\<rparr>))
      else
        case cmd of
          F_DUPFD arg \<Rightarrow>
            if arg \<ge> NOFILE then (None, Returned (-1) (s\<lparr>u_error := EINVAL\<rparr>))
            else (case fd_dup fd arg s of (r, s1) \<Rightarrow> (None, Returned (if r = ERROR_FD then -1 else int r) s1))
        | F_SETFL arg \<Rightarrow> (None, Returned 0
              ((if arg AND O_TRACE \<noteq> 0 then itrace (fd_ip e) else iuntrace (fd_ip e))
                 (upd_file (\<lambda>e. e\<lparr>fd_flag := set_file_flags arg (fd_flag e)\<rparr>) fdp s)))
        | F_GETFL \<Rightarrow> (None, Returned (get_file_flags (fd_flag e) (itraced (inodes s (fd_ip e)))) s)
        | F_LOCK cmd flp acc \<Rightarrow>
            (case flp of
               None \<Rightarrow> (None, Returned (-1) (s\<lparr>u_error := EFAULT\<rparr>))
             | Some fl \<Rightarrow> lock_result cmd acc
                 (rlock fuel env self \<lparr>f_ip = fd_ip e, f_flag = fd_flag e, f_seek = fd_seek e,
                                       ip_size = i_size (inodes s (fd_ip e))\<rparr> cmd fl s))
        | F_GETFD \<Rightarrow> (None, Returned (fd_get_flags fd s) s)
        | F_SETFD arg \<Rightarrow> (case fd_set_flags fd (arg AND 1) s of (r, s1) \<Rightarrow> (None, Returned r s1))
        | F_OTHER \<Rightarrow> (None, Returned (-1) (s\<lparr>u_error := EINVAL\<rparr>)))"

section \<open>Pipes\<close>

definition pmake :: "nat \<Rightarrow> int list \<Rightarrow> int list \<Rightarrow> int \<Rightarrow> int \<Rightarrow> 'a dir_state_scheme \<Rightarrow> (nat \<times> 'a dir_state_scheme) option" where
  "pmake fuel header junk pipedev mode s =
     (case ialloc fuel header junk pipedev (IFPIPE OR mode) (self_cred s) s of
        None \<Rightarrow> None
      | Some (ip, s1) \<Rightarrow>
          if ip = 0 then Some (0, s1) else map_option (Pair ip) (icopymd junk ip (pclear ip s1)))"

text \<open>The two descriptors, if there was no error.\<close>

definition upipe :: "'a dir_state_scheme driver_table \<Rightarrow> (('a dir_state_scheme \<Rightarrow> 'a dir_state_scheme) \<times> bool) list \<Rightarrow>
    nat \<Rightarrow> int list \<Rightarrow> int list \<Rightarrow> nat \<Rightarrow> int \<Rightarrow> 32 word \<Rightarrow> 32 word \<Rightarrow> 'a dir_state_scheme \<Rightarrow>
    ((nat \<times> nat) option \<times> 'a dir_state_scheme) option" where
  "upipe drvl env fuel header junk self pipedev mem1 mem2 s =
     (case pmake fuel header junk pipedev 0 s of
        None \<Rightarrow> None
      | Some (ip, s1) \<Rightarrow>
          if ip = 0 then Some (None, s1)
          else case fd_open (iopen drvl env) (idetach junk) mem1 ip (IPR OR IPNDLY) s1 of
            None \<Rightarrow> None
          | Some (fd1, s2) \<Rightarrow>
              if fd1 = ERROR_FD then map_option (Pair None) (idetach junk ip s2)
              else
                case fd_open (iopen drvl env) (idetach junk) mem2 ip IPW
                       (upd_inode (\<lambda>i. i\<lparr>i_refc := i_refc i + 1\<rparr>) ip s2) of
                  None \<Rightarrow> None
                | Some (fd2, s3) \<Rightarrow>
                    if fd2 \<noteq> ERROR_FD then
                      Some (Some (fd1, fd2),
                        iuntrace ip (upd_file (\<lambda>e. e\<lparr>fd_flag := set_file_flags 0 (fd_flag e)\<rparr>) (fd_get fd1 s3) s3))
                    else
                      map_option (Pair None)
                        (fd_close fuel (iclose drvl junk) self fd1 (upd_inode (\<lambda>i. i\<lparr>i_refc := i_refc i - 1\<rparr>) ip s3)))"

end
