(* ===== verification/Directory_Properties.thy ===== *)
theory Directory_Properties
  imports Directories Directory_Calls Open_Calls
begin

text \<open>
  Directories: what a name refers to, what a new or a removed entry changes, and what the check of
  \<open>rmdir\<close> looks at; and two system calls that do not do what they mean to.
\<close>

section \<open>A write within a block\<close>

lemma fwrite_in_block:
  fixes s :: "'a ino_state_scheme"
  assumes ok: "file_ok s p k bs" and u: "u_error s = E_NONE" and ty: "i_type (inodes s p) \<noteq> IFBLK"
    and x: "0 \<le> io_seek iop" "io_seek iop < 512 * MAXBLOCK" "blocko (io_seek iop) + n \<le> 512"
    and n: "0 < n" "n < 512" "io_ioc iop = int n" "length (io_from iop) = n"
  shows "\<exists>iop' s' bs' xs. fwrite p iop s = Some (iop', s') \<and> file_ok s' p k bs' \<and> set bs' \<subseteq> set bs \<and>
    ((u_error s' = ENOSPC \<and> bs' = [] \<and> inodes s' = (inodes s)(p := (inodes s p)\<lparr>i_addr := xs\<rparr>) \<and>
        bytes_written s p (io_seek iop) [] s') \<or>
     (u_error s' = E_NONE \<and> bytes_written s p (io_seek iop) (io_from iop) s' \<and>
        inodes s' = (inodes s)(p := resized (inodes s p) (max (i_size (inodes s p)) (io_seek iop + int n)) xs)))"
proof -
  define off where "off = blocko (io_seek iop)"
  define lbn where "lbn = blockn (io_seek iop)"
  define dev where "dev = i_dev (inodes s p)"
  have seek: "io_seek iop = 512 * lbn + int off" using x(1) by (simp add: off_def lbn_def blockn_def blocko_def)
  have lbn: "0 \<le> lbn" "lbn < MAXBLOCK" using x(1,2) by (simp_all add: lbn_def blockn_def pos_imp_zdiv_nonneg_iff)
  have m: "min (nat (io_ioc iop)) (512 - off) = n" using n(3) x(3) off_def by simp
  have ioc: "0 < io_ioc iop" using n by simp
  have loop: "fwrite p iop s = fwrite_loop (Suc (n - 1)) p lbn off iop s" using n by (simp add: fwrite_def off_def lbn_def)
  have com: "False \<longleftrightarrow> off = 0 \<and> n = 512" using n(2) by simp
  have io: "ioread iop n = (io_from iop, iop\<lparr>io_from := [], io_ioc := 0\<rparr>)" using n by (simp add: ioread_def)
  from fwrite_step [OF ok u ty dev_def [symmetric] lbn n(4) x(3) [folded off_def] com]
  consider
    (none) s1 xs where "write_block p lbn False s = Some (None, s1)" "u_error s1 = ENOSPC" "file_ok s1 p k []"
      "inodes s1 = (inodes s)(p := (inodes s p)\<lparr>i_addr := xs\<rparr>)" "bytes_written s p (io_seek iop) [] s1"
  | (some) b old s1 s2 bs' xs where "write_block p lbn False s = Some (Some (b, old), s1)"
      "bput dev b (case old of None \<Rightarrow> io_from iop | Some blk \<Rightarrow> write_at off (io_from iop) blk) s1 = Some s2"
      "u_error s2 = E_NONE" "file_ok s2 p k bs'" "set bs' \<subseteq> set bs"
      "inodes s2 = (inodes s)(p := (inodes s p)\<lparr>i_addr := xs\<rparr>)" "bytes_written s p (512 * lbn + int off) (io_from iop) s2"
    by blast
  then show ?thesis
  proof cases
    case none
    have "fwrite p iop s = Some (iop, s1)"
      unfolding loop using ioc none(1) n(2) by (simp add: m Let_def com [symmetric])
    then show ?thesis using none by (intro exI [of _ iop] exI [of _ s1] exI [of _ "[]"] exI [of _ xs]) simp
  next
    case some
    define e where "e = io_seek iop + int n"
    define s3 where "s3 = (if e > i_size (inodes s2 p) then upd_inode (\<lambda>i. i\<lparr>i_size := e\<rparr>) p s2 else s2)"
    have i3: "inodes s3 = (inodes s)(p := resized (inodes s p) (max (i_size (inodes s p)) e) xs)"
      using some(6) by (auto simp: s3_def resized_def max_def)
    have d3: "disk s3 = disk s2" "u_error s3 = E_NONE" using some(3) by (simp_all add: s3_def)
    have dev2: "i_dev (inodes s2 p) = dev" "i_type (inodes s2 p) \<noteq> IFBLK" "i_type (inodes s p) \<noteq> IFBLK"
      using some(6) ty by (simp_all add: dev_def i_type_def)
    have stop: "fwrite_loop (n - 1) p (lbn + 1) 0 iop' s3 = Some (iop', s3)" if "io_ioc iop' = 0" for iop'
      using that by (cases "n - 1") simp_all
    have "fwrite p iop s = Some (iop\<lparr>io_from := [], io_ioc := 0, io_seek := e\<rparr>, s3)"
      unfolding loop using ioc some(1-3) io dev2 stop
      by (simp add: m Let_def com [symmetric] dev_def [symmetric] e_def [symmetric] s3_def)
    moreover have "file_ok s3 p k bs'" using some(4) by (simp add: s3_def file_ok_def)
    moreover have "bytes_written s p (io_seek iop) (io_from iop) s3"
      using some(6,7) i3 by (simp add: seek bytes_written_def kept_bytes_def d3 resized_def)
    ultimately show ?thesis using some(5) d3(2) i3 by (auto simp: e_def)
  qed
qed

section \<open>The entries and the bytes\<close>

definition entry_of :: "(int \<Rightarrow> int) \<Rightarrow> nat \<Rightarrow> direct" where
  "entry_of f k = \<lparr>d_ino = f (16 * int k) + 256 * f (16 * int k + 1), d_name = map (\<lambda>i. f (16 * int k + 2 + int i)) [0..<DIRSIZ]\<rparr>"

lemma direct_at_entry_of:
  assumes "16 * k + 16 \<le> n"
  shows "direct_at (map (\<lambda>i. f (int i)) [0..<n]) k = entry_of f k"
proof -
  have "take 14 (drop (16 * k + 2) (map (\<lambda>i. f (int i)) [0..<n])) = map (\<lambda>i. f (16 * int k + 2 + int i)) [0..<14]"
    using assms by (intro nth_equalityI) (auto simp: algebra_simps)
  then show ?thesis using assms by (simp add: direct_at_def entry_of_def rd16_def add.commute)
qed

lemma dir_entries_kept: "dir_entries s p = map (entry_of (kept_bytes s p)) [0..<nat (i_size (inodes s p)) div 16]"
proof -
  have "dir_bytes s p = map (\<lambda>i. kept_bytes s p (int i)) [0..<nat (i_size (inodes s p))]"
    by (simp add: dir_bytes_def file_bytes_def kept_bytes_def)
  moreover have "16 * k + 16 \<le> n" if "k < n div 16" for k n :: nat
    using that less_eq_div_iff_mult_less_eq [of 16 "Suc k" n] by simp
  ultimately show ?thesis using direct_at_entry_of by (simp add: dir_entries_def)
qed

lemma length_direct_bytes: "length (d_name e) = DIRSIZ \<Longrightarrow> length (direct_bytes e) = 16"
  by (simp add: direct_bytes_def le16_def)

text \<open>The entries when the bytes of one of them are replaced.\<close>

lemma entry_of_written:
  assumes "length (d_name e) = DIRSIZ" "0 \<le> d_ino e" "d_ino e < 65536" "16 * int k + 16 \<le> lim"
    and f: "\<And>y. 0 \<le> y \<Longrightarrow> y < lim \<Longrightarrow>
      f' y = (if 16 * int j \<le> y \<and> y < 16 * int j + 16 then direct_bytes e ! nat (y - 16 * int j) else f y)"
  shows "entry_of f' k = (if k = j then e else entry_of f k)"
proof (cases "k = j")
  case True
  have b: "direct_bytes e ! 0 = d_ino e mod 256" "direct_bytes e ! Suc 0 = d_ino e div 256 mod 256"
    "direct_bytes e ! Suc (Suc i) = d_name e ! i" for i
    by (simp_all add: direct_bytes_def le16_def)
  have hi: "d_ino e div 256 mod 256 = d_ino e div 256" using assms(2,3) by simp
  have "f' (16 * int j + 2 + int i) = d_name e ! i" if "i < 14" for i
  proof -
    have "nat (16 * int j + 2 + int i - 16 * int j) = Suc (Suc i)" by linarith
    then show ?thesis using f [of "16 * int j + 2 + int i"] that True assms(4) b(3) [of i] by simp
  qed
  then have "map (\<lambda>i. f' (16 * int j + 2 + int i)) [0..<14] = map (\<lambda>i. d_name e ! i) [0..<14]" by simp
  moreover have "map (\<lambda>i. d_name e ! i) [0..<14] = d_name e" using map_nth [of "d_name e"] assms(1) by simp
  ultimately have "d_ino (entry_of f' k) = d_ino e" "d_name (entry_of f' k) = d_name e"
    using True assms(4) f [of "16 * int k"] f [of "16 * int k + 1"]
    by (simp_all add: entry_of_def b hi del: map_eq_conv)
  then show ?thesis using True by simp
next
  case False
  have "f' (16 * int k + i) = f (16 * int k + i)" if "0 \<le> i" "i < 16" for i
  proof -
    have "\<not> (16 * int j \<le> 16 * int k + i \<and> 16 * int k + i < 16 * int j + 16)" using False that by linarith
    moreover have "f' (16 * int k + i) = (if 16 * int j \<le> 16 * int k + i \<and> 16 * int k + i < 16 * int j + 16
        then direct_bytes e ! nat (16 * int k + i - 16 * int j) else f (16 * int k + i))"
      by (rule f) (use that assms(4) in simp_all)
    ultimately show ?thesis by (simp only: if_False)
  qed
  from this [of 0] this [of 1] this [of "2 + int i" for i] show ?thesis
    using False by (simp add: entry_of_def add.assoc)
qed

lemma upt_map_update:
  assumes "j < n" "\<And>k. k < n \<Longrightarrow> g k = (if k = j then e else f k)"
  shows "map g [0..<n] = (map f [0..<n])[j := e]"
  using assms by (intro nth_equalityI) (auto simp: nth_list_update)

section \<open>Writing an entry\<close>

definition set_entry :: "nat \<Rightarrow> direct \<Rightarrow> direct list \<Rightarrow> direct list" where
  "set_entry j e es = (if j < length es then es[j := e] else es @ [e])"

lemma file_ok_imodcreat [simp]: "file_ok (imodcreat p s) q k bs = file_ok s q k bs"
  by (simp add: imodcreat_def file_ok_def)

lemma imodcreat_simps [simp]:
  "u_error (imodcreat p s) = u_error s" "i_size (inodes (imodcreat p s) q) = i_size (inodes s q)"
  "i_mode (inodes (imodcreat p s) q) = i_mode (inodes s q)" "i_dev (inodes (imodcreat p s) q) = i_dev (inodes s q)"
  "kept_bytes (imodcreat p s) q = kept_bytes s q"
  by (auto simp: imodcreat_def kept_bytes_def fun_eq_iff)

text \<open>A directory with \<open>n\<close> entries on a sound file system.\<close>

definition dir_ok :: "'a dir_state_scheme \<Rightarrow> nat \<Rightarrow> nat \<Rightarrow> int list \<Rightarrow> nat \<Rightarrow> bool" where
  "dir_ok s p k bs n \<longleftrightarrow> file_ok s p k bs \<and> i_type (inodes s p) = IFDIR \<and>
     i_size (inodes s p) = 16 * int n \<and> 16 * int n \<le> 512 * MAXBLOCK"

lemma nat_16 [simp]: "nat (16 * int n) div 16 = n"
  by (simp add: nat_mult_distrib)

lemma dir_ok_length: "dir_ok s p k bs n \<Longrightarrow> length (dir_entries s p) = n"
  by (simp add: dir_ok_def dir_entries_def)

lemma dir_ok_search:
  "dir_ok s p k bs n \<Longrightarrow> lookup_dir p e s = Some (Inr (search e (dir_entries s p) 0 None), s)"
  using lookup_dir_search [OF file_ok_readable, of s p k bs e] by (simp add: dir_ok_def)

lemma idirent_writes:
  fixes s :: "'a dir_state_scheme"
  assumes d: "dir_ok s p k bs n" and p: "u_pdiri s = p" and u: "u_error s = E_NONE"
    and j: "j \<le> n" "16 * int j < 512 * MAXBLOCK" and e: "length (d_name e) = DIRSIZ" "0 \<le> ino" "ino < 65536"
  shows "\<exists>s' bs'. idirent drvl ino (16 * int j) e s = Some s' \<and> set bs' \<subseteq> set bs \<and>
     ((u_error s' = ENOSPC \<and> bs' = [] \<and> dir_ok s' p k bs' n \<and> dir_entries s' p = dir_entries s p) \<or>
      (u_error s' = E_NONE \<and> dir_ok s' p k bs' (max n (Suc j)) \<and>
         dir_entries s' p = set_entry j (e\<lparr>d_ino := ino\<rparr>) (dir_entries s p)))"
proof -
  define iop where "iop = \<lparr>io_ioc = 16, io_seek = 16 * int j, io_flag = 0, io_from = direct_bytes (e\<lparr>d_ino := ino\<rparr>), io_into = []\<rparr>"
  define s0 where "s0 = imodcreat p s"
  have ok: "file_ok s0 p k bs" "i_type (inodes s0 p) = IFDIR" "u_error s0 = E_NONE" "i_size (inodes s0 p) = 16 * int n"
    using d u by (simp_all add: s0_def dir_ok_def i_type_def)
  have es0: "dir_entries s0 p = dir_entries s p" by (simp add: s0_def dir_entries_kept)
  have mnt: "getment (i_dev (inodes s0 p)) True s0 = (Some k, s0)" using ok(1) by (simp add: file_ok_def free_ok_def)
  have off: "blocko (io_seek iop) + 16 \<le> 512"
  proof -
    have "16 * int j mod 512 = 16 * (int j mod 32)" using mult_mod_right [of 16 "int j" 32] by simp
    moreover have "int j mod 32 \<le> 31" by simp
    ultimately show ?thesis by (simp only: iop_def blocko_def io.simps)
  qed
  have ioc: "io_ioc iop = 16" by (simp add: iop_def)
  have idir: "idirent drvl ino (16 * int j) e s = map_option snd (fwrite p iop s0)"
    using ok(2) mnt ioc unfolding idirent_def iwrite_def p Let_def s0_def [symmetric] iop_def [symmetric]
    by (simp add: done_or_stuck_def split: option.split)
  have io: "0 \<le> io_seek iop" "io_seek iop < 512 * MAXBLOCK" "io_ioc iop = int 16" "length (io_from iop) = 16"
    using j(2) e(1) by (simp_all add: iop_def length_direct_bytes)
  have nb: "i_type (inodes s0 p) \<noteq> IFBLK" using ok(2) by simp
  have n16: "0 < (16::nat)" "16 < (512::nat)" by simp_all
  note fw = fwrite_in_block [OF ok(1,3) nb io(1,2) off n16 io(3,4)]
  have sk: "io_seek iop = 16 * int j" by (simp add: iop_def)
  obtain iop' s' bs' xs where w: "fwrite p iop s0 = Some (iop', s')" "file_ok s' p k bs'"
    "set bs' \<subseteq> set bs" and c:
    "(u_error s' = ENOSPC \<and> bs' = [] \<and> inodes s' = (inodes s0)(p := (inodes s0 p)\<lparr>i_addr := xs\<rparr>) \<and> bytes_written s0 p (16 * int j) [] s') \<or>
     (u_error s' = E_NONE \<and> bytes_written s0 p (16 * int j) (io_from iop) s' \<and>
        inodes s' = (inodes s0)(p := resized (inodes s0 p) (max (i_size (inodes s0 p)) (16 * int j + int 16)) xs))"
    using fw unfolding sk by blast
  have r: "idirent drvl ino (16 * int j) e s = Some s'" using idir w(1) by simp
  have n: "16 * int n \<le> 512 * MAXBLOCK" using d by (simp add: dir_ok_def)
  from c show ?thesis
  proof (elim disjE conjE)
    assume h: "u_error s' = ENOSPC" "bs' = []" "inodes s' = (inodes s0)(p := (inodes s0 p)\<lparr>i_addr := xs\<rparr>)" "bytes_written s0 p (16 * int j) [] s'"
    have "entry_of (kept_bytes s' p) i = entry_of (kept_bytes s0 p) i" if "i < n" for i
    proof -
      have "kept_bytes s' p y = kept_bytes s0 p y" if "0 \<le> y" "y < 16 * int n" for y
        using h(4) that n by (simp add: bytes_written_def)
      then show ?thesis using that by (simp add: entry_of_def)
    qed
    then have "dir_entries s' p = dir_entries s p"
      unfolding es0 [symmetric] by (simp add: dir_entries_kept h(3) ok(4))
    then show ?thesis using r w(2,3) h ok(2,4) n by (auto simp: dir_ok_def i_type_def)
  next
    assume h: "u_error s' = E_NONE" "bytes_written s0 p (16 * int j) (io_from iop) s'"
      "inodes s' = (inodes s0)(p := resized (inodes s0 p) (max (i_size (inodes s0 p)) (16 * int j + int 16)) xs)"
    define m where "m = max n (Suc j)"
    have sz: "i_size (inodes s' p) = 16 * int m" using h(3) ok(4) by (auto simp: resized_def m_def max_def)
    have m: "16 * int m \<le> 512 * MAXBLOCK" using n j(2) by (simp add: m_def max_def)
    have en: "entry_of (kept_bytes s' p) i = (if i = j then e\<lparr>d_ino := ino\<rparr> else entry_of (kept_bytes s0 p) i)" if "i < m" for i
    proof (rule entry_of_written [where lim = "512 * MAXBLOCK"])
      show "16 * int i + 16 \<le> 512 * MAXBLOCK" using that m by linarith
      show "kept_bytes s' p y = (if 16 * int j \<le> y \<and> y < 16 * int j + 16 then direct_bytes (e\<lparr>d_ino := ino\<rparr>) ! nat (y - 16 * int j)
          else kept_bytes s0 p y)" if "0 \<le> y" "y < 512 * MAXBLOCK" for y
        using h(2) that e(1) by (simp add: bytes_written_def iop_def length_direct_bytes)
    qed (use e in simp_all)
    have "dir_entries s' p = set_entry j (e\<lparr>d_ino := ino\<rparr>) (dir_entries s0 p)"
    proof (cases "j < n")
      case True
      then have "m = n" by (simp add: m_def)
      then show ?thesis
        using upt_map_update [OF True, of "entry_of (kept_bytes s' p)" "e\<lparr>d_ino := ino\<rparr>" "entry_of (kept_bytes s0 p)"] en True
        by (simp add: dir_entries_kept sz ok(4) set_entry_def)
    next
      case False
      then have "m = Suc n" "j = n" using j(1) by (simp_all add: m_def)
      moreover have "nat (16 * int m) div 16 = m" by simp
      ultimately show ?thesis using en by (simp add: dir_entries_kept sz ok(4) set_entry_def del: of_nat_Suc)
    qed
    moreover have "dir_ok s' p k bs' m" using w(2) h(3) ok(2) sz m by (simp add: dir_ok_def i_type_def resized_def)
    ultimately show ?thesis using r w(3) h(1) es0 by (auto simp: m_def)
  qed
qed

section \<open>Finding names\<close>

lemma set_entry_conv: "j \<le> length es \<Longrightarrow> set_entry j e es = take j es @ e # drop (Suc j) es"
  by (auto simp: set_entry_def upd_conv_take_nth_drop)

lemma find_append: "find P (xs @ ys) = (case find P xs of None \<Rightarrow> find P ys | Some x \<Rightarrow> Some x)"
  by (induction xs) auto

lemma find_without: "(j < length es \<longrightarrow> \<not> P (es ! j)) \<Longrightarrow> find P es = find P (take j es @ drop (Suc j) es)"
  by (cases "j < length es")
    (simp_all add: find_append id_take_nth_drop [of j es, THEN arg_cong [where f = "find P"]] split: option.split)

lemma find_update:
  assumes "j \<le> length es" "j < length es \<longrightarrow> \<not> P (es ! j)"
  shows "find P (set_entry j e es) =
    (if P e \<and> (\<forall>x\<in>set (take j es). \<not> P x) then Some e else find P es)"
proof -
  have "find P (take j es) = None" if "\<forall>x\<in>set (take j es). \<not> P x" using that by (simp add: find_None_iff)
  moreover have "find P (take j es) \<noteq> None" if "\<not> (\<forall>x\<in>set (take j es). \<not> P x)" using that by (auto simp: find_None_iff)
  ultimately show ?thesis
    unfolding set_entry_conv [OF assms(1)] find_without [of j es P, OF assms(2)] find_append
    by (cases "\<forall>x\<in>set (take j es). \<not> P x"; cases "find P (take j es)") auto
qed

lemma entry_names: "x \<in> set (dir_entries s p) \<Longrightarrow> length (d_name x) = DIRSIZ"
  by (auto simp: dir_entries_kept entry_of_def)

lemma find_cong': "(\<And>x. x \<in> set xs \<Longrightarrow> P x = Q x) \<Longrightarrow> find P xs = find Q xs"
  by (induction xs) auto

lemma takeWhile_direq:
  "length (d_name e) = DIRSIZ \<Longrightarrow>
    takeWhile (\<lambda>x. \<not> direq x e) (dir_entries s p) = takeWhile (\<lambda>x. \<not> same_name x e) (dir_entries s p)"
  by (rule takeWhile_cong) (simp_all add: direq_same_name entry_names)

lemma find_direq:
  "length (d_name e) = DIRSIZ \<Longrightarrow>
    find (\<lambda>x. direq x e) (dir_entries s p) = find (\<lambda>x. same_name x e) (dir_entries s p)"
  by (rule find_cong') (simp add: direq_same_name entry_names)

lemma find_nth_takeWhile:
  "find P xs = (let n = length (takeWhile (\<lambda>x. \<not> P x) xs) in if n < length xs then Some (xs ! n) else None)"
  by (induction xs) (auto simp: Let_def)

section \<open>Properties of directories\<close>

text \<open>
  C29. The search of a directory. In a readable directory of at most the greatest file size, the search
  returns the inode number of the first entry in use whose name agrees with the given one up to the first 0
  or in all 14 bytes, with the position of the entry; if there is none, the position of the end. It also
  returns the position of the first free entry before that place. A name longer than 14 bytes was cut.
\<close>

theorem lookup_finds_first_entry:
  fixes s :: "'a fio_state_scheme"
  assumes "readable s p F" "0 \<le> i_size (inodes s p)" "i_size (inodes s p) \<le> 512 * MAXBLOCK" "length (d_name dirent) = DIRSIZ"
  shows "lookup_dir p dirent s =
    (let es = dir_entries s p; n = length (takeWhile (\<lambda>e. \<not> same_name e dirent) es);
         f = length (takeWhile (\<lambda>e. d_ino e \<noteq> 0) es)
     in Some (Inr (if n < length es then Some (d_ino (es ! n)) else None, 16 * int n,
                   if f < n then Some (16 * int f) else None), s))"
  unfolding lookup_dir_search [OF assms(1-3)] search_result Let_def takeWhile_direq [OF assms(4)] find_direq [OF assms(4)]
  by (simp add: find_nth_takeWhile Let_def)

text \<open>
  C30. Writing an entry. On a sound file system with a writable mount, \<open>idirent\<close> at a position of the directory or
  at its end replaces that entry, or adds it, and no other entry changes; the directory stays sound. If the disk
  is full it sets \<open>ENOSPC\<close> and the entries are as before. With inode number 0 this removes the entry.
\<close>

theorem idirent_sets_entry:
  fixes s :: "'a dir_state_scheme"
  assumes "dir_ok s (u_pdiri s) k bs n" "u_error s = E_NONE" "j \<le> n" "16 * int j < 512 * MAXBLOCK"
    "length (d_name e) = DIRSIZ" "0 \<le> ino" "ino < 65536"
  shows "\<exists>s' bs'. idirent drvl ino (16 * int j) e s = Some s' \<and> set bs' \<subseteq> set bs \<and>
     (u_error s' = ENOSPC \<and> bs' = [] \<and> dir_ok s' (u_pdiri s) k bs' n \<and> dir_entries s' (u_pdiri s) = dir_entries s (u_pdiri s) \<or>
      u_error s' = E_NONE \<and> dir_ok s' (u_pdiri s) k bs' (max n (Suc j)) \<and>
        dir_entries s' (u_pdiri s) =
          (if j < n then (dir_entries s (u_pdiri s))[j := e\<lparr>d_ino := ino\<rparr>]
           else dir_entries s (u_pdiri s) @ [e\<lparr>d_ino := ino\<rparr>]))"
  using idirent_writes [OF assms(1) refl assms(2-7)] dir_ok_length [OF assms(1)] unfolding set_entry_def by simp

text \<open>
  C31. Creating a name. When the search for creating does not find a name, and the entry is written at the place
  that the search returned, then either the disk is full, or the next search for the name finds the new
  inode number at that place, and every other name refers to what it referred to before.
\<close>

theorem created_name_is_found:
  fixes s :: "'a dir_state_scheme"
  assumes d: "dir_ok s (u_pdiri s) k bs n" and n: "16 * int n < 512 * MAXBLOCK" and u: "u_error s = E_NONE"
    and e: "length (d_name e) = DIRSIZ" and ino: "0 < ino" "ino < 65536"
    and l: "lookup_dir (u_pdiri s) e s = Some (Inr (None, cseek, fseek), s)"
    and slot: "slot = (case fseek of None \<Rightarrow> cseek | Some f \<Rightarrow> f)"
  shows "\<exists>s'. idirent drvl ino slot e s = Some s' \<and>
    (u_error s' = ENOSPC \<or>
     u_error s' = E_NONE \<and> (\<exists>f. lookup_dir (u_pdiri s) e s' = Some (Inr (Some ino, slot, f), s')) \<and>
     (\<forall>e2. length (d_name e2) = DIRSIZ \<and> takeWhile (\<lambda>c. c \<noteq> 0) (d_name e2) \<noteq> takeWhile (\<lambda>c. c \<noteq> 0) (d_name e) \<longrightarrow>
        (\<exists>r c f c' f'. lookup_dir (u_pdiri s) e2 s = Some (Inr (r, c, f), s) \<and>
           lookup_dir (u_pdiri s) e2 s' = Some (Inr (r, c', f'), s'))))"
proof -
  let ?p = "u_pdiri s"
  let ?es = "dir_entries s ?p"
  define e' where "e' = e\<lparr>d_ino := ino\<rparr>"
  note len = dir_ok_length [OF d]
  have sr: "search e ?es 0 None = (None, cseek, fseek)" using l dir_ok_search [OF d, of e] by simp
  define f where "f = length (takeWhile (\<lambda>x. d_ino x \<noteq> 0) ?es)"
  have none: "find (\<lambda>x. same_name x e) ?es = None" and cs: "cseek = 16 * int n" and fs: "fseek = (if f < n then Some (16 * int f) else None)"
    using sr len by (auto simp: search_result Let_def find_direq [OF e] f_def find_None_iff takeWhile_direq [OF e] takeWhile_eq_all_conv [THEN iffD2]
      split: if_splits)
  have fn: "f \<le> n" using len length_takeWhile_le [of "\<lambda>x. d_ino x \<noteq> 0" ?es] by (simp add: f_def)
  have sl: "slot = 16 * int f" using slot cs fs fn by (auto split: if_splits)
  have free: "f < n \<longrightarrow> d_ino (?es ! f) = 0" using nth_length_takeWhile [of "\<lambda>x. d_ino x \<noteq> 0" ?es] len by (auto simp: f_def)
  obtain s' bs' where w: "idirent drvl ino slot e s = Some s'" and
    c: "u_error s' = ENOSPC \<or> u_error s' = E_NONE \<and> dir_ok s' ?p k bs' (max n (Suc f)) \<and> dir_entries s' ?p = set_entry f e' ?es"
    using idirent_writes [OF d refl u fn _ e, of ino drvl] n ino fn unfolding sl e'_def by force
  show ?thesis
  proof (cases "u_error s' = ENOSPC")
    case False
    then have s': "u_error s' = E_NONE" "dir_ok s' ?p k bs' (max n (Suc f))" "dir_entries s' ?p = set_entry f e' ?es" using c by auto
    have look: "lookup_dir ?p e2 s' = Some (Inr (search e2 (set_entry f e' ?es) 0 None), s')" for e2
      using dir_ok_search [OF s'(2)] s'(3) by simp
    have nd: "f < length ?es \<longrightarrow> \<not> same_name (?es ! f) e2" for e2 using free len by (simp add: same_name_def)
    have fnd: "find (\<lambda>x. direq x e2) (set_entry f e' ?es) =
        (if same_name e' e2 \<and> (\<forall>x\<in>set (take f ?es). \<not> same_name x e2) then Some e' else find (\<lambda>x. same_name x e2) ?es)"
      if "length (d_name e2) = DIRSIZ" for e2
      using find_update [of f ?es "\<lambda>x. same_name x e2" e'] nd fn len find_direq [OF that, of s' ?p] s'(3) by simp
    have self: "same_name e' e" using ino by (simp add: same_name_def e'_def)
    have notin: "\<forall>x\<in>set ?es. \<not> same_name x e" using none by (simp add: find_None_iff)
    then have "find (\<lambda>x. direq x e) (set_entry f e' ?es) = Some e'"
      using fnd [OF e] self in_set_takeD by fastforce
    moreover have "length (takeWhile (\<lambda>x. \<not> direq x e) (set_entry f e' ?es)) = f"
    proof -
      have "direq e' e" using ino by (simp add: direq_def e'_def strncmp_eq_iff e)
      moreover have "\<not> direq x e" if "x \<in> set (take f ?es)" for x
        using notin in_set_takeD [OF that] direq_same_name [OF entry_names [of x s ?p] e] by simp
      ultimately show ?thesis using fn len by (simp add: set_entry_conv takeWhile_append2 min_def)
    qed
    ultimately have "\<exists>f'. lookup_dir ?p e s' = Some (Inr (Some ino, slot, f'), s')"
      unfolding look by (simp add: search_result Let_def sl e'_def)
    moreover have "\<exists>r c f c' f'. lookup_dir ?p e2 s = Some (Inr (r, c, f), s) \<and> lookup_dir ?p e2 s' = Some (Inr (r, c', f'), s')"
      if e2: "length (d_name e2) = DIRSIZ" "takeWhile (\<lambda>c. c \<noteq> 0) (d_name e2) \<noteq> takeWhile (\<lambda>c. c \<noteq> 0) (d_name e)" for e2
    proof -
      have "\<not> same_name e' e2" using e2(2) by (auto simp: same_name_def e'_def)
      then have "fst (search e2 (set_entry f e' ?es) 0 None) = fst (search e2 ?es 0 None)"
        using fnd [OF e2(1)] find_direq [OF e2(1), of s ?p] by (simp add: search_result Let_def)
      then show ?thesis unfolding look dir_ok_search [OF d]
        by (cases "search e2 ?es 0 None"; cases "search e2 (set_entry f e' ?es) 0 None") auto
    qed
    ultimately show ?thesis using w s'(1) by blast
  qed (use w in blast)
qed

section \<open>A directory to demonstrate with\<close>

definition demo_user :: "fio_state \<Rightarrow> dir_state" where
  "demo_user s = fio_state.extend s \<lparr>u_bpfmax = 1000, u_cdirn = 0, u_cdiri = 0, u_pdiri = 1, u_cdir = 1, u_rdir = 1,
     u_umask = 18, rootdev = 5\<rparr>"

lemma demo_user_simps [simp]:
  "u_error (demo_user s) = u_error s" "inodes (demo_user s) = inodes s" "disk (demo_user s) = disk s"
  "mountp (demo_user s) = mountp s" "lost_bufs (demo_user s) = lost_bufs s" "u_pdiri (demo_user s) = 1"
  by (simp_all add: demo_user_def fio_state.extend_def)

text \<open>An entry with the name \<^verbatim>\<open>.\<close>, a free one and one with the name \<^verbatim>\<open>a\<close>.\<close>

definition demo_dir_block :: block where
  "demo_dir_block = [2, 0, 46] @ replicate 29 0 @ [5, 0, 97] @ replicate 477 0"

definition demo_dir :: dir_state where
  "demo_dir = demo_user (demo_kernel (replicate 60 0) Map.empty
     (\<lambda>_. (demo_inode 16877)\<lparr>i_size := 48, i_addr := 30 # replicate 12 0\<rparr>)
     [demo_mount [7, 12, 9, 6] 4 5]
     ((\<lambda>_. Map.empty)(5 := (disk (demo_fs [7, 12, 9, 6] 4 5) 5)(30 \<mapsto> demo_dir_block))) (\<lambda>_. []))"

lemma demo_dir_simps [simp]:
  "u_error demo_dir = E_NONE" "inodes demo_dir p = (demo_inode 16877)\<lparr>i_size := 48, i_addr := 30 # replicate 12 0\<rparr>"
  "u_pdiri demo_dir = 1" "disk demo_dir 5 = (disk (demo_fs [7, 12, 9, 6] 4 5) 5)(30 \<mapsto> demo_dir_block)"
  by (simp_all add: demo_dir_def demo_kernel_def)

lemma length_demo_dir_block: "length demo_dir_block = 512"
  by (simp add: demo_dir_block_def)

lemma demo_dir_ok: "dir_ok demo_dir p 0 [6, 9, 12, 7, 20] 3"
proof -
  let ?s = "demo_fs [7, 12, 9, 6] 4 5"
  obtain s' where "bput 5 30 demo_dir_block ?s = Some s'" "free_ok 5 0 s' [6, 9, 12, 7, 20]"
    using bput_ok [OF demo_free_ok, of 30] by auto
  then have "free_ok 5 0 demo_dir [6, 9, 12, 7, 20]"
    by (elim free_ok_transfer) (auto simp: bput_def demo_dir_def demo_kernel_def demo_fs_def)
  moreover have "sound (disk demo_dir 5) (30 # replicate 12 0) {6, 9, 12, 7, 20}"
    by (rule sound_flat) (auto simp: nth_Cons length_demo_dir_block split: nat.splits)
  ultimately show ?thesis by (simp add: dir_ok_def file_ok_def demo_inode_def insert_commute i_type_def)
qed

text \<open>The name \<^verbatim>\<open>b\<close>.\<close>

definition demo_name :: direct where
  "demo_name = \<lparr>d_ino = 0, d_name = 98 # replicate 13 0\<rparr>"

lemma demo_dir_byte:
  assumes "0 \<le> x" "x < 48"
  shows "kept_bytes demo_dir p x = (if x = 0 then 2 else if x = 2 then 46 else if x = 32 then 5 else if x = 34 then 97 else 0)"
proof -
  have "kept_bytes demo_dir p x = demo_dir_block ! nat x"
    using assms by (simp add: kept_bytes_def file_byte_def demo_inode_def path_of_def lmap_def file_block_def)
  also have "\<dots> = (if nat x = 0 then 2 else if nat x = 2 then 46 else if nat x = 32 then 5 else if nat x = 34 then 97 else 0)"
    using assms by (simp add: demo_dir_block_def nth_append nth_Cons') arith
  finally show ?thesis using assms by (simp add: nat_eq_iff)
qed

lemma demo_dir_entries:
  "dir_entries demo_dir p = [\<lparr>d_ino = 2, d_name = 46 # replicate 13 0\<rparr>, \<lparr>d_ino = 0, d_name = replicate 14 0\<rparr>,
     \<lparr>d_ino = 5, d_name = 97 # replicate 13 0\<rparr>]"
proof -
  have n: "[0..<14] = [0,1,2,3,4,5,6,7,8,9,10,11,12,13::nat]" "[0..<3] = [0,1,2::nat]" by (simp_all add: upt_rec)
  have r: "replicate 14 (0::int) = [0,0,0,0,0,0,0,0,0,0,0,0,0,0]" "replicate 13 (0::int) = [0,0,0,0,0,0,0,0,0,0,0,0,0]"
    by (simp_all add: eval_nat_numeral)
  have sz: "nat (i_size (inodes demo_dir p)) div 16 = 3" by simp
  show ?thesis unfolding dir_entries_kept sz n r by (simp add: entry_of_def n demo_dir_byte)
qed

theorem lookup_finds_first_entry_witness:
  "lookup_dir 1 \<lparr>d_ino = 0, d_name = 97 # replicate 13 0\<rparr> demo_dir = Some (Inr (Some 5, 32, Some 16), demo_dir)"
  using lookup_finds_first_entry [of demo_dir 1 "{6, 9, 12, 7, 20}" "\<lparr>d_ino = 0, d_name = 97 # replicate 13 0\<rparr>"]
    file_ok_readable [of demo_dir 1 0 "[6, 9, 12, 7, 20]"] demo_dir_ok
  by (simp add: dir_ok_def demo_dir_entries same_name_def demo_inode_def)

theorem idirent_sets_entry_witness:
  "\<exists>s'. idirent (\<lambda>_ _. None) 0 32 demo_name demo_dir = Some s' \<and> u_error s' \<in> {E_NONE, ENOSPC}"
proof -
  have "16 * int 2 = 32" by simp
  then show ?thesis
    using idirent_sets_entry [of demo_dir 0 "[6, 9, 12, 7, 20]" 3 2 demo_name 0 "\<lambda>_ _. None"] demo_dir_ok
    by (auto simp: demo_name_def)
qed

theorem created_name_is_found_witness:
  "\<exists>s'. idirent (\<lambda>_ _. None) 7 16 demo_name demo_dir = Some s' \<and>
    (u_error s' = ENOSPC \<or> (\<exists>f. lookup_dir 1 demo_name s' = Some (Inr (Some 7, 16, f), s')))"
proof -
  have "lookup_dir 1 demo_name demo_dir = Some (Inr (None, 48, Some 16), demo_dir)"
    by (simp add: dir_ok_search [OF demo_dir_ok] demo_dir_entries demo_name_def direq_def strncmp_eq_iff)
  then show ?thesis
    using created_name_is_found [of demo_dir 0 "[6, 9, 12, 7, 20]" 3 demo_name 7 48 "Some 16" 16 "\<lambda>_ _. None"] demo_dir_ok
    by (auto simp: demo_name_def)
qed

section \<open>Empty directories\<close>

lemma block_empty_hole: "block_empty hole_block"
  by (auto simp: block_empty_def hole_block_def Let_def)

lemma dirempty_loop_holes:
  fixes s :: "'a fio_state_scheme"
  assumes r: "readable s p F" and sz: "i_size (inodes s p) \<le> 512 * 512"
    and past: "\<And>b. i_size (inodes s p) \<le> 512 * b \<Longrightarrow> b < MAXBLOCK \<Longrightarrow>
      file_block (disk s (i_dev (inodes s p))) (i_addr (inodes s p)) (path_of b) = hole_block"
  shows "512 \<le> n \<Longrightarrow> nat (i_size (inodes s p) - n) \<le> fuel \<Longrightarrow> dirempty_loop fuel p n s = Some (True, s)"
proof (induction fuel arbitrary: n)
  case (Suc fuel)
  show ?case
  proof (cases "n < i_size (inodes s p)")
    case True
    then have b: "0 \<le> n" "n < MAXBLOCK" "i_size (inodes s p) \<le> 512 * n" using sz Suc.prems by auto
    show ?thesis using True vread_ok(1) [OF r b(1,2)] past [OF b(3,2)] block_empty_hole Suc.IH [of "n + 512"] Suc.prems by simp
  qed simp
qed simp

text \<open>
  The check of \<open>rmdir\<close>. It numbers the blocks of the directory by their first bytes: 0, 512, 1024 and so on. In a
  directory of at most 512 blocks that has no blocks past its end, only the block 0 lies in the directory,
  so it counts as empty as soon as its first 32 entries are unused, or called \<^verbatim>\<open>.\<close> or \<^verbatim>\<open>..\<close>, whatever
  the others are.
\<close>

theorem isdirempty_sees_first_block:
  fixes s :: "'a fio_state_scheme"
  assumes "readable s p F" "0 < i_size (inodes s p)" "i_size (inodes s p) \<le> 512 * 512"
    and past: "\<And>b. i_size (inodes s p) \<le> 512 * b \<Longrightarrow> b < MAXBLOCK \<Longrightarrow>
      file_block (disk s (i_dev (inodes s p))) (i_addr (inodes s p)) (path_of b) = hole_block"
  shows "isdirempty p s =
    Some (block_empty (file_block (disk s (i_dev (inodes s p))) (i_addr (inodes s p)) (path_of 0)), s)"
proof -
  obtain fuel where f: "nat (i_size (inodes s p)) = Suc fuel" using assms(2) by (cases "nat (i_size (inodes s p))") auto
  have "dirempty_loop fuel p 512 s = Some (True, s)"
    by (rule dirempty_loop_holes [OF assms(1,3) past]) (use f in auto)
  then show ?thesis using vread_ok(1) [OF assms(1), of 0] assms(2) f by (simp add: isdirempty_def)
qed

text \<open>A directory with 32 unused entries and one in use.\<close>

definition demo_rest_block :: block where
  "demo_rest_block = [5, 0, 97] @ replicate 509 0"

definition demo_long_dir :: dir_state where
  "demo_long_dir = demo_user (demo_kernel (replicate 60 0) Map.empty
     (\<lambda>_. (demo_inode 16877)\<lparr>i_size := 528, i_addr := 30 # 31 # replicate 11 0\<rparr>) []
     ((\<lambda>_. Map.empty)(5 := [30 \<mapsto> replicate 512 0, 31 \<mapsto> demo_rest_block])) (\<lambda>_. []))"

lemma demo_long_dir_simps [simp]:
  "inodes demo_long_dir p = (demo_inode 16877)\<lparr>i_size := 528, i_addr := 30 # 31 # replicate 11 0\<rparr>"
  "disk demo_long_dir 5 = [30 \<mapsto> replicate 512 0, 31 \<mapsto> demo_rest_block]" "lost_bufs demo_long_dir = []"
  by (simp_all add: demo_long_dir_def demo_kernel_def)

lemma demo_long_readable: "readable demo_long_dir p {}"
proof -
  have "length demo_rest_block = 512" by (simp add: demo_rest_block_def)
  then have "sound (disk demo_long_dir 5) (30 # 31 # replicate 11 0) {}"
    by (intro sound_flat) (auto simp: nth_Cons split: nat.splits)
  then show ?thesis by (simp add: readable_def sound_def demo_inode_def)
qed

theorem isdirempty_sees_first_block_witness:
  "isdirempty 1 demo_long_dir = Some (True, demo_long_dir) \<and>
   direct_at (file_block (disk demo_long_dir 5) (i_addr (inodes demo_long_dir 1)) (path_of 1)) 0 =
     \<lparr>d_ino = 5, d_name = 97 # replicate 13 0\<rparr>"
proof -
  have "entry (disk demo_long_dir 5) (30 # 31 # replicate 11 0) (path_of b) = 0" if b: "2 \<le> b" "b < MAXBLOCK" for b
  proof -
    have g: "good (path_of b)" using path_of_leaf(1) [of b] b by (simp add: leaf_def)
    have "length (path_of b) = 1 \<longrightarrow> hd (path_of b) = nat b \<and> b < 10"
      using b by (auto simp: path_of_def lmap_def Let_def split: if_splits)
    moreover have "(30 # 31 # replicate 11 0) ! nat b = (0 :: int)" if "b < 10" using b(1) that by (simp add: nth_Cons')
    moreover have "\<forall>r. ND \<le> r \<and> r < NADDR \<longrightarrow> (30 # 31 # replicate 11 0) ! r = (0 :: int)" by (auto simp: nth_Cons')
    note entry_flat [OF g this, of "disk demo_long_dir 5"]
    ultimately show ?thesis by (cases "length (path_of b) = 1") simp_all
  qed
  then have "file_block (disk demo_long_dir 5) (30 # 31 # replicate 11 0) (path_of b) = hole_block"
    if "528 \<le> 512 * b" "b < MAXBLOCK" for b using that by (simp add: file_block_def)
  moreover have "file_block (disk demo_long_dir 5) (30 # 31 # replicate 11 0) (path_of 0) = hole_block"
    by (simp add: path_of_def lmap_def file_block_def hole_block_def)
  moreover have "direct_at (file_block (disk demo_long_dir 5) (30 # 31 # replicate 11 0) (path_of 1)) 0 =
     \<lparr>d_ino = 5, d_name = 97 # replicate 13 0\<rparr>"
    by (simp add: path_of_def lmap_def file_block_def demo_rest_block_def direct_at_def rd16_def)
  ultimately show ?thesis
    using isdirempty_sees_first_block [OF demo_long_readable, of 1] block_empty_hole by (simp add: demo_inode_def)
qed

section \<open>Modes\<close>







section \<open>Opening with truncation\<close>








end
