(* ===== verification/Stream_Messages.thy ===== *)
theory Stream_Messages
  imports Prelude "HOL-Library.Monad_Syntax"
begin

text \<open>
  The messages of STREAMS, \<^verbatim>\<open>conf/streams/src/strmlib.c\<close>, and the memory they are made of,
  \<^verbatim>\<open>strmem.c\<close>. A message block refers to a data block with a buffer; \<open>allocb\<close> allocates the two and the
  buffer as one piece of memory, a triple. Pointers are addresses and 0 is NULL. A result is \<open>None\<close> if
  the operation reads a block that is not allocated, or a buffer beyond its end.
\<close>

section \<open>State\<close>

record mblk =
  b_next :: nat
  b_prev :: nat
  b_cont :: nat
  b_rptr :: int
  b_wptr :: int
  b_datap :: nat
  b_band :: int
  b_flag :: int

text \<open>\<open>db_lim\<close> is the end of the buffer \<open>db_data\<close>, which begins at \<open>db_base\<close>.\<close>

record dblk =
  db_frtnp :: nat
  db_base :: int
  db_data :: "int list"
  db_ref :: int        \<comment> \<open>unsigned char\<close>
  db_type :: int       \<comment> \<open>unsigned char\<close>

text \<open>
  The heap of messages. \<open>st_answers\<close> are the results of the next calls of the heap manager \<open>st_alloc\<close>: an address,
  or 0, and what is in the memory there, seen as a message block and as bytes. \<open>free_calls\<close> are the buffers
  of users whose \<open>free_func\<close> has been called.
\<close>

type_synonym chunk = "nat \<times> mblk \<times> (int \<Rightarrow> int)"

record strmem = ustate +
  mblks :: "nat \<Rightarrow> mblk option"
  dblks :: "nat \<Rightarrow> dblk option"
  st_answers :: "chunk list"
  sm_used :: int
  sm_max :: "int list"
  free_calls :: "nat list"

abbreviation (input) MSGTRIPLE :: int where "MSGTRIPLE \<equiv> 256"
abbreviation (input) MSGFREE :: int where "MSGFREE \<equiv> 512"
abbreviation (input) MSGMASK_SYSTEM :: int where "MSGMASK_SYSTEM \<equiv> 768"
abbreviation (input) BPRI_LO :: nat where "BPRI_LO \<equiv> 0"
abbreviation (input) BPRI_MED :: nat where "BPRI_MED \<equiv> 1"
abbreviation (input) BPRI_HI :: nat where "BPRI_HI \<equiv> 2"
abbreviation (input) M_DATA :: int where "M_DATA \<equiv> 0"
abbreviation (input) M_DELAY :: int where "M_DELAY \<equiv> 2"
abbreviation (input) QPCTL :: int where "QPCTL \<equiv> 128"

text \<open>The layout of a triple: 32 bytes of message block, 20 of data block, the buffer.\<close>

definition MB_TO_DB :: "nat \<Rightarrow> nat" where "MB_TO_DB mp = mp + 32"
definition DB_TO_MB :: "nat \<Rightarrow> nat" where "DB_TO_MB db = db - 32"
definition DB_TO_DATA :: "nat \<Rightarrow> int" where "DB_TO_DATA db = int db + 20"
definition MSGB_SIZE :: "int \<Rightarrow> int" where "MSGB_SIZE n = n + 52"

definition upd_mb :: "(mblk \<Rightarrow> mblk) \<Rightarrow> nat \<Rightarrow> 'a strmem_scheme \<Rightarrow> 'a strmem_scheme" where
  "upd_mb f p s = s\<lparr>mblks := (mblks s)(p := map_option f (mblks s p))\<rparr>"

definition upd_db :: "(dblk \<Rightarrow> dblk) \<Rightarrow> nat \<Rightarrow> 'a strmem_scheme \<Rightarrow> 'a strmem_scheme" where
  "upd_db f p s = s\<lparr>dblks := (dblks s)(p := map_option f (dblks s p))\<rparr>"

text \<open>The length of a block.\<close>

definition blklen :: "mblk \<Rightarrow> int" where
  "blklen m = b_wptr m - b_rptr m"

text \<open>\<open>memcpy\<close> out of and into the buffer of a data block, from an address on.\<close>

definition bytes_at :: "dblk \<Rightarrow> int \<Rightarrow> int \<Rightarrow> int list option" where
  "bytes_at db a n =
     (if db_base db \<le> a \<and> 0 \<le> n \<and> a + n \<le> db_base db + int (length (db_data db))
      then Some (take (nat n) (drop (nat (a - db_base db)) (db_data db))) else None)"

definition store_at :: "int \<Rightarrow> int list \<Rightarrow> dblk \<Rightarrow> dblk option" where
  "store_at a bs db =
     (let k = nat (a - db_base db) in
      if db_base db \<le> a \<and> k + length bs \<le> length (db_data db)
      then Some (db\<lparr>db_data := take k (db_data db) @ bs @ drop (k + length bs) (db_data db)\<rparr>) else None)"

definition memcpy :: "nat \<Rightarrow> int \<Rightarrow> nat \<Rightarrow> int \<Rightarrow> int \<Rightarrow> 'a strmem_scheme \<Rightarrow> 'a strmem_scheme option" where
  "memcpy dest a source b n s = do {
     src \<leftarrow> dblks s source; bs \<leftarrow> bytes_at src b n; dst \<leftarrow> dblks s dest; dst' \<leftarrow> store_at a bs dst;
     Some (upd_db (\<lambda>_. dst') dest s) }"

section \<open>Memory\<close>

text \<open>\<open>STRMEM_ALLOC\<close> without sleeping.\<close>

definition STRMEM_ALLOC :: "int \<Rightarrow> nat \<Rightarrow> 'a strmem_scheme \<Rightarrow> chunk option \<times> 'a strmem_scheme" where
  "STRMEM_ALLOC sz pri s =
     (if sz > sm_max s ! pri then (None, s)
      else if sm_used s + sz \<le> sm_max s ! pri then
        (case st_answers s of
           [] \<Rightarrow> (None, s)
         | c # cs \<Rightarrow> if fst c \<noteq> 0 then (Some c, s\<lparr>st_answers := cs, sm_used := sm_used s + sz\<rparr>)
                     else (None, s\<lparr>st_answers := cs\<rparr>))
      else (None, s))"

definition STRMEM_FREE :: "nat \<Rightarrow> int \<Rightarrow> 'a strmem_scheme \<Rightarrow> 'a strmem_scheme" where
  "STRMEM_FREE bp sz s =
     s\<lparr>mblks := (mblks s)(bp := None), dblks := (dblks s)(MB_TO_DB bp := None), sm_used := sm_used s - sz\<rparr>"

definition MSGB_ALLOC :: "int \<Rightarrow> nat \<Rightarrow> 'a strmem_scheme \<Rightarrow> nat \<times> 'a strmem_scheme" where
  "MSGB_ALLOC sz pri s =
     (case STRMEM_ALLOC (MSGB_SIZE sz) pri s of
        (None, s1) \<Rightarrow> (0, s1)
      | (Some (p, m, mem), s1) \<Rightarrow>
          let d = MB_TO_DB p; base = DB_TO_DATA d in
          (p, s1\<lparr>mblks := (mblks s1)(p \<mapsto> m\<lparr>b_cont := 0, b_datap := d, b_rptr := base, b_wptr := base,
                                              b_flag := MSGTRIPLE, b_band := 0\<rparr>),
                 dblks := (dblks s1)(d \<mapsto> \<lparr>db_frtnp = 0, db_base = base,
                                            db_data = map (\<lambda>i. mem (base + int i)) [0..<nat sz],
                                            db_ref = 1, db_type = M_DATA\<rparr>)\<rparr>))"

definition allocb :: "int \<Rightarrow> nat \<Rightarrow> 'a strmem_scheme \<Rightarrow> nat \<times> 'a strmem_scheme" where
  "allocb sz pri s = MSGB_ALLOC sz pri s"

text \<open>A message block for the buffer \<open>user\<close> of the caller at \<open>base\<close>.\<close>

definition esballoc :: "int \<Rightarrow> int list \<Rightarrow> nat \<Rightarrow> nat \<Rightarrow> 'a strmem_scheme \<Rightarrow> nat \<times> 'a strmem_scheme" where
  "esballoc base user pri fr_rtnp s =
     (case STRMEM_ALLOC (MSGB_SIZE 0) pri s of
        (None, s1) \<Rightarrow> (0, s1)
      | (Some (p, m, _), s1) \<Rightarrow>
          let d = MB_TO_DB p in
          (p, s1\<lparr>mblks := (mblks s1)(p \<mapsto> m\<lparr>b_cont := 0, b_datap := d, b_rptr := base, b_wptr := base,
                                              b_flag := MSGTRIPLE, b_band := 0\<rparr>),
                 dblks := (dblks s1)(d \<mapsto> \<lparr>db_frtnp = fr_rtnp, db_base = base, db_data = user,
                                            db_ref = 1, db_type = M_DATA\<rparr>)\<rparr>))"

text \<open>The end of \<open>freeb\<close>: the triple at \<open>bp\<close> is freed, with the size of the data block \<open>datap\<close>.\<close>

definition free_triple :: "nat \<Rightarrow> nat \<Rightarrow> 'a strmem_scheme \<Rightarrow> 'a strmem_scheme option" where
  "free_triple bp datap s = do {
     db \<leftarrow> dblks s datap;
     Some (if db_base db \<noteq> DB_TO_DATA datap
           then (STRMEM_FREE bp (MSGB_SIZE 0) s)\<lparr>free_calls := free_calls s @ [db_frtnp db]\<rparr>
           else STRMEM_FREE bp (MSGB_SIZE (int (length (db_data db)))) s) }"

definition freeb :: "nat \<Rightarrow> 'a strmem_scheme \<Rightarrow> 'a strmem_scheme option" where
  "freeb bp s = do {
     m \<leftarrow> mblks s bp;
     db \<leftarrow> dblks s (b_datap m);
     let ref = (db_ref db - 1) mod 256; s1 = upd_db (\<lambda>db. db\<lparr>db_ref := ref\<rparr>) (b_datap m) s;
         triple = b_flag m AND MSGTRIPLE \<noteq> 0
     in if ref > 0 then
          (if \<not> triple then Some (STRMEM_FREE bp 32 s1)
           else do {
             own \<leftarrow> dblks s1 (MB_TO_DB bp);
             if db_ref own > 0 then Some (upd_mb (\<lambda>m. m\<lparr>b_flag := b_flag m OR MSGFREE\<rparr>) bp s1)
             else free_triple bp (MB_TO_DB bp) s1 })
        else if \<not> triple then
          (let s2 = STRMEM_FREE bp 32 s1; bp' = DB_TO_MB (b_datap m) in do {
             m' \<leftarrow> mblks s2 bp';
             if b_flag m' AND MSGFREE = 0 then Some s2 else free_triple bp' (b_datap m) s2 })
        else free_triple bp (b_datap m) s1 }"

partial_function (option) freemsg :: "nat \<Rightarrow> 'a strmem_scheme \<Rightarrow> 'a strmem_scheme option" where
  "freemsg mp s = do {
     m \<leftarrow> mblks s mp;
     s1 \<leftarrow> freeb mp s;
     if b_cont m = 0 then Some s1 else freemsg (b_cont m) s1 }"

section \<open>Kinds of messages and their sizes\<close>

definition datamsg :: "int \<Rightarrow> bool" where
  "datamsg ty = ((ty AND (QPCTL - 1)) mod 256 \<le> M_DELAY)"

definition pcmsg :: "int \<Rightarrow> bool" where
  "pcmsg ty = (ty \<ge> QPCTL)"

text \<open>The loops over a message go on from the sum so far.\<close>

partial_function (option) size_loop :: "nat \<Rightarrow> int \<Rightarrow> 'a strmem_scheme \<Rightarrow> int option" where
  "size_loop mp acc s = do {
     m \<leftarrow> mblks s mp;
     let acc1 = acc + blklen m in if b_cont m = 0 then Some acc1 else size_loop (b_cont m) acc1 s }"

definition MSG_SIZE :: "nat \<Rightarrow> 'a strmem_scheme \<Rightarrow> int option" where
  "MSG_SIZE mp s = size_loop mp 0 s"

partial_function (option) dsize_loop :: "nat \<Rightarrow> int \<Rightarrow> 'a strmem_scheme \<Rightarrow> int option" where
  "dsize_loop mp acc s = do {
     m \<leftarrow> mblks s mp;
     db \<leftarrow> dblks s (b_datap m);
     let acc1 = (if db_type db = M_DATA then acc + blklen m else acc)
     in if b_cont m = 0 then Some acc1 else dsize_loop (b_cont m) acc1 s }"

definition msgdsize :: "nat \<Rightarrow> 'a strmem_scheme \<Rightarrow> int option" where
  "msgdsize mp s = dsize_loop mp 0 s"

section \<open>Linking blocks\<close>

partial_function (option) linkb :: "nat \<Rightarrow> nat \<Rightarrow> 'a strmem_scheme \<Rightarrow> 'a strmem_scheme option" where
  "linkb mp1 mp2 s = do {
     m \<leftarrow> mblks s mp1;
     if b_cont m \<noteq> 0 then linkb (b_cont m) mp2 s else Some (upd_mb (\<lambda>m. m\<lparr>b_cont := mp2\<rparr>) mp1 s) }"

definition unlinkb :: "nat \<Rightarrow> 'a strmem_scheme \<Rightarrow> (nat \<times> 'a strmem_scheme) option" where
  "unlinkb mp s = do { m \<leftarrow> mblks s mp; Some (b_cont m, upd_mb (\<lambda>m. m\<lparr>b_cont := 0\<rparr>) mp s) }"

text \<open>\<open>rmvb\<close>; the result is \<open>None\<close> inside if the block is not part of the message (the code returns -1).\<close>

partial_function (option) rmvb_loop :: "nat \<Rightarrow> nat \<Rightarrow> nat \<Rightarrow> 'a strmem_scheme \<Rightarrow> (nat option \<times> 'a strmem_scheme) option" where
  "rmvb_loop mp bp scan s =
     (if scan = 0 then Some (None, s)
      else do {
        m \<leftarrow> mblks s scan;
        if b_cont m = bp then do { b \<leftarrow> mblks s bp; Some (Some mp, upd_mb (\<lambda>m. m\<lparr>b_cont := b_cont b\<rparr>) scan s) }
        else rmvb_loop mp bp (b_cont m) s })"

definition rmvb :: "nat \<Rightarrow> nat \<Rightarrow> 'a strmem_scheme \<Rightarrow> (nat option \<times> 'a strmem_scheme) option" where
  "rmvb mp bp s =
     (if mp = bp then do { m \<leftarrow> mblks s mp; Some (Some (b_cont m), s) } else rmvb_loop mp bp mp s)"

section \<open>Duplicates and copies\<close>

text \<open>A duplicate shares the data block. Its band and flags are what was in the memory it got.\<close>

definition dupb :: "nat \<Rightarrow> 'a strmem_scheme \<Rightarrow> (nat \<times> 'a strmem_scheme) option" where
  "dupb bp s =
     (case STRMEM_ALLOC 32 BPRI_HI s of
        (None, s1) \<Rightarrow> Some (0, s1)
      | (Some (p, m, _), s1) \<Rightarrow> do {
          b \<leftarrow> mblks s1 bp;
          Some (p, upd_db (\<lambda>db. db\<lparr>db_ref := (db_ref db + 1) mod 256\<rparr>) (b_datap b)
                 (s1\<lparr>mblks := (mblks s1)(p \<mapsto> m\<lparr>b_cont := 0, b_datap := b_datap b, b_rptr := b_rptr b,
                                                b_wptr := b_wptr b\<rparr>)\<rparr>)) })"

partial_function (option) dup_loop :: "nat \<Rightarrow> nat \<Rightarrow> nat \<Rightarrow> 'a strmem_scheme \<Rightarrow> (nat \<times> 'a strmem_scheme) option" where
  "dup_loop msg newblk mp s = do {
     m \<leftarrow> mblks s mp;
     if b_cont m = 0 then Some (msg, s)
     else do {
       (nb, s1) \<leftarrow> dupb (b_cont m) s;
       let s2 = upd_mb (\<lambda>m. m\<lparr>b_cont := nb\<rparr>) newblk s1 in
       if nb = 0 then do { s3 \<leftarrow> freemsg msg s2; Some (0, s3) }
       else dup_loop msg nb (b_cont m) s2 }}"

definition dupmsg :: "nat \<Rightarrow> 'a strmem_scheme \<Rightarrow> (nat \<times> 'a strmem_scheme) option" where
  "dupmsg mp s = do {
     (msg, s1) \<leftarrow> dupb mp s;
     if msg = 0 then Some (0, s1) else dup_loop msg msg mp s1 }"

definition copyb :: "nat \<Rightarrow> 'a strmem_scheme \<Rightarrow> (nat \<times> 'a strmem_scheme) option" where
  "copyb bp s = do {
     b \<leftarrow> mblks s bp;
     let sz = blklen b in
     if sz = 0 then Some (MSGB_ALLOC 0 BPRI_LO s)
     else
       case MSGB_ALLOC sz BPRI_LO s of
         (p, s1) \<Rightarrow>
           if p = 0 then Some (0, s1)
           else do {
             db \<leftarrow> dblks s1 (b_datap b);
             m \<leftarrow> mblks s1 p;
             s2 \<leftarrow> memcpy (b_datap m) (b_rptr m) (b_datap b) (b_rptr b) sz
                    (upd_db (\<lambda>d. d\<lparr>db_type := db_type db\<rparr>) (b_datap m) s1);
             Some (p, upd_mb (\<lambda>m. m\<lparr>b_wptr := b_wptr m + sz\<rparr>) p s2) }}"

text \<open>\<open>copymsg\<close> allocates all blocks before it copies.\<close>

partial_function (option) copy_alloc :: "nat \<Rightarrow> nat \<Rightarrow> nat \<Rightarrow> 'a strmem_scheme \<Rightarrow> (bool \<times> 'a strmem_scheme) option" where
  "copy_alloc msg newblk oldscan s =
     (if oldscan = 0 then Some (True, s)
      else do {
        m \<leftarrow> mblks s oldscan;
        case MSGB_ALLOC (blklen m) BPRI_LO s of
          (nb, s1) \<Rightarrow>
            let s2 = upd_mb (\<lambda>m. m\<lparr>b_cont := nb\<rparr>) newblk s1 in
            if nb = 0 then do { s3 \<leftarrow> freemsg msg s2; Some (False, s3) }
            else copy_alloc msg nb (b_cont m) s2 })"

partial_function (option) copy_loop :: "nat \<Rightarrow> nat \<Rightarrow> 'a strmem_scheme \<Rightarrow> 'a strmem_scheme option" where
  "copy_loop newblk oldscan s = do {
     o' \<leftarrow> mblks s oldscan;
     n' \<leftarrow> mblks s newblk;
     s1 \<leftarrow> (if blklen o' \<noteq> 0 then memcpy (b_datap n') (b_rptr n') (b_datap o') (b_rptr o') (blklen o') s else Some s);
     let s2 = upd_mb (\<lambda>m. m\<lparr>b_wptr := b_wptr m + blklen o'\<rparr>) newblk s1 in
     if b_cont n' = 0 then Some s2 else copy_loop (b_cont n') (b_cont o') s2 }"

definition copymsg :: "nat \<Rightarrow> 'a strmem_scheme \<Rightarrow> (nat \<times> 'a strmem_scheme) option" where
  "copymsg mp s = do {
     m \<leftarrow> mblks s mp;
     case MSGB_ALLOC (blklen m) BPRI_LO s of
       (msg, s1) \<Rightarrow>
         if msg = 0 then Some (0, s1)
         else do {
           (ok, s2) \<leftarrow> copy_alloc msg msg (b_cont m) s1;
           if \<not> ok then Some (0, s2)
           else do { s3 \<leftarrow> copy_loop msg mp s2; Some (msg, s3) }}}"

section \<open>Trimming\<close>

partial_function (option) adj_head :: "nat \<Rightarrow> int \<Rightarrow> int \<Rightarrow> 'a strmem_scheme \<Rightarrow> (int \<times> 'a strmem_scheme) option" where
  "adj_head mp msgtype len s =
     (if len = 0 then Some (1, s)
      else do {
        m \<leftarrow> mblks s mp;
        if blklen m \<ge> len then Some (1, upd_mb (\<lambda>m. m\<lparr>b_rptr := b_rptr m + len\<rparr>) mp s)
        else if b_cont m = 0 then Some (0, upd_mb (\<lambda>m. m\<lparr>b_rptr := b_wptr m\<rparr>) mp s)
        else do {
          db \<leftarrow> dblks s (b_datap m);
          let s1 = upd_mb (\<lambda>m. m\<lparr>b_rptr := db_base db, b_wptr := db_base db\<rparr>) mp s in do {
            m' \<leftarrow> mblks s1 (b_cont m);
            db' \<leftarrow> dblks s1 (b_datap m');
            if db_type db' \<noteq> msgtype then Some (0, s1) else adj_head (b_cont m) msgtype (len - blklen m) s1 }}})"

text \<open>The block at which the last blocks of one type begin, and their size.\<close>

partial_function (option) adj_span :: "nat \<Rightarrow> int \<Rightarrow> nat \<Rightarrow> int \<Rightarrow> 'a strmem_scheme \<Rightarrow> (nat \<times> int) option" where
  "adj_span mp msgtype span sz s = do {
     m \<leftarrow> mblks s mp;
     let sz1 = sz + blklen m in
     if b_cont m = 0 then Some (span, sz1)
     else do {
       m' \<leftarrow> mblks s (b_cont m);
       db' \<leftarrow> dblks s (b_datap m');
       if db_type db' \<noteq> msgtype then adj_span (b_cont m) (db_type db') (b_cont m) 0 s
       else adj_span (b_cont m) msgtype span sz1 s }}"

partial_function (option) adj_tail :: "nat \<Rightarrow> int \<Rightarrow> int \<Rightarrow> 'a strmem_scheme \<Rightarrow> 'a strmem_scheme option" where
  "adj_tail span sz len s =
     (if sz > 0 then do {
        m \<leftarrow> mblks s span;
        let sz1 = sz - blklen m in
        if sz1 < len then adj_tail (b_next m) sz1 sz1 (upd_mb (\<lambda>m. m\<lparr>b_wptr := b_wptr m - (len - sz1)\<rparr>) span s)
        else adj_tail (b_next m) sz1 len s }
      else Some s)"

definition adjmsg :: "nat \<Rightarrow> int \<Rightarrow> 'a strmem_scheme \<Rightarrow> (int \<times> 'a strmem_scheme) option" where
  "adjmsg mp len s = do {
     m \<leftarrow> mblks s mp;
     db \<leftarrow> dblks s (b_datap m);
     if len \<ge> 0 then adj_head mp (db_type db) len s
     else do {
       (span, sz) \<leftarrow> adj_span mp (db_type db) mp 0 s;
       let result = (if sz < len then 0 else 1); len1 = (if sz < len then sz else len) in do {
         s1 \<leftarrow> adj_tail span sz len1 s;
         Some (result, s1) }}}"

section \<open>Pulling up\<close>

text \<open>A comparison with a \<^verbatim>\<open>size_t\<close> is unsigned.\<close>

definition size_t :: "int \<Rightarrow> int" where
  "size_t n = n mod 4294967296"

partial_function (option) pullup_size :: "nat \<Rightarrow> int \<Rightarrow> int \<Rightarrow> 'a strmem_scheme \<Rightarrow> int option" where
  "pullup_size scan msgtype sz s = do {
     m \<leftarrow> mblks s scan;
     let sz1 = sz + blklen m in
     if b_cont m = 0 then Some sz1
     else do {
       m' \<leftarrow> mblks s (b_cont m);
       db' \<leftarrow> dblks s (b_datap m');
       if db_type db' = msgtype then pullup_size (b_cont m) msgtype sz1 s else Some sz1 }}"

partial_function (option) pullup_loop :: "nat \<Rightarrow> nat \<Rightarrow> int \<Rightarrow> 'a strmem_scheme \<Rightarrow> (nat \<times> 'a strmem_scheme) option" where
  "pullup_loop scan mp len s =
     (if mp = 0 then Some (scan, s)
      else do {
        m \<leftarrow> mblks s mp;
        c \<leftarrow> mblks s scan;
        s1 \<leftarrow> (if blklen m \<noteq> 0 then memcpy (b_datap c) (b_wptr c) (b_datap m) (b_rptr m) (blklen m) s else Some s);
        let s2 = upd_mb (\<lambda>c. c\<lparr>b_wptr := b_wptr c + blklen m\<rparr>) scan s1; len1 = len - blklen m in
        if blklen m > size_t len1 then do {
          (rest, s3) \<leftarrow> dupmsg mp s2;
          let s4 = upd_mb (\<lambda>c. c\<lparr>b_cont := rest\<rparr>) scan s3 in
          if rest = 0 then do { s5 \<leftarrow> freeb scan s4; Some (0, s5) } else Some (scan, s4) }
        else pullup_loop scan (b_cont m) len1 s2 })"

definition msgpullup :: "nat \<Rightarrow> int \<Rightarrow> 'a strmem_scheme \<Rightarrow> (nat \<times> 'a strmem_scheme) option" where
  "msgpullup mp len s =
     (if len = 0 then dupmsg mp s
      else do {
        m \<leftarrow> mblks s mp;
        db \<leftarrow> dblks s (b_datap m);
        sz \<leftarrow> pullup_size mp (db_type db) 0 s;
        if len \<noteq> -1 \<and> size_t len > sz then Some (0, s)
        else
          let len1 = (if len = -1 then sz else len) in
          case MSGB_ALLOC len1 BPRI_MED s of
            (scan, s1) \<Rightarrow>
              if scan = 0 then Some (0, s1)
              else pullup_loop scan mp len1
                     (upd_mb (\<lambda>c. c\<lparr>b_band := b_band m, b_flag := b_flag c OR (b_flag m AND NOT MSGMASK_SYSTEM)\<rparr>) scan s1) })"

definition pullupmsg :: "nat \<Rightarrow> int \<Rightarrow> 'a strmem_scheme \<Rightarrow> (int \<times> 'a strmem_scheme) option" where
  "pullupmsg mp len s = do {
     m \<leftarrow> mblks s mp;
     if (blklen m > len \<or> len = -1 \<and> b_cont m = 0) \<and> b_rptr m mod 4 = 0 then Some (1, s)
     else do {
       (new, s1) \<leftarrow> msgpullup mp len s;
       if new = 0 then Some (0, s1)
       else do {
         n \<leftarrow> mblks s1 new;
         m1 \<leftarrow> mblks s1 mp;
         s2 \<leftarrow> freemsg new
                (upd_mb (\<lambda>m. m\<lparr>b_datap := b_datap n, b_cont := b_cont n, b_rptr := b_rptr n, b_wptr := b_wptr n\<rparr>) mp
                  (upd_mb (\<lambda>n. n\<lparr>b_datap := b_datap m1, b_cont := b_cont m1\<rparr>) new s1));
         Some (1, s2) }}}"

end
