(* ===== verification/Stream_Queues.thy ===== *)
theory Stream_Queues
  imports Stream_Messages
begin

text \<open>
  The queues of STREAMS, \<^verbatim>\<open>conf/streams/src/strmlib.c\<close>, and their schedule, \<^verbatim>\<open>strmisc.c\<close>. The messages of a queue
  are linked in both directions through their first blocks; queues and bands have addresses, as the blocks
  do. A result is \<open>None\<close> if the operation follows a pointer to nothing, or freezes a queue that is frozen and
  so never returns.
\<close>

section \<open>State\<close>

record squeue =
  qi_srvp :: bool      \<comment> \<open>there is a service procedure\<close>
  q_first :: nat
  q_last :: nat
  q_next :: nat
  q_link :: nat
  q_count :: int       \<comment> \<open>unsigned long\<close>
  q_flag :: int
  q_hiwat :: int
  q_lowat :: int
  q_bandp :: nat
  q_nband :: int
  q_active :: int
  q_lastband :: int
  q_locked :: bool

record qband =
  qb_next :: nat
  qb_count :: int
  qb_first :: nat
  qb_last :: nat
  qb_hiwat :: int
  qb_lowat :: int
  qb_flag :: int

text \<open>
  \<open>km_answers\<close> are the addresses that the next calls of \<^verbatim>\<open>kmem_zalloc\<close> return, or 0; \<open>str_woken\<close> counts
  the broadcasts to processes that wait for a queue to drain or to become idle; \<open>run_strsched\<close> is the request
  to run the schedule.
\<close>

record q_state = strmem +
  squeues :: "nat \<Rightarrow> squeue option"
  qbands :: "nat \<Rightarrow> qband option"
  km_answers :: "nat list"
  ss_head :: nat
  ss_tail :: nat
  run_strsched :: bool
  str_woken :: nat

abbreviation (input) QENAB :: int where "QENAB \<equiv> 1"
abbreviation (input) QWANTR :: int where "QWANTR \<equiv> 2"
abbreviation (input) QWANTW :: int where "QWANTW \<equiv> 4"
abbreviation (input) QFULL :: int where "QFULL \<equiv> 8"
abbreviation (input) QREADR :: int where "QREADR \<equiv> 16"
abbreviation (input) QNOENB :: int where "QNOENB \<equiv> 32"
abbreviation (input) QBACK :: int where "QBACK \<equiv> 64"
abbreviation (input) QPROCSOFF :: int where "QPROCSOFF \<equiv> 256"
abbreviation (input) QDRAIN :: int where "QDRAIN \<equiv> 512"
abbreviation (input) QSRVACTIVE :: int where "QSRVACTIVE \<equiv> 1024"
abbreviation (input) QB_FULL :: int where "QB_FULL \<equiv> 1"
abbreviation (input) QB_WANTW :: int where "QB_WANTW \<equiv> 2"
abbreviation (input) QB_FIRST :: int where "QB_FIRST \<equiv> 256"
abbreviation (input) FLUSHALL :: int where "FLUSHALL \<equiv> 1"
abbreviation (input) FLUSHDATA :: int where "FLUSHDATA \<equiv> 0"
abbreviation (input) SO_HIWAT :: int where "SO_HIWAT \<equiv> 16"
abbreviation (input) SO_LOWAT :: int where "SO_LOWAT \<equiv> 32"
abbreviation (input) SO_BAND :: int where "SO_BAND \<equiv> 16384"

text \<open>Flags of a word.\<close>

definition has :: "int \<Rightarrow> int \<Rightarrow> bool" where
  "has x f \<longleftrightarrow> x AND f \<noteq> 0"

definition upd_q :: "(squeue \<Rightarrow> squeue) \<Rightarrow> nat \<Rightarrow> 'a q_state_scheme \<Rightarrow> 'a q_state_scheme" where
  "upd_q f q s = s\<lparr>squeues := (squeues s)(q := map_option f (squeues s q))\<rparr>"

definition upd_qb :: "(qband \<Rightarrow> qband) \<Rightarrow> nat \<Rightarrow> 'a q_state_scheme \<Rightarrow> 'a q_state_scheme" where
  "upd_qb f b s = s\<lparr>qbands := (qbands s)(b := map_option f (qbands s b))\<rparr>"

definition set_flag :: "int \<Rightarrow> nat \<Rightarrow> 'a q_state_scheme \<Rightarrow> 'a q_state_scheme" where
  "set_flag f = upd_q (\<lambda>x. x\<lparr>q_flag := q_flag x OR f\<rparr>)"

definition clear_flag :: "int \<Rightarrow> nat \<Rightarrow> 'a q_state_scheme \<Rightarrow> 'a q_state_scheme" where
  "clear_flag f = upd_q (\<lambda>x. x\<lparr>q_flag := q_flag x AND NOT f\<rparr>)"

text \<open>The read queue of a pair comes first; a queue takes 68 bytes, a band 32.\<close>

definition OTHERQ :: "nat \<Rightarrow> 'a q_state_scheme \<Rightarrow> nat option" where
  "OTHERQ q s = do { x \<leftarrow> squeues s q; Some (if has (q_flag x) QREADR then q + 68 else q - 68) }"

definition RD :: "nat \<Rightarrow> 'a q_state_scheme \<Rightarrow> nat option" where
  "RD q s = do { x \<leftarrow> squeues s q; Some (if has (q_flag x) QREADR then q else q - 68) }"

definition IS_PRI_MSG :: "nat \<Rightarrow> 'a strmem_scheme \<Rightarrow> bool option" where
  "IS_PRI_MSG mp s = do { m \<leftarrow> mblks s mp; db \<leftarrow> dblks s (b_datap m); Some (pcmsg (db_type db)) }"

section \<open>Freezing\<close>

definition QFREEZE_TRACE :: "nat \<Rightarrow> 'a q_state_scheme \<Rightarrow> 'a q_state_scheme option" where
  "QFREEZE_TRACE q s = do { x \<leftarrow> squeues s q; if q_locked x then None else Some (upd_q (\<lambda>x. x\<lparr>q_locked := True\<rparr>) q s) }"

definition QUNFREEZE_TRACE :: "nat \<Rightarrow> 'a q_state_scheme \<Rightarrow> 'a q_state_scheme option" where
  "QUNFREEZE_TRACE q s = do { _ \<leftarrow> squeues s q; Some (upd_q (\<lambda>x. x\<lparr>q_locked := False\<rparr>) q s) }"

section \<open>Bands\<close>

primrec band_walk :: "nat \<Rightarrow> nat \<Rightarrow> 'a q_state_scheme \<Rightarrow> nat option" where
  "band_walk 0 b s = Some b"
| "band_walk (Suc n) b s = do { x \<leftarrow> qbands s b; if qb_next x = 0 then Some 0 else band_walk n (qb_next x) s }"

definition QUEUE_BAND :: "nat \<Rightarrow> int \<Rightarrow> 'a q_state_scheme \<Rightarrow> nat option" where
  "QUEUE_BAND q pri s = do {
     x \<leftarrow> squeues s q;
     if q_bandp x = 0 then Some 0 else band_walk (nat ((pri - 1) mod 256)) (q_bandp x) s }"

partial_function (option) prev_band :: "nat \<Rightarrow> nat \<Rightarrow> 'a q_state_scheme \<Rightarrow> nat option" where
  "prev_band scan b s = do { x \<leftarrow> qbands s scan; if qb_next x = b then Some scan else prev_band (qb_next x) b s }"

definition QBAND_PREV :: "nat \<Rightarrow> nat \<Rightarrow> 'a q_state_scheme \<Rightarrow> nat option" where
  "QBAND_PREV q b s = do { x \<leftarrow> squeues s q; if q_bandp x = b then Some 0 else prev_band (q_bandp x) b s }"

text \<open>\<open>new_bands a n\<close>: \<open>n\<close> cleared bands from \<open>a\<close> on, each linked to the next.\<close>

definition new_bands :: "nat \<Rightarrow> nat \<Rightarrow> nat \<Rightarrow> qband option" where
  "new_bands a n = map_of (map (\<lambda>i. (a + 32 * i,
     \<lparr>qb_next = (if Suc i < n then a + 32 * Suc i else 0), qb_count = 0, qb_first = 0, qb_last = 0, qb_hiwat = 0, qb_lowat = 0,
      qb_flag = (if i = 0 then QB_FIRST else 0)\<rparr>)) [0..<n])"

definition QBAND_ALLOC :: "nat \<Rightarrow> int \<Rightarrow> 'a q_state_scheme \<Rightarrow> (nat \<times> 'a q_state_scheme) option" where
  "QBAND_ALLOC q pri s =
     (case km_answers s of
        [] \<Rightarrow> Some (0, s)
      | a # as \<Rightarrow>
          if a = 0 then Some (0, s\<lparr>km_answers := as\<rparr>)
          else do {
            x \<leftarrow> squeues s q;
            let n = nat (pri - q_nband x) in do {
              s1 \<leftarrow> (if q_nband x > 0
                     then do { b \<leftarrow> QUEUE_BAND q (q_nband x) s; _ \<leftarrow> qbands s b; Some (upd_qb (\<lambda>y. y\<lparr>qb_next := a\<rparr>) b s) }
                     else Some s);
              Some (a + 32 * (n - 1), s1\<lparr>km_answers := as, qbands := qbands s1 ++ new_bands a n\<rparr>) }})"

section \<open>The schedule\<close>

definition QSCHED_SCHEDULE :: "nat \<Rightarrow> 'a q_state_scheme \<Rightarrow> 'a q_state_scheme option" where
  "QSCHED_SCHEDULE q s = do {
     _ \<leftarrow> squeues s q;
     let s1 = upd_q (\<lambda>x. x\<lparr>q_link := 0\<rparr>) q s in do {
       s2 \<leftarrow> (if ss_tail s1 = 0 then Some (s1\<lparr>ss_head := q\<rparr>)
              else do { _ \<leftarrow> squeues s1 (ss_tail s1); Some (upd_q (\<lambda>x. x\<lparr>q_link := q\<rparr>) (ss_tail s1) s1) });
       Some (s2\<lparr>ss_tail := q\<rparr>) }}"

definition QSCHED_GETFIRST :: "'a q_state_scheme \<Rightarrow> (nat \<times> 'a q_state_scheme) option" where
  "QSCHED_GETFIRST s =
     (if ss_head s = 0 then Some (0, s)
      else do {
        x \<leftarrow> squeues s (ss_head s);
        Some (ss_head s, if q_link x = 0 then s\<lparr>ss_head := 0, ss_tail := 0\<rparr> else s\<lparr>ss_head := q_link x\<rparr>) })"

partial_function (option) unschedule_loop :: "nat \<Rightarrow> nat \<Rightarrow> nat \<Rightarrow> 'a q_state_scheme \<Rightarrow> 'a q_state_scheme option" where
  "unschedule_loop q scan prev s =
     (if scan = 0 then Some s
      else do {
        x \<leftarrow> squeues s scan;
        if scan = q then
          (let s1 = (if prev = 0 then s\<lparr>ss_head := q_next x\<rparr> else upd_q (\<lambda>y. y\<lparr>q_link := q_next x\<rparr>) prev s)
           in Some (if ss_tail s1 = q then s1\<lparr>ss_tail := prev\<rparr> else s1))
        else unschedule_loop q (q_link x) scan s })"

definition QSCHED_UNSCHEDULE :: "nat \<Rightarrow> 'a q_state_scheme \<Rightarrow> 'a q_state_scheme option" where
  "QSCHED_UNSCHEDULE q s = unschedule_loop q (ss_head s) 0 s"

definition QUEUE_TRYSCHED :: "nat \<Rightarrow> 'a q_state_scheme \<Rightarrow> (bool \<times> 'a q_state_scheme) option" where
  "QUEUE_TRYSCHED q s = do {
     x \<leftarrow> squeues s q;
     if \<not> qi_srvp x \<or> has (q_flag x) QPROCSOFF then Some (False, s)
     else if has (q_flag x) QENAB then Some (True, s)
     else do { s1 \<leftarrow> QSCHED_SCHEDULE q s; Some (True, (set_flag QENAB q s1)\<lparr>run_strsched := True\<rparr>) }}"

text \<open>From the frozen queue \<open>q\<close> to the next queue of the stream that is switched on, which is frozen; or 0.\<close>

partial_function (option) QUEUE_NEXT :: "nat \<Rightarrow> 'a q_state_scheme \<Rightarrow> (nat \<times> 'a q_state_scheme) option" where
  "QUEUE_NEXT q s = do {
     x \<leftarrow> squeues s q;
     s1 \<leftarrow> (if q_next x \<noteq> 0 then QFREEZE_TRACE (q_next x) s else Some s);
     s2 \<leftarrow> QUNFREEZE_TRACE q s1;
     if q_next x = 0 then Some (0, s2)
     else do {
       y \<leftarrow> squeues s2 (q_next x);
       if has (q_flag y) QPROCSOFF then QUEUE_NEXT (q_next x) s2 else Some (q_next x, s2) }}"

text \<open>One round of \<open>QUEUE_BACKENAB\<close> from the frozen queue \<open>other\<close>; at the end of the stream the code unfreezes NULL.\<close>

partial_function (option) backenab_loop :: "nat \<Rightarrow> 'a q_state_scheme \<Rightarrow> 'a q_state_scheme option" where
  "backenab_loop other s = do {
     (o', s1) \<leftarrow> QUEUE_NEXT other s;
     if o' = 0 then QUNFREEZE_TRACE 0 s1
     else do {
       s2 \<leftarrow> QUNFREEZE_TRACE o' (upd_q (\<lambda>x. x\<lparr>q_active := q_active x + 1\<rparr>) o' s1);
       q \<leftarrow> OTHERQ o' s2;
       s3 \<leftarrow> QFREEZE_TRACE q s2;
       (finished, s4) \<leftarrow> QUEUE_TRYSCHED q s3;
       s5 \<leftarrow> QUNFREEZE_TRACE q s4;
       s6 \<leftarrow> QFREEZE_TRACE o' s5;
       x \<leftarrow> squeues s6 q;
       let s7 = upd_q (\<lambda>x. x\<lparr>q_active := q_active x - 1\<rparr>) o' s6;
           s8 = (if has (q_flag x) QPROCSOFF \<and> q_active x = 0 then s7\<lparr>str_woken := str_woken s7 + 1\<rparr> else s7)
       in if finished then QUNFREEZE_TRACE o' s8 else backenab_loop o' s8 }}"

definition QUEUE_BACKENAB :: "nat \<Rightarrow> 'a q_state_scheme \<Rightarrow> 'a q_state_scheme option" where
  "QUEUE_BACKENAB q s = do { other \<leftarrow> OTHERQ q s; s1 \<leftarrow> QFREEZE_TRACE other s; backenab_loop other s1 }"

text \<open>The end of the operations that take messages off: unfreeze, and enable the queue behind when asked for.\<close>

definition unfreeze_back :: "nat \<Rightarrow> 'a q_state_scheme \<Rightarrow> 'a q_state_scheme option" where
  "unfreeze_back q s = do {
     x \<leftarrow> squeues s q;
     let back = has (q_flag x) QBACK in do {
       s1 \<leftarrow> QUNFREEZE_TRACE q (if back then clear_flag QBACK q s else s);
       if back then QUEUE_BACKENAB q s1 else Some s1 }}"

definition QUEUE_DRAINED :: "nat \<Rightarrow> 'a q_state_scheme \<Rightarrow> 'a q_state_scheme option" where
  "QUEUE_DRAINED q s = do {
     x \<leftarrow> squeues s q;
     if has (q_flag x) QDRAIN then do {
       r \<leftarrow> RD q s;
       y \<leftarrow> squeues s r;
       _ \<leftarrow> (if q_next y = 0 then Some y else squeues s (q_next y));
       Some (clear_flag QDRAIN q (s\<lparr>str_woken := str_woken s + 1\<rparr>)) }
     else Some s }"

section \<open>Flow control\<close>

partial_function (option) fill_bands :: "nat \<Rightarrow> nat \<Rightarrow> 'a q_state_scheme \<Rightarrow> 'a q_state_scheme option" where
  "fill_bands q b s = do {
     p \<leftarrow> QBAND_PREV q b (upd_qb (\<lambda>x. x\<lparr>qb_flag := qb_flag x OR QB_FULL\<rparr>) b s);
     let s1 = upd_qb (\<lambda>x. x\<lparr>qb_flag := qb_flag x OR QB_FULL\<rparr>) b s in
     if p = 0 then Some s1 else fill_bands q p s1 }"

definition QBAND_INCREASE :: "nat \<Rightarrow> nat \<Rightarrow> int \<Rightarrow> 'a q_state_scheme \<Rightarrow> 'a q_state_scheme option" where
  "QBAND_INCREASE q b adjust s = do {
     y \<leftarrow> qbands s b;
     let s1 = upd_qb (\<lambda>y. y\<lparr>qb_count := size_t (qb_count y + adjust)\<rparr>) b s in
     if has (qb_flag y) QB_FULL \<or> size_t (qb_count y + adjust) < qb_hiwat y then Some s1
     else do {
       s2 \<leftarrow> fill_bands q b s1;
       x \<leftarrow> squeues s2 q;
       Some (if q_count x \<ge> q_hiwat x then set_flag QFULL q s2 else s2) }}"

partial_function (option) drain_bands :: "nat \<Rightarrow> nat \<Rightarrow> 'a q_state_scheme \<Rightarrow> 'a q_state_scheme option" where
  "drain_bands q b s = do {
     y \<leftarrow> qbands s b;
     let s1 = upd_qb (\<lambda>y. y\<lparr>qb_flag := qb_flag y AND NOT QB_FULL\<rparr>) b s;
         s2 = (if has (qb_flag y) QB_WANTW
               then set_flag QBACK q (upd_qb (\<lambda>y. y\<lparr>qb_flag := qb_flag y AND NOT QB_WANTW\<rparr>) b s1) else s1)
     in do {
       p \<leftarrow> QBAND_PREV q b s2;
       if p = 0 then do {
         x \<leftarrow> squeues s2 q;
         Some (if q_count x \<le> q_lowat x
               then (let s3 = clear_flag QFULL q s2 in
                     if has (q_flag x) QWANTW then set_flag QBACK q (clear_flag QWANTW q s3) else s3)
               else s2) }
       else do { z \<leftarrow> qbands s2 p; if qb_count z \<le> qb_lowat z then drain_bands q p s2 else Some s2 }}}"

definition QBAND_REDUCE :: "nat \<Rightarrow> nat \<Rightarrow> int \<Rightarrow> 'a q_state_scheme \<Rightarrow> 'a q_state_scheme option" where
  "QBAND_REDUCE q b adjust s = do {
     y \<leftarrow> qbands s b;
     let n = size_t (qb_count y - adjust); s1 = upd_qb (\<lambda>y. y\<lparr>qb_count := n\<rparr>) b s in
     if \<not> has (qb_flag y) QB_FULL \<or> n > qb_lowat y then Some s1
     else do {
       higher \<leftarrow> (if qb_next y = 0 then Some False else do { z \<leftarrow> qbands s1 (qb_next y); Some (has (qb_flag z) QB_FULL) });
       if higher then Some s1 else drain_bands q b s1 }}"

definition QUEUE_REDUCE :: "nat \<Rightarrow> int \<Rightarrow> 'a q_state_scheme \<Rightarrow> 'a q_state_scheme option" where
  "QUEUE_REDUCE q adjust s = do {
     x \<leftarrow> squeues s q;
     let n = size_t (q_count x - adjust); s1 = upd_q (\<lambda>x. x\<lparr>q_count := n\<rparr>) q s in
     Some (if has (q_flag x) QFULL \<and> n \<le> q_lowat x
           then (let s2 = clear_flag QFULL q s1 in
                 if has (q_flag x) QWANTW then set_flag QBACK q (clear_flag QWANTW q s2) else s2)
           else s1) }"

text \<open>Enable the queue for a new message if need be, and count it; the result is whether it is in a band.\<close>

definition QUEUE_CHECK_SCHED :: "nat \<Rightarrow> nat \<Rightarrow> nat \<Rightarrow> 'a q_state_scheme \<Rightarrow> (bool \<times> 'a q_state_scheme) option" where
  "QUEUE_CHECK_SCHED q mp b s = do {
     x \<leftarrow> squeues s q;
     m \<leftarrow> mblks s mp;
     s1 \<leftarrow> (if \<not> has (q_flag x) QNOENB \<and> (has (q_flag x) QWANTR \<or> q_lastband x < b_band m)
            then do { (_, s') \<leftarrow> QUEUE_TRYSCHED q (upd_q (\<lambda>x. x\<lparr>q_lastband := b_band m\<rparr>) q s); Some s' }
            else Some s);
     sz \<leftarrow> MSG_SIZE mp s1;
     if b_band m > 0 then do { s2 \<leftarrow> QBAND_INCREASE q b sz s1; Some (True, s2) }
     else
       let s2 = upd_q (\<lambda>x. x\<lparr>q_count := size_t (q_count x + sz)\<rparr>) q s1 in
       Some (False, if size_t (q_count x + sz) > q_hiwat x then set_flag QFULL q s2 else s2) }"

definition QBAND_DEQUEUE :: "nat \<Rightarrow> nat \<Rightarrow> 'a q_state_scheme \<Rightarrow> 'a q_state_scheme option" where
  "QBAND_DEQUEUE b mp s = do {
     y \<leftarrow> qbands s b;
     m \<leftarrow> mblks s mp;
     Some (if qb_first y = mp
           then (if qb_last y = mp then upd_qb (\<lambda>y. y\<lparr>qb_first := 0, qb_last := 0\<rparr>) b s
                 else upd_qb (\<lambda>y. y\<lparr>qb_first := b_next m\<rparr>) b s)
           else if qb_last y = mp then upd_qb (\<lambda>y. y\<lparr>qb_last := b_prev m\<rparr>) b s else s) }"

definition QBAND_CANPUT :: "nat \<Rightarrow> int \<Rightarrow> 'a q_state_scheme \<Rightarrow> (bool \<times> 'a q_state_scheme) option" where
  "QBAND_CANPUT q pri s =
     (if pri > 0 then do {
        b \<leftarrow> QUEUE_BAND q pri s;
        if b = 0 then Some (True, s)
        else do {
          y \<leftarrow> qbands s b;
          Some (if has (qb_flag y) QB_FULL
                then (False, set_flag QWANTW q (upd_qb (\<lambda>y. y\<lparr>qb_flag := qb_flag y OR QB_WANTW\<rparr>) b s)) else (True, s)) }}
      else do {
        x \<leftarrow> squeues s q;
        Some (if has (q_flag x) QFULL then (False, set_flag QWANTW q s) else (True, s)) })"

record stroptions =
  so_flags :: int
  so_band :: int
  so_hiwat :: int
  so_lowat :: int

definition QBAND_SETOPT :: "nat \<Rightarrow> stroptions \<Rightarrow> 'a q_state_scheme \<Rightarrow> 'a q_state_scheme option" where
  "QBAND_SETOPT q so s = do {
     s1 \<leftarrow> QFREEZE_TRACE q s;
     if so_flags so AND (SO_LOWAT OR SO_HIWAT) = 0 then Some s1
     else if has (so_flags so) SO_BAND \<and> so_band so > 0 then do {
       b0 \<leftarrow> QUEUE_BAND q (so_band so) s1;
       (b, s2) \<leftarrow> (if b0 = 0 then QBAND_ALLOC q (so_band so) s1 else Some (b0, s1));
       if b = 0 then QUNFREEZE_TRACE q s2
       else do {
         s3 \<leftarrow> (if has (so_flags so) SO_LOWAT
                then do { _ \<leftarrow> qbands s2 b; QBAND_REDUCE q b 0 (upd_qb (\<lambda>y. y\<lparr>qb_lowat := so_lowat so\<rparr>) b s2) } else Some s2);
         s4 \<leftarrow> (if has (so_flags so) SO_HIWAT
                then do { _ \<leftarrow> qbands s3 b; QBAND_INCREASE q b 0 (upd_qb (\<lambda>y. y\<lparr>qb_hiwat := so_hiwat so\<rparr>) b s3) } else Some s3);
         unfreeze_back q s4 }}
     else do {
       s3 \<leftarrow> (if has (so_flags so) SO_LOWAT then QUEUE_REDUCE q 0 (upd_q (\<lambda>x. x\<lparr>q_lowat := so_lowat so\<rparr>) q s1) else Some s1);
       x \<leftarrow> squeues s3 q;
       let s4 = (if has (so_flags so) SO_HIWAT
                 then (let s' = upd_q (\<lambda>x. x\<lparr>q_hiwat := so_hiwat so\<rparr>) q s3 in
                       if q_count x > so_hiwat so then set_flag QFULL q s' else s')
                 else s3)
       in unfreeze_back q s4 }}"

section \<open>Linking messages\<close>

text \<open>
  \<open>link_between q prv nxt mp\<close>: the assignments that put \<open>mp\<close> between the messages \<open>prv\<close> and \<open>nxt\<close>, of which each may be
  missing.
\<close>

definition set_next :: "nat \<Rightarrow> nat \<Rightarrow> nat \<Rightarrow> 'a q_state_scheme \<Rightarrow> 'a q_state_scheme option" where
  "set_next q prv mp s =
     (if prv = 0 then do { _ \<leftarrow> squeues s q; Some (upd_q (\<lambda>x. x\<lparr>q_first := mp\<rparr>) q s) }
      else do { _ \<leftarrow> mblks s prv; Some (upd_mb (\<lambda>m. m\<lparr>b_next := mp\<rparr>) prv s) })"

definition set_prev :: "nat \<Rightarrow> nat \<Rightarrow> nat \<Rightarrow> 'a q_state_scheme \<Rightarrow> 'a q_state_scheme option" where
  "set_prev q nxt mp s =
     (if nxt = 0 then do { _ \<leftarrow> squeues s q; Some (upd_q (\<lambda>x. x\<lparr>q_last := mp\<rparr>) q s) }
      else do { _ \<leftarrow> mblks s nxt; Some (upd_mb (\<lambda>m. m\<lparr>b_prev := mp\<rparr>) nxt s) })"

definition link_between :: "nat \<Rightarrow> nat \<Rightarrow> nat \<Rightarrow> nat \<Rightarrow> 'a q_state_scheme \<Rightarrow> 'a q_state_scheme option" where
  "link_between q prv nxt mp s = do {
     _ \<leftarrow> mblks s mp;
     s1 \<leftarrow> set_next q prv mp (upd_mb (\<lambda>m. m\<lparr>b_next := nxt, b_prev := prv\<rparr>) mp s);
     set_prev q nxt mp s1 }"

text \<open>Taking \<open>mp\<close> out.\<close>

definition unlink_msg :: "nat \<Rightarrow> nat \<Rightarrow> 'a q_state_scheme \<Rightarrow> 'a q_state_scheme option" where
  "unlink_msg q mp s = do {
     m \<leftarrow> mblks s mp;
     s1 \<leftarrow> set_next q (b_prev m) (b_next m) s;
     set_prev q (b_next m) (b_prev m) s1 }"

text \<open>The messages before which a message of a band is placed.\<close>

partial_function (option) skip_pri :: "nat \<Rightarrow> 'a strmem_scheme \<Rightarrow> nat option" where
  "skip_pri scan s =
     (if scan = 0 then Some 0
      else do { p \<leftarrow> IS_PRI_MSG scan s; m \<leftarrow> mblks s scan; if p then skip_pri (b_next m) s else Some scan })"

partial_function (option) skip_bands :: "int \<Rightarrow> nat \<Rightarrow> 'a strmem_scheme \<Rightarrow> nat option" where
  "skip_bands band scan s =
     (if scan = 0 then Some 0
      else do { m \<leftarrow> mblks s scan; if b_band m > band then skip_bands band (b_next m) s else Some scan })"

definition before_of :: "nat \<Rightarrow> nat \<Rightarrow> 'a q_state_scheme \<Rightarrow> nat option" where
  "before_of q nxt s = (if nxt = 0 then map_option q_last (squeues s q) else map_option b_prev (mblks s nxt))"

definition QUEUE_PLACE_MSG :: "nat \<Rightarrow> nat \<Rightarrow> int \<Rightarrow> 'a q_state_scheme \<Rightarrow> 'a q_state_scheme option" where
  "QUEUE_PLACE_MSG q mp band s = do {
     x \<leftarrow> squeues s q;
     scan \<leftarrow> skip_pri (q_first x) s;
     nxt \<leftarrow> skip_bands band scan s;
     prv \<leftarrow> before_of q nxt s;
     link_between q prv nxt mp s }"

end
