(* ===== verification/Stream_Calls.thy ===== *)
theory Stream_Calls
  imports Stream_Queues
begin

text \<open>
  What modules and drivers call on queues, \<^verbatim>\<open>conf/streams/src/strmlib.c\<close>, and the run of the schedule, \<^verbatim>\<open>strmisc.c\<close>.
  The put and service procedures of the modules are arguments.
\<close>

section \<open>Putting messages on a queue\<close>

text \<open>The band of a message that is not a priority message, allocated if need be; 0 if there is no memory.\<close>

definition band_for :: "nat \<Rightarrow> int \<Rightarrow> 'a q_state_scheme \<Rightarrow> (nat \<times> 'a q_state_scheme) option" where
  "band_for q band s =
     (if band > 0 then do { b \<leftarrow> QUEUE_BAND q band s; if b = 0 then QBAND_ALLOC q band s else Some (b, s) } else Some (0, s))"

text \<open>A message that goes in front of the others of its band.\<close>

definition put_in_band :: "nat \<Rightarrow> nat \<Rightarrow> nat \<Rightarrow> int \<Rightarrow> 'a q_state_scheme \<Rightarrow> 'a q_state_scheme option" where
  "put_in_band q b mp band s = do {
     y \<leftarrow> qbands s b;
     if qb_first y \<noteq> 0 then do {
       prv \<leftarrow> before_of q (qb_first y) s;
       s1 \<leftarrow> link_between q prv (qb_first y) mp s;
       Some (upd_qb (\<lambda>y. y\<lparr>qb_first := mp\<rparr>) b s1) }
     else QUEUE_PLACE_MSG q mp band (upd_qb (\<lambda>y. y\<lparr>qb_first := mp, qb_last := mp\<rparr>) b s) }"

definition putq :: "nat \<Rightarrow> nat \<Rightarrow> 'a q_state_scheme \<Rightarrow> (int \<times> 'a q_state_scheme) option" where
  "putq q mp s = do {
     s1 \<leftarrow> QFREEZE_TRACE q s;
     pri \<leftarrow> IS_PRI_MSG mp s1;
     if pri then do {
       (_, s2) \<leftarrow> QUEUE_TRYSCHED q (upd_mb (\<lambda>m. m\<lparr>b_band := 0\<rparr>) mp s1);
       s3 \<leftarrow> QUEUE_PLACE_MSG q mp 255 s2;
       s4 \<leftarrow> QUNFREEZE_TRACE q s3;
       Some (1, s4) }
     else do {
       m \<leftarrow> mblks s1 mp;
       (b, s2) \<leftarrow> band_for q (b_band m) s1;
       if b_band m > 0 \<and> b = 0 then Some (0, s2)
       else do {
         (banded, s3) \<leftarrow> QUEUE_CHECK_SCHED q mp b s2;
         x \<leftarrow> squeues s3 q;
         s4 \<leftarrow> (if banded then put_in_band q b mp (b_band m - 1) s3 else link_between q (q_last x) 0 mp s3);
         s5 \<leftarrow> QUNFREEZE_TRACE q s4;
         Some (1, s5) }}}"

definition putbq :: "nat \<Rightarrow> nat \<Rightarrow> 'a q_state_scheme \<Rightarrow> (int \<times> 'a q_state_scheme) option" where
  "putbq q mp s = do {
     s1 \<leftarrow> QFREEZE_TRACE q s;
     pri \<leftarrow> IS_PRI_MSG mp s1;
     if pri then do {
       x \<leftarrow> squeues s1 q;
       s2 \<leftarrow> link_between q 0 (q_first x) mp s1;
       (_, s3) \<leftarrow> QUEUE_TRYSCHED q (upd_mb (\<lambda>m. m\<lparr>b_band := 0\<rparr>) mp s2);
       s4 \<leftarrow> QUNFREEZE_TRACE q s3;
       Some (1, s4) }
     else do {
       m \<leftarrow> mblks s1 mp;
       (b, s2) \<leftarrow> band_for q (b_band m) s1;
       if b_band m > 0 \<and> b = 0 then Some (0, s2)
       else do {
         (banded, s3) \<leftarrow> QUEUE_CHECK_SCHED q mp b s2;
         s4 \<leftarrow> (if banded then put_in_band q b mp (b_band m) s3 else QUEUE_PLACE_MSG q mp (b_band m) s3);
         s5 \<leftarrow> QUNFREEZE_TRACE q s4;
         Some (1, s5) }}}"

text \<open>
  \<open>insq\<close> on the frozen queue. The code links the new message before it finds that its order is wrong, so a failure
  leaves the pointers half changed.
\<close>

definition insq_pri :: "nat \<Rightarrow> nat \<Rightarrow> nat \<Rightarrow> 'a q_state_scheme \<Rightarrow> (int \<times> 'a q_state_scheme) option" where
  "insq_pri q emp nmp s = do {
     prv \<leftarrow> before_of q emp s;
     let s1 = upd_mb (\<lambda>m. m\<lparr>b_band := 0, b_next := emp, b_prev := prv\<rparr>) nmp s in do {
       ok \<leftarrow> (if prv = 0 then Some True else IS_PRI_MSG prv s1);
       if \<not> ok then Some (0, s1)
       else do {
         s2 \<leftarrow> set_next q prv nmp s1;
         s3 \<leftarrow> set_prev q emp nmp s2;
         (_, s4) \<leftarrow> QUEUE_TRYSCHED q s3;
         Some (1, s4) }}}"

definition insq_link :: "nat \<Rightarrow> nat \<Rightarrow> nat \<Rightarrow> 'a q_state_scheme \<Rightarrow> (bool \<times> 'a q_state_scheme) option" where
  "insq_link q emp nmp s = do {
     n \<leftarrow> mblks s nmp;
     wrong \<leftarrow> (if emp = 0 then Some False
               else do { e \<leftarrow> mblks s emp; p \<leftarrow> IS_PRI_MSG emp s; Some (b_band e > b_band n \<or> p) });
     if wrong then Some (False, upd_mb (\<lambda>m. m\<lparr>b_next := emp\<rparr>) nmp s)
     else do {
       prv \<leftarrow> before_of q emp s;
       let s1 = upd_mb (\<lambda>m. m\<lparr>b_next := emp, b_prev := prv\<rparr>) nmp s in do {
         bad' \<leftarrow> (if prv = 0 then Some False else do { p \<leftarrow> mblks s1 prv; Some (b_band p < b_band n) });
         if bad' then Some (False, s1)
         else do { s2 \<leftarrow> set_next q prv nmp s1; s3 \<leftarrow> set_prev q emp nmp s2; Some (True, s3) }}}}"

definition insq_band :: "nat \<Rightarrow> nat \<Rightarrow> nat \<Rightarrow> 'a q_state_scheme \<Rightarrow> 'a q_state_scheme option" where
  "insq_band b emp nmp s = do {
     y \<leftarrow> qbands s b;
     let s1 = (if qb_first y = emp then upd_qb (\<lambda>y. y\<lparr>qb_first := nmp\<rparr>) b s else s) in do {
       at_end \<leftarrow> (if qb_last y = 0 then Some True else do { l \<leftarrow> mblks s1 (qb_last y); Some (b_next l = emp) });
       Some (if at_end then upd_qb (\<lambda>y. y\<lparr>qb_last := nmp\<rparr>) b s1 else s1) }}"

definition insq :: "nat \<Rightarrow> nat \<Rightarrow> nat \<Rightarrow> 'a q_state_scheme \<Rightarrow> (int \<times> 'a q_state_scheme) option" where
  "insq q emp nmp s = do {
     pri \<leftarrow> IS_PRI_MSG nmp s;
     if pri then insq_pri q emp nmp s
     else do {
       n \<leftarrow> mblks s nmp;
       (b, s1) \<leftarrow> band_for q (b_band n) s;
       if b_band n > 0 \<and> b = 0 then Some (0, s1)
       else do {
         (ok, s2) \<leftarrow> insq_link q emp nmp s1;
         if \<not> ok then Some (0, s2)
         else do {
           (banded, s3) \<leftarrow> QUEUE_CHECK_SCHED q nmp b s2;
           s4 \<leftarrow> (if banded then insq_band b emp nmp s3 else Some s3);
           Some (1, s4) }}}}"

section \<open>Taking messages off a queue\<close>

text \<open>A message that has been taken off no longer counts.\<close>

definition uncount :: "nat \<Rightarrow> nat \<Rightarrow> 'a q_state_scheme \<Rightarrow> 'a q_state_scheme option" where
  "uncount q mp s = do {
     pri \<leftarrow> IS_PRI_MSG mp s;
     m \<leftarrow> mblks s mp;
     if pri then Some s
     else do {
       sz \<leftarrow> MSG_SIZE mp s;
       if b_band m > 0 then do { b \<leftarrow> QUEUE_BAND q (b_band m) s; s1 \<leftarrow> QBAND_DEQUEUE b mp s; QBAND_REDUCE q b sz s1 }
       else QUEUE_REDUCE q sz s }}"

definition getq :: "nat \<Rightarrow> 'a q_state_scheme \<Rightarrow> (nat \<times> 'a q_state_scheme) option" where
  "getq q s = do {
     s1 \<leftarrow> QFREEZE_TRACE q s;
     x \<leftarrow> squeues s1 q;
     let mp = q_first x in
     if mp = 0 then do { s2 \<leftarrow> unfreeze_back q (set_flag QWANTR q s1); Some (0, s2) }
     else do {
       m \<leftarrow> mblks s1 mp;
       let s2 = upd_q (\<lambda>x. x\<lparr>q_first := b_next m\<rparr>) q s1 in do {
         s3 \<leftarrow> set_prev q (b_next m) 0 s2;
         s4 \<leftarrow> (if b_next m = 0 then QUEUE_DRAINED q s3 else Some s3);
         s5 \<leftarrow> uncount q mp (upd_q (\<lambda>x. x\<lparr>q_lastband := b_band m\<rparr>) q s4);
         s6 \<leftarrow> unfreeze_back q s5;
         Some (mp, s6) }}}"

definition rmvq :: "nat \<Rightarrow> nat \<Rightarrow> 'a q_state_scheme \<Rightarrow> 'a q_state_scheme option" where
  "rmvq q mp s = do {
     m \<leftarrow> mblks s mp;
     s1 \<leftarrow> set_prev q (b_next m) (b_prev m) s;
     s2 \<leftarrow> (if b_next m = 0 \<and> b_prev m = 0 then QUEUE_DRAINED q s1 else Some s1);
     s3 \<leftarrow> set_next q (b_prev m) (b_next m) s2;
     uncount q mp (if b_prev m = 0 then upd_q (\<lambda>x. x\<lparr>q_lastband := b_band m\<rparr>) q s3 else s3) }"

partial_function (option) flush_loop :: "nat \<Rightarrow> nat \<Rightarrow> int \<Rightarrow> int \<Rightarrow> 'a q_state_scheme \<Rightarrow> (int \<times> 'a q_state_scheme) option" where
  "flush_loop q mp flag flushed s =
     (if mp = 0 then Some (flushed, s)
      else do {
        m \<leftarrow> mblks s mp;
        db \<leftarrow> dblks s (b_datap m);
        if b_band m = 0 \<and> (flag = FLUSHALL \<or> datamsg (db_type db)) then do {
          s1 \<leftarrow> unlink_msg q mp s;
          pri \<leftarrow> IS_PRI_MSG mp s1;
          sz \<leftarrow> (if pri then Some 0 else MSG_SIZE mp s1);
          s2 \<leftarrow> freemsg mp s1;
          flush_loop q (b_next m) flag (flushed + sz) s2 }
        else flush_loop q (b_next m) flag flushed s })"

definition flushq :: "nat \<Rightarrow> int \<Rightarrow> 'a q_state_scheme \<Rightarrow> 'a q_state_scheme option" where
  "flushq q flag s = do {
     s1 \<leftarrow> QFREEZE_TRACE q s;
     x \<leftarrow> squeues s1 q;
     (flushed, s2) \<leftarrow> flush_loop q (q_first x) flag 0 s1;
     s3 \<leftarrow> QUEUE_REDUCE q flushed s2;
     unfreeze_back q s3 }"

text \<open>The loop of \<open>flushband\<close> stops at the message that is then the last of the band, before it is looked at.\<close>

partial_function (option) flushband_loop :: "nat \<Rightarrow> nat \<Rightarrow> nat \<Rightarrow> int \<Rightarrow> int \<Rightarrow> 'a q_state_scheme \<Rightarrow> (int \<times> 'a q_state_scheme) option" where
  "flushband_loop q b mp flag flushed s = do {
     m \<leftarrow> mblks s mp;
     db \<leftarrow> dblks s (b_datap m);
     (flushed1, s1) \<leftarrow> (if flag = FLUSHALL \<or> datamsg (db_type db) then do {
         s1 \<leftarrow> unlink_msg q mp s;
         s2 \<leftarrow> QBAND_DEQUEUE b mp s1;
         sz \<leftarrow> MSG_SIZE mp s2;
         s3 \<leftarrow> freemsg mp s2;
         Some (flushed + sz, s3) } else Some (flushed, s));
     y \<leftarrow> qbands s1 b;
     if b_next m \<noteq> qb_last y then flushband_loop q b (b_next m) flag flushed1 s1 else Some (flushed1, s1) }"

definition flushband :: "nat \<Rightarrow> int \<Rightarrow> int \<Rightarrow> 'a q_state_scheme \<Rightarrow> 'a q_state_scheme option" where
  "flushband q pri flag s =
     (if pri = 0 then flushq q flag s
      else do {
        s1 \<leftarrow> QFREEZE_TRACE q s;
        b \<leftarrow> QUEUE_BAND q pri s1;
        s2 \<leftarrow> (if b = 0 then Some s1
               else do {
                 y \<leftarrow> qbands s1 b;
                 if qb_first y = 0 then Some s1
                 else do { (flushed, s') \<leftarrow> flushband_loop q b (qb_first y) flag 0 s1; QBAND_REDUCE q b flushed s' }});
        unfreeze_back q s2 })"

section \<open>Asking and enabling\<close>

definition bcanput :: "nat \<Rightarrow> int \<Rightarrow> 'a q_state_scheme \<Rightarrow> (bool \<times> 'a q_state_scheme) option" where
  "bcanput q pri s = do {
     s1 \<leftarrow> QFREEZE_TRACE q s; (r, s2) \<leftarrow> QBAND_CANPUT q pri s1; s3 \<leftarrow> QUNFREEZE_TRACE q s2; Some (r, s3) }"

definition canput :: "nat \<Rightarrow> 'a q_state_scheme \<Rightarrow> (bool \<times> 'a q_state_scheme) option" where
  "canput q s = do {
     s1 \<leftarrow> QFREEZE_TRACE q s;
     x \<leftarrow> squeues s1 q;
     let full = has (q_flag x) QFULL in do {
       s2 \<leftarrow> QUNFREEZE_TRACE q (if full then set_flag QWANTW q s1 else s1);
       Some (\<not> full, s2) }}"

text \<open>The next queue with a service procedure; at the end of the stream the code unfreezes NULL.\<close>

partial_function (option) srvnext_loop :: "nat \<Rightarrow> int \<Rightarrow> 'a q_state_scheme \<Rightarrow> (bool \<times> nat \<times> 'a q_state_scheme) option" where
  "srvnext_loop q pri s = do {
     (n, s1) \<leftarrow> QUEUE_NEXT q s;
     if n = 0 then Some (True, 0, s1)
     else do {
       x \<leftarrow> squeues s1 n;
       if qi_srvp x then do { (r, s2) \<leftarrow> QBAND_CANPUT n pri s1; Some (r, n, s2) } else srvnext_loop n pri s1 }}"

definition QBAND_SRVNEXT :: "nat \<Rightarrow> int \<Rightarrow> 'a q_state_scheme \<Rightarrow> (bool \<times> 'a q_state_scheme) option" where
  "QBAND_SRVNEXT q pri s = do {
     s1 \<leftarrow> QFREEZE_TRACE q s; (r, n, s2) \<leftarrow> srvnext_loop q pri s1; s3 \<leftarrow> QUNFREEZE_TRACE n s2; Some (r, s3) }"

definition bcanputnext :: "nat \<Rightarrow> int \<Rightarrow> 'a q_state_scheme \<Rightarrow> (bool \<times> 'a q_state_scheme) option" where
  "bcanputnext q pri s = QBAND_SRVNEXT q pri s"

definition canputnext :: "nat \<Rightarrow> 'a q_state_scheme \<Rightarrow> (bool \<times> 'a q_state_scheme) option" where
  "canputnext q s = QBAND_SRVNEXT q 0 s"

definition enableok :: "nat \<Rightarrow> 'a q_state_scheme \<Rightarrow> 'a q_state_scheme option" where
  "enableok q s = do { s1 \<leftarrow> QFREEZE_TRACE q s; QUNFREEZE_TRACE q (clear_flag QNOENB q s1) }"

definition noenable :: "nat \<Rightarrow> 'a q_state_scheme \<Rightarrow> 'a q_state_scheme option" where
  "noenable q s = do { s1 \<leftarrow> QFREEZE_TRACE q s; QUNFREEZE_TRACE q (set_flag QNOENB q s1) }"

definition qenable :: "nat \<Rightarrow> 'a q_state_scheme \<Rightarrow> 'a q_state_scheme option" where
  "qenable q s = do { s1 \<leftarrow> QFREEZE_TRACE q s; (_, s2) \<leftarrow> QUEUE_TRYSCHED q s1; QUNFREEZE_TRACE q s2 }"

partial_function (option) count_msgs :: "nat \<Rightarrow> int \<Rightarrow> 'a q_state_scheme \<Rightarrow> int option" where
  "count_msgs scan n s = (if scan = 0 then Some n else do { m \<leftarrow> mblks s scan; count_msgs (b_next m) (n + 1) s })"

definition qsize :: "nat \<Rightarrow> 'a q_state_scheme \<Rightarrow> (int \<times> 'a q_state_scheme) option" where
  "qsize q s = do {
     s1 \<leftarrow> QFREEZE_TRACE q s; x \<leftarrow> squeues s1 q; n \<leftarrow> count_msgs (q_first x) 0 s1; s2 \<leftarrow> QUNFREEZE_TRACE q s1; Some (n, s2) }"

definition freezestr :: "nat \<Rightarrow> 'a q_state_scheme \<Rightarrow> 'a q_state_scheme option" where
  "freezestr q s = QFREEZE_TRACE q s"

definition unfreezestr :: "nat \<Rightarrow> 'a q_state_scheme \<Rightarrow> 'a q_state_scheme option" where
  "unfreezestr q s = unfreeze_back q s"

section \<open>Calling modules\<close>

text \<open>A queue that nobody uses any more wakes those who switch it off.\<close>

definition leave_queue :: "nat \<Rightarrow> 'a q_state_scheme \<Rightarrow> 'a q_state_scheme option" where
  "leave_queue q s = do {
     x \<leftarrow> squeues s q;
     let s1 = upd_q (\<lambda>x. x\<lparr>q_active := q_active x - 1\<rparr>) q s in
     Some (if has (q_flag x) QPROCSOFF \<and> q_active x - 1 = 0 then s1\<lparr>str_woken := str_woken s1 + 1\<rparr> else s1) }"

definition QUEUE_PUT :: "(nat \<Rightarrow> nat \<Rightarrow> 'a q_state_scheme \<Rightarrow> 'a q_state_scheme option) \<Rightarrow> nat \<Rightarrow> nat \<Rightarrow> 'a q_state_scheme \<Rightarrow>
    'a q_state_scheme option" where
  "QUEUE_PUT putp q mp s = do {
     s1 \<leftarrow> QUNFREEZE_TRACE q (upd_q (\<lambda>x. x\<lparr>q_active := q_active x + 1\<rparr>) q s);
     s2 \<leftarrow> putp q mp s1;
     s3 \<leftarrow> QFREEZE_TRACE q s2;
     leave_queue q s3 }"

definition putnext :: "(nat \<Rightarrow> nat \<Rightarrow> 'a q_state_scheme \<Rightarrow> 'a q_state_scheme option) \<Rightarrow> nat \<Rightarrow> nat \<Rightarrow> 'a q_state_scheme \<Rightarrow>
    'a q_state_scheme option" where
  "putnext putp q mp s = do {
     s1 \<leftarrow> QFREEZE_TRACE q s;
     (n, s2) \<leftarrow> QUEUE_NEXT q s1;
     s3 \<leftarrow> (if n \<noteq> 0 then QUEUE_PUT putp n mp s2 else freemsg mp s2);
     QUNFREEZE_TRACE n s3 }"

definition qprocson :: "nat \<Rightarrow> 'a q_state_scheme \<Rightarrow> 'a q_state_scheme option" where
  "qprocson rq s = do {
     s1 \<leftarrow> QFREEZE_TRACE rq s;
     s2 \<leftarrow> QFREEZE_TRACE (rq + 68) s1;
     let s3 = clear_flag QPROCSOFF (rq + 68) (clear_flag QPROCSOFF rq s2);
         run = (\<lambda>q s. do { x \<leftarrow> squeues s q;
           if q_first x \<noteq> 0 \<and> has (q_flag x) QNOENB then map_option snd (QUEUE_TRYSCHED q s) else Some s });
         back = (\<lambda>q s. do { x \<leftarrow> squeues s q;
           if has (q_flag x) QWANTW then QUEUE_BACKENAB q (clear_flag QWANTW q s) else Some s })
     in do {
       s4 \<leftarrow> run rq s3; s5 \<leftarrow> run (rq + 68) s4; s6 \<leftarrow> back rq s5; s7 \<leftarrow> back (rq + 68) s6;
       s8 \<leftarrow> QUNFREEZE_TRACE (rq + 68) s7; QUNFREEZE_TRACE rq s8 }}"

partial_function (option) run_streams_loop ::
  "(nat \<Rightarrow> 'a q_state_scheme \<Rightarrow> 'a q_state_scheme option) \<Rightarrow> 'a q_state_scheme \<Rightarrow> 'a q_state_scheme option" where
  "run_streams_loop srv s = do {
     (q, s1) \<leftarrow> QSCHED_GETFIRST s;
     if q = 0 then Some s1
     else do {
       s2 \<leftarrow> QFREEZE_TRACE q s1;
       x \<leftarrow> squeues s2 q;
       if has (q_flag x) QSRVACTIVE
       then do { s3 \<leftarrow> QUNFREEZE_TRACE q s2; s4 \<leftarrow> QSCHED_SCHEDULE q s3; run_streams_loop srv s4 }
       else let s3 = set_flag QSRVACTIVE q (clear_flag QENAB q s2) in
         if has (q_flag x) QPROCSOFF then do { s4 \<leftarrow> QUNFREEZE_TRACE q s3; run_streams_loop srv s4 }
         else do {
           s4 \<leftarrow> QUNFREEZE_TRACE q (upd_q (\<lambda>x. x\<lparr>q_active := q_active x + 1\<rparr>) q s3);
           s5 \<leftarrow> srv q s4;
           s6 \<leftarrow> QFREEZE_TRACE q s5;
           s7 \<leftarrow> leave_queue q (clear_flag QSRVACTIVE q s6);
           s8 \<leftarrow> QUNFREEZE_TRACE q s7;
           run_streams_loop srv s8 }}}"

definition RUN_STREAMS :: "(nat \<Rightarrow> 'a q_state_scheme \<Rightarrow> 'a q_state_scheme option) \<Rightarrow> 'a q_state_scheme \<Rightarrow> 'a q_state_scheme option" where
  "RUN_STREAMS srv s = run_streams_loop srv (s\<lparr>run_strsched := False\<rparr>)"

end
