(* ===== verification/Stream_Message_Properties.thy ===== *)
theory Stream_Message_Properties
  imports Stream_Messages
begin

text \<open>
  The memory of messages: every data block is counted exactly and is freed with its triple when the last
  message block that refers to it goes; and what the operations do to the bytes of a message.
\<close>

section \<open>Memory\<close>

definition triple :: "mblk \<Rightarrow> bool" where
  "triple m \<longleftrightarrow> b_flag m AND MSGTRIPLE \<noteq> 0"

definition gone :: "mblk \<Rightarrow> bool" where
  "gone m \<longleftrightarrow> b_flag m AND MSGFREE \<noteq> 0"

text \<open>The blocks in use, and those that refer to a data block.\<close>

definition live :: "'a strmem_scheme \<Rightarrow> nat set" where
  "live s = {p. \<exists>m. mblks s p = Some m \<and> \<not> gone m}"

definition users :: "'a strmem_scheme \<Rightarrow> nat \<Rightarrow> nat set" where
  "users s d = {p. \<exists>m. mblks s p = Some m \<and> \<not> gone m \<and> b_datap m = d}"

text \<open>
  A message block is either the first part of a triple, and refers to its own data block as long as it is in use,
  or separate. A data block is part of a triple, and its count is that of the blocks that refer to it.
\<close>

definition mem_ok :: "'a strmem_scheme \<Rightarrow> bool" where
  "mem_ok s \<longleftrightarrow> finite (dom (mblks s)) \<and>
     (\<forall>p m. mblks s p = Some m \<longrightarrow>
        (if triple m then \<not> gone m \<longrightarrow> b_datap m = MB_TO_DB p else \<not> gone m) \<and>
        (triple m \<longrightarrow> dblks s (MB_TO_DB p) \<noteq> None) \<and> (\<not> gone m \<longrightarrow> dblks s (b_datap m) \<noteq> None)) \<and>
     (\<forall>d db. dblks s d = Some db \<longrightarrow> 0 < db_ref db \<and> db_ref db < 256 \<and> db_ref db = int (card (users s d)) \<and>
        (\<exists>p m. d = MB_TO_DB p \<and> mblks s p = Some m \<and> triple m))"

lemma mem_ok_finite_users: "mem_ok s \<Longrightarrow> finite (users s d)"
  by (rule finite_subset [of _ "dom (mblks s)"]) (auto simp: users_def mem_ok_def)

lemma mem_ok_mblk:
  assumes "mem_ok s" "mblks s p = Some m"
  shows "triple m \<Longrightarrow> \<not> gone m \<Longrightarrow> b_datap m = MB_TO_DB p" "\<not> triple m \<Longrightarrow> \<not> gone m"
    "triple m \<Longrightarrow> \<exists>db. dblks s (MB_TO_DB p) = Some db" "\<not> gone m \<Longrightarrow> \<exists>db. dblks s (b_datap m) = Some db"
  using assms by (auto simp: mem_ok_def split: if_splits)

lemma mem_ok_dblk:
  assumes "mem_ok s" "dblks s d = Some db"
  shows "0 < db_ref db" "db_ref db < 256" "db_ref db = int (card (users s d))"
    "\<exists>p m. d = MB_TO_DB p \<and> mblks s p = Some m \<and> triple m"
  using assms unfolding mem_ok_def by blast+

text \<open>No block in use, no memory in use.\<close>

lemma mem_ok_empty:
  assumes "mem_ok s" "live s = {}"
  shows "mblks s = Map.empty \<and> dblks s = Map.empty"
proof -
  have "users s d = {}" for d using assms(2) by (auto simp: users_def live_def)
  then have d: "dblks s d = None" for d
    using mem_ok_dblk(1,3) [OF assms(1), of d] by (cases "dblks s d") auto
  have "mblks s p = None" for p
    using mem_ok_mblk [OF assms(1), of p] d assms(2) by (cases "mblks s p") (auto simp: live_def)
  then show ?thesis using d by auto
qed

lemma mb_db [simp]: "MB_TO_DB p = MB_TO_DB q \<longleftrightarrow> p = q" "DB_TO_MB (MB_TO_DB p) = p"
  by (simp_all add: MB_TO_DB_def DB_TO_MB_def)

lemma mod_ref: "0 < r \<Longrightarrow> r < 256 \<Longrightarrow> (r - 1) mod 256 = (r - 1 :: int)"
  by simp

text \<open>The flag of a freed first part of a triple.\<close>

lemma bit_flags: "x AND 256 = 0 \<longleftrightarrow> \<not> bit (x :: int) 8" "x AND 512 = 0 \<longleftrightarrow> \<not> bit (x :: int) 9"
  using and_exp_eq_0_iff_not_bit [of x 8] and_exp_eq_0_iff_not_bit [of x 9] by simp_all

lemma bit_512': "bit (512 :: int) n \<longleftrightarrow> n = 9"
  using bit_exp_iff [where 'a = int, of 9 n] by (auto simp: possible_bit_def)

lemma set_free_flag:
  "gone (m\<lparr>b_flag := b_flag m OR MSGFREE\<rparr>)" "triple (m\<lparr>b_flag := b_flag m OR MSGFREE\<rparr>) = triple m"
  by (simp_all add: gone_def triple_def bit_flags bit_or_iff bit_512')

text \<open>What is left when the block \<open>p\<close>, which refers to \<open>d\<close>, goes out of use.\<close>

lemma block_dropped:
  assumes ok: "mem_ok s" and m: "mblks s p = Some m" "\<not> gone m" and d: "b_datap m = d" and db: "dblks s d = Some db"
    and p': "mblks s' p = (if triple m \<and> db_ref db \<noteq> 1 then Some (m\<lparr>b_flag := b_flag m OR MSGFREE\<rparr>) else None)"
    and q': "\<And>q. q \<noteq> p \<Longrightarrow> mblks s' q = (if MB_TO_DB q = d \<and> db_ref db = 1 then None else mblks s q)"
    and d': "dblks s' = (dblks s)(d := (if db_ref db = 1 then None else Some (db\<lparr>db_ref := db_ref db - 1\<rparr>)))"
  shows "mem_ok s' \<and> live s' = live s - {p} \<and>
    (\<forall>q\<in>live s'. mblks s' q = mblks s q \<and>
       map_option db_data (dblks s' (b_datap (the (mblks s q)))) = map_option db_data (dblks s (b_datap (the (mblks s q)))))"
proof -
  note r = mem_ok_dblk [OF ok db]
  note fin = mem_ok_finite_users [OF ok]
  have pu: "p \<in> users s d" using m d by (simp add: users_def)
  have only: "users s d = {p}" if "db_ref db = 1"
  proof -
    have "card (users s d) = 1" using that r(3) by simp
    then obtain x where "users s d = {x}" by (rule card_1_singletonE)
    then show ?thesis using pu by simp
  qed
  have mine: "b_datap m = MB_TO_DB p" if "triple m" using mem_ok_mblk(1) [OF ok m(1) that m(2)] .
  have dead: "gone m'" if "mblks s q = Some m'" "q \<noteq> p" "MB_TO_DB q = d" "db_ref db = 1" for q m'
  proof (rule ccontr)
    assume g: "\<not> gone m'"
    obtain p0 m0 where o: "d = MB_TO_DB p0" "mblks s p0 = Some m0" "triple m0" using r(4) by blast
    then have "triple m'" using that by simp
    then have "q \<in> users s d" using mem_ok_mblk(1) [OF ok that(1) _ g] that g by (simp add: users_def)
    then show False using only that by simp
  qed
  have keep: "mblks s' q = Some m' \<and> \<not> gone m' \<longleftrightarrow> q \<noteq> p \<and> mblks s q = Some m' \<and> \<not> gone m'" for q m'
    using p' q' [of q] dead [of q m'] set_free_flag(1) [of m] by (cases "q = p") (auto split: if_splits)
  have live': "live s' = live s - {p}" unfolding live_def using keep by blast
  have us: "users s' x = users s x - {p}" for x unfolding users_def using keep by blast
  have card: "card (users s' d) = card (users s d) - 1" using us [of d] fin pu by simp
  have other: "users s' x = users s x" if "x \<noteq> d" for x using us [of x] that m d by (auto simp: users_def)
  have sub: "\<exists>m0. mblks s q = Some m0 \<and> triple m0 = triple m' \<and> b_datap m0 = b_datap m' \<and> (gone m0 \<longrightarrow> gone m')" if "mblks s' q = Some m'" for q m'
    using that p' q' [of q] m set_free_flag [of m] by (cases "q = p") (auto split: if_splits)
  have mb: "(if triple m' then \<not> gone m' \<longrightarrow> b_datap m' = MB_TO_DB q else \<not> gone m') \<and>
      (triple m' \<longrightarrow> dblks s' (MB_TO_DB q) \<noteq> None) \<and> (\<not> gone m' \<longrightarrow> dblks s' (b_datap m') \<noteq> None)"
    if q: "mblks s' q = Some m'" for q m'
  proof -
    obtain m0 where m0: "mblks s q = Some m0" "triple m0 = triple m'" "b_datap m0 = b_datap m'" "gone m0 \<longrightarrow> gone m'"
      using sub [OF q] by blast
    note k = mem_ok_mblk [OF ok m0(1)]
    have nt: "\<not> gone m'" if "\<not> triple m'"
      using that m0 k(2) q p' q' [of q] set_free_flag(2) [of m] by (cases "q = p") (auto split: if_splits)
    have "dblks s' (MB_TO_DB q) \<noteq> None" if t: "triple m'"
    proof (cases "MB_TO_DB q = d \<and> db_ref db = 1")
      case True
      then have "mblks s' q = None" using q' [of q] p' by (cases "q = p") auto
      then show ?thesis using q by simp
    next
      case False
      then show ?thesis using k(3) m0(2) t db by (auto simp: d')
    qed
    moreover have "dblks s' (b_datap m') \<noteq> None" if g: "\<not> gone m'"
    proof (cases "b_datap m' = d \<and> db_ref db = 1")
      case True
      then have "q \<in> users s' d" using q g by (simp add: users_def)
      then show ?thesis using us [of d] only True by simp
    next
      case False
      then show ?thesis using k(4) m0(3,4) g by (auto simp: d')
    qed
    ultimately show ?thesis using nt k(1) m0 by auto
  qed
  have dbk: "0 < db_ref db' \<and> db_ref db' < 256 \<and> db_ref db' = int (card (users s' x)) \<and>
      (\<exists>q m'. x = MB_TO_DB q \<and> mblks s' q = Some m' \<and> triple m')" if x: "dblks s' x = Some db'" for x db'
  proof (cases "x = d")
    case True
    then have e: "db_ref db \<noteq> 1" "db' = db\<lparr>db_ref := db_ref db - 1\<rparr>" using x by (auto simp: d' split: if_splits)
    obtain p0 m0 where o: "d = MB_TO_DB p0" "mblks s p0 = Some m0" "triple m0" using r(4) by blast
    have "\<exists>m'. mblks s' p0 = Some m' \<and> triple m'"
      using o e(1) p' q' [of p0] m(1) set_free_flag(2) [of m] by (cases "p0 = p") auto
    moreover have "0 < card (users s d)" using r(1,3) by simp
    ultimately show ?thesis using True e r(1-3) card o(1) by auto
  next
    case False
    then have x0: "dblks s x = Some db'" using x by (simp add: d')
    note k = mem_ok_dblk [OF ok x0]
    obtain p0 m0 where o: "x = MB_TO_DB p0" "mblks s p0 = Some m0" "triple m0" using k(4) by blast
    have "p0 \<noteq> p" using o False mine m d by auto
    then have "mblks s' p0 = Some m0" using q' [of p0] o False by simp
    then show ?thesis using k(1-3) o other [OF False] by auto
  qed
  have "dom (mblks s') \<subseteq> dom (mblks s)" using sub by blast
  then have "finite (dom (mblks s'))" using ok finite_subset by (auto simp: mem_ok_def)
  then have "mem_ok s'" unfolding mem_ok_def using mb dbk by blast
  moreover have "mblks s' q = mblks s q \<and>
       map_option db_data (dblks s' (b_datap (the (mblks s q)))) = map_option db_data (dblks s (b_datap (the (mblks s q))))"
    if q: "q \<in> live s'" for q
  proof -
    obtain m' where m': "mblks s' q = Some m'" "\<not> gone m'" using q by (auto simp: live_def)
    then have "mblks s q = Some m'" using keep by blast
    moreover have "dblks s' (b_datap m') \<noteq> None" using mb [OF m'(1)] m'(2) by blast
    ultimately show ?thesis using m' db by (auto simp: d' split: if_splits)
  qed
  ultimately show ?thesis using live' by blast
qed

text \<open>
  C34. Freeing a block. While the counts are exact, \<open>freeb\<close> of a block in use returns, keeps them exact and
  takes this block out of use and no other; the blocks in use are unchanged and so are the buffers they refer
  to. When the last block in use is freed, all memory has been given back.
\<close>

theorem freeb_keeps_counts:
  assumes ok: "mem_ok s" and p: "p \<in> live s"
  shows "\<exists>s'. freeb p s = Some s' \<and> mem_ok s' \<and> live s' = live s - {p} \<and>
    (\<forall>q\<in>live s'. mblks s' q = mblks s q \<and>
       map_option db_data (dblks s' (b_datap (the (mblks s q)))) = map_option db_data (dblks s (b_datap (the (mblks s q))))) \<and>
    (live s = {p} \<longrightarrow> mblks s' = Map.empty \<and> dblks s' = Map.empty)"
proof -
  obtain m where m: "mblks s p = Some m" "\<not> gone m" using p by (auto simp: live_def)
  define d where "d = b_datap m"
  obtain db where db: "dblks s d = Some db" using mem_ok_mblk(4) [OF ok m] by (auto simp: d_def)
  note r = mem_ok_dblk [OF ok db]
  obtain p0 m0 where o: "d = MB_TO_DB p0" "mblks s p0 = Some m0" "triple m0" using r(4) by blast
  have mine: "d = MB_TO_DB p" if "triple m" using mem_ok_mblk(1) [OF ok m(1) that m(2)] by (simp add: d_def)
  have none: "dblks s (MB_TO_DB p) = None" if "\<not> triple m"
    using mem_ok_dblk(4) [OF ok, of "MB_TO_DB p"] that m by (cases "dblks s (MB_TO_DB p)") auto
  define s1 where "s1 = upd_db (\<lambda>db. db\<lparr>db_ref := db_ref db - 1\<rparr>) d s"
  have s1: "mblks s1 = mblks s" "dblks s1 = (dblks s)(d \<mapsto> db\<lparr>db_ref := db_ref db - 1\<rparr>)"
    using db by (simp_all add: s1_def upd_db_def)
  have fr: "freeb p s = (if db_ref db \<noteq> 1 then
      (if \<not> triple m then Some (STRMEM_FREE p 32 s1)
       else Some (upd_mb (\<lambda>m. m\<lparr>b_flag := b_flag m OR MSGFREE\<rparr>) p s1))
    else if \<not> triple m then (let s2 = STRMEM_FREE p 32 s1 in do { m' \<leftarrow> mblks s2 p0;
      if b_flag m' AND MSGFREE = 0 then Some s2 else free_triple p0 d s2 }) else free_triple p d s1)"
  proof -
    have ref: "(db_ref db - 1) mod 256 = db_ref db - 1" using r(1,2) by simp
    have u: "upd_db (\<lambda>x. x\<lparr>db_ref := k\<rparr>) d s = s1" if "k = db_ref db - 1" for k using db that by (simp add: s1_def upd_db_def)
    have pos: "0 < db_ref db - 1 \<longleftrightarrow> db_ref db \<noteq> 1" using r(1) by auto
    have own: "dblks s1 (MB_TO_DB p) = Some (db\<lparr>db_ref := db_ref db - 1\<rparr>)" if "triple m" using mine [OF that] s1(2) by simp
    have "DB_TO_MB d = p0" using o(1) by simp
    then show ?thesis using m db own pos unfolding freeb_def triple_def [symmetric]
      by (simp add: d_def [symmetric] ref u Let_def cong: if_cong)
  qed
  have dead: "gone m0" if "db_ref db = 1" "\<not> triple m"
  proof (rule ccontr)
    assume g: "\<not> gone m0"
    have "b_datap m0 = d" using mem_ok_mblk(1) [OF ok o(2,3) g] o(1) by simp
    then have "{p, p0} \<subseteq> users s d" "p \<noteq> p0" using m o(2,3) g that(2) by (auto simp: users_def d_def)
    then have "2 \<le> card (users s d)" using card_mono [OF mem_ok_finite_users [OF ok], of "{p, p0}" d] by simp
    then show False using that(1) r(3) by simp
  qed
  have "\<exists>s'. freeb p s = Some s' \<and>
     mblks s' p = (if triple m \<and> db_ref db \<noteq> 1 then Some (m\<lparr>b_flag := b_flag m OR MSGFREE\<rparr>) else None) \<and>
     (\<forall>q. q \<noteq> p \<longrightarrow> mblks s' q = (if MB_TO_DB q = d \<and> db_ref db = 1 then None else mblks s q)) \<and>
     dblks s' = (dblks s)(d := (if db_ref db = 1 then None else Some (db\<lparr>db_ref := db_ref db - 1\<rparr>)))"
  proof (cases "triple m")
    case True
    then show ?thesis
      unfolding fr using m mine [OF True] s1
      by (auto simp: upd_mb_def free_triple_def STRMEM_FREE_def fun_eq_iff)
  next
    case False
    have np: "p0 \<noteq> p" using o False m by auto
    have "b_flag m0 AND MSGFREE \<noteq> 0" if "db_ref db = 1" using dead [OF that False] by (simp add: gone_def)
    then show ?thesis
      unfolding fr using m s1 False none [OF False] np o
      by (auto simp: upd_mb_def free_triple_def STRMEM_FREE_def Let_def fun_eq_iff)
  qed
  then obtain s' where s': "freeb p s = Some s'"
    "mblks s' p = (if triple m \<and> db_ref db \<noteq> 1 then Some (m\<lparr>b_flag := b_flag m OR MSGFREE\<rparr>) else None)"
    "\<And>q. q \<noteq> p \<Longrightarrow> mblks s' q = (if MB_TO_DB q = d \<and> db_ref db = 1 then None else mblks s q)"
    "dblks s' = (dblks s)(d := (if db_ref db = 1 then None else Some (db\<lparr>db_ref := db_ref db - 1\<rparr>)))" by blast
  note b = block_dropped [OF ok m d_def [symmetric] db s'(2-4)]
  moreover have "mblks s' = Map.empty \<and> dblks s' = Map.empty" if "live s = {p}"
    using mem_ok_empty [of s'] b that by auto
  ultimately show ?thesis using s'(1) by blast
qed

section \<open>The bytes of a message\<close>

text \<open>\<open>message s mp ps\<close>: the blocks \<open>ps\<close> are linked from \<open>mp\<close> on.\<close>

fun message :: "'a strmem_scheme \<Rightarrow> nat \<Rightarrow> nat list \<Rightarrow> bool" where
  "message s mp [] \<longleftrightarrow> mp = 0"
| "message s mp (p # ps) \<longleftrightarrow> mp = p \<and> p \<noteq> 0 \<and> (\<exists>m. mblks s p = Some m \<and> message s (b_cont m) ps)"

definition block_bytes :: "'a strmem_scheme \<Rightarrow> nat \<Rightarrow> int list option" where
  "block_bytes s p = do { m \<leftarrow> mblks s p; db \<leftarrow> dblks s (b_datap m); bytes_at db (b_rptr m) (blklen m) }"

fun msg_bytes :: "'a strmem_scheme \<Rightarrow> nat list \<Rightarrow> int list option" where
  "msg_bytes s [] = Some []"
| "msg_bytes s (p # ps) = do { b \<leftarrow> block_bytes s p; bs \<leftarrow> msg_bytes s ps; Some (b @ bs) }"

text \<open>All blocks are of one type.\<close>

definition of_type :: "'a strmem_scheme \<Rightarrow> int \<Rightarrow> nat list \<Rightarrow> bool" where
  "of_type s ty ps \<longleftrightarrow> (\<forall>p\<in>set ps. \<exists>m db. mblks s p = Some m \<and> dblks s (b_datap m) = Some db \<and> db_type db = ty)"

lemma message_0 [simp]: "message s 0 ps \<longleftrightarrow> ps = []"
  by (cases ps) auto

lemma bytes_at_simps:
  assumes "bytes_at db a n = Some b"
  shows "length b = nat n" "0 \<le> n" "0 \<le> k \<Longrightarrow> k \<le> n \<Longrightarrow> bytes_at db (a + k) (n - k) = Some (drop (nat k) b)"
proof -
  have b: "db_base db \<le> a" "0 \<le> n" "a + n \<le> db_base db + int (length (db_data db))"
    "b = take (nat n) (drop (nat (a - db_base db)) (db_data db))"
    using assms by (auto simp: bytes_at_def split: if_splits)
  then show "length b = nat n" "0 \<le> n" by auto
  assume k: "0 \<le> k" "k \<le> n"
  have "nat (a + k - db_base db) = nat k + nat (a - db_base db)" using b(1) k(1) by linarith
  then show "bytes_at db (a + k) (n - k) = Some (drop (nat k) b)"
    using b k by (auto simp: bytes_at_def nat_diff_distrib drop_take add.commute)
qed





section \<open>Trimming the tail\<close>

text \<open>The size of the blocks of a message.\<close>

definition block_size :: "'a strmem_scheme \<Rightarrow> nat \<Rightarrow> int" where
  "block_size s p = blklen (the (mblks s p))"

lemma adj_span_all:
  assumes "message s mp ps" "ps \<noteq> []" "of_type s ty ps"
  shows "adj_span mp ty span sz s = Some (span, sz + (\<Sum>p\<leftarrow>ps. block_size s p))"
  using assms
proof (induction ps arbitrary: mp sz)
  case (Cons p ps)
  obtain m where m: "mp = p" "mblks s p = Some m" "message s (b_cont m) ps" using Cons.prems(1) by auto
  have b: "block_size s p = blklen m" using m(2) by (simp add: block_size_def)
  show ?case
  proof (cases ps)
    case Nil
    then show ?thesis using m b by (subst adj_span.simps) simp
  next
    case (Cons q qs)
    then have "b_cont m = q" "q \<noteq> 0" using m(3) by auto
    moreover obtain m2 db2 where "mblks s q = Some m2" "dblks s (b_datap m2) = Some db2" "db_type db2 = ty"
      using Cons.prems(3) Cons by (auto simp: of_type_def)
    moreover have "of_type s ty ps" using Cons.prems(3) by (simp add: of_type_def)
    ultimately show ?thesis using Cons.IH [OF m(3), of "sz + blklen m"] m b Cons by (subst adj_span.simps) simp
  qed
qed simp

text \<open>
  Removing bytes from the tail. With a negative length \<open>adjmsg\<close> should remove that many bytes from the end of the
  message. For a message whose blocks are of one type and not empty it does not remove any: of a message of
  one block it reports success and changes nothing, and in a longer message that is on no queue it follows the
  link to the next message, in place of the link to the next block, to the address 0.
\<close>

theorem adjmsg_ignores_tail:
  assumes "message s mp ps" "ps \<noteq> []" "of_type s ty ps" "len < 0" "\<forall>p\<in>set ps. 0 < block_size s p"
    "b_next (the (mblks s mp)) = 0" "mblks s 0 = None"
  shows "adjmsg mp len s = (if length ps = 1 then Some (1, s) else None)"
proof -
  obtain p qs where ps: "ps = p # qs" using assms(2) by (cases ps) auto
  obtain m where m: "mp = p" "mblks s mp = Some m" using assms(1) ps by auto
  obtain db where db: "dblks s (b_datap m) = Some db" "db_type db = ty" using assms(3) ps m by (auto simp: of_type_def)
  define rest where "rest = (\<Sum>p\<leftarrow>qs. block_size s p)"
  have sp: "adj_span mp ty mp 0 s = Some (mp, blklen m + rest)"
    using adj_span_all [OF assms(1-3), of mp 0] m by (simp add: ps rest_def block_size_def)
  have pos: "0 < blklen m" using assms(5) ps m by (simp add: block_size_def)
  have nn: "0 \<le> (\<Sum>p\<leftarrow>xs. block_size s p)" if "set xs \<subseteq> set ps" for xs
    using that assms(5) by (induction xs) (auto intro!: add_nonneg_nonneg simp: order_less_imp_le)
  have r0: "0 \<le> rest" "rest = 0 \<longleftrightarrow> qs = []"
  proof -
    show "0 \<le> rest" unfolding rest_def by (rule nn) (simp add: ps subset_insertI)
    show "rest = 0 \<longleftrightarrow> qs = []"
    proof (cases qs)
      case (Cons q qs')
      have "0 \<le> (\<Sum>p\<leftarrow>qs'. block_size s p)" by (rule nn) (auto simp: ps Cons)
      moreover have "0 < block_size s q" using assms(5) by (simp add: ps Cons)
      ultimately show ?thesis by (simp add: rest_def Cons)
    qed (simp add: rest_def)
  qed
  have "adj_tail mp (blklen m + rest) len s = adj_tail 0 rest len s"
    using m(2) pos r0(1) assms(4,6) by (subst adj_tail.simps) simp
  also have "\<dots> = (if rest = 0 then Some s else None)"
    using r0(1) assms(7) by (subst adj_tail.simps) auto
  finally have "adj_tail mp (blklen m + rest) len s = (if length ps = 1 then Some s else None)"
    using r0(2) ps by simp
  then show ?thesis using m(2) db assms(4) sp pos r0(1) by (simp add: adjmsg_def Let_def split: if_splits)
qed

section \<open>Pulling up\<close>

text \<open>
  C36. Concatenating the blocks of a message. \<open>msgpullup\<close> with the length -1 should return a message with the same
  bytes in one block. For a message of one block, when memory is at hand, the message it returns has a second block,
  a duplicate of the original one, so that every byte is in it twice.
\<close>

theorem msgpullup_doubles:
  assumes mp: "message s mp [mp]" and bs: "msg_bytes s [mp] = Some bs" "bs \<noteq> []"
    and answers: "st_answers s = (p1, c1, mem1) # (p2, c2, mem2) # cs" "p1 \<noteq> 0" "p2 \<noteq> 0" "distinct [mp, p1, p2]"
      "MB_TO_DB p1 \<noteq> b_datap (the (mblks s mp))"
    and room: "sm_used s + 84 + int (length bs) \<le> sm_max s ! BPRI_MED" "sm_used s + 84 + int (length bs) \<le> sm_max s ! BPRI_HI"
      "0 \<le> sm_used s"
  shows "\<exists>s'. msgpullup mp (-1) s = Some (p1, s') \<and> message s' p1 [p1, p2] \<and>
    msg_bytes s' [p1, p2] = Some (bs @ bs) \<and> msg_bytes s' [mp] = Some bs"
proof -
  obtain m db where m: "mblks s mp = Some m" "b_cont m = 0" "dblks s (b_datap m) = Some db" "mp \<noteq> 0"
    "bytes_at db (b_rptr m) (blklen m) = Some bs"
    using mp bs(1) by (auto simp: block_bytes_def split: Option.bind_splits)
  define n where "n = blklen m"
  have n: "int (length bs) = n" "0 < n" using bytes_at_simps(1,2) [OF m(5)] bs(2) by (auto simp: n_def order_le_less)
  let ?d = "b_datap m" and ?d1 = "MB_TO_DB p1"
  have ne: "p1 \<noteq> mp" "p2 \<noteq> mp" "p2 \<noteq> p1" "?d1 \<noteq> ?d" using answers(4,5) m(1) by auto
  define base where "base = DB_TO_DATA ?d1"
  define c where "c = c1\<lparr>b_cont := 0, b_datap := ?d1, b_rptr := base, b_wptr := base, b_flag := MSGTRIPLE, b_band := 0\<rparr>"
  define e where "e = \<lparr>db_frtnp = 0, db_base = base, db_data = map (\<lambda>i. mem1 (base + int i)) [0..<nat n], db_ref = 1, db_type = M_DATA\<rparr>"
  define s1 where "s1 = s\<lparr>st_answers := (p2, c2, mem2) # cs, sm_used := sm_used s + MSGB_SIZE n,
    mblks := (mblks s)(p1 \<mapsto> c), dblks := (dblks s)(?d1 \<mapsto> e)\<rparr>"
  have al: "MSGB_ALLOC n BPRI_MED s = (p1, s1)"
    using answers(1,2) room(1,3) n by (simp add: MSGB_ALLOC_def STRMEM_ALLOC_def MSGB_SIZE_def s1_def c_def e_def base_def Let_def)
  define f :: "mblk \<Rightarrow> mblk" where "f = (\<lambda>c. c\<lparr>b_band := b_band m, b_flag := b_flag c OR (b_flag m AND NOT MSGMASK_SYSTEM)\<rparr>)"
  define s2 where "s2 = upd_mb f p1 s1"
  have s2: "mblks s2 = (mblks s)(p1 \<mapsto> f c)" "dblks s2 = (dblks s)(?d1 \<mapsto> e)" "st_answers s2 = (p2, c2, mem2) # cs"
    "sm_used s2 = sm_used s + MSGB_SIZE n" "sm_max s2 = sm_max s"
    by (simp_all add: s2_def s1_def upd_mb_def)
  define s3 where "s3 = upd_mb (\<lambda>c. c\<lparr>b_wptr := b_wptr c + n\<rparr>) p1 (upd_db (\<lambda>_. e\<lparr>db_data := bs\<rparr>) ?d1 s2)"
  have s3: "mblks s3 = (mblks s)(p1 \<mapsto> (f c)\<lparr>b_wptr := base + n\<rparr>)" "dblks s3 = (dblks s)(?d1 \<mapsto> e\<lparr>db_data := bs\<rparr>)"
    "st_answers s3 = (p2, c2, mem2) # cs" "sm_used s3 = sm_used s + MSGB_SIZE n" "sm_max s3 = sm_max s"
    using s2 by (simp_all add: s3_def upd_mb_def upd_db_def f_def c_def)
  define s4 where "s4 = upd_db (\<lambda>db. db\<lparr>db_ref := (db_ref db + 1) mod 256\<rparr>) ?d (s3\<lparr>st_answers := cs, sm_used := sm_used s3 + 32,
    mblks := (mblks s3)(p2 \<mapsto> c2\<lparr>b_cont := 0, b_datap := ?d, b_rptr := b_rptr m, b_wptr := b_wptr m\<rparr>)\<rparr>)"
  have dup: "dupb mp s3 = Some (p2, s4)"
    using s3 answers(3) room(2,3) n m(1) ne by (simp add: dupb_def STRMEM_ALLOC_def MSGB_SIZE_def s4_def)
  have s4: "mblks s4 mp = Some m" "mblks s4 p1 = Some ((f c)\<lparr>b_wptr := base + n\<rparr>)"
    "mblks s4 p2 = Some (c2\<lparr>b_cont := 0, b_datap := ?d, b_rptr := b_rptr m, b_wptr := b_wptr m\<rparr>)"
    "dblks s4 ?d = Some (db\<lparr>db_ref := (db_ref db + 1) mod 256\<rparr>)" "dblks s4 ?d1 = Some (e\<lparr>db_data := bs\<rparr>)"
    using s3 m(1,3) ne by (simp_all add: s4_def upd_db_def)
  have dm: "dupmsg mp s3 = Some (p2, s4)"
    using dup answers(3) s4(1) m(2) by (simp add: dupmsg_def) (subst dup_loop.simps, simp)
  define s' where "s' = upd_mb (\<lambda>c. c\<lparr>b_cont := p2\<rparr>) p1 s4"
  have mem: "memcpy ?d1 base ?d (b_rptr m) n s2 = Some (upd_db (\<lambda>_. e\<lparr>db_data := bs\<rparr>) ?d1 s2)"
    using s2 m(3,5) ne n by (simp add: memcpy_def n_def [symmetric] store_at_def e_def Let_def)
  have "pullup_loop p1 mp n s2 = Some (p1, s')"
    using m(1,4) s2 ne n mem dm answers(3)
    by (subst pullup_loop.simps)
      (simp add: n_def [symmetric] s3_def [symmetric] s'_def [symmetric] f_def c_def size_t_def Let_def)
  moreover have "pullup_size mp (db_type db) 0 s = Some n"
    using m(1,2) by (subst pullup_size.simps) (simp add: n_def)
  ultimately have "msgpullup mp (-1) s = Some (p1, s')"
    using m(1,3) al answers(2) by (simp add: msgpullup_def Let_def s2_def f_def)
  moreover have "message s' p1 [p1, p2]"
    using s4 ne answers(2,3) by (simp add: s'_def upd_mb_def)
  moreover have "block_bytes s' p1 = Some bs"
    using s4(2,5) ne n by (simp add: s'_def upd_mb_def block_bytes_def f_def c_def e_def blklen_def bytes_at_def)
  moreover have "bytes_at (db\<lparr>db_ref := r\<rparr>) a k = bytes_at db a k" for r a k by (simp add: bytes_at_def)
  then have "block_bytes s' p2 = Some bs" "block_bytes s' mp = Some bs"
    using s4 ne m(5) by (simp_all add: s'_def upd_mb_def block_bytes_def blklen_def)
  ultimately show ?thesis by simp
qed

section \<open>An example\<close>

text \<open>
  Two triples at 4 and 200, linked, with the bytes 1, 2, 3 and 4, 5; the separate block at 300 shares the first buffer.
\<close>

definition demo_mem :: strmem where
  "demo_mem = \<lparr>u_error = E_NONE,
     mblks = [4 \<mapsto> \<lparr>b_next = 0, b_prev = 0, b_cont = 200, b_rptr = 56, b_wptr = 59, b_datap = 36, b_band = 0, b_flag = 256\<rparr>,
       200 \<mapsto> \<lparr>b_next = 0, b_prev = 0, b_cont = 0, b_rptr = 252, b_wptr = 254, b_datap = 232, b_band = 0, b_flag = 256\<rparr>,
       300 \<mapsto> \<lparr>b_next = 0, b_prev = 0, b_cont = 0, b_rptr = 57, b_wptr = 59, b_datap = 36, b_band = 0, b_flag = 0\<rparr>],
     dblks = [36 \<mapsto> \<lparr>db_frtnp = 0, db_base = 56, db_data = [1, 2, 3], db_ref = 2, db_type = 0\<rparr>,
       232 \<mapsto> \<lparr>db_frtnp = 0, db_base = 252, db_data = [4, 5], db_ref = 1, db_type = 0\<rparr>],
     st_answers = [(400, \<lparr>b_next = 0, b_prev = 0, b_cont = 0, b_rptr = 0, b_wptr = 0, b_datap = 0, b_band = 0, b_flag = 0\<rparr>, \<lambda>_. 0),
       (500, \<lparr>b_next = 0, b_prev = 0, b_cont = 0, b_rptr = 0, b_wptr = 0, b_datap = 0, b_band = 0, b_flag = 0\<rparr>, \<lambda>_. 0)],
     sm_used = 141, sm_max = [1000, 1000, 1000], free_calls = []\<rparr>"

lemma demo_users: "users demo_mem d = (if d = 36 then {4, 300} else if d = 232 then {200} else {})"
  by (auto simp: users_def demo_mem_def gone_def split: if_splits)

lemma demo_live: "live demo_mem = {4, 200, 300}"
  by (auto simp: live_def demo_mem_def gone_def split: if_splits)

lemma demo_mem_ok: "mem_ok demo_mem"
proof -
  have "finite (dom (mblks demo_mem))" by (simp add: demo_mem_def)
  moreover have "(if triple m then \<not> gone m \<longrightarrow> b_datap m = MB_TO_DB p else \<not> gone m) \<and>
      (triple m \<longrightarrow> dblks demo_mem (MB_TO_DB p) \<noteq> None) \<and> (\<not> gone m \<longrightarrow> dblks demo_mem (b_datap m) \<noteq> None)"
    if "mblks demo_mem p = Some m" for p m
    using that by (auto simp: demo_mem_def triple_def gone_def MB_TO_DB_def split: if_splits)
  moreover have "0 < db_ref db \<and> db_ref db < 256 \<and> db_ref db = int (card (users demo_mem d)) \<and>
        (\<exists>p m. d = MB_TO_DB p \<and> mblks demo_mem p = Some m \<and> triple m)" if "dblks demo_mem d = Some db" for d db
  proof -
    have "d = 36 \<and> db_ref db = 2 \<or> d = 232 \<and> db_ref db = 1" using that by (auto simp: demo_mem_def split: if_splits)
    moreover have "\<exists>m. mblks demo_mem 4 = Some m \<and> triple m" "\<exists>m. mblks demo_mem 200 = Some m \<and> triple m"
      by (simp_all add: demo_mem_def triple_def)
    moreover have "(36 :: nat) = MB_TO_DB 4" "(232 :: nat) = MB_TO_DB 200" by (simp_all add: MB_TO_DB_def)
    ultimately show ?thesis by (auto simp: demo_users)
  qed
  ultimately show ?thesis unfolding mem_ok_def by blast
qed

lemma demo_message: "message demo_mem 4 [4, 200]" "message demo_mem 300 [300]" "of_type demo_mem 0 [4, 200]"
  "msg_bytes demo_mem [4, 200] = Some [1, 2, 3, 4, 5]" "msg_bytes demo_mem [300] = Some [2, 3]"
  by (simp_all add: demo_mem_def of_type_def block_bytes_def bytes_at_def blklen_def)

lemma freeb_keeps_counts_witness:
  "\<exists>s1 s2 s3. freeb 4 demo_mem = Some s1 \<and> freeb 200 s1 = Some s2 \<and> freeb 300 s2 = Some s3 \<and>
     mblks s3 = Map.empty \<and> dblks s3 = Map.empty"
proof -
  obtain s1 where s1: "freeb 4 demo_mem = Some s1" "mem_ok s1" "live s1 = {200, 300}"
    using freeb_keeps_counts [OF demo_mem_ok, of 4] by (auto simp: demo_live)
  obtain s2 where s2: "freeb 200 s1 = Some s2" "mem_ok s2" "live s2 = {300}"
    using freeb_keeps_counts [OF s1(2), of 200] s1(3) by auto
  then show ?thesis using freeb_keeps_counts [OF s2(2), of 300] s1(1) by auto
qed


lemma adjmsg_ignores_tail_witness: "adjmsg 4 (-4) demo_mem = None"
proof -
  have "b_next (the (mblks demo_mem 4)) = 0" "mblks demo_mem 0 = None" "\<forall>p\<in>set [4, 200]. 0 < block_size demo_mem p"
    by (simp_all add: demo_mem_def block_size_def blklen_def)
  then show ?thesis using adjmsg_ignores_tail [OF demo_message(1) _ demo_message(3), of "-4"] by simp
qed

lemma msgpullup_doubles_witness:
  "\<exists>s'. msgpullup 300 (-1) demo_mem = Some (400, s') \<and> message s' 400 [400, 500] \<and> msg_bytes s' [400, 500] = Some [2, 3, 2, 3]"
proof -
  have "MB_TO_DB 400 \<noteq> b_datap (the (mblks demo_mem 300))" by (simp add: demo_mem_def MB_TO_DB_def)
  moreover have "sm_used demo_mem + 84 + 2 \<le> sm_max demo_mem ! 1" "sm_used demo_mem + 84 + 2 \<le> sm_max demo_mem ! 2" "0 \<le> sm_used demo_mem"
    by (simp_all add: demo_mem_def)
  moreover obtain c1 m1 c2 m2 where "st_answers demo_mem = [(400, c1, m1), (500, c2, m2)]" by (simp add: demo_mem_def)
  ultimately show ?thesis
    using msgpullup_doubles [OF demo_message(2,5), of 400 c1 m1 500 c2 m2 "[]"] by simp blast
qed

end
