(* ===== verification/Stream_Queue_Laws.thy ===== *)
theory Stream_Queue_Laws
  imports Stream_Calls Stream_Message_Properties
begin

text \<open>
  A queue of STREAMS as the list of its messages: the links in both directions, what the operations on links do
  to the list, and the flags of flow control.
\<close>

section \<open>Flags\<close>

lemma has_bit: "has x (2 ^ k) \<longleftrightarrow> bit x k"
  by (simp add: has_def and_exp_eq_0_iff_not_bit)

lemma bit_two_power: "bit (2 ^ k :: int) n \<longleftrightarrow> n = k"
  by (auto simp: bit_exp_iff possible_bit_def)

lemma has_or: "has (x OR 2 ^ k) (2 ^ j) \<longleftrightarrow> j = k \<or> has x (2 ^ j)"
  by (auto simp: has_bit bit_or_iff bit_two_power)

lemma has_and_not: "has (x AND NOT (2 ^ k)) (2 ^ j) \<longleftrightarrow> j \<noteq> k \<and> has x (2 ^ j)"
  by (auto simp: has_bit bit_and_iff bit_not_iff bit_two_power possible_bit_def)

text \<open>The flags as powers of two.\<close>

lemma flag_powers: "(1::int) = 2 ^ 0" "(2::int) = 2 ^ 1" "(4::int) = 2 ^ 2" "(8::int) = 2 ^ 3" "(16::int) = 2 ^ 4" "(32::int) = 2 ^ 5"
  "(64::int) = 2 ^ 6" "(256::int) = 2 ^ 8" "(512::int) = 2 ^ 9" "(1024::int) = 2 ^ 10"
  by simp_all

lemma has_set:
  "f \<in> {1, 2, 4, 8, 16, 32, 64, 256, 512, 1024} \<Longrightarrow> g \<in> {1, 2, 4, 8, 16, 32, 64, 256, 512, 1024} \<Longrightarrow>
   has (x OR f) g \<longleftrightarrow> g = f \<or> has x g"
  "f \<in> {1, 2, 4, 8, 16, 32, 64, 256, 512, 1024} \<Longrightarrow> g \<in> {1, 2, 4, 8, 16, 32, 64, 256, 512, 1024} \<Longrightarrow>
   has (x AND NOT f) g \<longleftrightarrow> g \<noteq> f \<and> has x g"
proof -
  have pow: "f \<in> {1, 2, 4, 8, 16, 32, 64, 256, 512, 1024} \<Longrightarrow> \<exists>k. f = 2 ^ k" for f :: int
    using flag_powers by (elim insertE) blast+
  have inj: "(2 :: int) ^ j = 2 ^ k \<longleftrightarrow> j = k" for j k by simp
  show "has (x OR f) g \<longleftrightarrow> g = f \<or> has x g" if "f \<in> {1, 2, 4, 8, 16, 32, 64, 256, 512, 1024}" "g \<in> {1, 2, 4, 8, 16, 32, 64, 256, 512, 1024}"
    using pow [OF that(1)] pow [OF that(2)] has_or inj by metis
  show "has (x AND NOT f) g \<longleftrightarrow> g \<noteq> f \<and> has x g" if "f \<in> {1, 2, 4, 8, 16, 32, 64, 256, 512, 1024}" "g \<in> {1, 2, 4, 8, 16, 32, 64, 256, 512, 1024}"
    using pow [OF that(1)] pow [OF that(2)] has_and_not inj by metis
qed

text \<open>The same, with the complements as the simplifier writes them.\<close>

lemma has_clear:
  assumes "g \<in> {1, 2, 4, 8, 16, 32, 64, 256, 512, 1024}"
  shows "has (x AND - 2) g \<longleftrightarrow> g \<noteq> 1 \<and> has x g" "has (x AND - 5) g \<longleftrightarrow> g \<noteq> 4 \<and> has x g" "has (x AND - 9) g \<longleftrightarrow> g \<noteq> 8 \<and> has x g"
    "has (x AND - 65) g \<longleftrightarrow> g \<noteq> 64 \<and> has x g" "has (x AND - 257) g \<longleftrightarrow> g \<noteq> 256 \<and> has x g"
  using has_set(2) [of 1 g x] has_set(2) [of 4 g x] has_set(2) [of 8 g x] has_set(2) [of 64 g x] has_set(2) [of 256 g x] assms by simp_all

section \<open>Frames\<close>

text \<open>The state of a queue and its neighbours after an update.\<close>

lemma upd_q_simps [simp]:
  "squeues (upd_q f q s) = (squeues s)(q := map_option f (squeues s q))" "mblks (upd_q f q s) = mblks s" "dblks (upd_q f q s) = dblks s"
  "qbands (upd_q f q s) = qbands s" "ss_head (upd_q f q s) = ss_head s" "ss_tail (upd_q f q s) = ss_tail s"
  "run_strsched (upd_q f q s) = run_strsched s" "km_answers (upd_q f q s) = km_answers s"
  by (simp_all add: upd_q_def)

lemma upd_mb_simps [simp]:
  fixes s :: "'a q_state_scheme"
  shows "mblks (upd_mb g p s) = (mblks s)(p := map_option g (mblks s p))" "dblks (upd_mb g p s) = dblks s"
  "squeues (upd_mb g p s) = squeues s" "qbands (upd_mb g p s) = qbands s" "ss_head (upd_mb g p s) = ss_head s"
  "ss_tail (upd_mb g p s) = ss_tail s" "run_strsched (upd_mb g p s) = run_strsched s" "km_answers (upd_mb g p s) = km_answers s"
  by (simp_all add: upd_mb_def)

section \<open>Links\<close>

text \<open>
  \<open>dseg s p f xs l e\<close>: from \<open>f\<close> to before \<open>e\<close> the messages \<open>xs\<close> are linked in both directions; \<open>p\<close> is before the first,
  and \<open>l\<close> is the last, or \<open>p\<close>.
\<close>

fun dseg :: "'a strmem_scheme \<Rightarrow> nat \<Rightarrow> nat \<Rightarrow> nat list \<Rightarrow> nat \<Rightarrow> nat \<Rightarrow> bool" where
  "dseg s p f [] l e \<longleftrightarrow> f = e \<and> l = p"
| "dseg s p f (x # xs) l e \<longleftrightarrow> f = x \<and> x \<noteq> 0 \<and> (\<exists>m. mblks s x = Some m \<and> b_prev m = p \<and> dseg s x (b_next m) xs l e)"

lemma dseg_append: "dseg s p f (xs @ ys) l e \<longleftrightarrow> (\<exists>a b. dseg s p f xs a b \<and> dseg s a b ys l e)"
  by (induction xs arbitrary: p f) auto

lemma dseg_last: "dseg s p f xs l e \<Longrightarrow> l = (if xs = [] then p else last xs)"
  by (induction xs arbitrary: p f) auto

lemma dseg_first: "dseg s p f xs l e \<Longrightarrow> f = (if xs = [] then e else hd xs)"
  by (cases xs) auto

lemma dseg_nonzero: "dseg s p f xs l e \<Longrightarrow> 0 \<notin> set xs"
  by (induction xs arbitrary: p f) auto

lemma dseg_mblk: "dseg s p f xs l e \<Longrightarrow> x \<in> set xs \<Longrightarrow> \<exists>m. mblks s x = Some m"
  by (induction xs arbitrary: p f) auto

lemma dseg_cong:
  "\<forall>x\<in>set xs. map_option (\<lambda>m. (b_next m, b_prev m)) (mblks s' x) = map_option (\<lambda>m. (b_next m, b_prev m)) (mblks s x) \<Longrightarrow>
   dseg s' p f xs l e = dseg s p f xs l e"
proof (induction xs arbitrary: p f)
  case (Cons x xs)
  then show ?case by (cases "mblks s x"; cases "mblks s' x") auto
qed simp

text \<open>The last block of a segment may be relinked to another successor, and the first to another predecessor.\<close>

lemma dseg_set_next:
  fixes s :: "'a q_state_scheme"
  assumes "dseg s p f xs l e" "xs \<noteq> []" "distinct xs"
  shows "dseg (upd_mb (\<lambda>m. m\<lparr>b_next := e'\<rparr>) (last xs) s) p f xs l e'"
  using assms
proof (induction xs arbitrary: p f)
  case (Cons x xs)
  show ?case
  proof (cases "xs = []")
    case False
    then have "last xs \<noteq> x" using Cons.prems(3) last_in_set by fastforce
    then show ?thesis using Cons False by auto
  qed (use Cons.prems in auto)
qed simp

lemma dseg_set_prev:
  fixes s :: "'a q_state_scheme"
  assumes "dseg s p f (x # xs) l e" "x \<notin> set xs"
  shows "dseg (upd_mb (\<lambda>m. m\<lparr>b_prev := p'\<rparr>) x s) p' f (x # xs) l e"
proof -
  have "dseg (upd_mb (\<lambda>m. m\<lparr>b_prev := p'\<rparr>) x s) x f xs l e = dseg s x f xs l e" for f
    by (rule dseg_cong) (use assms(2) in auto)
  then show ?thesis using assms by auto
qed

text \<open>The list of the messages of a queue.\<close>

definition qlist :: "'a q_state_scheme \<Rightarrow> nat \<Rightarrow> nat list \<Rightarrow> bool" where
  "qlist s q ps \<longleftrightarrow> distinct ps \<and> (\<exists>x. squeues s q = Some x \<and> dseg s 0 (q_first x) ps (q_last x) 0)"

text \<open>What is in a block apart from its place in a queue.\<close>

definition body :: "'a strmem_scheme \<Rightarrow> nat \<Rightarrow> mblk option" where
  "body s p = map_option (\<lambda>m. m\<lparr>b_next := 0, b_prev := 0\<rparr>) (mblks s p)"

text \<open>\<open>only_links s s'\<close>: at most links and the ends of the queue \<open>q\<close> have changed.\<close>

definition only_links :: "nat \<Rightarrow> 'a q_state_scheme \<Rightarrow> 'a q_state_scheme \<Rightarrow> bool" where
  "only_links q s s' \<longleftrightarrow> body s' = body s \<and> dblks s' = dblks s \<and> qbands s' = qbands s \<and> ss_head s' = ss_head s \<and> ss_tail s' = ss_tail s \<and>
     run_strsched s' = run_strsched s \<and> (\<forall>r. r \<noteq> q \<longrightarrow> squeues s' r = squeues s r) \<and>
     (\<exists>f l. squeues s' q = map_option (\<lambda>x. x\<lparr>q_first := f, q_last := l\<rparr>) (squeues s q))"

lemma ends: "\<exists>f l. x = x\<lparr>q_first := f, q_last := l\<rparr>" "\<exists>f l. x\<lparr>q_first := g\<rparr> = x\<lparr>q_first := f, q_last := l\<rparr>"
  "\<exists>f l. x\<lparr>q_last := g\<rparr> = x\<lparr>q_first := f, q_last := l\<rparr>"
  by (rule exI [of _ "q_first x"], rule exI [of _ "q_last x"], simp) (rule exI [of _ g], rule exI [of _ "q_last x"], simp,
    rule exI [of _ "q_first x"], rule exI [of _ g], simp)

lemma only_links_steps:
  fixes s :: "'a q_state_scheme"
  shows "only_links q s (upd_q (\<lambda>x. x\<lparr>q_first := g\<rparr>) q s)" "only_links q s (upd_q (\<lambda>x. x\<lparr>q_last := g\<rparr>) q s)"
    "only_links q s (upd_mb (\<lambda>m. m\<lparr>b_next := g, b_prev := h\<rparr>) p s)" "only_links q s (upd_mb (\<lambda>m. m\<lparr>b_next := g\<rparr>) p s)"
    "only_links q s (upd_mb (\<lambda>m. m\<lparr>b_prev := g\<rparr>) p s)"
  by (cases "squeues s q"; auto simp: only_links_def body_def fun_eq_iff option.map_comp o_def intro: ends)+

lemma only_links_trans: "only_links q s s1 \<Longrightarrow> only_links q s1 s2 \<Longrightarrow> only_links q s s2"
proof -
  assume a: "only_links q s s1" "only_links q s1 s2"
  obtain f l f' l' where "squeues s1 q = map_option (\<lambda>x. x\<lparr>q_first := f, q_last := l\<rparr>) (squeues s q)"
    "squeues s2 q = map_option (\<lambda>x. x\<lparr>q_first := f', q_last := l'\<rparr>) (squeues s1 q)"
    using a unfolding only_links_def by blast
  then have "squeues s2 q = map_option (\<lambda>x. x\<lparr>q_first := f', q_last := l'\<rparr>) (squeues s q)" by (cases "squeues s q") auto
  then show ?thesis using a unfolding only_links_def by auto
qed

lemma link_between_inserts:
  fixes s :: "'a q_state_scheme"
  assumes ql: "qlist s q (xs @ ys)" and mp: "mblks s mp = Some m" "mp \<noteq> 0" "mp \<notin> set (xs @ ys)"
  defines "prv \<equiv> (if xs = [] then 0 else last xs)" and "nxt \<equiv> (if ys = [] then 0 else hd ys)"
  shows "\<exists>s'. link_between q prv nxt mp s = Some s' \<and> qlist s' q (xs @ mp # ys) \<and> only_links q s s'"
proof -
  obtain x where x: "squeues s q = Some x" and seg: "dseg s 0 (q_first x) (xs @ ys) (q_last x) 0" and d: "distinct (xs @ ys)"
    using ql by (auto simp: qlist_def)
  then obtain a b where a: "dseg s 0 (q_first x) xs a b" "dseg s a b ys (q_last x) 0" by (auto simp: dseg_append)
  have ab: "a = prv" "b = nxt" using dseg_last [OF a(1)] dseg_first [OF a(2)] by (simp_all add: prv_def nxt_def)
  let ?s1 = "upd_mb (\<lambda>m. m\<lparr>b_next := nxt, b_prev := prv\<rparr>) mp s"
  have o: "dseg ?s1 u v zs w e = dseg s u v zs w e" if "mp \<notin> set zs" for u v zs w e by (rule dseg_cong) (use that in auto)
  have s1: "dseg ?s1 0 (q_first x) xs prv nxt" "dseg ?s1 prv nxt ys (q_last x) 0" using a ab mp(3) o by auto
  have "\<exists>s2. set_next q prv mp ?s1 = Some s2 \<and> (\<exists>y. squeues s2 q = Some y \<and> q_last y = q_last x \<and> dseg s2 0 (q_first y) xs prv mp) \<and>
      dseg s2 prv nxt ys (q_last x) 0 \<and> mblks s2 mp = Some (m\<lparr>b_next := nxt, b_prev := prv\<rparr>) \<and> only_links q s s2"
  proof (cases "xs = []")
    case True
    have "dseg (upd_q (\<lambda>x. x\<lparr>q_first := mp\<rparr>) q ?s1) prv nxt ys (q_last x) 0 = dseg ?s1 prv nxt ys (q_last x) 0"
      by (rule dseg_cong) auto
    then show ?thesis using True x mp(1) s1 only_links_trans [OF only_links_steps(3) only_links_steps(1)]
      by (auto simp: set_next_def prv_def)
  next
    case False
    let ?s2 = "upd_mb (\<lambda>m. m\<lparr>b_next := mp\<rparr>) (last xs) ?s1"
    have l: "last xs \<in> set xs" "last xs \<noteq> 0" using False dseg_nonzero [OF a(1)] last_in_set by metis+
    have "last xs \<noteq> mp" using l(1) mp(3) by auto
    obtain k where k: "mblks s (last xs) = Some k" using dseg_mblk [OF a(1) l(1)] by blast
    have "dseg ?s2 0 (q_first x) xs prv mp" using dseg_set_next [OF s1(1) False, of mp] d by simp
    moreover have "dseg ?s2 prv nxt ys (q_last x) 0 = dseg ?s1 prv nxt ys (q_last x) 0"
      by (rule dseg_cong) (use l d in auto)
    ultimately show ?thesis using False x mp(1) s1 l k \<open>last xs \<noteq> mp\<close> only_links_trans [OF only_links_steps(3) only_links_steps(4)]
      by (auto simp: set_next_def prv_def)
  qed
  then obtain s2 y where s2: "set_next q prv mp ?s1 = Some s2" "squeues s2 q = Some y" "q_last y = q_last x" "dseg s2 0 (q_first y) xs prv mp"
    "dseg s2 prv nxt ys (q_last x) 0" "mblks s2 mp = Some (m\<lparr>b_next := nxt, b_prev := prv\<rparr>)" "only_links q s s2" by blast
  have "\<exists>s3. set_prev q nxt mp s2 = Some s3 \<and> (\<exists>z. squeues s3 q = Some z \<and> q_first z = q_first y \<and> dseg s3 mp nxt ys (q_last z) 0) \<and>
      dseg s3 0 (q_first y) xs prv mp \<and> mblks s3 mp = Some (m\<lparr>b_next := nxt, b_prev := prv\<rparr>) \<and> only_links q s s3"
  proof (cases ys)
    case Nil
    have "dseg (upd_q (\<lambda>x. x\<lparr>q_last := mp\<rparr>) q s2) 0 (q_first y) xs prv mp = dseg s2 0 (q_first y) xs prv mp"
      by (rule dseg_cong) auto
    then show ?thesis using Nil s2 x only_links_trans [OF s2(7) only_links_steps(2)]
      by (auto simp: set_prev_def nxt_def)
  next
    case (Cons n ns)
    let ?s3 = "upd_mb (\<lambda>m. m\<lparr>b_prev := mp\<rparr>) n s2"
    have n: "nxt = n" "n \<noteq> 0" "n \<noteq> mp" using Cons dseg_nonzero [OF a(2)] mp(3) by (auto simp: nxt_def)
    obtain k where k: "mblks s2 n = Some k" using dseg_mblk [OF s2(5), of n] Cons by auto
    have "dseg ?s3 mp nxt ys (q_last x) 0" using dseg_set_prev [of s2 prv nxt n ns "q_last x" 0 mp] s2(5) Cons d by simp
    moreover have "dseg ?s3 0 (q_first y) xs prv mp = dseg s2 0 (q_first y) xs prv mp" by (rule dseg_cong) (use d Cons in auto)
    ultimately show ?thesis using n k s2 only_links_trans [OF s2(7) only_links_steps(5)] by (auto simp: set_prev_def)
  qed
  then obtain s3 z where s3: "set_prev q nxt mp s2 = Some s3" "squeues s3 q = Some z" "q_first z = q_first y" "dseg s3 mp nxt ys (q_last z) 0"
    "dseg s3 0 (q_first y) xs prv mp" "mblks s3 mp = Some (m\<lparr>b_next := nxt, b_prev := prv\<rparr>)" "only_links q s s3" by blast
  have "link_between q prv nxt mp s = Some s3" using mp(1) s2(1) s3(1) by (simp add: link_between_def)
  moreover have "qlist s3 q (xs @ mp # ys)" using s3 mp d by (auto simp: qlist_def dseg_append)
  ultimately show ?thesis using s3(7) by blast
qed

section \<open>Messages on a queue\<close>

lemma mblks_body: "body s' = body s \<Longrightarrow> mblks s p = Some m \<Longrightarrow> \<exists>n v. mblks s' p = Some (m\<lparr>b_next := n, b_prev := v\<rparr>)"
proof -
  assume "body s' = body s" "mblks s p = Some m"
  then have "body s' p = Some (m\<lparr>b_next := 0, b_prev := 0\<rparr>)" by (simp add: body_def)
  then obtain m' where m': "mblks s' p = Some m'" "m'\<lparr>b_next := 0, b_prev := 0\<rparr> = m\<lparr>b_next := 0, b_prev := 0\<rparr>" by (auto simp: body_def)
  then have "m\<lparr>b_next := b_next m', b_prev := b_prev m'\<rparr> = m'" by (cases m; cases m') simp
  then show ?thesis using m'(1) by metis
qed

lemma message_body: "body s' = body s \<Longrightarrow> message s mp bs \<Longrightarrow> message s' mp bs \<and> (\<forall>p\<in>set bs. block_size s' p = block_size s p)"
proof (induction bs arbitrary: mp)
  case (Cons p bs)
  obtain m where m: "mp = p" "p \<noteq> 0" "mblks s p = Some m" "message s (b_cont m) bs" using Cons.prems(2) by auto
  obtain n v where "mblks s' p = Some (m\<lparr>b_next := n, b_prev := v\<rparr>)" using mblks_body [OF Cons.prems(1) m(3)] by blast
  then show ?case using Cons.IH [OF Cons.prems(1) m(4)] m by (simp add: block_size_def blklen_def)
qed simp

lemma size_message: "message s mp bs \<Longrightarrow> bs \<noteq> [] \<Longrightarrow> size_loop mp acc s = Some (acc + (\<Sum>p\<leftarrow>bs. block_size s p))"
proof (induction bs arbitrary: mp acc)
  case (Cons p bs)
  obtain m where m: "mp = p" "mblks s p = Some m" "message s (b_cont m) bs" using Cons.prems(1) by auto
  show ?case
  proof (cases bs)
    case Nil
    then show ?thesis using m by (subst size_loop.simps) (simp add: block_size_def)
  next
    case (Cons b bs')
    then have "b_cont m \<noteq> 0" using m(3) by auto
    moreover have "block_size s p = blklen m" using m(2) by (simp add: block_size_def)
    ultimately show ?thesis using Cons.IH [OF m(3)] m Cons by (subst size_loop.simps) simp
  qed
qed simp

text \<open>A message of band 0, its kind and its size.\<close>

definition qmsg :: "'a strmem_scheme \<Rightarrow> nat \<Rightarrow> bool \<Rightarrow> int \<Rightarrow> bool" where
  "qmsg s mp pr sz \<longleftrightarrow> (\<exists>bs. message s mp bs \<and> bs \<noteq> [] \<and> sz = (\<Sum>p\<leftarrow>bs. block_size s p)) \<and> 0 \<le> sz \<and> IS_PRI_MSG mp s = Some pr \<and>
     (\<exists>m. mblks s mp = Some m \<and> b_band m = 0)"

lemma qmsg_simps:
  assumes "qmsg s mp pr sz"
  shows "MSG_SIZE mp s = Some sz" "IS_PRI_MSG mp s = Some pr" "mp \<noteq> 0" "0 \<le> sz" "\<exists>m. mblks s mp = Some m \<and> b_band m = 0"
proof -
  obtain bs where bs: "message s mp bs" "bs \<noteq> []" "sz = (\<Sum>p\<leftarrow>bs. block_size s p)" using assms by (auto simp: qmsg_def)
  show "MSG_SIZE mp s = Some sz" using size_message [OF bs(1,2)] bs(3) by (simp add: MSG_SIZE_def)
  show "mp \<noteq> 0" using bs(1,2) by (cases bs) auto
qed (use assms in \<open>auto simp: qmsg_def\<close>)

lemma qmsg_body:
  assumes "body s' = body s" "dblks s' = dblks s" "qmsg s mp pr sz"
  shows "qmsg s' mp pr sz"
proof -
  obtain bs where bs: "message s mp bs" "bs \<noteq> []" "sz = (\<Sum>p\<leftarrow>bs. block_size s p)" using assms(3) by (auto simp: qmsg_def)
  obtain m where m: "mblks s mp = Some m" "b_band m = 0" using assms(3) by (auto simp: qmsg_def)
  obtain n v where n: "mblks s' mp = Some (m\<lparr>b_next := n, b_prev := v\<rparr>)" using mblks_body [OF assms(1) m(1)] by blast
  have "(\<Sum>p\<leftarrow>bs. block_size s' p) = (\<Sum>p\<leftarrow>bs. block_size s p)"
    using message_body [OF assms(1) bs(1)] by (intro arg_cong [where f = sum_list] map_cong) auto
  moreover have "IS_PRI_MSG mp s' = IS_PRI_MSG mp s" using m n assms(2) by (simp add: IS_PRI_MSG_def)
  ultimately show ?thesis using assms(3) bs message_body [OF assms(1) bs(1)] m n by (auto simp: qmsg_def)
qed

section \<open>Queues\<close>

text \<open>Address, kind and size of the messages of a queue; the bytes that count for flow control.\<close>

type_synonym entry = "nat \<times> bool \<times> int"

definition prior :: "entry \<Rightarrow> bool" where
  "prior e = fst (snd e)"

definition bytes_of :: "entry list \<Rightarrow> int" where
  "bytes_of ms = (\<Sum>e\<leftarrow>ms. if prior e then 0 else snd (snd e))"

text \<open>Priority messages go behind the other priority messages, others to the end.\<close>

definition enq :: "entry \<Rightarrow> entry list \<Rightarrow> entry list" where
  "enq e ms = (if prior e then takeWhile prior ms @ e # dropWhile prior ms else ms @ [e])"

text \<open>
  The flags of flow control, for \<open>n\<close> bytes: above the high mark the queue is full, a full queue is above the low mark, and
  whoever waits to write waits for a full queue.
\<close>

definition flow_ok :: "squeue \<Rightarrow> int \<Rightarrow> bool" where
  "flow_ok x n \<longleftrightarrow> q_count x = n \<and> 0 \<le> n \<and> n < 4294967296 \<and> (q_hiwat x < n \<longrightarrow> has (q_flag x) QFULL) \<and>
     (has (q_flag x) QFULL \<longrightarrow> q_lowat x < n) \<and> (has (q_flag x) QWANTW \<longrightarrow> has (q_flag x) QFULL) \<and>
     \<not> has (q_flag x) QBACK \<and> \<not> has (q_flag x) QDRAIN \<and> q_lowat x \<le> q_hiwat x"

definition sched_ok :: "'a q_state_scheme \<Rightarrow> bool" where
  "sched_ok s \<longleftrightarrow> ss_tail s = 0 \<or> squeues s (ss_tail s) \<noteq> None"

definition msgs_ok :: "'a q_state_scheme \<Rightarrow> nat \<Rightarrow> entry list \<Rightarrow> bool" where
  "msgs_ok s q ms \<longleftrightarrow> qlist s q (map fst ms) \<and> (\<forall>(p, pr, sz)\<in>set ms. qmsg s p pr sz)"

definition queue_ok :: "'a q_state_scheme \<Rightarrow> nat \<Rightarrow> entry list \<Rightarrow> bool" where
  "queue_ok s q ms \<longleftrightarrow> msgs_ok s q ms \<and> sorted_wrt (\<lambda>a b. prior b \<longrightarrow> prior a) ms \<and> sched_ok s \<and>
     (\<exists>x. squeues s q = Some x \<and> \<not> q_locked x \<and> flow_ok x (bytes_of ms))"

text \<open>\<open>like x y\<close>: the queue has been scheduled at most.\<close>

definition like :: "squeue \<Rightarrow> squeue \<Rightarrow> bool" where
  "like x y \<longleftrightarrow> y\<lparr>q_link := 0, q_flag := 0\<rparr> = x\<lparr>q_link := 0, q_flag := 0\<rparr> \<and>
     (\<forall>f\<in>{2, 4, 8, 16, 32, 64, 256, 512, 1024}. has (q_flag y) f = has (q_flag x) f) \<and>
     (has (q_flag x) QENAB \<longrightarrow> has (q_flag y) QENAB)"

lemma like_refl: "like x x"
  by (simp add: like_def)

lemma like_trans: "like x y \<Longrightarrow> like y z \<Longrightarrow> like x z"
  by (simp add: like_def)

lemma like_simps:
  assumes "like x y"
  shows "qi_srvp y = qi_srvp x" "q_first y = q_first x" "q_last y = q_last x" "q_next y = q_next x" "q_count y = q_count x" "q_hiwat y = q_hiwat x"
    "q_lowat y = q_lowat x" "q_bandp y = q_bandp x" "q_lastband y = q_lastband x" "q_locked y = q_locked x" "q_active y = q_active x"
proof -
  have "y\<lparr>q_link := 0, q_flag := 0\<rparr> = x\<lparr>q_link := 0, q_flag := 0\<rparr>" using assms unfolding like_def by blast
  then show "qi_srvp y = qi_srvp x" "q_first y = q_first x" "q_last y = q_last x" "q_next y = q_next x" "q_count y = q_count x" "q_hiwat y = q_hiwat x"
    "q_lowat y = q_lowat x" "q_bandp y = q_bandp x" "q_lastband y = q_lastband x" "q_locked y = q_locked x" "q_active y = q_active x"
    by (cases x, cases y, simp)+
qed

lemma like_flags:
  assumes "like x y"
  shows "f \<in> {2, 4, 8, 16, 32, 64, 256, 512, 1024} \<Longrightarrow> has (q_flag y) f = has (q_flag x) f" "has (q_flag x) QENAB \<Longrightarrow> has (q_flag y) QENAB"
  using assms unfolding like_def by blast+

text \<open>What a call that enables a queue does.\<close>

lemma trysched:
  fixes s :: "'a q_state_scheme"
  assumes x: "squeues s q = Some x" and ok: "sched_ok s" and q: "q \<noteq> 0"
  shows "\<exists>s'. QUEUE_TRYSCHED q s = Some (qi_srvp x \<and> \<not> has (q_flag x) QPROCSOFF, s') \<and> mblks s' = mblks s \<and> dblks s' = dblks s \<and>
    qbands s' = qbands s \<and> sched_ok s' \<and> rel_fun (=) (rel_option like) (squeues s) (squeues s') \<and>
    (qi_srvp x \<and> \<not> has (q_flag x) QPROCSOFF \<longrightarrow> (\<exists>y. squeues s' q = Some y \<and> has (q_flag y) QENAB))"
proof -
  have same: "rel_fun (=) (rel_option like) (squeues s) (squeues s)" using option.rel_refl [of like] like_refl by (simp add: rel_fun_def)
  show ?thesis
  proof (cases "\<not> qi_srvp x \<or> has (q_flag x) QPROCSOFF \<or> has (q_flag x) QENAB")
    case True
    then show ?thesis using x ok same by (auto simp: QUEUE_TRYSCHED_def)
  next
    case False
    define s1 where "s1 = upd_q (\<lambda>x. x\<lparr>q_link := 0\<rparr>) q s"
    define s2 where "s2 = (if ss_tail s1 = 0 then s1\<lparr>ss_head := q\<rparr> else upd_q (\<lambda>x. x\<lparr>q_link := q\<rparr>) (ss_tail s1) s1)"
    define s3 where "s3 = (set_flag QENAB q (s2\<lparr>ss_tail := q\<rparr>))\<lparr>run_strsched := True\<rparr>"
    have "QSCHED_SCHEDULE q s = Some (s2\<lparr>ss_tail := q\<rparr>)"
      using x ok by (auto simp: QSCHED_SCHEDULE_def s1_def [symmetric] s2_def Let_def sched_ok_def) (auto simp: s1_def split: if_splits)
    then have "QUEUE_TRYSCHED q s = Some (True, s3)" using x False by (simp add: QUEUE_TRYSCHED_def s3_def)
    moreover have link: "like y (y\<lparr>q_link := l\<rparr>)" for y l
      by (simp add: like_def)
    have flag: "like y (y\<lparr>q_link := l, q_flag := q_flag y OR 1\<rparr>)" for y l
      by (simp add: like_def has_set)
    have "rel_option like (squeues s r) (squeues s3 r)" for r
      using link flag x q by (cases "squeues s r") (auto simp: s3_def s2_def s1_def set_flag_def like_refl)
    then have "rel_fun (=) (rel_option like) (squeues s) (squeues s3)" by (simp add: rel_fun_def)
    moreover have "mblks s3 = mblks s" "dblks s3 = dblks s" "qbands s3 = qbands s"
      by (simp_all add: s3_def s2_def s1_def set_flag_def)
    moreover have "sched_ok s3" "\<exists>y. squeues s3 q = Some y \<and> has (q_flag y) QENAB"
      using x by (auto simp: s3_def s2_def s1_def set_flag_def sched_ok_def has_set)
    ultimately show ?thesis using False by auto
  qed
qed

end
