(* ===== verification/Stream_Queue_Properties.thy ===== *)
theory Stream_Queue_Properties
  imports Stream_Queue_Laws
begin

text \<open>
  The operations on a queue of STREAMS whose messages are all of band 0 are those of a list with the priority messages
  in front, with the flags of flow control; and what happens with bands, at the end of a stream, and when a message
  is put back.
\<close>

section \<open>Lists of messages\<close>


lemma set_enq: "set (enq e ms) = insert e (set ms)"
proof -
  have "set (takeWhile prior ms) \<union> set (dropWhile prior ms) = set ms" using set_append takeWhile_dropWhile_id by metis
  then show ?thesis by (auto simp: enq_def)
qed



section \<open>Steps of the operations\<close>

lemma qlist_ends:
  assumes "qlist s q ps" "squeues s q = Some x"
  shows "q_first x = (if ps = [] then 0 else hd ps)" "q_last x = (if ps = [] then 0 else last ps)"
  using assms dseg_first [of s 0 "q_first x" ps "q_last x" 0] dseg_last [of s 0 "q_first x" ps "q_last x" 0] by (auto simp: qlist_def)




lemma sched_ok_upd [simp]: "sched_ok (upd_q f q s) = sched_ok s"
  by (auto simp: sched_ok_def)





lemma msgs_ok_enq:
  assumes "msgs_ok s q ms" "qmsg s mp pr sz" "body s' = body s" "dblks s' = dblks s" "qlist s' q (map fst (enq (mp, pr, sz) ms))"
  shows "msgs_ok s' q (enq (mp, pr, sz) ms)"
  using assms qmsg_body [OF assms(3,4)] unfolding msgs_ok_def by (auto simp: set_enq)


lemma freeze:
  assumes "squeues s q = Some x"
  shows "\<not> q_locked x \<Longrightarrow> QFREEZE_TRACE q s = Some (upd_q (\<lambda>x. x\<lparr>q_locked := True\<rparr>) q s)"
    "q_locked x \<Longrightarrow> QFREEZE_TRACE q s = None" "QUNFREEZE_TRACE q s = Some (upd_q (\<lambda>x. x\<lparr>q_locked := False\<rparr>) q s)"
  using assms by (simp_all add: QFREEZE_TRACE_def QUNFREEZE_TRACE_def)




section \<open>Properties\<close>


section \<open>Enabling the queue behind\<close>




section \<open>Taking a message\<close>





section \<open>Putting back\<close>


section \<open>Bands\<close>

lemma new_bands_at:
  assumes "0 < n" "a \<noteq> 0"
  shows "\<exists>y. new_bands a n (a + 32 * (n - 1)) = Some y \<and> qb_hiwat y = 0 \<and> qb_count y = 0 \<and> \<not> has (qb_flag y) QB_FULL" "new_bands a n 0 = None"
proof -
  let ?y = "\<lambda>i. \<lparr>qb_next = (if Suc i < n then a + 32 * Suc i else 0), qb_count = 0, qb_first = 0, qb_last = 0, qb_hiwat = 0, qb_lowat = 0,
      qb_flag = (if i = 0 then 256 else 0)\<rparr>"
  have "distinct (map fst (map (\<lambda>i. (a + 32 * i, ?y i)) [0..<n]))" by (auto simp: distinct_map inj_on_def)
  moreover have "(a + 32 * (n - 1), ?y (n - 1)) \<in> set (map (\<lambda>i. (a + 32 * i, ?y i)) [0..<n])" using assms(1) by auto
  ultimately have "new_bands a n (a + 32 * (n - 1)) = Some (?y (n - 1))" unfolding new_bands_def by (rule map_of_is_SomeI)
  then show "\<exists>y. new_bands a n (a + 32 * (n - 1)) = Some y \<and> qb_hiwat y = 0 \<and> qb_count y = 0 \<and> \<not> has (qb_flag y) QB_FULL" by (simp add: has_def)
  show "new_bands a n 0 = None" using assms(2) by (auto simp: new_bands_def map_of_eq_None_iff)
qed

text \<open>
  C40. Messages in bands. No operation enters a new band into its queue, so the first message of a band finds none. If there is
  memory for the band, \<open>putq\<close> fills it, as its high mark is 0, and follows the empty list of the bands of the queue from NULL.
  If there is none, \<open>putq\<close> returns 0 with the queue frozen, and no call on this queue returns from then on.
\<close>

theorem banded_message_stops_queue:
  fixes s :: "'a q_state_scheme"
  assumes x: "squeues s q = Some x" "\<not> q_locked x" "q_bandp x = 0" "q_nband x = 0" and q: "q \<noteq> 0" and sched: "sched_ok s"
    and m: "mblks s mp = Some m" "0 < b_band m" "b_band m < 256" and pri: "IS_PRI_MSG mp s = Some False" and null: "qbands s 0 = None"
    and km: "km_answers s = a # as" and size: "message s mp bs" "bs \<noteq> []"
  shows "if a = 0 then \<exists>s'. putq q mp s = Some (0, s') \<and> getq q s' = None \<and> canput q s' = None \<and> (\<forall>mp'. putq q mp' s' = None)
    else putq q mp s = None"
proof -
  define s1 where "s1 = upd_q (\<lambda>x. x\<lparr>q_locked := True\<rparr>) q s"
  define k where "k = nat (b_band m)"
  have fr: "QFREEZE_TRACE q s = Some s1" using freeze(1) [OF x(1,2)] by (simp add: s1_def)
  have s1: "squeues s1 q = Some (x\<lparr>q_locked := True\<rparr>)" "mblks s1 mp = Some m" "IS_PRI_MSG mp s1 = Some False" "sched_ok s1" "km_answers s1 = a # as"
    "qbands s1 = qbands s" using x m pri sched km by (simp_all add: s1_def IS_PRI_MSG_def)
  have band: "band_for q (b_band m) s1 = QBAND_ALLOC q (b_band m) s1" using s1(1) x(3) m(2) by (simp add: band_for_def QUEUE_BAND_def)
  show ?thesis
  proof (cases "a = 0")
    case True
    define s2 where "s2 = s1\<lparr>km_answers := as\<rparr>"
    have "putq q mp s = Some (0, s2)" using fr s1 band True m(2) by (simp add: putq_def QBAND_ALLOC_def s2_def)
    moreover have "QFREEZE_TRACE q s2 = None" using s1(1) by (simp add: QFREEZE_TRACE_def s2_def)
    ultimately show ?thesis using True by (auto simp: getq_def canput_def putq_def)
  next
    case False
    define b where "b = a + 32 * (k - 1)"
    define s2 where "s2 = s1\<lparr>km_answers := as, qbands := qbands s1 ++ new_bands a k\<rparr>"
    obtain y where y: "new_bands a k b = Some y" "qb_hiwat y = 0" "qb_count y = 0" "\<not> has (qb_flag y) QB_FULL"
      using new_bands_at(1) [of k a] False m(2) by (auto simp: b_def k_def)
    have b0: "b \<noteq> 0" using False by (simp add: b_def)
    have alloc: "band_for q (b_band m) s1 = Some (b, s2)"
      using s1 band False x(4) m(2) by (simp add: QBAND_ALLOC_def s2_def b_def k_def Let_def)
    have inc: "QBAND_INCREASE q b sz t = None" if "qbands t = qbands s2" "squeues t q = Some z" "q_bandp z = 0" for t :: "'a q_state_scheme" and sz z
    proof -
      let ?t = "upd_qb (\<lambda>y. y\<lparr>qb_count := size_t (qb_count y + sz)\<rparr>) b t"
      have "qbands t b = Some y" "qbands t 0 = None" using that(1) y(1) null s1(6) new_bands_at(2) [of k a] False m(2)
        by (simp_all add: s2_def map_add_None k_def)
      then have "fill_bands q b ?t = None"
        using that(2,3) b0 by (subst fill_bands.simps) (simp add: QBAND_PREV_def upd_qb_def prev_band.simps)
      moreover have "\<not> size_t (qb_count y + sz) < qb_hiwat y" using y(2) by (simp add: size_t_def not_less)
      ultimately show ?thesis using \<open>qbands t b = Some y\<close> y(4) by (simp add: QBAND_INCREASE_def Let_def)
    qed
    have x2: "squeues s2 q = Some (x\<lparr>q_locked := True\<rparr>)" "mblks s2 mp = Some m" "sched_ok s2"
      using s1 by (simp_all add: s2_def sched_ok_def)
    have "QUEUE_CHECK_SCHED q mp b s2 = None"
    proof -
      let ?s = "upd_q (\<lambda>x. x\<lparr>q_lastband := b_band m\<rparr>) q s2"
      have u: "squeues ?s q = Some (x\<lparr>q_locked := True, q_lastband := b_band m\<rparr>)" "sched_ok ?s" using x2 by simp_all
      obtain s3 where s3: "QUEUE_TRYSCHED q ?s = Some (qi_srvp x \<and> \<not> has (q_flag x) QPROCSOFF, s3)" "qbands s3 = qbands s2"
        "rel_fun (=) (rel_option like) (squeues ?s) (squeues s3)" using trysched [OF u q] by auto
      have "rel_option like (squeues ?s q) (squeues s3 q)" using rel_funD [OF s3(3), of q q] by simp
      then obtain z where z: "squeues s3 q = Some z" "q_bandp z = 0" using u(1) x(3) like_simps(8) by (auto simp: option_rel_Some1)
      have n: "QBAND_INCREASE q b n s3 = None" "QBAND_INCREASE q b n s2 = None" for n
        using inc [OF s3(2) z] inc [OF refl x2(1)] x(3) by simp_all
      show ?thesis using x2 m(2) s3(1) n by (simp add: QUEUE_CHECK_SCHED_def Let_def split: Option.bind_splits)
    qed
    then show ?thesis using False fr s1(2,3) alloc b0 by (simp add: putq_def)
  qed
qed

text \<open>Options without a water mark leave the queue frozen.\<close>

lemma setopt_leaves_frozen:
  assumes "squeues s q = Some x" "\<not> q_locked x" "so_flags so AND (SO_LOWAT OR SO_HIWAT) = 0"
  shows "\<exists>s'. QBAND_SETOPT q so s = Some s' \<and> QFREEZE_TRACE q s' = None"
  using freeze(1) [OF assms(1,2)] assms by (simp add: QBAND_SETOPT_def QFREEZE_TRACE_def)

text \<open>An empty queue remembers that its reader waits.\<close>

lemma getq_empty:
  fixes s :: "'a q_state_scheme"
  assumes ok: "queue_ok s q []" and x: "squeues s q = Some x"
  shows "\<exists>s' y. getq q s = Some (0, s') \<and> queue_ok s' q [] \<and> squeues s' q = Some y \<and> has (q_flag y) QWANTR"
proof -
  have x0: "\<not> q_locked x" "q_first x = 0" "\<not> has (q_flag x) QBACK" using ok x qlist_ends(1) [OF _ x, of "[]"] by (auto simp: queue_ok_def msgs_ok_def flow_ok_def)
  let ?s = "upd_q (\<lambda>x. x\<lparr>q_locked := False\<rparr>) q (set_flag QWANTR q (upd_q (\<lambda>x. x\<lparr>q_locked := True\<rparr>) q s))"
  have g: "getq q s = Some (0, ?s)"
    using freeze(1) [OF x x0(1)] x x0 by (simp add: getq_def unfreeze_back_def QUNFREEZE_TRACE_def set_flag_def has_set)
  moreover have "qlist ?s q []" using ok x by (auto simp: queue_ok_def msgs_ok_def qlist_def set_flag_def)
  then have "queue_ok ?s q []" using ok x by (auto simp: queue_ok_def msgs_ok_def flow_ok_def set_flag_def has_set)
  ultimately show ?thesis using x by (simp add: set_flag_def has_set)
qed

section \<open>An example\<close>

text \<open>
  A stream of two pairs of queues, at 1000 and 1068 and, above them, at 2000 and 2068. The queue at 1068 is full with a message
  of five bytes, and the queue above waits to write to it. The message at 700 is of band 1.
\<close>

definition demo_queue :: "nat \<Rightarrow> nat \<Rightarrow> int \<Rightarrow> int \<Rightarrow> squeue" where
  "demo_queue mp n bytes fl = \<lparr>qi_srvp = True, q_first = mp, q_last = mp, q_next = n, q_link = 0, q_count = bytes, q_flag = fl, q_hiwat = 3, q_lowat = 1,
     q_bandp = 0, q_nband = 0, q_active = 0, q_lastband = 0, q_locked = False\<rparr>"

definition demo_str :: q_state where
  "demo_str = \<lparr>u_error = E_NONE,
     mblks = (mblks demo_mem)(700 \<mapsto>
       \<lparr>b_next = 0, b_prev = 0, b_cont = 0, b_rptr = 57, b_wptr = 59, b_datap = 36, b_band = 1, b_flag = 0\<rparr>),
     dblks = dblks demo_mem, st_answers = [], sm_used = 141, sm_max = [1000, 1000, 1000], free_calls = [],
     squeues = [1000 \<mapsto> demo_queue 0 2000 0 18, 1068 \<mapsto> demo_queue 4 0 5 14, 2000 \<mapsto> demo_queue 0 0 0 18, 2068 \<mapsto> demo_queue 0 1068 0 2],
     qbands = Map.empty, km_answers = [900], ss_head = 0, ss_tail = 0, run_strsched = False, str_woken = 0\<rparr>"


lemma demo_messages: "qmsg demo_str 4 False 5" "qmsg demo_str 300 False 2" "message demo_str 700 [700]"
proof -
  have "message demo_str 4 [4, 200]" "message demo_str 300 [300]" by (simp_all add: demo_str_def demo_mem_def)
  moreover have "IS_PRI_MSG 4 demo_str = Some False" "IS_PRI_MSG 300 demo_str = Some False"
    by (simp_all add: demo_str_def demo_mem_def IS_PRI_MSG_def pcmsg_def)
  moreover have "block_size demo_str 4 = 3" "block_size demo_str 200 = 2" "block_size demo_str 300 = 2"
    "\<exists>m. mblks demo_str 4 = Some m \<and> b_band m = 0" "\<exists>m. mblks demo_str 300 = Some m \<and> b_band m = 0"
    by (simp_all add: demo_str_def demo_mem_def block_size_def blklen_def)
  moreover have "5 = sum_list (map (block_size demo_str) [4, 200])" "2 = sum_list (map (block_size demo_str) [300])"
    using calculation by simp_all
  ultimately show "qmsg demo_str 4 False 5" "qmsg demo_str 300 False 2" unfolding qmsg_def by (metis list.distinct(1) zero_le_numeral)+
  show "message demo_str 700 [700]" by (simp add: demo_str_def)
qed

lemma demo_queue_at: "squeues demo_str 1068 = Some (demo_queue 4 0 5 14)" "squeues demo_str 1000 = Some (demo_queue 0 2000 0 18)"
  by (simp_all add: demo_str_def)






lemma banded_message_stops_queue_witness: "putq 1000 700 demo_str = None"
proof -
  obtain m where m: "mblks demo_str 700 = Some m" "0 < b_band m" "b_band m < 256" by (simp add: demo_str_def)
  have "IS_PRI_MSG 700 demo_str = Some False" by (simp add: demo_str_def demo_mem_def IS_PRI_MSG_def pcmsg_def)
  moreover have "\<not> q_locked (demo_queue 0 2000 0 18)" "q_bandp (demo_queue 0 2000 0 18) = 0" "q_nband (demo_queue 0 2000 0 18) = 0"
    "sched_ok demo_str" "qbands demo_str 0 = None" "km_answers demo_str = [900]"
    by (simp_all add: demo_queue_def demo_str_def sched_ok_def)
  ultimately show ?thesis
    using banded_message_stops_queue [OF demo_queue_at(2) _ _ _ _ _ m _ _ _ demo_messages(3), of 900 "[]"] by simp
qed

end
