(* ===== verification/Spec2Isabelle.thy ===== *)
theory Spec2Isabelle
  imports Record_Lock_Properties File_Descriptor_Laws Credential_Laws Semaphore_Properties Message_Properties
    Free_Space_Properties Pipe_Properties Timeout_Properties Inode_Disk Directory_Properties Stream_Queue_Properties
begin

text \<open>
  A model of the kernel of COHERENT for the 386, \<^verbatim>\<open>src/kernel\<close>, and what makes its core correct. The kernel is
  a monolithic Unix: system calls enter at \<^verbatim>\<open>coh.386/sys*.c\<close>, find a descriptor (\<^verbatim>\<open>fd.c\<close>), go through the
  inode behind it (\<^verbatim>\<open>fs3.c\<close>, \<^verbatim>\<open>fs1.c\<close>) to the blocks of a file system (\<^verbatim>\<open>fs2.c\<close>), a pipe (\<^verbatim>\<open>pipe.c\<close>) or a
  driver (\<^verbatim>\<open>bio.c\<close>), under the credentials of the process (\<^verbatim>\<open>lib/cred_*.c\<close>); record locks (\<^verbatim>\<open>rlock.c\<close>) hang
  off the inodes; System V semaphores and message queues are loadable drivers (\<^verbatim>\<open>conf/sem\<close>, \<^verbatim>\<open>conf/msg\<close>).

  \<^bold>\<open>Form of the model.\<close> The kernel runs one process at a time and switches only where a process sleeps, so an
  operation is a function from state to result and state. The states are records that extend each other in the
  order in which the components build on each other: \<open>ustate\<close> (the error of the call, \<^verbatim>\<open>u.u_error\<close>), \<open>cred_state\<close>,
  \<open>heap_state\<close>, \<open>rl_state\<close>, \<open>fd_state\<close> (descriptor tables and the file table), \<open>fs_state\<close> (mount table and disk),
  \<open>ino_state\<close> (the inode table), \<open>fio_state\<close>; \<open>sem_state\<close> and \<open>msg_state\<close> stand beside them. C structures are
  records with the members' names. Where a process sleeps, what others do meanwhile is an argument of the
  operation, or the operation ends in a state that says it sleeps. An operation that may not return (a gate
  or a buffer that stays locked, a panic, a loop that does not end) yields an option, and \<open>None\<close> is that case; so a
  claim that a call returns is a claim that it yields \<open>Some\<close>. Machine integers are ints, with \<open>wrap16\<close>, \<open>wrap32\<close>
  and \<open>uwrap16\<close> written where the code can leave the range; tagged descriptor pointers are words.

  \<^bold>\<open>Theories and sources.\<close>
  \<^item> \<open>Prelude\<close>: error numbers, arithmetic of shorts and longs. \<open>Id_Tables\<close>: the locale of a table of keyed objects
    with ids, interpreted on semaphores and message queues. \<open>Kernel_Memory\<close>: \<^verbatim>\<open>alloc.c\<close> as its callers see it.
  \<^item> \<open>Record_Locks\<close>, \<^verbatim>\<open>rlock.c\<close>: lock lists in order, splitting and merging, waiting with deadlock detection.
    \<open>Record_Lock_Laws\<close> reads a lock list as the set of bytes a process holds; \<open>Record_Lock_Deadlock\<close> decides the
    wait-for relation; \<open>Record_Lock_Properties\<close> has the claims.
  \<^item> \<open>Credentials\<close>, \<open>Credential_Laws\<close>: \<^verbatim>\<open>lib/cred_*.c\<close>, \<^verbatim>\<open>lib/ipc_*.c\<close>, \<^verbatim>\<open>misc.c\<close>; exact reference counts, copy on write.
  \<^item> \<open>Semaphores\<close>, \<open>Semaphore_Laws\<close>, \<open>Semaphore_Values\<close>, \<open>Semaphore_Properties\<close>: \<^verbatim>\<open>conf/sem/src/sem386.c\<close>; the values of a
    set as a list, which \<open>semop\<close> refines; undo, adjustments at exit.
  \<^item> \<open>Messages\<close>, \<open>Message_Laws\<close>, \<open>Message_Contents\<close>, \<open>Message_Properties\<close>: \<^verbatim>\<open>conf/msg/src/msg386.c\<close>; a queue as a list of
    typed messages.
  \<^item> \<open>File_Descriptors\<close>, \<open>File_Descriptor_Laws\<close>, \<open>File_Descriptor_Properties\<close>: \<^verbatim>\<open>fd.c\<close>; exact reference counts. What
    it needs of the inode layer is the locale \<open>inode_layer\<close>.
  \<^item> \<open>Blocks\<close>, \<open>Block_Laws\<close>: numbers on disk, the mount table, the buffer cache as contents of blocks.
    \<open>Free_Space\<close>, \<open>Free_Space_Laws\<close>, \<open>Free_Space_Invariant\<close>, \<open>Free_Space_Properties\<close>: \<^verbatim>\<open>fs2.c\<close>; the chained free list as a
    list of block numbers.
  \<^item> \<open>Inodes\<close>, \<open>Inode_Table\<close>, \<open>Inode_Disk\<close>: \<^verbatim>\<open>fs1.c\<close>; inodes in memory and on disk, the inode table, truncation.
  \<^item> \<open>File_IO\<close>: \<^verbatim>\<open>fs3.c\<close>, the contents of files. \<open>File_Tree\<close> reads the addresses of an inode as a tree of
    blocks, \<open>File_Reading\<close> and \<open>File_Writing\<close> show what \<open>fread\<close> and \<open>fwrite\<close> do to its bytes, \<open>File_Properties\<close> has the
    claims.
  \<^item> \<open>Pipes\<close>: \<^verbatim>\<open>pipe.c\<close>. \<open>Inode_Access\<close>: the upper half of \<^verbatim>\<open>fs3.c\<close>, the device switch of \<^verbatim>\<open>bio.c\<close>, \<^verbatim>\<open>null.c\<close>, and
    \<open>sysio\<close> of \<^verbatim>\<open>sys3.c\<close>. \<open>Inode_Laws\<close> shows that all of it leaves the descriptor tables alone, given drivers that do
    (the locale \<open>device_layer\<close>), and so provides \<open>inode_layer\<close>; its interpretation \<open>nulldev\<close> has the null device.

  \<^bold>\<open>Fuel.\<close> \<open>waiting\<close> of \<^verbatim>\<open>rlock.c\<close> gets the number of processes, which its claim shows to be enough; \<open>fread\<close>,
  \<open>fwrite\<close>, \<open>pread\<close> and \<open>pwrite\<close> get as many rounds as bytes were asked for, since each round moves one; \<open>vmap\<close> as many
  as blocks; \<open>fd_close\<close> takes its fuel as an argument and the claims hold for each value. \<open>iattach\<close> gets the number of
  mounted file systems to cross.

  \<^bold>\<open>Parameters.\<close> The table of drivers is an argument (\<open>driver_table\<close>), as are the answers of \<^verbatim>\<open>useracc\<close>, the bytes at
  user addresses, the contents of uninitialised stack and heap memory (\<open>junk\<close>), and the processes that run while one
  sleeps.

  \<^bold>\<open>Not modelled.\<close> Assembly, interrupts and the processor's memory management (\<^verbatim>\<open>i386\<close>), the scheduler and the
  process calls (\<^verbatim>\<open>proc.c\<close>, \<^verbatim>\<open>sys1.c\<close>, \<^verbatim>\<open>exec.c\<close>, \<^verbatim>\<open>seg.c\<close>, \<^verbatim>\<open>sig.c\<close>), which are about address spaces and contexts that
  exist only there; the drivers of \<^verbatim>\<open>conf\<close> and \<^verbatim>\<open>io.386\<close>, which are about device registers; STREAMS and the locks of
  \<^verbatim>\<open>ksynch.c\<close>; the buffer cache's chains and ageing, of which the model keeps what its callers rely on, that a
  block has the contents last written; path names and mounting; the boot loader. The list of components in the
  manifest names each with its reason. Gates that are held over an operation and always released are left out, as are
  messages to the console and counters for debugging.
\<close>

end
